(* ===== verification/Bffs_Prelude.thy ===== *)
theory Bffs_Prelude
  imports Main "HOL-Library.Word" "HOL-Library.Monad_Syntax" "HOL-Library.Multiset"
begin

unbundle bit_operations_syntax

text \<open>
  The names of the machine types, the total-correctness predicate \<open>wp\<close> for
  state-passing C functions, and the generic facts on lists, bits and words that the
  component theories share.

  A C function that works on the state of the file system is modelled as a HOL function
  that takes the state and returns \<open>Some (result, state')\<close>. The value \<open>None\<close> stands
  for undefined behaviour of the C program (a NULL pointer dereferenced) or for a loop that
  does not stop. A theorem of the form \<open>wp (f s) Q\<close> therefore says that the code returns
  and that \<open>Q\<close> holds of the result and the final state.
\<close>

section \<open>Machine types\<close>

type_synonym u8 = "8 word"
type_synonym u16 = "16 word"
type_synonym u32 = "32 word"
type_synonym bytes = "u8 list"

text \<open>Facts about the state after an operation that leaves a component alone.\<close>
named_theorems frame
text \<open>Facts about the bits of the allocation maps.\<close>
named_theorems bitmap

section \<open>Weakest preconditions\<close>

definition wp :: "('a \<times> 's) option \<Rightarrow> ('a \<Rightarrow> 's \<Rightarrow> bool) \<Rightarrow> bool" where
  "wp m Q \<longleftrightarrow> (case m of None \<Rightarrow> False | Some (r, s) \<Rightarrow> Q r s)"

lemma wp_Some [simp]: "wp (Some (r, s)) Q = Q r s"
  by (simp add: wp_def)

lemma wp_None [simp]: "\<not> wp None Q"
  by (simp add: wp_def)

lemma wp_bind [simp]:
  "wp (m \<bind> f) Q = wp m (\<lambda>r s. wp (f (r, s)) Q)"
  by (simp add: wp_def split: option.splits prod.splits)

lemma wp_if: "wp (if b then m else n) Q = (if b then wp m Q else wp n Q)"
  by simp

lemma wp_mono: "wp m P \<Longrightarrow> (\<And>r s. P r s \<Longrightarrow> Q r s) \<Longrightarrow> wp m Q"
  by (auto simp: wp_def split: option.splits)

lemma wp_conj: "wp m P \<Longrightarrow> wp m Q \<Longrightarrow> wp m (\<lambda>r s. P r s \<and> Q r s)"
  by (auto simp: wp_def split: option.splits)

lemma wp_ex: "wp m Q \<longleftrightarrow> (\<exists>r s. m = Some (r, s) \<and> Q r s)"
  by (auto simp: wp_def split: option.splits)

lemma wp_SomeD: "wp m Q \<Longrightarrow> m = Some (r, s) \<Longrightarrow> Q r s"
  by (simp add: wp_def)

section \<open>Lists\<close>

lemma last_default: "xs \<noteq> [] \<Longrightarrow> last (d # xs) = last xs"
  by simp

lemma length_filter_update:
  assumes "i < length xs"
  shows "length (filter P (xs[i := y])) + (if P (xs ! i) then 1 else 0) =
         length (filter P xs) + (if P y then 1 else 0)"
  using assms
proof (induction xs arbitrary: i)
  case Nil
  then show ?case by simp
next
  case (Cons x xs)
  then show ?case by (cases i) auto
qed

section \<open>Words\<close>

lemma unat_of_nat32: "i < 2 ^ 32 \<Longrightarrow> unat (of_nat i :: u32) = i"
  by (simp add: unat_of_nat)

lemma unat_push_bit: "unat (push_bit k x :: u32) = (unat x * 2 ^ k) mod 2 ^ 32"
  by (simp only: unsigned_push_bit_eq) (simp add: push_bit_eq_mult take_bit_eq_mod)

lemma unat_drop_bit: "unat (drop_bit k x :: u32) = unat x div 2 ^ k"
  by (simp only: unat_drop_bit_eq) (simp add: drop_bit_eq_div)

lemma split_scale: "(a::nat) = q * r + t \<Longrightarrow> a * k = q * (k * r) + t * k"
  by (simp add: algebra_simps)

section \<open>Bits of a byte array\<close>

text \<open>
  The macros \<open>bit_set\<close>, \<open>bit_clr\<close>, \<open>bit_val\<close> and \<open>bit_chk\<close> of fs/alloc.h: bit
  \<open>index & 7\<close> of byte \<open>index >> 3\<close>. A read beyond the array is unspecified, as it is
  undefined in C; every theorem that uses them stays inside the array.
\<close>

definition bit_val :: "bytes \<Rightarrow> nat \<Rightarrow> bool" where
  "bit_val m i = bit (m ! (i div 8)) (i mod 8)"

definition bit_set :: "bytes \<Rightarrow> nat \<Rightarrow> bytes" where
  "bit_set m i = m[i div 8 := (m ! (i div 8)) OR push_bit (i mod 8) 1]"

definition bit_clr :: "bytes \<Rightarrow> nat \<Rightarrow> bytes" where
  "bit_clr m i = m[i div 8 := (m ! (i div 8)) AND NOT (push_bit (i mod 8) 1)]"

lemma div_mod_8_eq: "(i::nat) div 8 = j div 8 \<Longrightarrow> i mod 8 = j mod 8 \<Longrightarrow> i = j"
  by (metis div_mult_mod_eq)

lemma byte_index: "i < 8 * length m \<Longrightarrow> i div 8 < length (m :: 'a list)"
  by simp

lemma length_bit_set [simp]: "length (bit_set m i) = length m"
  by (simp add: bit_set_def)

lemma length_bit_clr [simp]: "length (bit_clr m i) = length m"
  by (simp add: bit_clr_def)

lemma bit_u8: "bit (x :: u8) n \<Longrightarrow> n < 8"
  using bit_imp_le_length [of x n] by simp

lemma bit_mask8: "k < 8 \<Longrightarrow> bit (push_bit k (1 :: u8)) j = (j = k)"
  by (simp add: bit_exp_iff) auto

lemma bit_val_set [bitmap]:
  assumes "i < 8 * length m"
  shows "bit_val (bit_set m i) j = (j = i \<or> bit_val m j)"
proof (cases "j div 8 = i div 8")
  case True
  have "bit_val (bit_set m i) j = (bit (m ! (i div 8)) (j mod 8) \<or> j mod 8 = i mod 8)"
    unfolding bit_val_def bit_set_def True
    using byte_index [OF assms] by (simp add: bit_or_iff bit_mask8 del: push_bit_of_1)
  then show ?thesis using True div_mod_8_eq [OF True] by (auto simp: bit_val_def)
next
  case False
  then show ?thesis by (auto simp: bit_val_def bit_set_def)
qed

lemma bit_val_clr [bitmap]:
  assumes "i < 8 * length m"
  shows "bit_val (bit_clr m i) j = (j \<noteq> i \<and> bit_val m j)"
proof (cases "j div 8 = i div 8")
  case True
  have "bit_val (bit_clr m i) j = (bit (m ! (i div 8)) (j mod 8) \<and> j mod 8 \<noteq> i mod 8)"
    unfolding bit_val_def bit_clr_def True
    using byte_index [OF assms]
    by (simp add: bit_and_iff bit_not_iff bit_mask8 del: push_bit_of_1)
  then show ?thesis using True div_mod_8_eq [OF True] by (auto simp: bit_val_def)
next
  case False
  then show ?thesis by (auto simp: bit_val_def bit_clr_def)
qed

lemma bytes_eq_bits:
  assumes "length m = length m'" "\<And>i. i < 8 * length m \<Longrightarrow> bit_val m i = bit_val m' i"
  shows "m = m'"
proof (rule nth_equalityI [OF assms(1)])
  fix k assume k: "k < length m"
  show "m ! k = m' ! k"
  proof (rule bit_word_eqI)
    fix n assume "n < LENGTH(8)"
    then have n: "n < 8" by simp
    with k have "8 * k + n < 8 * length m" by simp
    from assms(2) [OF this] n show "bit (m ! k) n = bit (m' ! k) n"
      by (simp add: bit_val_def)
  qed
qed

end
