(* ===== verification/Byte_Memory.thy ===== *)
theory Byte_Memory
  imports Bffs_Prelude
begin

text \<open>
  Fragment buffers as byte lists, and the big-endian accesses of the 68k code through
  \<open>icommon_t *\<close>, \<open>direct_t *\<close> and \<open>ULONG *\<close> pointers into them: a field of a struct
  at a byte offset is read with \<open>peek16\<close> or \<open>peek32\<close> and written with \<open>poke16\<close> or
  \<open>poke32\<close>. Reads and writes at disjoint offsets do not interfere; a read returns the
  value last written. All theorems stay inside the buffer.
\<close>

section \<open>Slices\<close>

definition slice :: "'a list \<Rightarrow> nat \<Rightarrow> nat \<Rightarrow> 'a list" where
  "slice b off n = take n (drop off b)"

definition poke :: "'a list \<Rightarrow> nat \<Rightarrow> 'a list \<Rightarrow> 'a list" where
  "poke b off xs = take off b @ xs @ drop (off + length xs) b"

lemma length_poke [simp]: "off + length xs \<le> length b \<Longrightarrow> length (poke b off xs) = length b"
  by (simp add: poke_def)

lemma length_slice [simp]: "off + n \<le> length b \<Longrightarrow> length (slice b off n) = n"
  by (simp add: slice_def)

lemma slice_poke_same [simp]:
  "off + length xs \<le> length b \<Longrightarrow> n = length xs \<Longrightarrow> slice (poke b off xs) off n = xs"
  by (simp add: slice_def poke_def)

lemma slice_poke_before:
  assumes "off' + n \<le> off" "off \<le> length b"
  shows "slice (poke b off xs) off' n = slice b off' n"
proof -
  have "take n (drop off' (poke b off xs)) = take n (take (off - off') (drop off' b))"
    using assms by (simp add: poke_def drop_take)
  then show ?thesis using assms by (simp add: slice_def min_def)
qed

lemma slice_poke_after:
  assumes "off + length xs \<le> off'" "off + length xs \<le> length b"
  shows "slice (poke b off xs) off' n = slice b off' n"
proof -
  have "drop off' (poke b off xs) = drop off' b"
    using assms by (simp add: poke_def)
  then show ?thesis by (simp add: slice_def)
qed

lemma slice_poke_other:
  "off' + n \<le> off \<or> off + length xs \<le> off' \<Longrightarrow> off + length xs \<le> length b \<Longrightarrow>
   slice (poke b off xs) off' n = slice b off' n"
  by (auto intro: slice_poke_before slice_poke_after)

lemma poke_slice_id: "off + n \<le> length b \<Longrightarrow> poke b off (slice b off n) = b"
  by (simp add: poke_def slice_def) (metis append_take_drop_id drop_drop add.commute)

lemma nth_poke:
  "off + length xs \<le> length b \<Longrightarrow> i < length b \<Longrightarrow>
   poke b off xs ! i = (if off \<le> i \<and> i < off + length xs then xs ! (i - off) else b ! i)"
  by (auto simp: poke_def nth_append)

section \<open>Big-endian words\<close>

definition be16 :: "u16 \<Rightarrow> bytes" where
  "be16 v = [ucast (drop_bit 8 v), ucast v]"

definition be32 :: "u32 \<Rightarrow> bytes" where
  "be32 v = [ucast (drop_bit 24 v), ucast (drop_bit 16 v), ucast (drop_bit 8 v), ucast v]"

fun of_be16 :: "bytes \<Rightarrow> u16" where
  "of_be16 [a, b] = push_bit 8 (ucast a) OR ucast b"
| "of_be16 _ = 0"

fun of_be32 :: "bytes \<Rightarrow> u32" where
  "of_be32 [a, b, c, d] =
     push_bit 24 (ucast a) OR push_bit 16 (ucast b) OR push_bit 8 (ucast c) OR ucast d"
| "of_be32 _ = 0"

lemma length_be16 [simp]: "length (be16 v) = 2"
  by (simp add: be16_def)

lemma length_be32 [simp]: "length (be32 v) = 4"
  by (simp add: be32_def)

lemma of_be16_be16 [simp]: "of_be16 (be16 v) = v"
  by (rule bit_word_eqI)
    (auto simp: be16_def bit_or_iff bit_push_bit_iff bit_ucast_iff bit_drop_bit_eq)

lemma of_be32_be32 [simp]: "of_be32 (be32 v) = v"
proof (rule bit_word_eqI)
  fix n assume "n < LENGTH(32)"
  then have n: "n < 32" by simp
  have "bit (of_be32 (be32 v)) n =
      (24 \<le> n \<and> bit v (24 + (n - 24)) \<or> 16 \<le> n \<and> n - 16 < 8 \<and> bit v (16 + (n - 16)) \<or>
       8 \<le> n \<and> n - 8 < 8 \<and> bit v (8 + (n - 8)) \<or> n < 8 \<and> bit v n)"
    unfolding be32_def of_be32.simps bit_or_iff bit_push_bit_iff bit_ucast_iff bit_drop_bit_eq
    using n by auto
  also have "\<dots> = bit v n"
    using n by (cases "24 \<le> n"; cases "16 \<le> n"; cases "8 \<le> n"; simp; linarith)
  finally show "bit (of_be32 (be32 v)) n = bit v n" .
qed

definition peek16 :: "bytes \<Rightarrow> nat \<Rightarrow> u16" where
  "peek16 b off = of_be16 (slice b off 2)"

definition peek32 :: "bytes \<Rightarrow> nat \<Rightarrow> u32" where
  "peek32 b off = of_be32 (slice b off 4)"

definition poke16 :: "bytes \<Rightarrow> nat \<Rightarrow> u16 \<Rightarrow> bytes" where
  "poke16 b off v = poke b off (be16 v)"

definition poke32 :: "bytes \<Rightarrow> nat \<Rightarrow> u32 \<Rightarrow> bytes" where
  "poke32 b off v = poke b off (be32 v)"

lemma length_poke16 [simp]: "off + 2 \<le> length b \<Longrightarrow> length (poke16 b off v) = length b"
  by (simp add: poke16_def)

lemma length_poke32 [simp]: "off + 4 \<le> length b \<Longrightarrow> length (poke32 b off v) = length b"
  by (simp add: poke32_def)

lemma peek16_poke16 [simp]: "off + 2 \<le> length b \<Longrightarrow> peek16 (poke16 b off v) off = v"
  by (simp add: peek16_def poke16_def)

lemma peek32_poke32 [simp]: "off + 4 \<le> length b \<Longrightarrow> peek32 (poke32 b off v) off = v"
  by (simp add: peek32_def poke32_def)

lemma peek32_poke32_other:
  "off' + 4 \<le> off \<or> off + 4 \<le> off' \<Longrightarrow> off + 4 \<le> length b \<Longrightarrow>
   peek32 (poke32 b off v) off' = peek32 b off'"
  by (simp add: peek32_def poke32_def slice_poke_other)

lemma peek16_poke32_other:
  "off' + 2 \<le> off \<or> off + 4 \<le> off' \<Longrightarrow> off + 4 \<le> length b \<Longrightarrow>
   peek16 (poke32 b off v) off' = peek16 b off'"
  by (simp add: peek16_def poke32_def slice_poke_other)

lemma peek32_poke16_other:
  "off' + 4 \<le> off \<or> off + 2 \<le> off' \<Longrightarrow> off + 2 \<le> length b \<Longrightarrow>
   peek32 (poke16 b off v) off' = peek32 b off'"
  by (simp add: peek32_def poke16_def slice_poke_other)

lemma peek16_poke16_other:
  "off' + 2 \<le> off \<or> off + 2 \<le> off' \<Longrightarrow> off + 2 \<le> length b \<Longrightarrow>
   peek16 (poke16 b off v) off' = peek16 b off'"
  by (simp add: peek16_def poke16_def slice_poke_other)

lemmas peek_poke_other =
  peek32_poke32_other peek16_poke32_other peek32_poke16_other peek16_poke16_other

section \<open>C strings in a buffer\<close>

text \<open>The bytes from an offset up to the first zero byte, as \<open>strlen\<close> and \<open>strcmp\<close> see
  them.\<close>

definition cstring :: "bytes \<Rightarrow> nat \<Rightarrow> bytes" where
  "cstring b off = takeWhile (\<lambda>c. c \<noteq> 0) (drop off b)"

text \<open>\<open>strcpy\<close> writes the bytes of the name and a terminating zero.\<close>

definition strcpy :: "bytes \<Rightarrow> nat \<Rightarrow> bytes \<Rightarrow> bytes" where
  "strcpy b off name = poke b off (name @ [0])"

lemma length_strcpy [simp]:
  "off + length name + 1 \<le> length b \<Longrightarrow> length (strcpy b off name) = length b"
  by (simp add: strcpy_def)

lemma cstring_strcpy:
  assumes "off + length name + 1 \<le> length b" "0 \<notin> set name"
  shows "cstring (strcpy b off name) off = name"
proof -
  have "drop off (strcpy b off name) = name @ 0 # drop (off + length name + 1) b"
    using assms by (simp add: strcpy_def poke_def)
  moreover have "takeWhile (\<lambda>c. c \<noteq> 0) (name @ 0 # ys) = name" for ys
    using assms(2) by (subst takeWhile_append2) auto
  ultimately show ?thesis by (simp add: cstring_def)
qed

section \<open>The two byte orders of the disk\<close>

text \<open>
  \<open>disk16\<close> and \<open>disk32\<close> of fs/ufs.c: the accesses of the build for both byte orders
  (\<open>BOTHENDIAN\<close>). The flag says whether the file system on the disk is big endian.
\<close>

definition disk16 :: "bool \<Rightarrow> u16 \<Rightarrow> u16" where
  "disk16 is_big_endian x =
     (if is_big_endian then x else (drop_bit 8 x AND 255) OR push_bit 8 (x AND 255))"

definition disk32 :: "bool \<Rightarrow> u32 \<Rightarrow> u32" where
  "disk32 is_big_endian x =
     (if is_big_endian then x
      else drop_bit 24 x OR push_bit 24 x OR (push_bit 8 x AND push_bit 16 255) OR
           (drop_bit 8 x AND push_bit 8 255))"

end
