(* ===== verification/Bffs_State.thy ===== *)
theory Bffs_State
  imports Byte_Memory
begin

text \<open>
  The state of the file system handler: the structs of fs/ufs/fs.h, fs/cache.h and
  fs/handler.h and the global variables of fs/*.c as records, with the address macros of
  fs/fsmacros.h. A C pointer to a cache node, a frag buffer or a cylinder group buffer is
  the number of that node or buffer, and NULL is \<open>None\<close>.

  The model is of a big-endian file system, on which the \<open>DISK16\<close>, \<open>DISK32\<close> and
  \<open>DISK64\<close> macros of fs/config.h are the identity. Statistics (\<open>UPSTAT\<close>) and debug
  output (\<open>PRINT\<close>) are left out.
\<close>

section \<open>The superblock and its macros\<close>

text \<open>\<open>struct csum\<close>: the summary counters of a cylinder group or of the file system.\<close>

record csum =
  cs_ndir :: u32
  cs_nbfree :: u32
  cs_nifree :: u32
  cs_nffree :: u32

text \<open>
  \<open>struct fs\<close>, as far as the handler reads it. \<open>fs_new_cstotal\<close> holds the low words
  (index \<open>is_big_endian\<close>) of the 64-bit totals that file systems with
  \<open>FS_FLAGS_UPDATED\<close> use, like \<open>fs_new_time\<close>, \<open>fs_new_dsize\<close> and
  \<open>fs_new_csaddr\<close>; a \<open>quad\<close> is the pair of its words; \<open>fs_csp\<close> is the array behind \<open>fs_cs(fs, indx)\<close>.
\<close>

record superblock =
  fs_cblkno :: u32
  fs_iblkno :: u32
  fs_cgoffset :: u32
  fs_cgmask :: u32
  fs_ncg :: u32
  fs_bsize :: u32
  fs_fsize :: u32
  fs_frag :: u32
  fs_bshift :: u32
  fs_fshift :: u32
  fs_fragshift :: u32
  fs_nindir :: u32
  fs_inopb :: u32
  fs_nspf :: u32
  fs_npsect :: u32
  fs_interleave :: u32
  fs_trackskew :: u32
  fs_nsect :: u32
  fs_spc :: u32
  fs_ipg :: u32
  fs_fpg :: u32
  fs_cstotal :: csum
  fs_new_cstotal :: csum
  fs_fmod :: u8
  fs_ronly :: bool
  fs_flags :: u8
  fs_csp :: "csum list"
  fs_nrpos :: u32
  fs_contigsumsize :: u32
  fs_time :: u32
  fs_bmask :: u32
  fs_fmask :: u32
  fs_csaddr :: u32
  fs_clean :: u8
  fs_new_time :: u32
  fs_new_csaddr :: u32
  fs_inodefmt :: u32
  fs_maxfilesize :: "u32 \<times> u32"
  fs_qbmask :: "u32 \<times> u32"
  fs_qfmask :: "u32 \<times> u32"
  fs_postblformat :: u32
  fs_magic :: u32
  fs_dsize :: u32
  fs_new_dsize :: u32
  fs_minfree :: u32
  fs_fsmnt :: bytes
  fs_cgrotor :: u32

definition FS_FLAGS_UPDATED :: u8 where
  "FS_FLAGS_UPDATED = 0x80"

definition fs_updated :: "superblock \<Rightarrow> bool" where
  "fs_updated fs \<longleftrightarrow> fs_flags fs AND FS_FLAGS_UPDATED \<noteq> 0"

text \<open>\<open>FRAGS_PER_BLK\<close> as a loop bound.\<close>

abbreviation fpb :: "superblock \<Rightarrow> nat" where
  "fpb fs \<equiv> unat (fs_frag fs)"

subsection \<open>Cylinder group addresses\<close>

definition cgbase :: "superblock \<Rightarrow> u32 \<Rightarrow> u32" where
  "cgbase fs c = fs_fpg fs * c"

definition cgstart :: "superblock \<Rightarrow> u32 \<Rightarrow> u32" where
  "cgstart fs c = cgbase fs c + fs_cgoffset fs * (c AND NOT (fs_cgmask fs))"

definition cgtod :: "superblock \<Rightarrow> u32 \<Rightarrow> u32" where
  "cgtod fs c = cgstart fs c + fs_cblkno fs"

definition cgimin :: "superblock \<Rightarrow> u32 \<Rightarrow> u32" where
  "cgimin fs c = cgstart fs c + fs_iblkno fs"

definition dtog :: "superblock \<Rightarrow> u32 \<Rightarrow> u32" where
  "dtog fs d = d div fs_fpg fs"

definition dtogd :: "superblock \<Rightarrow> u32 \<Rightarrow> u32" where
  "dtogd fs d = d mod fs_fpg fs"

subsection \<open>Blocks, frags and inodes\<close>

definition blkstofrags :: "superblock \<Rightarrow> u32 \<Rightarrow> u32" where
  "blkstofrags fs blks = push_bit (unat (fs_fragshift fs)) blks"

definition fragstoblks :: "superblock \<Rightarrow> u32 \<Rightarrow> u32" where
  "fragstoblks fs frag = drop_bit (unat (fs_fragshift fs)) frag"

definition fragnum :: "superblock \<Rightarrow> u32 \<Rightarrow> u32" where
  "fragnum fs fsb = fsb AND (fs_frag fs - 1)"

definition blknum :: "superblock \<Rightarrow> u32 \<Rightarrow> u32" where
  "blknum fs fsb = fsb AND NOT (fs_frag fs - 1)"

definition INOPF :: "superblock \<Rightarrow> u32" where
  "INOPF fs = drop_bit (unat (fs_fragshift fs)) (fs_inopb fs)"

definition itog :: "superblock \<Rightarrow> u32 \<Rightarrow> u32" where
  "itog fs x = x div fs_ipg fs"

definition itod :: "superblock \<Rightarrow> u32 \<Rightarrow> u32" where
  "itod fs x = cgimin fs (itog fs x) + blkstofrags fs ((x mod fs_ipg fs) div fs_inopb fs)"

definition itoo :: "superblock \<Rightarrow> u32 \<Rightarrow> u32" where
  "itoo fs x = x mod fs_inopb fs"

definition itodo :: "superblock \<Rightarrow> u32 \<Rightarrow> u32" where
  "itodo fs x = itoo fs x div INOPF fs"

definition itofo :: "superblock \<Rightarrow> u32 \<Rightarrow> u32" where
  "itofo fs x = x AND (INOPF fs - 1)"

definition NSPF :: "superblock \<Rightarrow> u32" where
  "NSPF fs = fs_nspf fs"

definition cbtocylno :: "superblock \<Rightarrow> u32 \<Rightarrow> u32" where
  "cbtocylno fs bno = bno * NSPF fs div fs_spc fs"

definition cbtorpos :: "superblock \<Rightarrow> u32 \<Rightarrow> u32" where
  "cbtorpos fs bno =
     ((bno * NSPF fs mod fs_spc fs div fs_nsect fs * fs_trackskew fs +
       bno * NSPF fs mod fs_spc fs mod fs_nsect fs * fs_interleave fs) mod fs_nsect fs)
     * fs_nrpos fs div fs_npsect fs"

section \<open>Cylinder groups\<close>

text \<open>
  \<open>struct cg\<close>. The maps and counter arrays that the C code finds at the offsets stored in
  the block (\<open>cg_freeoff\<close>, \<open>cg_iusedoff\<close>, \<open>cg_btotoff\<close>, \<open>cg_boff\<close>,
  \<open>cg_clusteroff\<close>, \<open>cg_clustersumoff\<close>, or in \<open>struct ocg\<close>) are fields of their own.
\<close>

record cg =
  cg_cgx :: u32
  cg_magic_ok :: bool
  cg_niblk :: u32
  cg_ndblk :: u32
  cg_cs :: csum
  cg_irotor :: u32
  cg_frsum :: "u32 list"
  cg_blktot :: "u32 list"
  cg_blks :: "u16 list"
  cg_inosused :: bytes
  cg_blksfree :: bytes
  cg_clustersum :: "u32 list"
  cg_clustersfree :: bytes
  cg_nclusterblks :: u32

section \<open>The frag cache and the cylinder group cache\<close>

text \<open>\<open>cache_set_t\<close> of fs/cache.h. The \<open>next\<close> links are used only inside
  \<open>cache_flush\<close>, where the model has a list.\<close>

record cache_set =
  blk :: u32
  flags :: u32
  buf :: bytes
  stack_up :: "nat option"
  stack_down :: "nat option"
  hash_up :: "nat option"
  hash_down :: "nat option"

definition CACHE_CLEAN :: u32 where
  "CACHE_CLEAN = 0"

definition CACHE_DIRTY :: u32 where
  "CACHE_DIRTY = 1"

text \<open>The globals of fs/cache.c; \<open>node_brk\<close> numbers the nodes that \<open>AllocMem\<close> hands out.\<close>

record frag_cache =
  nodes :: "nat \<Rightarrow> cache_set"
  node_brk :: nat
  cache_stack :: "nat option"
  cache_stack_tail :: "nat option"
  hashtable :: "nat option list"
  cache_alloced :: int
  cache_used :: int
  cache_item_dirty :: int
  cache_size :: int

record cg_cache =
  cg_bufs :: "nat \<Rightarrow> cg"
  cg_brk :: nat
  cache_cg_data :: "nat option list"
  cache_cg_state :: "bool list"
  cache_cg_size :: nat

section \<open>The device, the operating system and the handler's globals\<close>

text \<open>
  The device driver, the memory allocator and the user are outside the program. Their
  answers are parameters held in the state: \<open>io_fails k\<close> says whether the k-th device
  request fails, \<open>answers\<close> are the user's answers to the retry requester,
  \<open>mem_fails k\<close> says whether the k-th \<open>AllocMem\<close> returns NULL. The medium maps a frag
  address of the partition to the bytes of that frag; the frags that hold a cylinder group
  block are kept in decoded form under the block's address, and so are the superblock
  (\<open>disk_sb\<close>) and the summary of the groups (\<open>disk_csp\<close>). \<open>now\<close> is the time that
  \<open>unix_time\<close> reports and \<open>uninit\<close> the word that an uninitialised local variable happens
  to contain.
\<close>

record device =
  disk :: "u32 \<Rightarrow> bytes"
  disk_cg :: "u32 \<Rightarrow> cg"
  disk_sb :: superblock
  disk_csp :: "csum list"
  io_fails :: "nat \<Rightarrow> bool"
  io_count :: nat
  answers :: "bool list"
  use_td64 :: int
  phys_sectorsize :: u32
  phys_sectorshift :: nat
  psectoffset :: u32
  psectmax :: u32
  motor_is_on :: bool

record handler =
  receiving_packets :: bool
  Res2 :: int
  Pinum :: u32
  Poffset :: u32
  mem_fails :: "nat \<Rightarrow> bool"
  mem_count :: nat
  opt_space :: bool
  bsd44fs :: bool
  case_dependent :: bool
  now :: u32
  uninit :: u32
  tranmask :: u32
  unix_paths :: bool
  resolve_symlinks :: bool
  read_link :: bool
  linkname :: "bytes option"
  fs_lfmask :: u32
  fs_lbmask :: u32
  fsize :: u32
  bsize :: u32
  pfragshift :: nat
  fblkshift :: nat

record fsys =
  dev :: device
  sb :: superblock
  fc :: frag_cache
  cgc :: cg_cache
  hnd :: handler

text \<open>The buffer behind a frag pointer and the block behind a cylinder group pointer.\<close>

definition frag_buf :: "fsys \<Rightarrow> nat \<Rightarrow> bytes" where
  "frag_buf s n = buf (nodes (fc s) n)"

definition set_frag_buf :: "nat \<Rightarrow> bytes \<Rightarrow> fsys \<Rightarrow> fsys" where
  "set_frag_buf n b s =
     s\<lparr>fc := (fc s)\<lparr>nodes := (nodes (fc s))(n := (nodes (fc s) n)\<lparr>buf := b\<rparr>)\<rparr>\<rparr>"

definition cg_at :: "fsys \<Rightarrow> nat \<Rightarrow> cg" where
  "cg_at s p = cg_bufs (cgc s) p"

definition set_cg :: "nat \<Rightarrow> cg \<Rightarrow> fsys \<Rightarrow> fsys" where
  "set_cg p c s = s\<lparr>cgc := (cgc s)\<lparr>cg_bufs := (cg_bufs (cgc s))(p := c)\<rparr>\<rparr>"

definition set_ronly :: "fsys \<Rightarrow> fsys" where
  "set_ronly s = s\<lparr>sb := (sb s)\<lparr>fs_ronly := True\<rparr>\<rparr>"

definition stop_packets :: "fsys \<Rightarrow> fsys" where
  "stop_packets s = s\<lparr>hnd := (hnd s)\<lparr>receiving_packets := False\<rparr>\<rparr>"

text \<open>\<open>AllocMem\<close>: whether the request is granted.\<close>

definition alloc_mem :: "fsys \<Rightarrow> bool \<times> fsys" where
  "alloc_mem s =
     (\<not> mem_fails (hnd s) (mem_count (hnd s)),
      s\<lparr>hnd := (hnd s)\<lparr>mem_count := Suc (mem_count (hnd s))\<rparr>\<rparr>)"

end
