(* ===== verification/Block_Device.thy ===== *)
theory Block_Device
  imports Bffs_State
begin

text \<open>
  \<open>data_read\<close> and \<open>data_write\<close> of fs/ufs.c, the only interface to the disk: the sector
  address and the two halves of the byte address of the request, the range check against the
  partition, the fall-back from 64-bit to 32-bit requests, and the retry requester. The
  device itself is outside the program: \<open>io_fails\<close> decides which request fails, a request
  that succeeds transfers all of its data, and one that fails transfers none. The frags of the
  medium are indexed by their numbers; \<open>Medium\<close> shows that this is what the byte addresses of the
  requests make of a medium of bytes. The blocks of the cylinder groups are indexed by their frag.
\<close>

section \<open>Addresses\<close>

definition sectoff :: "fsys \<Rightarrow> u32 \<Rightarrow> u32" where
  "sectoff s num =
     fsize (hnd s) div phys_sectorsize (dev s) * num + psectoffset (dev s)"

definition io_Offset :: "fsys \<Rightarrow> u32 \<Rightarrow> u32" where
  "io_Offset s num = push_bit (phys_sectorshift (dev s)) (sectoff s num)"

definition io_Actual :: "fsys \<Rightarrow> u32 \<Rightarrow> u32" where
  "io_Actual s num = drop_bit (32 - phys_sectorshift (dev s)) (sectoff s num)"

text \<open>The check of the range of the partition, which \<open>FAST\<close> builds omit.\<close>

definition frag_ok :: "fsys \<Rightarrow> u32 \<Rightarrow> bool" where
  "frag_ok s num \<longleftrightarrow> sectoff s num < psectmax (dev s)"

section \<open>Requests\<close>

text \<open>\<open>DoIO\<close>: true is an error.\<close>

definition do_io :: "device \<Rightarrow> bool \<times> device" where
  "do_io d = (io_fails d (io_count d), d\<lparr>io_count := Suc (io_count d)\<rparr>)"

text \<open>The inner loop of a retry: up to \<open>n\<close> more requests; true when one succeeded.\<close>

fun retry_io :: "nat \<Rightarrow> device \<Rightarrow> bool \<times> device" where
  "retry_io 0 d = (False, d)"
| "retry_io (Suc n) d =
     (let (err, d) = do_io d in if \<not> err then (True, d) else retry_io n d)"

text \<open>The loop over the answers of the retry requester; true when a request succeeded.\<close>

fun ask_retry :: "bool list \<Rightarrow> device \<Rightarrow> bool \<times> device" where
  "ask_retry [] d = (False, d\<lparr>answers := []\<rparr>)"
| "ask_retry (a # as) d =
     (if a then
        (let (ok, d) = retry_io 4 d
         in if ok then (True, d\<lparr>answers := as\<rparr>) else ask_retry as d)
      else (False, d\<lparr>answers := as\<rparr>))"

lemma use_td64_do_io: "use_td64 (snd (do_io d)) = use_td64 d"
  by (simp add: do_io_def)

text \<open>The request of \<open>data_read\<close>; true is an error.\<close>

function read_io :: "device \<Rightarrow> bool \<times> device" where
  "read_io d =
     (let (err, d) = do_io d in
      if err then
        if use_td64 d = -1 then read_io (d\<lparr>use_td64 := 0\<rparr>)
        else (let (ok, d) = ask_retry (answers d) d in (\<not> ok, d))
      else (False, if use_td64 d = -1 then d\<lparr>use_td64 := 1\<rparr> else d))"
  by pat_completeness auto
termination
  by (relation "measure (\<lambda>d. if use_td64 d = -1 then 1 else 0)")
    (auto simp: do_io_def)

declare read_io.simps [simp del]

definition write_io :: "device \<Rightarrow> bool \<times> device" where
  "write_io d =
     (let (err, d) = do_io d in
      if err then (let (ok, d) = ask_retry (answers d) d in (\<not> ok, d))
      else (False, d))"

definition read_request :: "u32 \<Rightarrow> fsys \<Rightarrow> bool \<times> fsys" where
  "read_request num s =
     (let d = (dev s)\<lparr>motor_is_on := True\<rparr> in
      if \<not> frag_ok s num then (True, s\<lparr>dev := d\<rparr>)
      else (let (err, d) = read_io d in (err, s\<lparr>dev := d\<rparr>)))"

definition write_request :: "u32 \<Rightarrow> fsys \<Rightarrow> bool \<times> fsys" where
  "write_request num s =
     (if fs_ronly (sb s) then (True, s) else
      let d = (dev s)\<lparr>motor_is_on := True\<rparr> in
      if \<not> frag_ok s num then (True, s\<lparr>dev := d\<rparr>)
      else (let (err, d) = write_io d in (err, s\<lparr>dev := d\<rparr>)))"

section \<open>Transfers\<close>

text \<open>\<open>n\<close> frags from \<open>num\<close> on; the size in the C code is a multiple of \<open>FSIZE\<close>.\<close>

definition disk_frags :: "(u32 \<Rightarrow> bytes) \<Rightarrow> u32 \<Rightarrow> nat \<Rightarrow> bytes" where
  "disk_frags d num n = concat (map (\<lambda>i. d (num + of_nat i)) [0..<n])"

definition put_frags :: "nat \<Rightarrow> bytes \<Rightarrow> u32 \<Rightarrow> nat \<Rightarrow> (u32 \<Rightarrow> bytes) \<Rightarrow> u32 \<Rightarrow> bytes" where
  "put_frags fs b num n d a =
     (if unat (a - num) < n then slice b (unat (a - num) * fs) fs else d a)"

text \<open>\<open>data_read(buf, num, n * FSIZE)\<close>: the bytes read, or \<open>None\<close> for a fault.\<close>

definition data_read :: "u32 \<Rightarrow> nat \<Rightarrow> fsys \<Rightarrow> bytes option \<times> fsys" where
  "data_read num n s =
     (let (err, s) = read_request num s
      in (if err then None else Some (disk_frags (disk (dev s)) num n), s))"

text \<open>\<open>data_write(buf, num, n * FSIZE)\<close>: true is a fault.\<close>

definition data_write :: "bytes \<Rightarrow> u32 \<Rightarrow> nat \<Rightarrow> fsys \<Rightarrow> bool \<times> fsys" where
  "data_write b num n s =
     (let (err, s) = write_request num s
      in if err then (True, s)
         else (False, s\<lparr>dev := (dev s)\<lparr>disk :=
                put_frags (unat (fsize (hnd s))) b num n (disk (dev s))\<rparr>\<rparr>))"

text \<open>The transfers of a cylinder group block.\<close>

definition data_read_cg :: "u32 \<Rightarrow> fsys \<Rightarrow> cg option \<times> fsys" where
  "data_read_cg num s =
     (let (err, s) = read_request num s
      in (if err then None else Some (disk_cg (dev s) num), s))"

definition data_write_cg :: "cg \<Rightarrow> u32 \<Rightarrow> fsys \<Rightarrow> bool \<times> fsys" where
  "data_write_cg c num s =
     (let (err, s) = write_request num s
      in if err then (True, s)
         else (False, s\<lparr>dev := (dev s)\<lparr>disk_cg := (disk_cg (dev s))(num := c)\<rparr>\<rparr>))"

section \<open>A healthy device\<close>

text \<open>No request fails.\<close>

definition dev_ok :: "fsys \<Rightarrow> bool" where
  "dev_ok s \<longleftrightarrow> (\<forall>k. \<not> io_fails (dev s) k)"

text \<open>Two device states that differ at most in the request count, the detected command set
  and the motor flag.\<close>

definition same_dev :: "device \<Rightarrow> device \<Rightarrow> bool" where
  "same_dev d d' \<longleftrightarrow>
     disk d' = disk d \<and> disk_cg d' = disk_cg d \<and> io_fails d' = io_fails d \<and>
     answers d' = answers d \<and> phys_sectorsize d' = phys_sectorsize d \<and>
     phys_sectorshift d' = phys_sectorshift d \<and> psectoffset d' = psectoffset d \<and>
     psectmax d' = psectmax d \<and> disk_sb d' = disk_sb d \<and> disk_csp d' = disk_csp d"

lemma same_dev_refl [simp]: "same_dev d d"
  by (simp add: same_dev_def)

lemma same_dev_trans: "same_dev d e \<Longrightarrow> same_dev e f \<Longrightarrow> same_dev d f"
  by (simp add: same_dev_def)

lemma read_io_ok:
  assumes "\<And>k. \<not> io_fails d k"
  shows "\<exists>d'. read_io d = (False, d') \<and> same_dev d d'"
  by (subst read_io.simps) (simp add: do_io_def assms same_dev_def)

lemma write_io_ok:
  assumes "\<And>k. \<not> io_fails d k"
  shows "\<exists>d'. write_io d = (False, d') \<and> same_dev d d'"
  by (simp add: write_io_def do_io_def assms same_dev_def)

text \<open>On a healthy device a request inside the partition succeeds.\<close>

lemma read_request_ok:
  assumes "dev_ok s" "frag_ok s num"
  shows "\<exists>d'. read_request num s = (False, s\<lparr>dev := d'\<rparr>) \<and> same_dev (dev s) d'"
proof -
  let ?d = "(dev s)\<lparr>motor_is_on := True\<rparr>"
  have "\<not> io_fails ?d k" for k using assms(1) by (simp add: dev_ok_def)
  then obtain d' where "read_io ?d = (False, d')" "same_dev ?d d'"
    using read_io_ok [of ?d] by auto
  then show ?thesis using assms(2)
    by (auto simp: read_request_def same_dev_def)
qed

lemma write_request_ok:
  assumes "dev_ok s" "frag_ok s num" "\<not> fs_ronly (sb s)"
  shows "\<exists>d'. write_request num s = (False, s\<lparr>dev := d'\<rparr>) \<and> same_dev (dev s) d'"
proof -
  let ?d = "(dev s)\<lparr>motor_is_on := True\<rparr>"
  have "\<not> io_fails ?d k" for k using assms(1) by (simp add: dev_ok_def)
  then obtain d' where "write_io ?d = (False, d')" "same_dev ?d d'"
    using write_io_ok [of ?d] by auto
  then show ?thesis using assms(2,3)
    by (auto simp: write_request_def same_dev_def)
qed

lemma disk_frags_1 [simp]: "disk_frags d num (Suc 0) = d num"
  by (simp add: disk_frags_def)

lemma put_frags_1 [simp]:
  "length b = fs \<Longrightarrow> put_frags fs b num (Suc 0) d = d(num := b)"
  by (rule ext) (simp add: put_frags_def slice_def unat_eq_0)

text \<open>The frags of a transfer are distinct, so what was written is what is read back.\<close>

lemma disk_frags_put_frags:
  assumes "length b = n * fs" "n \<le> 2 ^ 32"
  shows "disk_frags (put_frags fs b num n d) num n = b"
proof -
  have idx: "unat ((num + of_nat i) - num :: u32) = i" if "i < n" for i
    using that assms(2) unat_of_nat32 [of i] by simp
  have eq: "put_frags fs b num n d (num + of_nat i) = slice b (i * fs) fs" if "i < n" for i
    unfolding put_frags_def idx [OF that] using that by simp
  have chunks: "concat (map (\<lambda>i. slice b (i * fs) fs) [0..<k]) = take (k * fs) b" for k
  proof (induction k)
    case 0
    then show ?case by simp
  next
    case (Suc k)
    have "take (Suc k * fs) b = take (k * fs) b @ take fs (drop (k * fs) b)"
      using take_add [of "k * fs" fs b] by (simp add: add.commute)
    then show ?case using Suc by (simp add: slice_def)
  qed
  have maps: "map (\<lambda>i. put_frags fs b num n d (num + of_nat i)) [0..<n] =
        map (\<lambda>i. slice b (i * fs) fs) [0..<n]"
    by (rule map_cong) (simp_all add: eq)
  show ?thesis unfolding disk_frags_def maps using chunks [of n] assms(1) by simp
qed

lemma put_frags_other:
  "n \<le> unat (a - num) \<Longrightarrow> put_frags fs b num n d a = d a"
  by (simp add: put_frags_def)

text \<open>The byte address of a 64-bit request.\<close>

lemma io_address:
  assumes "phys_sectorshift (dev s) \<le> 32"
  shows "unat (io_Actual s num) * 2 ^ 32 + unat (io_Offset s num) =
         unat (sectoff s num) * 2 ^ phys_sectorshift (dev s)"
proof -
  let ?k = "phys_sectorshift (dev s)" and ?x = "unat (sectoff s num)"
  have k: "(2::nat) ^ 32 = 2 ^ ?k * 2 ^ (32 - ?k)"
    using assms by (simp flip: power_add)
  have "unat (io_Offset s num) = (?x * 2 ^ ?k) mod 2 ^ 32"
    by (simp only: io_Offset_def unat_push_bit)
  also have "\<dots> = (?x mod 2 ^ (32 - ?k)) * 2 ^ ?k"
    unfolding k by (simp add: mult_mod_left mult.commute)
  finally have off: "unat (io_Offset s num) = (?x mod 2 ^ (32 - ?k)) * 2 ^ ?k" .
  have act: "unat (io_Actual s num) = ?x div 2 ^ (32 - ?k)"
    by (simp only: io_Actual_def unat_drop_bit)
  have "?x = ?x div 2 ^ (32 - ?k) * 2 ^ (32 - ?k) + ?x mod 2 ^ (32 - ?k)"
    by (rule div_mult_mod_eq [symmetric])
  then show ?thesis unfolding off act k by (rule split_scale [symmetric])
qed

end
