(* ===== verification/Cache_Links.thy ===== *)
theory Cache_Links
  imports Bffs_State
begin

text \<open>
  Doubly linked lists of cache nodes. Each node of the frag cache sits in two of them: the
  LRU stack (\<open>stack_up\<close>, \<open>stack_down\<close>) and a hash chain (\<open>hash_up\<close>, \<open>hash_down\<close>).
  The locale \<open>links\<close> states once what a pair of link fields must satisfy and proves the
  effect of unlinking a node, of linking it at the tail and of linking it at the head; it is
  interpreted on both pairs.
\<close>

section \<open>Lists behind pointers\<close>

definition hdo :: "nat option \<Rightarrow> nat list \<Rightarrow> nat option" where
  "hdo q xs = (case xs of [] \<Rightarrow> q | x # _ \<Rightarrow> Some x)"

definition lasto :: "nat option \<Rightarrow> nat list \<Rightarrow> nat option" where
  "lasto p xs = (if xs = [] then p else Some (last xs))"

lemma hdo_simps [simp]: "hdo q [] = q" "hdo q (x # xs) = Some x"
  by (simp_all add: hdo_def)

lemma lasto_simps [simp]:
  "lasto p [] = p" "lasto p (xs @ [x]) = Some x" "lasto p (x # xs) = lasto (Some x) xs"
  by (simp_all add: lasto_def)

lemma hdo_append: "hdo q (xs @ ys) = hdo (hdo q ys) xs"
  by (cases xs) simp_all

lemma lasto_append: "lasto p (xs @ ys) = lasto (lasto p xs) ys"
  by (simp add: lasto_def)

lemma hdo_None_iff: "hdo None xs = None \<longleftrightarrow> xs = []"
  by (cases xs) simp_all

lemma lasto_None_iff: "lasto None xs = None \<longleftrightarrow> xs = []"
  by (simp add: lasto_def)

lemma lasto_Some_in: "lasto None xs = Some a \<Longrightarrow> a \<in> set xs"
  by (auto simp: lasto_def split: if_splits)

lemma hdo_Some_in: "hdo None xs = Some a \<Longrightarrow> a \<in> set xs"
  by (cases xs) auto

text \<open>\<open>dll up dn p xs q\<close>: the nodes \<open>xs\<close> are linked in this order, between the nodes
  \<open>p\<close> above and \<open>q\<close> below.\<close>

fun dll :: "(nat \<Rightarrow> nat option) \<Rightarrow> (nat \<Rightarrow> nat option) \<Rightarrow>
    nat option \<Rightarrow> nat list \<Rightarrow> nat option \<Rightarrow> bool" where
  "dll up dn p [] q = True"
| "dll up dn p (x # xs) q = (up x = p \<and> dn x = hdo q xs \<and> dll up dn (Some x) xs q)"

lemma dll_append:
  "dll up dn p (xs @ ys) q \<longleftrightarrow> dll up dn p xs (hdo q ys) \<and> dll up dn (lasto p xs) ys q"
  by (induction xs arbitrary: p) (auto simp: hdo_append)

lemma dll_cong:
  "(\<And>x. x \<in> set xs \<Longrightarrow> up x = up' x \<and> dn x = dn' x) \<Longrightarrow>
   dll up dn p xs q = dll up' dn' p xs q"
  by (induction xs arbitrary: p) auto

text \<open>Moving the end of a segment: only the link of its last node changes.\<close>

lemma dll_new_below:
  assumes "dll up dn p xs q" "distinct xs"
    and "\<And>x. x \<in> set xs \<Longrightarrow> up' x = up x"
    and "\<And>x. x \<in> set xs \<Longrightarrow> dn' x = (if lasto None xs = Some x then q' else dn x)"
  shows "dll up' dn' p xs q'"
  using assms
proof (induction xs arbitrary: p)
  case Nil
  then show ?case by simp
next
  case (Cons x xs)
  show ?case
  proof (cases xs)
    case Nil
    with Cons.prems show ?thesis by simp
  next
    case (Cons y ys)
    have "x \<noteq> last xs" using Cons.prems(2) local.Cons by auto
    then have "dn' x = dn x" using Cons.prems(4) [of x] local.Cons by (simp add: lasto_def)
    moreover have "dll up' dn' (Some x) xs q'"
    proof (rule Cons.IH)
      show "dll up dn (Some x) xs q" and "distinct xs" using Cons.prems(1,2) by simp_all
      show "up' z = up z" if "z \<in> set xs" for z using Cons.prems(3) that by simp
      show "dn' z = (if lasto None xs = Some z then q' else dn z)" if "z \<in> set xs" for z
        using Cons.prems(4) [of z] that local.Cons by (simp add: lasto_def)
    qed
    ultimately show ?thesis using Cons.prems(1,3) local.Cons by simp
  qed
qed

text \<open>Moving its start: only the link of its first node changes.\<close>

lemma dll_new_above:
  assumes "dll up dn p xs q" "distinct xs"
    and "\<And>x. x \<in> set xs \<Longrightarrow> up' x = (if hdo None xs = Some x then p' else up x)"
    and "\<And>x. x \<in> set xs \<Longrightarrow> dn' x = dn x"
  shows "dll up' dn' p' xs q"
proof (cases xs)
  case Nil
  then show ?thesis by simp
next
  case (Cons x ys)
  have "dll up dn (Some x) ys q" using assms(1) Cons by simp
  moreover have "up' z = up z \<and> dn' z = dn z" if "z \<in> set ys" for z
    using assms(2-4) that Cons by auto
  ultimately have "dll up' dn' (Some x) ys q" using dll_cong [of ys up' up dn' dn] by simp
  then show ?thesis using assms Cons by simp
qed

section \<open>A pair of link fields\<close>

locale links =
  fixes up dn :: "cache_set \<Rightarrow> nat option"
    and set_up set_dn :: "nat option \<Rightarrow> cache_set \<Rightarrow> cache_set"
    and rest :: "cache_set \<Rightarrow> 'r"
  assumes up_set_up [simp]: "up (set_up v c) = v"
    and dn_set_up [simp]: "dn (set_up v c) = dn c"
    and up_set_dn [simp]: "up (set_dn v c) = up c"
    and dn_set_dn [simp]: "dn (set_dn v c) = v"
    and rest_set_up [simp]: "rest (set_up v c) = rest c"
    and rest_set_dn [simp]: "rest (set_dn v c) = rest c"
begin

definition chain :: "(nat \<Rightarrow> cache_set) \<Rightarrow> nat list \<Rightarrow> bool" where
  "chain ns xs \<longleftrightarrow> dll (\<lambda>n. up (ns n)) (\<lambda>n. dn (ns n)) None xs None \<and> distinct xs"

text \<open>The parent of the node gets its successor, the successor gets its parent.\<close>

definition unlink_up :: "nat \<Rightarrow> (nat \<Rightarrow> cache_set) \<Rightarrow> nat \<Rightarrow> cache_set" where
  "unlink_up x ns =
     (case up (ns x) of None \<Rightarrow> ns | Some a \<Rightarrow> ns(a := set_dn (dn (ns x)) (ns a)))"

definition unlink_dn :: "nat \<Rightarrow> (nat \<Rightarrow> cache_set) \<Rightarrow> nat \<Rightarrow> cache_set" where
  "unlink_dn x ns =
     (case dn (ns x) of None \<Rightarrow> ns | Some b \<Rightarrow> ns(b := set_up (up (ns x)) (ns b)))"

definition unlink :: "nat \<Rightarrow> (nat \<Rightarrow> cache_set) \<Rightarrow> nat \<Rightarrow> cache_set" where
  "unlink x ns = unlink_dn x (unlink_up x ns)"

text \<open>The node becomes the last one, below \<open>t\<close>; or the first one, above \<open>h\<close>.\<close>

definition link_tail :: "nat option \<Rightarrow> nat \<Rightarrow> (nat \<Rightarrow> cache_set) \<Rightarrow> nat \<Rightarrow> cache_set" where
  "link_tail t x ns =
     (let ns = ns(x := set_dn None (set_up t (ns x)))
      in case t of None \<Rightarrow> ns | Some a \<Rightarrow> ns(a := set_dn (Some x) (ns a)))"

definition link_head :: "nat option \<Rightarrow> nat \<Rightarrow> (nat \<Rightarrow> cache_set) \<Rightarrow> nat \<Rightarrow> cache_set" where
  "link_head h x ns =
     (let ns = (case h of None \<Rightarrow> ns | Some a \<Rightarrow> ns(a := set_up (Some x) (ns a)))
      in ns(x := set_dn h (set_up None (ns x))))"

lemma rest_unlink: "rest (unlink x ns n) = rest (ns n)"
  by (simp add: unlink_def unlink_up_def unlink_dn_def split: option.splits)

lemma rest_link_tail: "rest (link_tail t x ns n) = rest (ns n)"
  by (simp add: link_tail_def Let_def split: option.splits)

lemma rest_link_head: "rest (link_head t x ns n) = rest (ns n)"
  by (simp add: link_head_def Let_def split: option.splits)

lemma chain_cong:
  "(\<And>x. x \<in> set xs \<Longrightarrow> up (ns x) = up (ns' x) \<and> dn (ns x) = dn (ns' x)) \<Longrightarrow>
   chain ns xs = chain ns' xs"
  unfolding chain_def
  using dll_cong [of xs "\<lambda>n. up (ns n)" "\<lambda>n. up (ns' n)" "\<lambda>n. dn (ns n)" "\<lambda>n. dn (ns' n)"]
  by simp

lemma chain_distinct: "chain ns xs \<Longrightarrow> distinct xs"
  by (simp add: chain_def)

lemma chain_node:
  assumes "chain ns (xs @ x # ys)"
  shows "up (ns x) = lasto None xs" and "dn (ns x) = hdo None ys"
  using assms by (simp_all add: chain_def dll_append)

lemma unlink_fields:
  assumes "up (ns x) \<noteq> Some x" "dn (ns x) \<noteq> Some x"
  shows "up (unlink x ns n) = (if dn (ns x) = Some n then up (ns x) else up (ns n))"
    and "dn (unlink x ns n) = (if up (ns x) = Some n then dn (ns x) else dn (ns n))"
  using assms
  by (auto simp: unlink_def unlink_up_def unlink_dn_def split: option.splits)

theorem unlink_chain:
  assumes "chain ns (xs @ x # ys)"
  shows "chain (unlink x ns) (xs @ ys)"
proof -
  let ?u = "\<lambda>n. up (ns n)" and ?d = "\<lambda>n. dn (ns n)"
  let ?u' = "\<lambda>n. up (unlink x ns n)" and ?d' = "\<lambda>n. dn (unlink x ns n)"
  have dist: "distinct (xs @ x # ys)" using assms by (rule chain_distinct)
  note node = chain_node [OF assms]
  have no: "up (ns x) \<noteq> Some x" "dn (ns x) \<noteq> Some x"
    using dist unfolding node by (auto dest: lasto_Some_in hdo_Some_in)
  note f = unlink_fields [where x = x and ns = ns, OF no]
  have segs: "dll ?u ?d None xs (Some x)" "dll ?u ?d (Some x) ys None"
    using assms by (simp_all add: chain_def dll_append)
  have "dll ?u' ?d' None xs (hdo None ys)"
    by (rule dll_new_below [OF segs(1)])
      (use dist in \<open>auto simp: f node dest: hdo_Some_in\<close>)
  moreover have "dll ?u' ?d' (lasto None xs) ys None"
    by (rule dll_new_above [OF segs(2)])
      (use dist in \<open>auto simp: f node dest: lasto_Some_in\<close>)
  ultimately show ?thesis using dist by (simp add: chain_def dll_append)
qed

lemma unlink_other:
  assumes "chain ns (xs @ x # ys)" "n \<notin> set (xs @ x # ys)"
  shows "unlink x ns n = ns n"
proof -
  note node = chain_node [OF assms(1)]
  have "up (ns x) \<noteq> Some n" "dn (ns x) \<noteq> Some n"
    using assms(2) unfolding node by (auto dest: lasto_Some_in hdo_Some_in)
  moreover have "up (ns x) \<noteq> Some x"
    using chain_distinct [OF assms(1)] unfolding node by (auto dest: lasto_Some_in)
  ultimately show ?thesis
    by (auto simp: unlink_def unlink_up_def unlink_dn_def split: option.splits)
qed

theorem link_tail_chain:
  assumes "chain ns xs" "x \<notin> set xs"
  shows "chain (link_tail (lasto None xs) x ns) (xs @ [x])"
proof -
  let ?ns = "link_tail (lasto None xs) x ns"
  have no: "lasto None xs \<noteq> Some x" using assms(2) by (auto dest: lasto_Some_in)
  have f: "up (?ns n) = (if n = x then lasto None xs else up (ns n))"
    "dn (?ns n) = (if n = x then None else if lasto None xs = Some n then Some x else dn (ns n))"
    for n using no by (auto simp: link_tail_def Let_def split: option.splits)
  have "dll (\<lambda>n. up (?ns n)) (\<lambda>n. dn (?ns n)) None xs (Some x)"
    by (rule dll_new_below [where up = "\<lambda>n. up (ns n)" and dn = "\<lambda>n. dn (ns n)" and q = None])
      (use assms in \<open>auto simp: f chain_def\<close>)
  then show ?thesis using assms by (simp add: chain_def dll_append f)
qed

theorem link_head_chain:
  assumes "chain ns xs" "x \<notin> set xs"
  shows "chain (link_head (hdo None xs) x ns) (x # xs)"
proof -
  let ?ns = "link_head (hdo None xs) x ns"
  have no: "hdo None xs \<noteq> Some x" using assms(2) by (auto dest: hdo_Some_in)
  have f: "dn (?ns n) = (if n = x then hdo None xs else dn (ns n))"
    "up (?ns n) = (if n = x then None else if hdo None xs = Some n then Some x else up (ns n))"
    for n using no by (auto simp: link_head_def Let_def split: option.splits)
  have "dll (\<lambda>n. up (?ns n)) (\<lambda>n. dn (?ns n)) (Some x) xs None"
    by (rule dll_new_above [where up = "\<lambda>n. up (ns n)" and dn = "\<lambda>n. dn (ns n)" and p = None])
      (use assms in \<open>auto simp: f chain_def\<close>)
  then show ?thesis using assms by (simp add: chain_def f)
qed

lemma link_tail_other:
  "n \<noteq> x \<Longrightarrow> t \<noteq> Some n \<Longrightarrow> link_tail t x ns n = ns n"
  by (auto simp: link_tail_def Let_def split: option.splits)

lemma link_head_other:
  "n \<noteq> x \<Longrightarrow> h \<noteq> Some n \<Longrightarrow> link_head h x ns n = ns n"
  by (auto simp: link_head_def Let_def split: option.splits)

end

section \<open>The two pairs of fields\<close>

text \<open>What a node holds besides a pair of links.\<close>

definition node_data :: "cache_set \<Rightarrow> u32 \<times> u32 \<times> bytes" where
  "node_data c = (blk c, flags c, buf c)"

interpretation stk: links stack_up stack_down
    "\<lambda>v. stack_up_update (\<lambda>_. v)" "\<lambda>v. stack_down_update (\<lambda>_. v)"
    "\<lambda>c. (node_data c, hash_up c, hash_down c)"
  by unfold_locales (simp_all add: node_data_def)

interpretation hsh: links hash_up hash_down
    "\<lambda>v. hash_up_update (\<lambda>_. v)" "\<lambda>v. hash_down_update (\<lambda>_. v)"
    "\<lambda>c. (node_data c, stack_up c, stack_down c)"
  by unfold_locales (simp_all add: node_data_def)

end
