(* ===== verification/Frag_Cache.thy ===== *)
theory Frag_Cache
  imports Block_Device Cache_Links
begin

text \<open>
  The frag cache of fs/cache.c, on its pointer structure: every node sits in the LRU stack
  and in one of the sixteen hash chains. This theory holds the operations, \<open>Cache_Structure\<close>
  relates them to lists of nodes and \<open>Cache_Correct\<close> proves what they do to the contents of
  the file system.
\<close>

section \<open>Hashing and lookup\<close>

definition HASH_SIZE :: nat where
  "HASH_SIZE = 16"

definition CACHE_SIZE_MIN :: int where
  "CACHE_SIZE_MIN = 8"

definition cache_hash :: "u32 \<Rightarrow> nat" where
  "cache_hash b =
     (let b = b XOR drop_bit 16 b;
          b = b XOR drop_bit 8 b;
          b = b XOR drop_bit 4 b
      in unat (b AND 15))"

definition upd_node :: "nat \<Rightarrow> (cache_set \<Rightarrow> cache_set) \<Rightarrow> frag_cache \<Rightarrow> frag_cache" where
  "upd_node n f c = c\<lparr>nodes := (nodes c)(n := f (nodes c n))\<rparr>"

text \<open>The walk down a hash chain; \<open>None\<close> when the chain is cyclic and \<open>b\<close> is not on it.\<close>

partial_function (option) hash_walk ::
    "(nat \<Rightarrow> cache_set) \<Rightarrow> nat option \<Rightarrow> u32 \<Rightarrow> nat option option" where
  "hash_walk ns temp b =
     (case temp of None \<Rightarrow> Some None
      | Some t \<Rightarrow> if blk (ns t) = b then Some (Some t) else hash_walk ns (hash_down (ns t)) b)"

definition cache_node :: "u32 \<Rightarrow> frag_cache \<Rightarrow> nat option option" where
  "cache_node b c = hash_walk (nodes c) (hashtable c ! cache_hash b) b"

section \<open>Adding, removing and refreshing a node\<close>

text \<open>The sections that the C code marks \<open>stack add\<close>, \<open>hash add\<close>, \<open>stack remove\<close> and
  \<open>hash remove\<close>.\<close>

definition stack_add :: "nat \<Rightarrow> frag_cache \<Rightarrow> frag_cache" where
  "stack_add n c =
     (let t = cache_stack_tail c;
          c = upd_node n (\<lambda>x. x\<lparr>stack_up := t, stack_down := None\<rparr>) c;
          c = (case t of None \<Rightarrow> c\<lparr>cache_stack := Some n\<rparr>
               | Some a \<Rightarrow> upd_node a (\<lambda>x. x\<lparr>stack_down := Some n\<rparr>) c)
      in c\<lparr>cache_stack_tail := Some n\<rparr>)"

definition hash_add :: "nat \<Rightarrow> frag_cache \<Rightarrow> frag_cache" where
  "hash_add n c =
     (let index = cache_hash (blk (nodes c n));
          h = hashtable c ! index;
          c = (case h of None \<Rightarrow> c | Some a \<Rightarrow> upd_node a (\<lambda>x. x\<lparr>hash_up := Some n\<rparr>) c);
          c = upd_node n (\<lambda>x. x\<lparr>hash_up := None, hash_down := h\<rparr>) c
      in c\<lparr>hashtable := (hashtable c)[index := Some n]\<rparr>)"

definition cache_add :: "nat \<Rightarrow> frag_cache \<Rightarrow> frag_cache" where
  "cache_add n c =
     (let c = hash_add n (stack_add n c)
      in if blk (nodes c n) \<noteq> 0 then c\<lparr>cache_used := cache_used c + 1\<rparr> else c)"

definition stack_remove :: "nat \<Rightarrow> frag_cache \<Rightarrow> frag_cache" where
  "stack_remove n c =
     (let c = (case stack_up (nodes c n) of
                 None \<Rightarrow> c\<lparr>cache_stack := stack_down (nodes c n)\<rparr>
               | Some a \<Rightarrow> upd_node a (\<lambda>x. x\<lparr>stack_down := stack_down (nodes c n)\<rparr>) c)
      in case stack_down (nodes c n) of
           None \<Rightarrow> c\<lparr>cache_stack_tail := stack_up (nodes c n)\<rparr>
         | Some b \<Rightarrow> upd_node b (\<lambda>x. x\<lparr>stack_up := stack_up (nodes c n)\<rparr>) c)"

definition hash_remove :: "nat \<Rightarrow> frag_cache \<Rightarrow> frag_cache" where
  "hash_remove n c =
     (let c = (case hash_up (nodes c n) of
                 None \<Rightarrow> c\<lparr>hashtable :=
                   (hashtable c)[cache_hash (blk (nodes c n)) := hash_down (nodes c n)]\<rparr>
               | Some a \<Rightarrow> upd_node a (\<lambda>x. x\<lparr>hash_down := hash_down (nodes c n)\<rparr>) c)
      in case hash_down (nodes c n) of None \<Rightarrow> c
         | Some b \<Rightarrow> upd_node b (\<lambda>x. x\<lparr>hash_up := hash_up (nodes c n)\<rparr>) c)"

definition cache_remove :: "nat \<Rightarrow> frag_cache \<Rightarrow> frag_cache" where
  "cache_remove n c =
     (let c = hash_remove n (stack_remove n c)
      in if blk (nodes c n) \<noteq> 0 then c\<lparr>cache_used := cache_used c - 1\<rparr> else c)"

text \<open>\<open>None\<close>: the node is not the tail and has no successor, a NULL dereference.\<close>

definition cache_refresh :: "nat \<Rightarrow> frag_cache \<Rightarrow> frag_cache option" where
  "cache_refresh n c =
     (if cache_stack_tail c = Some n then Some c
      else if stack_down (nodes c n) = None \<or> cache_stack_tail c = None then None
      else Some (stack_add n (stack_remove n c)))"

section \<open>Flushing\<close>

text \<open>The nodes of the stack, from the least recently used one down.\<close>

partial_function (option) stack_walk ::
    "(nat \<Rightarrow> cache_set) \<Rightarrow> nat option \<Rightarrow> nat list option" where
  "stack_walk ns temp =
     (case temp of None \<Rightarrow> Some []
      | Some t \<Rightarrow> Option.bind (stack_walk ns (stack_down (ns t))) (\<lambda>xs. Some (t # xs)))"

text \<open>The ordered insertion into the list of blocks to write.\<close>

fun cache_insert :: "(nat \<Rightarrow> cache_set) \<Rightarrow> nat \<Rightarrow> nat list \<Rightarrow> nat list" where
  "cache_insert ns node [] = [node]"
| "cache_insert ns node (p # ps) =
     (if blk (ns node) \<le> blk (ns p) then node # p # ps else p # cache_insert ns node ps)"

definition is_dirty :: "cache_set \<Rightarrow> bool" where
  "is_dirty x \<longleftrightarrow> flags x AND CACHE_DIRTY \<noteq> 0"

text \<open>The first loop of \<open>cache_flush\<close>: the list, the number of entries, and whether a
  dirty node without a block was met.\<close>

fun flush_collect :: "(nat \<Rightarrow> cache_set) \<Rightarrow> nat list \<Rightarrow> nat list \<Rightarrow> nat \<Rightarrow> bool \<Rightarrow>
    nat list \<times> nat \<times> bool" where
  "flush_collect ns [] head flushed bad = (head, flushed, bad)"
| "flush_collect ns (t # ts) head flushed bad =
     (if is_dirty (ns t) then
        if blk (ns t) = 0 then flush_collect ns ts head flushed True
        else flush_collect ns ts (cache_insert ns t head) (Suc flushed) bad
      else flush_collect ns ts head flushed bad)"

text \<open>The second loop: a write fault is only reported, the node is clean afterwards.\<close>

fun flush_write :: "nat list \<Rightarrow> fsys \<Rightarrow> fsys" where
  "flush_write [] s = s"
| "flush_write (n # ns) s =
     (let s = s\<lparr>fc := upd_node n (\<lambda>x. x\<lparr>flags := CACHE_CLEAN\<rparr>) (fc s)\<rparr>;
          (err, s) = data_write (frag_buf s n) (blk (nodes (fc s) n)) 1 s
      in flush_write ns s)"

text \<open>The result is the number of frags written; with nothing to do the C function returns
  without a value.\<close>

definition cache_flush :: "fsys \<Rightarrow> (nat option \<times> fsys) option" where
  "cache_flush s =
     (if cache_item_dirty (fc s) = 0 then Some (None, s) else
      do {
        ts \<leftarrow> stack_walk (nodes (fc s)) (cache_stack (fc s));
        let (head, flushed, bad) = flush_collect (nodes (fc s)) ts [] 0 False;
        let s = (if bad \<or> cache_item_dirty (fc s) \<noteq> int flushed then stop_packets s else s);
        let s = flush_write head s;
        Some (Some flushed, s\<lparr>fc := (fc s)\<lparr>cache_item_dirty := 0\<rparr>\<rparr>)
      })"

section \<open>Finding a node for a new block\<close>

text \<open>Both loops of \<open>cache_cycle_dirty\<close>: dirty nodes at the head go to the tail.\<close>

partial_function (option) rotate_dirty :: "nat option \<Rightarrow> frag_cache \<Rightarrow> frag_cache option" where
  "rotate_dirty node c =
     (case cache_stack c of None \<Rightarrow> None
      | Some h \<Rightarrow>
          if flags (nodes c h) = CACHE_CLEAN then Some c
          else Option.bind (cache_refresh h c)
                 (\<lambda>c. if cache_stack c = node then Some c else rotate_dirty node c))"

definition head_clean :: "frag_cache \<Rightarrow> bool" where
  "head_clean c =
     (case cache_stack c of None \<Rightarrow> False | Some h \<Rightarrow> flags (nodes c h) = CACHE_CLEAN)"

text \<open>The part behind the label \<open>do_cache_flush\<close>. When it is reached by the jump, the
  variable \<open>node\<close> has no value yet; the model has \<open>None\<close> there, a pointer to no node.\<close>

definition do_cache_flush :: "nat option \<Rightarrow> fsys \<Rightarrow> fsys option" where
  "do_cache_flush node s =
     do {
       (r, s) \<leftarrow> cache_flush s;
       c \<leftarrow> rotate_dirty node (fc s);
       let s = s\<lparr>fc := c\<rparr>;
       Some (if head_clean c then s else stop_packets s)
     }"

definition cache_cycle_dirty :: "fsys \<Rightarrow> fsys option" where
  "cache_cycle_dirty s =
     (case cache_stack (fc s) of None \<Rightarrow> Some s
      | Some node \<Rightarrow>
          if cache_item_dirty (fc s) > cache_size (fc s) * 3 div 4 then do_cache_flush None s
          else do {
            c \<leftarrow> rotate_dirty (Some node) (fc s);
            let s = s\<lparr>fc := c\<rparr>;
            if head_clean c then Some s else do_cache_flush (Some node) s
          })"

definition cache_getnode :: "u32 \<Rightarrow> fsys \<Rightarrow> (nat option \<times> fsys) option" where
  "cache_getnode b s =
     (case cache_stack (fc s) of None \<Rightarrow> Some (None, s)
      | Some h \<Rightarrow>
          do {
            s \<leftarrow> (if flags (nodes (fc s) h) \<noteq> CACHE_CLEAN then cache_cycle_dirty s else Some s);
            case cache_stack (fc s) of None \<Rightarrow> None
            | Some n \<Rightarrow>
                if is_dirty (nodes (fc s) n) then Some (None, s)
                else Some (Some n, s\<lparr>fc := upd_node n (\<lambda>x. x\<lparr>blk := b, flags := CACHE_CLEAN\<rparr>)
                                           (cache_remove n (fc s))\<rparr>)
          })"

section \<open>The interface of the cache\<close>

text \<open>
  A pointer to the buffer of a frag is its node. \<open>cache_frag\<close> does not check the result of
  \<open>cache_getnode\<close>: without a node it dereferences NULL. When the read fails the node has
  already been taken out of the cache.
\<close>

definition cache_frag :: "u32 \<Rightarrow> fsys \<Rightarrow> (nat option \<times> fsys) option" where
  "cache_frag b s =
     do {
       hit \<leftarrow> cache_node b (fc s);
       case hit of
         Some n \<Rightarrow> do { c \<leftarrow> cache_refresh n (fc s); Some (Some n, s\<lparr>fc := c\<rparr>) }
       | None \<Rightarrow>
           do {
             (node, s) \<leftarrow> cache_getnode b s;
             n \<leftarrow> node;
             let (d, s) = data_read (blk (nodes (fc s) n)) 1 s;
             case d of None \<Rightarrow> Some (None, s)
             | Some bs \<Rightarrow>
                 Some (Some n, s\<lparr>fc := cache_add n (upd_node n (\<lambda>x. x\<lparr>buf := bs\<rparr>) (fc s))\<rparr>)
           }
     }"

definition cache_available :: "u32 \<Rightarrow> fsys \<Rightarrow> (nat option \<times> fsys) option" where
  "cache_available b s =
     do {
       hit \<leftarrow> cache_node b (fc s);
       case hit of
         Some n \<Rightarrow> do { c \<leftarrow> cache_refresh n (fc s); Some (Some n, s\<lparr>fc := c\<rparr>) }
       | None \<Rightarrow> Some (None, s)
     }"

text \<open>Setting the dirty flag and counting it.\<close>

definition mark_dirty :: "nat \<Rightarrow> frag_cache \<Rightarrow> frag_cache" where
  "mark_dirty n c =
     (if is_dirty (nodes c n) then c
      else (upd_node n (\<lambda>x. x\<lparr>flags := flags x OR CACHE_DIRTY\<rparr>) c)
             \<lparr>cache_item_dirty := cache_item_dirty c + 1\<rparr>)"

definition cache_frag_write :: "u32 \<Rightarrow> bool \<Rightarrow> fsys \<Rightarrow> (nat option \<times> fsys) option" where
  "cache_frag_write b readflag s =
     do {
       hit \<leftarrow> cache_node b (fc s);
       case hit of
         Some n \<Rightarrow> do { c \<leftarrow> cache_refresh n (fc s); Some (Some n, s\<lparr>fc := mark_dirty n c\<rparr>) }
       | None \<Rightarrow>
           do {
             (node, s) \<leftarrow> cache_getnode b s;
             n \<leftarrow> node;
             let (d, s) = (if readflag then data_read (blk (nodes (fc s) n)) 1 s
                           else (Some (frag_buf s n), s));
             case d of None \<Rightarrow> Some (None, s)
             | Some bs \<Rightarrow>
                 Some (Some n, s\<lparr>fc := mark_dirty n
                         (cache_add n (upd_node n (\<lambda>x. x\<lparr>buf := bs\<rparr>) (fc s)))\<rparr>)
           }
     }"

definition cache_invalidate :: "u32 \<Rightarrow> fsys \<Rightarrow> (unit \<times> fsys) option" where
  "cache_invalidate b s =
     do {
       hit \<leftarrow> cache_node b (fc s);
       case hit of
         None \<Rightarrow> Some ((), s)
       | Some n \<Rightarrow>
           (let c = cache_remove n (fc s);
                c = upd_node n (\<lambda>x. x\<lparr>blk := 0\<rparr>) c;
                c = (if is_dirty (nodes c n)
                     then c\<lparr>cache_item_dirty := cache_item_dirty c - 1\<rparr> else c);
                c = upd_node n (\<lambda>x. x\<lparr>flags := CACHE_CLEAN\<rparr>) c
            in Some ((), s\<lparr>fc := cache_add n c\<rparr>))
     }"

text \<open>\<open>cache_full_invalidate\<close> forgets the block of every node but leaves it on its hash
  chain.\<close>

fun forget_nodes :: "nat list \<Rightarrow> frag_cache \<Rightarrow> frag_cache" where
  "forget_nodes [] c = c"
| "forget_nodes (n # ns) c =
     forget_nodes ns (upd_node n (\<lambda>x. x\<lparr>flags := CACHE_CLEAN, blk := 0\<rparr>) c)"

definition cache_full_invalidate :: "fsys \<Rightarrow> (unit \<times> fsys) option" where
  "cache_full_invalidate s =
     do {
       ts \<leftarrow> stack_walk (nodes (fc s)) (cache_stack (fc s));
       Some ((), s\<lparr>fc := (forget_nodes ts (fc s))\<lparr>cache_item_dirty := 0\<rparr>\<rparr>)
     }"

definition cache_frag_move :: "u32 \<Rightarrow> u32 \<Rightarrow> fsys \<Rightarrow> (unit \<times> fsys) option" where
  "cache_frag_move to_blk from_blk s =
     do {
       hit \<leftarrow> cache_node from_blk (fc s);
       (node, s) \<leftarrow>
         (case hit of
            Some n \<Rightarrow> Some (Some n, s\<lparr>fc := cache_remove n (fc s)\<rparr>)
          | None \<Rightarrow>
              do {
                (node, s) \<leftarrow> cache_getnode from_blk s;
                case node of None \<Rightarrow> Some (None, set_ronly s)
                | Some n \<Rightarrow>
                    (let (d, s) = data_read (blk (nodes (fc s) n)) 1 s
                     in case d of None \<Rightarrow> Some (Some n, s)
                        | Some bs \<Rightarrow>
                            Some (Some n, s\<lparr>fc := upd_node n (\<lambda>x. x\<lparr>buf := bs\<rparr>) (fc s)\<rparr>))
              });
       case node of None \<Rightarrow> Some ((), s)
       | Some n \<Rightarrow>
           (let c = upd_node n (\<lambda>x. x\<lparr>blk := to_blk\<rparr>) (fc s);
                c = (if is_dirty (nodes c n) then c
                     else (upd_node n (\<lambda>x. x\<lparr>flags := CACHE_DIRTY\<rparr>) c)
                            \<lparr>cache_item_dirty := cache_item_dirty c + 1\<rparr>)
            in Some ((), s\<lparr>fc := cache_add n c\<rparr>))
     }"

section \<open>Allocating and freeing nodes\<close>

text \<open>A new node has no links and a buffer of \<open>FSIZE\<close> bytes whose contents are not
  initialised; the model has zeros there.\<close>

definition fresh_node :: "nat \<Rightarrow> cache_set" where
  "fresh_node fs = \<lparr>blk = 0, flags = CACHE_CLEAN, buf = replicate fs 0,
     stack_up = None, stack_down = None, hash_up = None, hash_down = None\<rparr>"

definition cache_alloc :: "fsys \<Rightarrow> nat option \<times> fsys" where
  "cache_alloc s =
     (let (ok, s) = alloc_mem s in
      if \<not> ok then (None, s) else
      let (ok, s) = alloc_mem s in
      if \<not> ok then (None, s) else
      let n = node_brk (fc s);
          c = (upd_node n (\<lambda>_. fresh_node (unat (fsize (hnd s)))) (fc s))
                \<lparr>node_brk := Suc n, cache_alloced := cache_alloced (fc s) + 1\<rparr>
      in (Some n, s\<lparr>fc := c\<rparr>))"

definition cache_free :: "nat \<Rightarrow> frag_cache \<Rightarrow> frag_cache" where
  "cache_free n c = c\<lparr>cache_alloced := cache_alloced c - 1\<rparr>"

text \<open>
  The first loop of \<open>cache_adjust\<close>. The second component of the result is true when the
  loop gave up with \<open>return\<close>. \<open>tries\<close> counts the failed allocations of one round.
\<close>

definition cache_alloc_retry :: "fsys \<Rightarrow> nat option \<times> bool \<times> fsys" where
  "cache_alloc_retry s =
     (let (node, s) = cache_alloc s in
      case node of Some n \<Rightarrow> (Some n, False, s)
      | None \<Rightarrow>
          if cache_alloced (fc s) \<le> CACHE_SIZE_MIN then
            (let (node, s) = cache_alloc s in
             case node of Some n \<Rightarrow> (Some n, False, s)
             | None \<Rightarrow>
                 (None, True, set_ronly
                    (if cache_alloced (fc s) = 0 then stop_packets s else s)))
          else (None, False, s))"

fun cache_grow :: "nat \<Rightarrow> fsys \<Rightarrow> bool \<times> fsys" where
  "cache_grow 0 s = (False, s)"
| "cache_grow (Suc k) s =
     (let (node, gave_up, s) = cache_alloc_retry s in
      case node of Some n \<Rightarrow> cache_grow k (s\<lparr>fc := cache_add n (fc s)\<rparr>)
      | None \<Rightarrow> (gave_up, s))"

text \<open>The second loop: \<open>shrink_rotate\<close> looks for a clean node at the head and flushes the
  cache when there is none.\<close>

partial_function (option) shrink_rotate :: "nat \<Rightarrow> fsys \<Rightarrow> fsys option" where
  "shrink_rotate node s =
     (case cache_stack (fc s) of None \<Rightarrow> None
      | Some h \<Rightarrow>
          if flags (nodes (fc s) h) = CACHE_CLEAN then Some s
          else Option.bind (cache_refresh h (fc s))
                 (\<lambda>c. if cache_stack c = Some node
                      then Option.bind (cache_flush (s\<lparr>fc := c\<rparr>)) (\<lambda>(r, s). Some s)
                      else shrink_rotate node (s\<lparr>fc := c\<rparr>)))"

fun cache_shrink :: "nat \<Rightarrow> fsys \<Rightarrow> fsys option" where
  "cache_shrink 0 s = Some s"
| "cache_shrink (Suc k) s =
     (case cache_stack (fc s) of None \<Rightarrow> Some s
      | Some h \<Rightarrow>
          do {
            s \<leftarrow> shrink_rotate h s;
            case cache_stack (fc s) of None \<Rightarrow> Some s
            | Some n \<Rightarrow> cache_shrink k (s\<lparr>fc := cache_free n (cache_remove n (fc s))\<rparr>)
          })"

definition cache_adjust :: "fsys \<Rightarrow> (unit \<times> fsys) option" where
  "cache_adjust s =
     (let s = s\<lparr>fc := (fc s)\<lparr>cache_size := max (cache_size (fc s)) CACHE_SIZE_MIN\<rparr>\<rparr>;
          (gave_up, s) = cache_grow (nat (cache_size (fc s) - cache_alloced (fc s))) s
      in if gave_up then Some ((), s)
         else do {
           s \<leftarrow> cache_shrink (nat (cache_alloced (fc s) - cache_size (fc s))) s;
           Some ((), s)
         })"

definition CACHE_CG_MAX :: nat where
  "CACHE_CG_MAX = 16"

text \<open>\<open>de_NumBuffers\<close> is the number of buffers of the mount list entry.\<close>

definition open_cache :: "int \<Rightarrow> fsys \<Rightarrow> (unit \<times> fsys) option" where
  "open_cache de_NumBuffers s =
     cache_adjust
       (s\<lparr>fc := (fc s)\<lparr>hashtable := replicate HASH_SIZE None, cache_stack := None,
                      cache_stack_tail := None, cache_alloced := 0, cache_used := 0,
                      cache_item_dirty := 0,
                      cache_size := max de_NumBuffers CACHE_SIZE_MIN\<rparr>,
          cgc := (cgc s)\<lparr>cache_cg_data := replicate CACHE_CG_MAX None\<rparr>\<rparr>)"

definition close_cache :: "fsys \<Rightarrow> (unit \<times> fsys) option" where
  "close_cache s =
     do {
       ts \<leftarrow> stack_walk (nodes (fc s)) (cache_stack (fc s));
       let c = fold cache_free ts (fc s);
       Some ((), s\<lparr>fc := c\<lparr>cache_stack := None, hashtable := replicate HASH_SIZE None,
                          cache_item_dirty := 0, cache_stack_tail := None, cache_used := 0\<rparr>,
                   cgc := (cgc s)\<lparr>cache_cg_data := replicate CACHE_CG_MAX None\<rparr>\<rparr>)
     }"

end
