(* ===== verification/Cache_Structure.thy ===== *)
theory Cache_Structure
  imports Frag_Cache
begin

text \<open>
  The pointer structure of the frag cache and the lists it stands for. \<open>cache_rep c S H\<close>:
  the LRU stack holds the nodes \<open>S\<close>, least recently used first, and hash chain \<open>i\<close> the
  nodes \<open>H i\<close>. Adding, removing and refreshing a node are list operations on \<open>S\<close> and
  \<open>H\<close>; the walks over the chain and over the stack return what the lists say.
\<close>

section \<open>The operations on the links\<close>

lemma cache_hash_bound [simp]: "cache_hash b < HASH_SIZE"
proof -
  have le: "unat (x AND 15 :: u32) \<le> unat (15 :: u32)" for x
    by (rule word_and_le1 [THEN word_le_nat_alt [THEN iffD1]])
  have "unat (x AND 15 :: u32) < 16" for x using le [of x] by simp
  then show ?thesis unfolding cache_hash_def HASH_SIZE_def Let_def .
qed

definition used_bit :: "cache_set \<Rightarrow> int" where
  "used_bit x = (if blk x \<noteq> 0 then 1 else 0)"

lemma nodes_upd_node [simp]: "nodes (upd_node n f c) = (nodes c)(n := f (nodes c n))"
  by (simp add: upd_node_def)

lemma upd_node_fields [simp]:
  "cache_stack (upd_node n f c) = cache_stack c"
  "cache_stack_tail (upd_node n f c) = cache_stack_tail c"
  "hashtable (upd_node n f c) = hashtable c"
  "node_brk (upd_node n f c) = node_brk c"
  "cache_alloced (upd_node n f c) = cache_alloced c"
  "cache_item_dirty (upd_node n f c) = cache_item_dirty c"
  "cache_size (upd_node n f c) = cache_size c"
  "cache_used (upd_node n f c) = cache_used c"
  by (simp_all add: upd_node_def)

lemma stack_add_nodes:
  "nodes (stack_add n c) = stk.link_tail (cache_stack_tail c) n (nodes c)"
  by (simp add: stack_add_def Let_def stk.link_tail_def split: option.splits)

lemma hash_add_nodes:
  "nodes (hash_add n c) =
     hsh.link_head (hashtable c ! cache_hash (blk (nodes c n))) n (nodes c)"
  by (simp add: hash_add_def Let_def hsh.link_head_def split: option.splits)

lemma stack_remove_nodes: "nodes (stack_remove n c) = stk.unlink n (nodes c)"
  by (simp add: stack_remove_def Let_def stk.unlink_def stk.unlink_up_def stk.unlink_dn_def
      split: option.splits)

lemma hash_remove_nodes: "nodes (hash_remove n c) = hsh.unlink n (nodes c)"
  by (simp add: hash_remove_def Let_def hsh.unlink_def hsh.unlink_up_def hsh.unlink_dn_def
      split: option.splits)

lemma stack_add_fields [simp]:
  "cache_stack (stack_add n c) =
     (case cache_stack_tail c of None \<Rightarrow> Some n | Some _ \<Rightarrow> cache_stack c)"
  "cache_stack_tail (stack_add n c) = Some n"
  "hashtable (stack_add n c) = hashtable c"
  "node_brk (stack_add n c) = node_brk c"
  "cache_alloced (stack_add n c) = cache_alloced c"
  "cache_item_dirty (stack_add n c) = cache_item_dirty c"
  "cache_size (stack_add n c) = cache_size c"
  "cache_used (stack_add n c) = cache_used c"
  by (simp_all add: stack_add_def Let_def split: option.splits)

lemma hash_add_fields [simp]:
  "cache_stack (hash_add n c) = cache_stack c"
  "cache_stack_tail (hash_add n c) = cache_stack_tail c"
  "hashtable (hash_add n c) = (hashtable c)[cache_hash (blk (nodes c n)) := Some n]"
  "node_brk (hash_add n c) = node_brk c"
  "cache_alloced (hash_add n c) = cache_alloced c"
  "cache_item_dirty (hash_add n c) = cache_item_dirty c"
  "cache_size (hash_add n c) = cache_size c"
  "cache_used (hash_add n c) = cache_used c"
  by (simp_all add: hash_add_def Let_def split: option.splits)

lemma stack_remove_fields [simp]:
  "cache_stack (stack_remove n c) =
     (case stack_up (nodes c n) of None \<Rightarrow> stack_down (nodes c n) | Some _ \<Rightarrow> cache_stack c)"
  "cache_stack_tail (stack_remove n c) =
     (case stack_down (stk.unlink_up n (nodes c) n) of
        None \<Rightarrow> stack_up (nodes c n) | Some _ \<Rightarrow> cache_stack_tail c)"
  "hashtable (stack_remove n c) = hashtable c"
  "node_brk (stack_remove n c) = node_brk c"
  "cache_alloced (stack_remove n c) = cache_alloced c"
  "cache_item_dirty (stack_remove n c) = cache_item_dirty c"
  "cache_size (stack_remove n c) = cache_size c"
  "cache_used (stack_remove n c) = cache_used c"
  by (auto simp: stack_remove_def Let_def stk.unlink_up_def split: option.splits)

lemma hash_remove_fields [simp]:
  "cache_stack (hash_remove n c) = cache_stack c"
  "cache_stack_tail (hash_remove n c) = cache_stack_tail c"
  "hashtable (hash_remove n c) =
     (case hash_up (nodes c n) of
        None \<Rightarrow> (hashtable c)[cache_hash (blk (nodes c n)) := hash_down (nodes c n)]
      | Some _ \<Rightarrow> hashtable c)"
  "node_brk (hash_remove n c) = node_brk c"
  "cache_alloced (hash_remove n c) = cache_alloced c"
  "cache_item_dirty (hash_remove n c) = cache_item_dirty c"
  "cache_size (hash_remove n c) = cache_size c"
  "cache_used (hash_remove n c) = cache_used c"
  by (simp_all add: hash_remove_def Let_def split: option.splits)

lemma stk_data [simp]:
  "node_data (stk.unlink n ns m) = node_data (ns m)"
  "node_data (stk.link_tail t n ns m) = node_data (ns m)"
  using stk.rest_unlink [of n ns m] stk.rest_link_tail [of t n ns m] by simp_all

lemma hsh_data [simp]:
  "node_data (hsh.unlink n ns m) = node_data (ns m)"
  "node_data (hsh.link_head t n ns m) = node_data (ns m)"
  using hsh.rest_unlink [of n ns m] hsh.rest_link_head [of t n ns m] by simp_all

lemma node_data_eq:
  "node_data x = node_data y \<longleftrightarrow> blk x = blk y \<and> flags x = flags y \<and> buf x = buf y"
  by (simp add: node_data_def)

lemmas stk_data_fields [simp] = stk_data [unfolded node_data_eq]
lemmas hsh_data_fields [simp] = hsh_data [unfolded node_data_eq]

lemma cache_add_nodes:
  "nodes (cache_add n c) =
     hsh.link_head (hashtable c ! cache_hash (blk (nodes c n))) n
       (stk.link_tail (cache_stack_tail c) n (nodes c))"
  by (simp add: cache_add_def Let_def hash_add_nodes stack_add_nodes)

lemma cache_add_fields [simp]:
  "cache_stack (cache_add n c) =
     (case cache_stack_tail c of None \<Rightarrow> Some n | Some _ \<Rightarrow> cache_stack c)"
  "cache_stack_tail (cache_add n c) = Some n"
  "hashtable (cache_add n c) = (hashtable c)[cache_hash (blk (nodes c n)) := Some n]"
  "node_brk (cache_add n c) = node_brk c"
  "cache_alloced (cache_add n c) = cache_alloced c"
  "cache_item_dirty (cache_add n c) = cache_item_dirty c"
  "cache_size (cache_add n c) = cache_size c"
  "cache_used (cache_add n c) = cache_used c + used_bit (nodes c n)"
  by (simp_all add: cache_add_def Let_def used_bit_def stack_add_nodes hash_add_nodes)

lemma cache_remove_nodes:
  "nodes (cache_remove n c) = hsh.unlink n (stk.unlink n (nodes c))"
  by (simp add: cache_remove_def Let_def stack_remove_nodes hash_remove_nodes)

lemma stk_hash_fields [simp]:
  "hash_up (stk.unlink n ns m) = hash_up (ns m)"
  "hash_down (stk.unlink n ns m) = hash_down (ns m)"
  "hash_up (stk.link_tail t n ns m) = hash_up (ns m)"
  "hash_down (stk.link_tail t n ns m) = hash_down (ns m)"
  using stk.rest_unlink [of n ns m] stk.rest_link_tail [of t n ns m] by simp_all

lemma cache_remove_fields [simp]:
  "cache_stack (cache_remove n c) =
     (case stack_up (nodes c n) of None \<Rightarrow> stack_down (nodes c n) | Some _ \<Rightarrow> cache_stack c)"
  "cache_stack_tail (cache_remove n c) =
     (case stack_down (stk.unlink_up n (nodes c) n) of
        None \<Rightarrow> stack_up (nodes c n) | Some _ \<Rightarrow> cache_stack_tail c)"
  "hashtable (cache_remove n c) =
     (case hash_up (nodes c n) of
        None \<Rightarrow> (hashtable c)[cache_hash (blk (nodes c n)) := hash_down (nodes c n)]
      | Some _ \<Rightarrow> hashtable c)"
  "node_brk (cache_remove n c) = node_brk c"
  "cache_alloced (cache_remove n c) = cache_alloced c"
  "cache_item_dirty (cache_remove n c) = cache_item_dirty c"
  "cache_size (cache_remove n c) = cache_size c"
  "cache_used (cache_remove n c) = cache_used c - used_bit (nodes c n)"
  by (simp_all add: cache_remove_def Let_def used_bit_def stack_remove_nodes hash_remove_nodes
      split: option.splits)

text \<open>The links do not touch the block, the flags and the buffer of a node.\<close>

lemma cache_add_data: "node_data (nodes (cache_add n c) m) = node_data (nodes c m)"
  by (simp add: cache_add_nodes)

lemma cache_remove_data: "node_data (nodes (cache_remove n c) m) = node_data (nodes c m)"
  by (simp add: cache_remove_nodes)

lemmas cache_add_data_fields [simp] =
  cache_add_data [unfolded node_data_eq, THEN conjunct1]
  cache_add_data [unfolded node_data_eq, THEN conjunct2, THEN conjunct1]
  cache_add_data [unfolded node_data_eq, THEN conjunct2, THEN conjunct2]

lemmas cache_remove_data_fields [simp] =
  cache_remove_data [unfolded node_data_eq, THEN conjunct1]
  cache_remove_data [unfolded node_data_eq, THEN conjunct2, THEN conjunct1]
  cache_remove_data [unfolded node_data_eq, THEN conjunct2, THEN conjunct2]

lemma hsh_stack_fields [simp]:
  "stack_up (hsh.unlink n ns m) = stack_up (ns m)"
  "stack_down (hsh.unlink n ns m) = stack_down (ns m)"
  "stack_up (hsh.link_head t n ns m) = stack_up (ns m)"
  "stack_down (hsh.link_head t n ns m) = stack_down (ns m)"
  using hsh.rest_unlink [of n ns m] hsh.rest_link_head [of t n ns m] by simp_all

section \<open>The representation\<close>

definition cache_rep :: "frag_cache \<Rightarrow> nat list \<Rightarrow> (nat \<Rightarrow> nat list) \<Rightarrow> bool" where
  "cache_rep c S H \<longleftrightarrow>
     stk.chain (nodes c) S \<and> cache_stack c = hdo None S \<and> cache_stack_tail c = lasto None S \<and>
     length (hashtable c) = HASH_SIZE \<and>
     (\<forall>i < HASH_SIZE. hsh.chain (nodes c) (H i) \<and> hashtable c ! i = hdo None (H i) \<and>
        (\<forall>n \<in> set (H i). n \<in> set S \<and> cache_hash (blk (nodes c n)) = i)) \<and>
     (\<forall>n \<in> set S. n \<in> set (H (cache_hash (blk (nodes c n)))))"

lemma cache_rep_stack:
  "cache_rep c S H \<Longrightarrow> stk.chain (nodes c) S"
  "cache_rep c S H \<Longrightarrow> cache_stack c = hdo None S"
  "cache_rep c S H \<Longrightarrow> cache_stack_tail c = lasto None S"
  "cache_rep c S H \<Longrightarrow> distinct S"
  by (auto simp: cache_rep_def dest: stk.chain_distinct)

lemma cache_rep_hash:
  assumes "cache_rep c S H" "i < HASH_SIZE"
  shows "hsh.chain (nodes c) (H i)" "hashtable c ! i = hdo None (H i)"
    and "n \<in> set (H i) \<longleftrightarrow> n \<in> set S \<and> cache_hash (blk (nodes c n)) = i"
  using assms by (auto simp: cache_rep_def)

text \<open>Changing the data of nodes keeps the representation as long as no node changes its
  hash chain.\<close>

lemma cache_rep_cong:
  assumes "cache_rep c S H"
    and "cache_stack c' = cache_stack c" "cache_stack_tail c' = cache_stack_tail c"
    and "hashtable c' = hashtable c"
    and "\<And>n. n \<in> set S \<Longrightarrow> stack_up (nodes c' n) = stack_up (nodes c n) \<and>
           stack_down (nodes c' n) = stack_down (nodes c n) \<and>
           hash_up (nodes c' n) = hash_up (nodes c n) \<and>
           hash_down (nodes c' n) = hash_down (nodes c n) \<and>
           blk (nodes c' n) = blk (nodes c n)"
  shows "cache_rep c' S H"
proof -
  have "stk.chain (nodes c') S"
    using cache_rep_stack(1) [OF assms(1)] stk.chain_cong [of S "nodes c'" "nodes c"] assms(5)
    by simp
  moreover have "hsh.chain (nodes c') (H i)" if "i < HASH_SIZE" for i
    using cache_rep_hash(1) [OF assms(1) that] cache_rep_hash(3) [OF assms(1) that]
      hsh.chain_cong [of "H i" "nodes c'" "nodes c"] assms(5) by simp
  ultimately show ?thesis using assms by (auto simp: cache_rep_def)
qed

section \<open>Adding a node\<close>

theorem cache_add_rep:
  assumes rep: "cache_rep c S H" and new: "n \<notin> set S"
  shows "cache_rep (cache_add n c) (S @ [n])
    (H(cache_hash (blk (nodes c n)) := n # H (cache_hash (blk (nodes c n)))))"
proof -
  let ?h = "cache_hash (blk (nodes c n))"
  let ?ns = "stk.link_tail (cache_stack_tail c) n (nodes c)"
  have notH: "n \<notin> set (H i)" if "i < HASH_SIZE" for i
    using cache_rep_hash(3) [OF rep that] new by simp
  have "stk.chain ?ns (S @ [n])"
    using stk.link_tail_chain [OF cache_rep_stack(1) [OF rep] new] cache_rep_stack(3) [OF rep]
    by simp
  then have stack: "stk.chain (nodes (cache_add n c)) (S @ [n])"
    unfolding cache_add_nodes by (subst stk.chain_cong [where ns' = ?ns]) simp_all
  have old: "hsh.chain ?ns (H i)" if "i < HASH_SIZE" for i
    using cache_rep_hash(1) [OF rep that] hsh.chain_cong [of "H i" ?ns "nodes c"] by simp
  have new_chain: "hsh.chain (nodes (cache_add n c)) (n # H ?h)"
    using hsh.link_head_chain [OF old notH, of ?h] cache_rep_hash(2) [OF rep, of ?h]
    by (simp add: cache_add_nodes)
  have others: "hsh.chain (nodes (cache_add n c)) (H i)" if "i < HASH_SIZE" "i \<noteq> ?h" for i
  proof -
    have "nodes (cache_add n c) m = ?ns m" if "m \<in> set (H i)" for m
    proof -
      have "m \<noteq> n" using that notH \<open>i < HASH_SIZE\<close> by auto
      moreover have "hashtable c ! ?h \<noteq> Some m"
        using cache_rep_hash(2,3) [OF rep, of ?h] cache_rep_hash(3) [OF rep \<open>i < HASH_SIZE\<close>]
          that \<open>i \<noteq> ?h\<close> by (auto dest: hdo_Some_in)
      ultimately show ?thesis unfolding cache_add_nodes by (rule hsh.link_head_other)
    qed
    then show ?thesis
      using old [OF that(1)] hsh.chain_cong [of "H i" "nodes (cache_add n c)" ?ns] by simp
  qed
  have "cache_stack (cache_add n c) = hdo None (S @ [n])"
    using cache_rep_stack(2,3) [OF rep] by (cases S) (simp_all add: lasto_def)
  moreover have "\<forall>m \<in> set (H ?h). m \<in> set S" using cache_rep_hash(3) [OF rep, of ?h] by simp
  ultimately show ?thesis
    using rep stack new_chain others new
    by (auto simp: cache_rep_def nth_list_update)
qed

section \<open>Removing a node\<close>

lemma remove1_split: "distinct (xs @ x # ys) \<Longrightarrow> remove1 x (xs @ x # ys) = xs @ ys"
  by (simp add: remove1_append)

theorem cache_remove_rep:
  assumes rep: "cache_rep c S H" and "n \<in> set S"
  shows "cache_rep (cache_remove n c) (remove1 n S) (\<lambda>i. remove1 n (H i))"
proof -
  let ?h = "cache_hash (blk (nodes c n))" and ?ns = "stk.unlink n (nodes c)"
  have distS: "distinct S" using rep by (rule cache_rep_stack)
  obtain xs ys where S: "S = xs @ n # ys" using assms(2) by (auto dest: split_list)
  have rS: "remove1 n S = xs @ ys" using distS unfolding S by (rule remove1_split)
  have stkc: "stk.chain (nodes c) (xs @ n # ys)" using rep S by (simp add: cache_rep_def)
  note node = stk.chain_node [OF stkc]
  have "stk.chain ?ns (xs @ ys)" using stkc by (rule stk.unlink_chain)
  then have stack: "stk.chain (nodes (cache_remove n c)) (remove1 n S)"
    unfolding cache_remove_nodes rS by (subst stk.chain_cong [where ns' = ?ns]) simp_all
  have "n \<in> set (H ?h)" using cache_rep_hash(3) [OF rep, of ?h] assms(2) by simp
  then obtain us vs where H: "H ?h = us @ n # vs" by (auto dest: split_list)
  have old: "hsh.chain ?ns (H i)" if "i < HASH_SIZE" for i
    using cache_rep_hash(1) [OF rep that] hsh.chain_cong [of "H i" ?ns "nodes c"] by simp
  have hc: "hsh.chain ?ns (us @ n # vs)" using old [of ?h] H by simp
  note hnode = hsh.chain_node [OF hc]
  have rH: "remove1 n (H ?h) = us @ vs"
    using hsh.chain_distinct [OF hc] unfolding H by (rule remove1_split)
  have chains: "hsh.chain (nodes (cache_remove n c)) (remove1 n (H i))"
    and heads: "hashtable (cache_remove n c) ! i = hdo None (remove1 n (H i))"
    if i: "i < HASH_SIZE" for i
  proof -
    have "hsh.chain (nodes (cache_remove n c)) (remove1 n (H i)) \<and>
      hashtable (cache_remove n c) ! i = hdo None (remove1 n (H i))"
    proof (cases "i = ?h")
      case True
      have len: "length (hashtable c) = HASH_SIZE" using rep by (simp add: cache_rep_def)
      have "hashtable (cache_remove n c) ! ?h = hdo None (us @ vs)"
        using hnode cache_rep_hash(2) [OF rep, of ?h] len
        by (cases us) (simp_all add: H lasto_def)
      then show ?thesis
        using True hsh.unlink_chain [OF hc] by (simp add: cache_remove_nodes rH)
    next
      case False
      have nin: "n \<notin> set (H i)" using cache_rep_hash(3) [OF rep i] False by auto
      have "nodes (cache_remove n c) m = ?ns m" if "m \<in> set (H i)" for m
      proof -
        have "m \<notin> set (us @ n # vs)"
          using that cache_rep_hash(3) [OF rep i] cache_rep_hash(3) [OF rep, of ?h] False H
          by (metis cache_hash_bound)
        then show ?thesis unfolding cache_remove_nodes by (rule hsh.unlink_other [OF hc])
      qed
      then have "hsh.chain (nodes (cache_remove n c)) (H i)"
        using old [OF i] hsh.chain_cong [of "H i" "nodes (cache_remove n c)" ?ns] by simp
      moreover have "hashtable (cache_remove n c) ! i = hashtable c ! i"
        using False by (simp split: option.splits)
      ultimately show ?thesis
        using nin cache_rep_hash(2) [OF rep i] by (simp add: remove1_idem)
    qed
    then show "hsh.chain (nodes (cache_remove n c)) (remove1 n (H i))"
      and "hashtable (cache_remove n c) ! i = hdo None (remove1 n (H i))" by simp_all
  qed
  have nn: "lasto None xs \<noteq> Some n" using distS S by (auto dest: lasto_Some_in)
  then have "stack_down (stk.unlink_up n (nodes c) n) = hdo None ys"
    using node by (auto simp: stk.unlink_up_def split: option.splits)
  then have "cache_stack (cache_remove n c) = hdo None (xs @ ys)"
    "cache_stack_tail (cache_remove n c) = lasto None (xs @ ys)"
    using node cache_rep_stack(2,3) [OF rep] S
    by (cases xs; cases ys; simp add: lasto_def)+
  then show ?thesis
    using rep stack chains heads hsh.chain_distinct [OF cache_rep_hash(1) [OF rep]] distS
    by (auto simp: cache_rep_def rS [symmetric] split: option.splits)
qed

section \<open>Refreshing a node\<close>

theorem cache_refresh_rep:
  assumes rep: "cache_rep c S H" and "n \<in> set S"
  shows "\<exists>c'. cache_refresh n c = Some c' \<and> cache_rep c' (remove1 n S @ [n]) H \<and>
    (\<forall>m. node_data (nodes c' m) = node_data (nodes c m)) \<and>
    c' = c\<lparr>nodes := nodes c', cache_stack := cache_stack c', cache_stack_tail := Some n\<rparr>"
proof -
  have distS: "distinct S" using rep by (rule cache_rep_stack)
  obtain xs ys where S: "S = xs @ n # ys" using assms(2) by (auto dest: split_list)
  have rS: "remove1 n S = xs @ ys" using distS unfolding S by (rule remove1_split)
  have stkc: "stk.chain (nodes c) (xs @ n # ys)" using rep S by (simp add: cache_rep_def)
  note node = stk.chain_node [OF stkc]
  show ?thesis
  proof (cases ys)
    case Nil
    then have "cache_stack_tail c = Some n" "remove1 n S @ [n] = S"
      using cache_rep_stack(3) [OF rep] rS S by simp_all
    then show ?thesis using rep by (auto simp: cache_refresh_def)
  next
    case (Cons b zs)
    let ?c = "stack_add n (stack_remove n c)"
    have tail: "cache_stack_tail c = lasto None (xs @ ys)" and nn: "lasto None xs \<noteq> Some n"
      using cache_rep_stack(3) [OF rep] Cons distS S
      by (auto simp: lasto_append dest: lasto_Some_in)
    have "stack_down (stk.unlink_up n (nodes c) n) = hdo None ys"
      using node nn by (auto simp: stk.unlink_up_def split: option.splits)
    then have t: "cache_stack_tail (stack_remove n c) = lasto None (xs @ ys)"
      using tail Cons by simp
    have "n \<notin> set (xs @ ys)" using distS S by simp
    then have "cache_stack_tail c \<noteq> Some n" using tail by (auto dest: lasto_Some_in)
    moreover have "cache_stack_tail c \<noteq> None" using tail Cons by (auto simp: lasto_None_iff)
    ultimately have ref: "cache_refresh n c = Some ?c"
      using node Cons by (simp add: cache_refresh_def)
    have stack: "stk.chain (nodes ?c) (remove1 n S @ [n])"
      unfolding stack_add_nodes stack_remove_nodes t rS
      by (rule stk.link_tail_chain [OF stk.unlink_chain [OF stkc] \<open>n \<notin> set (xs @ ys)\<close>])
    have hd: "cache_stack ?c = hdo None (remove1 n S @ [n])"
      using t Cons node cache_rep_stack(2) [OF rep] S rS
      by (cases xs) (simp_all add: lasto_def)
    have hash: "hsh.chain (nodes ?c) (H i)" if "i < HASH_SIZE" for i
      using cache_rep_hash(1) [OF rep that] hsh.chain_cong [of "H i" "nodes ?c" "nodes c"]
      by (simp add: stack_add_nodes stack_remove_nodes)
    have data: "node_data (nodes ?c m) = node_data (nodes c m)" for m
      by (simp add: stack_add_nodes stack_remove_nodes)
    then have blks: "blk (nodes ?c m) = blk (nodes c m)" for m by (simp add: node_data_eq)
    have "cache_rep ?c (remove1 n S @ [n]) H"
      using rep stack hd hash assms(2) distS unfolding cache_rep_def blks by auto
    then show ?thesis unfolding ref using data by auto
  qed
qed

section \<open>The walks\<close>

lemma hash_walk_dll:
  assumes "dll u (\<lambda>n. hash_down (ns n)) p xs None"
  shows "hash_walk ns (hdo None xs) b = Some (List.find (\<lambda>n. blk (ns n) = b) xs)"
  using assms
proof (induction xs arbitrary: p)
  case Nil
  then show ?case by (simp add: hash_walk.simps)
next
  case (Cons x xs)
  then show ?case by (subst hash_walk.simps) auto
qed

theorem cache_node_find:
  assumes "cache_rep c S H"
  shows "cache_node b c = Some (List.find (\<lambda>n. blk (nodes c n) = b) (H (cache_hash b)))"
proof -
  have "dll (\<lambda>n. hash_up (nodes c n)) (\<lambda>n. hash_down (nodes c n)) None (H (cache_hash b)) None"
    using cache_rep_hash(1) [OF assms, of "cache_hash b"] by (simp add: hsh.chain_def)
  then show ?thesis
    unfolding cache_node_def cache_rep_hash(2) [OF assms cache_hash_bound]
    by (rule hash_walk_dll)
qed

lemma stack_walk_dll:
  assumes "dll u (\<lambda>n. stack_down (ns n)) p xs None"
  shows "stack_walk ns (hdo None xs) = Some xs"
  using assms
proof (induction xs arbitrary: p)
  case Nil
  then show ?case by (simp add: stack_walk.simps)
next
  case (Cons x xs)
  then show ?case by (subst stack_walk.simps) auto
qed

theorem stack_walk_rep:
  assumes "cache_rep c S H"
  shows "stack_walk (nodes c) (cache_stack c) = Some S"
proof -
  have "dll (\<lambda>n. stack_up (nodes c n)) (\<lambda>n. stack_down (nodes c n)) None S None"
    using cache_rep_stack(1) [OF assms] by (simp add: stk.chain_def)
  then show ?thesis unfolding cache_rep_stack(2) [OF assms] by (rule stack_walk_dll)
qed

end
