(* ===== verification/Cache_Correct.thy ===== *)
theory Cache_Correct
  imports Cache_Structure
begin

text \<open>
  What the frag cache promises its clients. \<open>view s b\<close> is the current contents of frag
  \<open>b\<close>: the buffer of its node when it is cached, the disk otherwise. The cache invariant
  \<open>cache_inv\<close> says that the structure represents a list of nodes, that no frag is cached
  twice, that a clean node agrees with the disk and that the counters count. Under it, and
  with a healthy device, every operation of the interface returns and keeps the view, or
  changes it at one frag only.
\<close>

section \<open>The invariant\<close>

definition node_ok :: "nat \<Rightarrow> (u32 \<Rightarrow> bytes) \<Rightarrow> cache_set \<Rightarrow> bool" where
  "node_ok fs d x \<longleftrightarrow>
     (flags x = CACHE_CLEAN \<or> flags x = CACHE_DIRTY) \<and> (is_dirty x \<longrightarrow> blk x \<noteq> 0) \<and>
     length (buf x) = fs \<and> (\<not> is_dirty x \<longrightarrow> blk x \<noteq> 0 \<longrightarrow> buf x = d (blk x))"

definition dirty_set :: "frag_cache \<Rightarrow> nat list \<Rightarrow> nat set" where
  "dirty_set c S = {n \<in> set S. is_dirty (nodes c n)}"

definition used_set :: "frag_cache \<Rightarrow> nat list \<Rightarrow> nat set" where
  "used_set c S = {n \<in> set S. blk (nodes c n) \<noteq> 0}"

definition uniq_blks :: "frag_cache \<Rightarrow> nat list \<Rightarrow> bool" where
  "uniq_blks c S \<longleftrightarrow>
     (\<forall>m \<in> set S. \<forall>n \<in> set S. blk (nodes c m) = blk (nodes c n) \<longrightarrow>
        blk (nodes c m) \<noteq> 0 \<longrightarrow> m = n)"

definition cache_ok :: "nat \<Rightarrow> (u32 \<Rightarrow> bytes) \<Rightarrow> frag_cache \<Rightarrow> nat list \<Rightarrow> bool" where
  "cache_ok fs d c S \<longleftrightarrow>
     (\<exists>H. cache_rep c S H) \<and> uniq_blks c S \<and> (\<forall>n \<in> set S. node_ok fs d (nodes c n)) \<and>
     cache_item_dirty c = int (card (dirty_set c S)) \<and>
     cache_used c = int (card (used_set c S))"

text \<open>A device on which every request inside the partition succeeds, a file system mounted
  for writing, and disk frags of the right size.\<close>

definition dev_good :: "fsys \<Rightarrow> bool" where
  "dev_good s \<longleftrightarrow>
     dev_ok s \<and> \<not> fs_ronly (sb s) \<and> (\<forall>b. length (disk (dev s) b) = unat (fsize (hnd s)))"

definition cache_inv :: "fsys \<Rightarrow> nat list \<Rightarrow> bool" where
  "cache_inv s S \<longleftrightarrow>
     dev_good s \<and> cache_ok (unat (fsize (hnd s))) (disk (dev s)) (fc s) S \<and>
     (\<forall>n \<in> set S. blk (nodes (fc s) n) \<noteq> 0 \<longrightarrow> frag_ok s (blk (nodes (fc s) n)))"

definition view :: "fsys \<Rightarrow> u32 \<Rightarrow> bytes" where
  "view s b =
     (case cache_node b (fc s) of
        Some (Some n) \<Rightarrow> frag_buf s n
      | _ \<Rightarrow> disk (dev s) b)"

definition same_view :: "fsys \<Rightarrow> fsys \<Rightarrow> bool" where
  "same_view s s' \<longleftrightarrow> (\<forall>a. a \<noteq> 0 \<longrightarrow> view s' a = view s a)"

text \<open>What an operation of the cache leaves alone.\<close>

definition cache_frame :: "fsys \<Rightarrow> fsys \<Rightarrow> bool" where
  "cache_frame s s' \<longleftrightarrow>
     sb s' = sb s \<and> cgc s' = cgc s \<and> hnd s' = hnd s \<and>
     same_dev ((dev s)\<lparr>disk := disk (dev s')\<rparr>) (dev s')"

lemma cache_frame_refl [simp]: "cache_frame s s"
  by (simp add: cache_frame_def same_dev_def)

lemma cache_frame_trans: "cache_frame s t \<Longrightarrow> cache_frame t u \<Longrightarrow> cache_frame s u"
  by (simp add: cache_frame_def same_dev_def)

lemma cache_frame_fc [simp]: "cache_frame s (s\<lparr>fc := c\<rparr>)"
  by (simp add: cache_frame_def same_dev_def)

lemma cache_frame_frag_ok: "cache_frame s s' \<Longrightarrow> frag_ok s' = frag_ok s"
  by (rule ext) (simp add: cache_frame_def same_dev_def frag_ok_def sectoff_def)

lemma cache_frame_dev_ok: "cache_frame s s' \<Longrightarrow> dev_ok s' = dev_ok s"
  by (simp add: cache_frame_def same_dev_def dev_ok_def)

lemma same_view_refl [simp]: "same_view s s"
  by (simp add: same_view_def)

lemma same_view_trans: "same_view s t \<Longrightarrow> same_view t u \<Longrightarrow> same_view s u"
  by (simp add: same_view_def)

section \<open>Looking up a node\<close>

lemma flags_simps:
  "is_dirty x = (flags x \<noteq> CACHE_CLEAN)" if "node_ok fs d x"
  using that by (auto simp: node_ok_def is_dirty_def CACHE_CLEAN_def CACHE_DIRTY_def)

lemma cache_ok_rep: "cache_ok fs d c S \<Longrightarrow> \<exists>H. cache_rep c S H"
  by (simp add: cache_ok_def)

lemma cache_ok_distinct: "cache_ok fs d c S \<Longrightarrow> distinct S"
  by (auto simp: cache_ok_def dest: cache_rep_stack)

lemma cache_ok_node: "cache_ok fs d c S \<Longrightarrow> n \<in> set S \<Longrightarrow> node_ok fs d (nodes c n)"
  by (simp add: cache_ok_def)

lemma cache_node_Some:
  assumes "cache_ok fs d c S" "n \<in> set S" "blk (nodes c n) = b" "b \<noteq> 0"
  shows "cache_node b c = Some (Some n)"
proof -
  obtain H where rep: "cache_rep c S H" using cache_ok_rep [OF assms(1)] by auto
  have n: "n \<in> set (H (cache_hash b))"
    using cache_rep_hash(3) [OF rep, of "cache_hash b"] assms(2,3) by simp
  then obtain m where m: "List.find (\<lambda>n. blk (nodes c n) = b) (H (cache_hash b)) = Some m"
    using assms(3) by (cases "List.find (\<lambda>n. blk (nodes c n) = b) (H (cache_hash b))")
      (auto simp: find_None_iff)
  then have "m \<in> set (H (cache_hash b))" "blk (nodes c m) = b"
    by (auto simp: find_Some_iff)
  then have "m \<in> set S" using cache_rep_hash(3) [OF rep, of "cache_hash b"] by simp
  then have "m = n"
    using assms \<open>blk (nodes c m) = b\<close> unfolding cache_ok_def uniq_blks_def by metis
  then show ?thesis using m cache_node_find [OF rep] by simp
qed

lemma cache_node_None:
  assumes "cache_ok fs d c S" "\<And>n. n \<in> set S \<Longrightarrow> blk (nodes c n) \<noteq> b"
  shows "cache_node b c = Some None"
proof -
  obtain H where rep: "cache_rep c S H" using cache_ok_rep [OF assms(1)] by auto
  have "List.find (\<lambda>n. blk (nodes c n) = b) (H (cache_hash b)) = None"
    using cache_rep_hash(3) [OF rep, of "cache_hash b"] assms(2) by (simp add: find_None_iff)
  then show ?thesis using cache_node_find [OF rep] by simp
qed

lemma cache_node_cases:
  assumes "cache_ok fs d c S" "b \<noteq> 0"
  obtains (hit) n where "n \<in> set S" "blk (nodes c n) = b" "cache_node b c = Some (Some n)"
  | (miss) "\<And>n. n \<in> set S \<Longrightarrow> blk (nodes c n) \<noteq> b" "cache_node b c = Some None"
  using cache_node_Some [OF assms(1)] cache_node_None [OF assms(1)] assms(2) by metis

lemma view_hit:
  assumes "cache_ok fs d (fc s) S" "n \<in> set S" "blk (nodes (fc s) n) = b" "b \<noteq> 0"
  shows "view s b = buf (nodes (fc s) n)"
  using cache_node_Some [OF assms] by (simp add: view_def frag_buf_def)

lemma view_miss:
  assumes "cache_ok fs d (fc s) S" "\<And>n. n \<in> set S \<Longrightarrow> blk (nodes (fc s) n) \<noteq> b"
  shows "view s b = disk (dev s) b"
  using cache_node_None [OF assms] by (simp add: view_def)

text \<open>The view depends on the data of the nodes and on the disk only.\<close>

lemma view_cong:
  assumes "cache_ok fs d (fc s) S" "cache_ok fs' d' (fc s') S'" "b \<noteq> 0"
    and "\<And>n. n \<in> set S' \<Longrightarrow> blk (nodes (fc s') n) = b \<Longrightarrow>
           n \<in> set S \<and> blk (nodes (fc s) n) = b \<and> buf (nodes (fc s') n) = buf (nodes (fc s) n)"
    and "\<And>n. n \<in> set S \<Longrightarrow> blk (nodes (fc s) n) = b \<Longrightarrow>
           (\<forall>m \<in> set S'. blk (nodes (fc s') m) \<noteq> b) \<Longrightarrow>
           disk (dev s') b = buf (nodes (fc s) n)"
    and "(\<forall>n \<in> set S. blk (nodes (fc s) n) \<noteq> b) \<Longrightarrow> disk (dev s') b = disk (dev s) b"
  shows "view s' b = view s b"
proof (cases "\<exists>n \<in> set S'. blk (nodes (fc s') n) = b")
  case True
  then obtain n where n: "n \<in> set S'" "blk (nodes (fc s') n) = b" by auto
  then show ?thesis
    using view_hit [OF assms(2) n assms(3)] view_hit [OF assms(1), of n b] assms(3,4) by simp
next
  case miss': False
  show ?thesis
  proof (cases "\<exists>n \<in> set S. blk (nodes (fc s) n) = b")
    case True
    then obtain n where "n \<in> set S" "blk (nodes (fc s) n) = b" by auto
    then show ?thesis
      using view_hit [OF assms(1), of n b] view_miss [OF assms(2), of b] assms(3,5) miss' by simp
  next
    case False
    then show ?thesis
      using view_miss [OF assms(1), of b] view_miss [OF assms(2), of b] assms(6) miss' by simp
  qed
qed

section \<open>Moving nodes in the stack\<close>

definition same_data :: "frag_cache \<Rightarrow> frag_cache \<Rightarrow> bool" where
  "same_data c c' \<longleftrightarrow>
     (\<forall>m. node_data (nodes c' m) = node_data (nodes c m)) \<and>
     cache_item_dirty c' = cache_item_dirty c \<and> cache_used c' = cache_used c \<and>
     cache_size c' = cache_size c \<and> cache_alloced c' = cache_alloced c \<and>
     node_brk c' = node_brk c"

lemma same_data_refl [simp]: "same_data c c"
  by (simp add: same_data_def)

lemma same_data_trans: "same_data c d \<Longrightarrow> same_data d e \<Longrightarrow> same_data c e"
  by (simp add: same_data_def)

lemma same_dataD:
  assumes "same_data c c'"
  shows "blk (nodes c' m) = blk (nodes c m)" "flags (nodes c' m) = flags (nodes c m)"
    "buf (nodes c' m) = buf (nodes c m)"
  using assms by (simp_all add: same_data_def node_data_eq)

lemma cache_ok_same_data:
  assumes ok: "cache_ok fs d c S" and "same_data c c'" "cache_rep c' S' H" "set S' = set S"
  shows "cache_ok fs d c' S'"
  using assms same_dataD [OF assms(2)]
  by (auto simp: cache_ok_def uniq_blks_def node_ok_def dirty_set_def used_set_def is_dirty_def
      same_data_def)

lemma cache_inv_same_data:
  assumes "cache_inv s S" "same_data (fc s) c" "cache_rep c S' H" "set S' = set S"
  shows "cache_inv (s\<lparr>fc := c\<rparr>) S'" and "same_view s (s\<lparr>fc := c\<rparr>)"
proof -
  have ok: "cache_ok (unat (fsize (hnd s))) (disk (dev s)) (fc s) S"
    using assms(1) by (simp add: cache_inv_def)
  have ok': "cache_ok (unat (fsize (hnd s))) (disk (dev s)) c S'"
    by (rule cache_ok_same_data [OF ok assms(2-4)])
  show "cache_inv (s\<lparr>fc := c\<rparr>) S'"
    using assms ok' same_dataD [OF assms(2)]
    by (simp add: cache_inv_def dev_good_def dev_ok_def frag_ok_def sectoff_def)
  have "view (s\<lparr>fc := c\<rparr>) b = view s b" if "b \<noteq> 0" for b
    by (rule view_cong [OF ok _ that, where S' = S'])
      (use ok' assms(4) same_dataD [OF assms(2)] in \<open>auto\<close>)
  then show "same_view s (s\<lparr>fc := c\<rparr>)" by (simp add: same_view_def)
qed

lemma cache_refresh_same_data:
  assumes "cache_rep c S H" "n \<in> set S"
  shows "\<exists>c'. cache_refresh n c = Some c' \<and> cache_rep c' (remove1 n S @ [n]) H \<and>
    same_data c c'"
proof -
  obtain c' where c': "cache_refresh n c = Some c'" "cache_rep c' (remove1 n S @ [n]) H"
    "\<forall>m. node_data (nodes c' m) = node_data (nodes c m)"
    "c' = c\<lparr>nodes := nodes c', cache_stack := cache_stack c', cache_stack_tail := Some n\<rparr>"
    using cache_refresh_rep [OF assms] by auto
  have "same_data c c'" using c'(3) by (subst c'(4)) (simp add: same_data_def)
  then show ?thesis using c' by auto
qed

text \<open>
  The loop of \<open>cache_cycle_dirty\<close>: from a stack \<open>D @ R\<close> with the nodes of \<open>D\<close> not clean
  it stops at the head of \<open>R\<close>, when that node is clean or is the one the loop started from.
\<close>

lemma rotate_dirty_rep:
  assumes "cache_rep c (D @ R) H" "R \<noteq> []"
    and "\<And>n. n \<in> set D \<Longrightarrow> flags (nodes c n) \<noteq> CACHE_CLEAN"
    and "flags (nodes c (hd R)) = CACHE_CLEAN \<or> D \<noteq> [] \<and> node = Some (hd R)"
    and "\<And>n. n \<in> set (tl D) \<Longrightarrow> node \<noteq> Some n"
  shows "\<exists>c'. rotate_dirty node c = Some c' \<and> cache_rep c' (R @ D) H \<and> same_data c c'"
  using assms
proof (induction D arbitrary: c R)
  case Nil
  obtain r R' where R: "R = r # R'" using Nil.prems(2) by (cases R) auto
  have "cache_stack c = Some r" using cache_rep_stack(2) [OF Nil.prems(1)] R by simp
  then show ?case using Nil.prems R by (subst rotate_dirty.simps) simp
next
  case (Cons d D)
  have d: "cache_stack c = Some d" "flags (nodes c d) \<noteq> CACHE_CLEAN"
    using cache_rep_stack(2) [OF Cons.prems(1)] Cons.prems(3) by simp_all
  obtain c1 where c1: "cache_refresh d c = Some c1" "cache_rep c1 (D @ (R @ [d])) H"
    "same_data c c1"
    using cache_refresh_same_data [OF Cons.prems(1), of d] by auto
  have head: "cache_stack c1 = hdo None (D @ R)"
    using cache_rep_stack(2) [OF c1(2)] Cons.prems(2) by (cases D; cases R) auto
  have step: "rotate_dirty node c =
      (if cache_stack c1 = node then Some c1 else rotate_dirty node c1)"
    using d c1(1) by (subst rotate_dirty.simps) simp
  show ?case
  proof (cases "cache_stack c1 = node")
    case True
    have "D = []" using True head Cons.prems(5) by (cases D) auto
    then show ?thesis using True step c1 by auto
  next
    case False
    have "\<exists>c'. rotate_dirty node c1 = Some c' \<and> cache_rep c' ((R @ [d]) @ D) H \<and> same_data c1 c'"
    proof (rule Cons.IH [OF c1(2)])
      show "R @ [d] \<noteq> []" by simp
      show "flags (nodes c1 n) \<noteq> CACHE_CLEAN" if "n \<in> set D" for n
        using that Cons.prems(3) same_dataD(2) [OF c1(3)] by simp
      show "flags (nodes c1 (hd (R @ [d]))) = CACHE_CLEAN \<or>
          D \<noteq> [] \<and> node = Some (hd (R @ [d]))"
        using Cons.prems(2,4) same_dataD(2) [OF c1(3)] False head
        by (cases R; cases D) auto
      show "node \<noteq> Some n" if "n \<in> set (tl D)" for n
        using Cons.prems(5) [of n] that by (cases D) auto
    qed
    then obtain c' where "rotate_dirty node c1 = Some c'" "cache_rep c' ((R @ [d]) @ D) H"
      "same_data c1 c'" by blast
    then show ?thesis using False step same_data_trans [OF c1(3)] by auto
  qed
qed

lemma rotate_dirty_clean:
  assumes "cache_rep c (r # R) H" "flags (nodes c r) = CACHE_CLEAN"
  shows "rotate_dirty node c = Some c"
  using cache_rep_stack(2) [OF assms(1)] assms(2) by (subst rotate_dirty.simps) simp

text \<open>The node at which the loop stops: the least recently used clean one.\<close>

definition first_clean :: "frag_cache \<Rightarrow> nat list \<Rightarrow> nat" where
  "first_clean c S =
     (if \<exists>n \<in> set S. flags (nodes c n) = CACHE_CLEAN
      then hd (dropWhile (\<lambda>n. flags (nodes c n) \<noteq> CACHE_CLEAN) S) else hd S)"

text \<open>The whole loop, started at the head: it finds the first clean node or turns once.\<close>

lemma rotate_dirty_loop:
  assumes rep: "cache_rep c S H" and "S \<noteq> []"
  shows "\<exists>c' S'. rotate_dirty (cache_stack c) c = Some c' \<and> cache_rep c' S' H \<and>
    same_data c c' \<and> set S' = set S \<and>
    (head_clean c' \<longleftrightarrow> (\<exists>n \<in> set S. flags (nodes c n) = CACHE_CLEAN)) \<and>
    cache_stack c' = Some (first_clean c S)"
proof -
  let ?dirty = "\<lambda>n. flags (nodes c n) \<noteq> CACHE_CLEAN"
  have dist: "distinct S" using rep by (rule cache_rep_stack)
  have hd: "cache_stack c = Some (hd S)"
    using cache_rep_stack(2) [OF rep] assms(2) by (cases S) simp_all
  show ?thesis
  proof (cases "\<exists>n \<in> set S. flags (nodes c n) = CACHE_CLEAN")
    case True
    let ?D = "takeWhile ?dirty S" and ?R = "dropWhile ?dirty S"
    have R: "?R \<noteq> []" "flags (nodes c (hd ?R)) = CACHE_CLEAN"
      using True hd_dropWhile [of ?dirty S] by (auto simp: dropWhile_eq_Nil_conv)
    have "\<exists>c'. rotate_dirty (cache_stack c) c = Some c' \<and> cache_rep c' (?R @ ?D) H \<and> same_data c c'"
    proof (rule rotate_dirty_rep)
      show "cache_rep c (?D @ ?R) H" using rep by simp
      show "flags (nodes c n) \<noteq> CACHE_CLEAN" if "n \<in> set ?D" for n
        using that by (auto dest: set_takeWhileD)
      show "cache_stack c \<noteq> Some n" if "n \<in> set (tl ?D)" for n
      proof -
        have "distinct ?D" using dist by simp
        moreover have "?D \<noteq> []" using that by auto
        then have "hd S = hd ?D" by (cases S) (auto split: if_splits)
        ultimately show ?thesis using that hd \<open>?D \<noteq> []\<close> by (cases ?D) auto
      qed
      show "?R \<noteq> []" by (rule R)
      show "flags (nodes c (hd ?R)) = CACHE_CLEAN \<or> ?D \<noteq> [] \<and> cache_stack c = Some (hd ?R)"
        using R(2) by (rule disjI1)
    qed
    then obtain c' where c': "rotate_dirty (cache_stack c) c = Some c'"
      "cache_rep c' (?R @ ?D) H" "same_data c c'" by blast
    have "set (?D @ ?R) = set S" by (simp only: takeWhile_dropWhile_id)
    then have "set (?R @ ?D) = set S" by (simp only: set_append Un_commute)
    moreover have "hdo None (?R @ ?D) = Some (hd ?R)"
      using R(1) by (metis hdo_simps(2) list.exhaust_sel append_Cons)
    then have st: "cache_stack c' = Some (hd ?R)"
      using cache_rep_stack(2) [OF c'(2)] by simp
    then have "head_clean c'"
      using R(2) same_dataD(2) [OF c'(3)] by (simp only: head_clean_def option.case)
    moreover have "cache_stack c' = Some (first_clean c S)"
      using st True by (simp add: first_clean_def)
    ultimately show ?thesis using c' True by blast
  next
    case False
    obtain x xs where S: "S = x # xs" using assms(2) by (cases S) auto
    have fx: "flags (nodes c x) \<noteq> CACHE_CLEAN" using False S by auto
    obtain c1 where c1: "cache_refresh x c = Some c1" "cache_rep c1 (xs @ [x]) H"
      "same_data c c1"
      using cache_refresh_same_data [OF rep, of x] S by auto
    have step: "rotate_dirty (Some x) c =
        (if cache_stack c1 = Some x then Some c1 else rotate_dirty (Some x) c1)"
      using hd fx S c1(1) by (subst rotate_dirty.simps) simp
    have "\<exists>c'. rotate_dirty (Some x) c = Some c' \<and> cache_rep c' S H \<and> same_data c c'"
    proof (cases xs)
      case Nil
      then show ?thesis using step c1 cache_rep_stack(2) [OF c1(2)] S by auto
    next
      case (Cons y ys)
      have "cache_stack c1 \<noteq> Some x"
        using cache_rep_stack(2) [OF c1(2)] Cons dist S by auto
      moreover have "\<exists>c'. rotate_dirty (Some x) c1 = Some c' \<and> cache_rep c' ([x] @ xs) H \<and>
          same_data c1 c'"
        by (rule rotate_dirty_rep [OF c1(2)])
          (use False S Cons dist same_dataD(2) [OF c1(3)] in auto)
      ultimately show ?thesis using step S same_data_trans [OF c1(3)] by auto
    qed
    then obtain c' where c': "rotate_dirty (Some x) c = Some c'" "cache_rep c' S H"
      "same_data c c'" by blast
    have "\<not> head_clean c'"
      using cache_rep_stack(2) [OF c'(2)] S fx same_dataD(2) [OF c'(3)]
      by (simp add: head_clean_def)
    moreover have "cache_stack c' = Some (first_clean c S)"
      using cache_rep_stack(2) [OF c'(2)] S False by (auto simp: first_clean_def)
    ultimately show ?thesis using c' hd S False by auto
  qed
qed

section \<open>Flushing\<close>

lemma mset_cache_insert: "mset (cache_insert ns n ps) = add_mset n (mset ps)"
  by (induction ps) auto

lemma sorted_cache_insert:
  "sorted (map (\<lambda>n. blk (ns n)) ps) \<Longrightarrow> sorted (map (\<lambda>n. blk (ns n)) (cache_insert ns n ps))"
proof (induction ps)
  case Nil
  then show ?case by simp
next
  case (Cons p ps)
  have "set (cache_insert ns n ps) = insert n (set ps)"
    using mset_cache_insert [of ns n ps] by (metis set_mset_add_mset_insert set_mset_mset)
  then show ?case using Cons by auto
qed

definition to_write :: "(nat \<Rightarrow> cache_set) \<Rightarrow> nat \<Rightarrow> bool" where
  "to_write ns t \<longleftrightarrow> is_dirty (ns t) \<and> blk (ns t) \<noteq> 0"

text \<open>The list of nodes to write: every dirty node once, in ascending order of the blocks.\<close>

lemma flush_collect_induct:
  assumes "flush_collect ns ts head k bad = (head', k', bad')"
  shows "mset head' = mset head + mset (filter (to_write ns) ts) \<and>
    k' = k + length (filter (to_write ns) ts) \<and>
    (bad' \<longleftrightarrow> bad \<or> (\<exists>t \<in> set ts. is_dirty (ns t) \<and> blk (ns t) = 0)) \<and>
    (sorted (map (\<lambda>n. blk (ns n)) head) \<longrightarrow> sorted (map (\<lambda>n. blk (ns n)) head'))"
  using assms
proof (induction ts arbitrary: head k bad)
  case Nil
  then show ?case by simp
next
  case (Cons t ts)
  consider "\<not> is_dirty (ns t)" | "is_dirty (ns t)" "blk (ns t) = 0" | "to_write ns t"
    by (auto simp: to_write_def)
  then show ?case
  proof cases
    case 1
    then show ?thesis using Cons.IH [of head k bad] Cons.prems by (auto simp: to_write_def)
  next
    case 2
    then show ?thesis using Cons.IH [of head k True] Cons.prems by (auto simp: to_write_def)
  next
    case 3
    have "flush_collect ns ts (cache_insert ns t head) (Suc k) bad = (head', k', bad')"
      using 3 Cons.prems by (simp add: to_write_def)
    from Cons.IH [OF this] 3 show ?thesis
      using sorted_cache_insert [of ns head t] by (auto simp: mset_cache_insert to_write_def)
  qed
qed

lemma flush_collect_spec:
  assumes "flush_collect ns ts head k bad = (head', k', bad')"
  shows "mset head' = mset head + mset (filter (to_write ns) ts)"
    and "k' = k + length (filter (to_write ns) ts)"
    and "bad' \<longleftrightarrow> bad \<or> (\<exists>t \<in> set ts. is_dirty (ns t) \<and> blk (ns t) = 0)"
    and "sorted (map (\<lambda>n. blk (ns n)) head) \<Longrightarrow> sorted (map (\<lambda>n. blk (ns n)) head')"
  using flush_collect_induct [OF assms] by simp_all

definition clean_nodes :: "nat set \<Rightarrow> (nat \<Rightarrow> cache_set) \<Rightarrow> nat \<Rightarrow> cache_set" where
  "clean_nodes A ns n = (if n \<in> A then (ns n)\<lparr>flags := CACHE_CLEAN\<rparr> else ns n)"

lemma clean_nodes_empty [simp]: "clean_nodes {} ns = ns"
  by (rule ext) (simp add: clean_nodes_def)

text \<open>A write of one frag on a good device.\<close>

lemma data_write_1:
  assumes "dev_good s" "frag_ok s b" "length xs = unat (fsize (hnd s))"
  shows "\<exists>d. data_write xs b 1 s = (False, s\<lparr>dev := d\<rparr>) \<and> disk d = (disk (dev s))(b := xs) \<and>
    same_dev ((dev s)\<lparr>disk := disk d\<rparr>) d"
proof -
  obtain d where "write_request b s = (False, s\<lparr>dev := d\<rparr>)" "same_dev (dev s) d"
    using write_request_ok [of s b] assms by (auto simp: dev_good_def)
  then show ?thesis
    using assms(3) by (auto simp: data_write_def same_dev_def)
qed

lemma dev_good_written:
  assumes "dev_good s" "length xs = unat (fsize (hnd s))"
    and "disk d = (disk (dev s))(b := xs)" "same_dev ((dev s)\<lparr>disk := disk d\<rparr>) d"
  shows "dev_good (s\<lparr>fc := c, dev := d\<rparr>)" "frag_ok (s\<lparr>fc := c, dev := d\<rparr>) = frag_ok s"
  using assms by (auto simp: dev_good_def dev_ok_def same_dev_def frag_ok_def sectoff_def fun_eq_iff)

lemma flush_write_spec:
  assumes "dev_good s" "distinct head"
    and "\<And>n. n \<in> set head \<Longrightarrow> frag_ok s (blk (nodes (fc s) n)) \<and>
           length (buf (nodes (fc s) n)) = unat (fsize (hnd s))"
    and "\<And>m n. m \<in> set head \<Longrightarrow> n \<in> set head \<Longrightarrow>
           blk (nodes (fc s) m) = blk (nodes (fc s) n) \<Longrightarrow> m = n"
  shows "\<exists>d. flush_write head s =
      s\<lparr>fc := (fc s)\<lparr>nodes := clean_nodes (set head) (nodes (fc s))\<rparr>, dev := d\<rparr> \<and>
    same_dev ((dev s)\<lparr>disk := disk d\<rparr>) d \<and>
    (\<forall>n \<in> set head. disk d (blk (nodes (fc s) n)) = buf (nodes (fc s) n)) \<and>
    (\<forall>b. b \<notin> (\<lambda>n. blk (nodes (fc s) n)) ` set head \<longrightarrow> disk d b = disk (dev s) b)"
  using assms
proof (induction head arbitrary: s)
  case Nil
  show ?case
  proof (intro exI conjI)
    show "flush_write [] s =
      s\<lparr>fc := (fc s)\<lparr>nodes := clean_nodes (set []) (nodes (fc s))\<rparr>, dev := dev s\<rparr>" by simp
  qed simp_all
next
  case (Cons n ns)
  let ?b = "blk (nodes (fc s) n)" and ?x = "buf (nodes (fc s) n)"
  let ?c = "upd_node n (\<lambda>x. x\<lparr>flags := CACHE_CLEAN\<rparr>) (fc s)"
  let ?s1 = "s\<lparr>fc := ?c\<rparr>"
  have n: "frag_ok s ?b" "length ?x = unat (fsize (hnd s))" using Cons.prems(3) by simp_all
  have "dev_good ?s1" "frag_ok ?s1 ?b"
    using Cons.prems(1) n by (simp_all add: dev_good_def dev_ok_def frag_ok_def sectoff_def)
  then obtain d1 where d1: "data_write ?x ?b 1 ?s1 = (False, ?s1\<lparr>dev := d1\<rparr>)"
    "disk d1 = (disk (dev s))(?b := ?x)" "same_dev ((dev s)\<lparr>disk := disk d1\<rparr>) d1"
    using data_write_1 [of ?s1 ?b ?x] n by auto
  let ?s2 = "s\<lparr>fc := ?c, dev := d1\<rparr>"
  note good = dev_good_written [OF Cons.prems(1) n(2) d1(2,3), of ?c]
  have blks: "blk (nodes (fc ?s2) m) = blk (nodes (fc s) m)"
    "buf (nodes (fc ?s2) m) = buf (nodes (fc s) m)" for m by simp_all
  have "\<exists>d. flush_write ns ?s2 =
      ?s2\<lparr>fc := (fc ?s2)\<lparr>nodes := clean_nodes (set ns) (nodes (fc ?s2))\<rparr>, dev := d\<rparr> \<and>
    same_dev ((dev ?s2)\<lparr>disk := disk d\<rparr>) d \<and>
    (\<forall>n \<in> set ns. disk d (blk (nodes (fc ?s2) n)) = buf (nodes (fc ?s2) n)) \<and>
    (\<forall>b. b \<notin> (\<lambda>n. blk (nodes (fc ?s2) n)) ` set ns \<longrightarrow> disk d b = disk (dev ?s2) b)"
  proof (rule Cons.IH)
    show "dev_good ?s2" by (rule good)
    show "distinct ns" using Cons.prems(2) by simp
    show "frag_ok ?s2 (blk (nodes (fc ?s2) m)) \<and>
        length (buf (nodes (fc ?s2) m)) = unat (fsize (hnd ?s2))" if "m \<in> set ns" for m
      unfolding blks good(2) using Cons.prems(3) [of m] that by simp
    show "m = k" if "m \<in> set ns" "k \<in> set ns" "blk (nodes (fc ?s2) m) = blk (nodes (fc ?s2) k)"
      for m k using Cons.prems(4) [of m k] that unfolding blks by simp
  qed
  then obtain d where d: "flush_write ns ?s2 =
      ?s2\<lparr>fc := (fc ?s2)\<lparr>nodes := clean_nodes (set ns) (nodes (fc ?s2))\<rparr>, dev := d\<rparr>"
    "same_dev ((dev ?s2)\<lparr>disk := disk d\<rparr>) d"
    "\<forall>n \<in> set ns. disk d (blk (nodes (fc s) n)) = buf (nodes (fc s) n)"
    "\<forall>b. b \<notin> (\<lambda>n. blk (nodes (fc s) n)) ` set ns \<longrightarrow> disk d b = disk d1 b"
    unfolding blks by auto
  have "flush_write (n # ns) s = flush_write ns ?s2"
    using d1(1) by (simp add: frag_buf_def)
  moreover have "clean_nodes (set ns) (nodes ?c) = clean_nodes (set (n # ns)) (nodes (fc s))"
    by (rule ext) (simp add: clean_nodes_def)
  moreover have "?b \<notin> (\<lambda>n. blk (nodes (fc s) n)) ` set ns"
    using Cons.prems(2,4) by auto
  ultimately show ?case
    using d d1(2,3) by (intro exI [of _ d]) (auto simp: same_dev_def upd_node_def)
qed

lemma card_eq_length_filter:
  "distinct xs \<Longrightarrow> card {n \<in> set xs. P n} = length (filter P xs)"
  by (metis distinct_card distinct_filter set_filter)

theorem cache_flush_correct:
  assumes inv: "cache_inv s S"
  shows "\<exists>r s'. cache_flush s = Some (r, s') \<and> cache_inv s' S \<and> same_view s s' \<and>
    cache_frame s s' \<and> (\<forall>n \<in> set S. flags (nodes (fc s') n) = CACHE_CLEAN) \<and>
    (\<forall>b. b \<noteq> 0 \<longrightarrow> disk (dev s') b = view s b) \<and> cache_item_dirty (fc s') = 0 \<and>
    cache_stack (fc s') = cache_stack (fc s) \<and> cache_size (fc s') = cache_size (fc s) \<and>
    (\<forall>n. blk (nodes (fc s') n) = blk (nodes (fc s) n) \<and>
      buf (nodes (fc s') n) = buf (nodes (fc s) n))"
proof -
  let ?fs = "unat (fsize (hnd s))" and ?ns = "nodes (fc s)"
  have ok: "cache_ok ?fs (disk (dev s)) (fc s) S" using inv by (simp add: cache_inv_def)
  note nodeok = cache_ok_node [OF ok]
  obtain H where rep: "cache_rep (fc s) S H" using cache_ok_rep [OF ok] by auto
  have dist: "distinct S" using ok by (rule cache_ok_distinct)
  have count: "cache_item_dirty (fc s) = int (card (dirty_set (fc s) S))"
    using ok by (simp add: cache_ok_def)
  have clean_eq: "view s b = disk (dev s) b"
    if "b \<noteq> 0" "\<And>n. n \<in> set S \<Longrightarrow> blk (?ns n) = b \<Longrightarrow> \<not> is_dirty (?ns n)" for b
  proof (cases "\<exists>n \<in> set S. blk (?ns n) = b")
    case True
    then obtain n where n: "n \<in> set S" "blk (?ns n) = b" by auto
    show ?thesis
      using view_hit [OF ok n that(1)] nodeok [OF n(1)] that(2) [OF n] that(1) n(2)
      by (simp add: node_ok_def)
  next
    case False
    then have "\<And>n. n \<in> set S \<Longrightarrow> blk (?ns n) \<noteq> b" by auto
    then show ?thesis by (rule view_miss [OF ok])
  qed
  show ?thesis
  proof (cases "cache_item_dirty (fc s) = 0")
    case True
    then have "dirty_set (fc s) S = {}"
      using count by (simp add: dirty_set_def)
    then have nd: "\<not> is_dirty (?ns n)" if "n \<in> set S" for n
      using that by (auto simp: dirty_set_def)
    have "flags (?ns n) = CACHE_CLEAN" if "n \<in> set S" for n
      using nd [OF that] flags_simps [OF nodeok [OF that]] by simp
    moreover have "disk (dev s) b = view s b" if "b \<noteq> 0" for b
      using clean_eq [OF that] nd by simp
    ultimately show ?thesis using True inv by (auto simp: cache_flush_def)
  next
    case False
    obtain head k bad where fl: "flush_collect ?ns S [] 0 False = (head, k, bad)"
      by (cases "flush_collect ?ns S [] 0 False") auto
    note spec = flush_collect_spec [OF fl]
    have tw: "to_write ?ns n \<longleftrightarrow> is_dirty (?ns n)" if "n \<in> set S" for n
      using nodeok [OF that] by (auto simp: to_write_def node_ok_def)
    have filt: "filter (to_write ?ns) S = filter (\<lambda>n. is_dirty (?ns n)) S"
      by (rule filter_cong) (simp_all add: tw)
    have bad: "\<not> bad" using spec(3) nodeok by (auto simp: node_ok_def)
    have k: "cache_item_dirty (fc s) = int k"
      using count spec(2) filt card_eq_length_filter [OF dist, of "\<lambda>n. is_dirty (?ns n)"]
      by (simp add: dirty_set_def)
    have mh: "mset head = mset (filter (\<lambda>n. is_dirty (?ns n)) S)" using spec(1) filt by simp
    have sh: "set head = dirty_set (fc s) S"
      using mset_eq_setD [OF mh] by (auto simp: dirty_set_def)
    have dh: "distinct head" using mset_eq_imp_distinct_iff [OF mh] dist by simp
    have sub: "set head \<subseteq> set S" unfolding sh by (auto simp: dirty_set_def)
    have nz: "blk (?ns n) \<noteq> 0" if "n \<in> set head" for n
      using that nodeok unfolding sh by (auto simp: dirty_set_def node_ok_def)
    have "\<exists>d. flush_write head s =
      s\<lparr>fc := (fc s)\<lparr>nodes := clean_nodes (set head) ?ns\<rparr>, dev := d\<rparr> \<and>
      same_dev ((dev s)\<lparr>disk := disk d\<rparr>) d \<and>
      (\<forall>n \<in> set head. disk d (blk (?ns n)) = buf (?ns n)) \<and>
      (\<forall>b. b \<notin> (\<lambda>n. blk (?ns n)) ` set head \<longrightarrow> disk d b = disk (dev s) b)"
    proof (rule flush_write_spec [OF _ dh])
      show "dev_good s" using inv by (simp add: cache_inv_def)
      show "frag_ok s (blk (?ns n)) \<and> length (buf (?ns n)) = ?fs" if "n \<in> set head" for n
        using that sub inv nz nodeok [of n] by (auto simp: cache_inv_def node_ok_def)
      show "m = n" if "m \<in> set head" "n \<in> set head" "blk (?ns m) = blk (?ns n)" for m n
        using that sub ok nz unfolding cache_ok_def uniq_blks_def by blast
    qed
    then obtain d where d: "flush_write head s =
        s\<lparr>fc := (fc s)\<lparr>nodes := clean_nodes (set head) ?ns\<rparr>, dev := d\<rparr>"
      "same_dev ((dev s)\<lparr>disk := disk d\<rparr>) d"
      "\<And>n. n \<in> set head \<Longrightarrow> disk d (blk (?ns n)) = buf (?ns n)"
      "\<And>b. b \<notin> (\<lambda>n. blk (?ns n)) ` set head \<Longrightarrow> disk d b = disk (dev s) b" by blast
    let ?c = "(fc s)\<lparr>nodes := clean_nodes (set head) ?ns, cache_item_dirty := 0\<rparr>"
    let ?s = "s\<lparr>fc := ?c, dev := d\<rparr>"
    have run: "cache_flush s = Some (Some k, ?s)"
      using False fl bad k d(1) stack_walk_rep [OF rep]
      by (simp add: cache_flush_def Let_def)
    have cn: "blk (clean_nodes (set head) ?ns n) = blk (?ns n)"
      "buf (clean_nodes (set head) ?ns n) = buf (?ns n)" for n
      by (simp_all add: clean_nodes_def)
    have allclean: "flags (clean_nodes (set head) ?ns n) = CACHE_CLEAN" if "n \<in> set S" for n
      using that sh flags_simps [OF nodeok [OF that]]
      by (auto simp: clean_nodes_def dirty_set_def)
    have rep': "cache_rep ?c S H"
      by (rule cache_rep_cong [OF rep]) (simp_all add: clean_nodes_def)
    have diskn: "disk d (blk (?ns n)) = buf (?ns n)" if "n \<in> set S" "blk (?ns n) \<noteq> 0" for n
    proof (cases "n \<in> set head")
      case True
      then show ?thesis by (rule d(3))
    next
      case nh: False
      have "blk (?ns n) \<notin> (\<lambda>n. blk (?ns n)) ` set head"
        using nh sub ok that unfolding cache_ok_def uniq_blks_def by blast
      moreover have "\<not> is_dirty (?ns n)" using nh sh that by (auto simp: dirty_set_def)
      ultimately show ?thesis using d(4) nodeok [OF that(1)] that(2) by (simp add: node_ok_def)
    qed
    have lend: "length (disk d b) = ?fs" for b
    proof (cases "b \<in> (\<lambda>n. blk (?ns n)) ` set head")
      case True
      then show ?thesis using d(3) sub nodeok by (auto simp: node_ok_def)
    next
      case nb: False
      then show ?thesis using d(4) [OF nb] inv by (simp add: cache_inv_def dev_good_def)
    qed
    have nodirty: "\<not> is_dirty (clean_nodes (set head) ?ns n)" if "n \<in> set S" for n
      using allclean [OF that] by (simp add: is_dirty_def CACHE_CLEAN_def)
    have uniq: "uniq_blks ?c S" using ok by (simp add: cache_ok_def uniq_blks_def cn)
    have ds: "dirty_set ?c S = {}" using nodirty by (simp add: dirty_set_def)
    have us: "used_set ?c S = used_set (fc s) S" by (simp add: used_set_def cn)
    have nok: "node_ok ?fs (disk d) (clean_nodes (set head) ?ns n)" if "n \<in> set S" for n
      using nodirty [OF that] allclean [OF that] diskn [OF that] nodeok [OF that]
      by (simp add: node_ok_def cn)
    have ok': "cache_ok ?fs (disk d) ?c S"
      using ok rep' uniq ds us nok by (auto simp: cache_ok_def)
    have sd: "same_dev ((dev s)\<lparr>disk := disk d\<rparr>) d" by (rule d(2))
    have inv': "cache_inv ?s S"
      using inv ok' lend sd cn
      by (simp add: cache_inv_def dev_good_def dev_ok_def frag_ok_def sectoff_def same_dev_def)
    have ok_s: "cache_ok ?fs (disk d) (fc ?s) S" using ok' by simp
    have diskv: "disk d b = view s b" if "b \<noteq> 0" for b
    proof (cases "\<exists>n \<in> set S. blk (?ns n) = b")
      case True
      then show ?thesis using view_hit [OF ok _ _ that] diskn that by auto
    next
      case nb: False
      then have "b \<notin> (\<lambda>n. blk (?ns n)) ` set head" using sub by auto
      then show ?thesis using view_miss [OF ok, of b] nb d(4) by auto
    qed
    have sv: "same_view s ?s"
    proof -
      have old: "disk d b = disk (dev s) b" if "\<forall>n \<in> set S. blk (?ns n) \<noteq> b" for b
        by (rule d(4)) (use that sub in auto)
      have "view ?s b = view s b" if "b \<noteq> 0" for b
        by (rule view_cong [OF ok ok_s that]) (use diskn that old in \<open>auto simp: cn\<close>)
      then show ?thesis by (simp add: same_view_def)
    qed
    have fr: "cache_frame s ?s" using sd by (simp add: cache_frame_def)
    show ?thesis using run inv' sv fr allclean diskv cn by auto
  qed
qed

section \<open>Finding a node for a new block\<close>

lemma cache_ok_same_disk:
  "cache_inv s S \<Longrightarrow> cache_ok (unat (fsize (hnd s))) (disk (dev s)) (fc s) S"
  by (simp add: cache_inv_def)

text \<open>\<open>cache_cycle_dirty\<close> returns with a clean node at the head of the stack: the least
  recently used node when the cache was flushed, the least recently used clean one
  otherwise.\<close>

definition many_dirty :: "frag_cache \<Rightarrow> bool" where
  "many_dirty c \<longleftrightarrow> cache_item_dirty c > cache_size c * 3 div 4"

definition victim :: "frag_cache \<Rightarrow> nat list \<Rightarrow> nat" where
  "victim c S = (if many_dirty c then hd S else first_clean c S)"

definition same_contents :: "fsys \<Rightarrow> fsys \<Rightarrow> bool" where
  "same_contents s s' \<longleftrightarrow>
     (\<forall>n. blk (nodes (fc s') n) = blk (nodes (fc s) n) \<and>
       buf (nodes (fc s') n) = buf (nodes (fc s) n)) \<and> cache_size (fc s') = cache_size (fc s)"

lemma same_contents_refl [simp]: "same_contents s s"
  by (simp add: same_contents_def)

lemma same_contents_trans: "same_contents s t \<Longrightarrow> same_contents t u \<Longrightarrow> same_contents s u"
  by (simp add: same_contents_def)

lemma same_contents_same_data: "same_data (fc s) c \<Longrightarrow> same_contents s (s\<lparr>fc := c\<rparr>)"
  using same_dataD [of "fc s" c] by (simp add: same_contents_def same_data_def)

theorem cache_cycle_dirty_correct:
  assumes inv: "cache_inv s S" and "S \<noteq> []"
  shows "\<exists>s' S'. cache_cycle_dirty s = Some s' \<and> cache_inv s' S' \<and> set S' = set S \<and>
    same_view s s' \<and> cache_frame s s' \<and> same_contents s s' \<and> head_clean (fc s') \<and>
    cache_stack (fc s') = Some (victim (fc s) S)"
proof -
  have flushed: "\<exists>s' S'. do_cache_flush node t = Some s' \<and> cache_inv s' S' \<and> set S' = set S \<and>
      same_view t s' \<and> cache_frame t s' \<and> same_contents t s' \<and> head_clean (fc s') \<and>
      cache_stack (fc s') = cache_stack (fc t)"
    if t: "cache_inv t T" "set T = set S" "T \<noteq> []" for t T node
  proof -
    obtain r u where u: "cache_flush t = Some (r, u)" "cache_inv u T" "same_view t u"
      "cache_frame t u" "\<And>n. n \<in> set T \<Longrightarrow> flags (nodes (fc u) n) = CACHE_CLEAN"
      "same_contents t u" "cache_stack (fc u) = cache_stack (fc t)"
      using cache_flush_correct [OF t(1)] unfolding same_contents_def by blast
    obtain x xs where T: "T = x # xs" using t(3) by (cases T) auto
    obtain H where rep: "cache_rep (fc u) (x # xs) H"
      using cache_ok_rep [OF cache_ok_same_disk [OF u(2)]] T by auto
    have "head_clean (fc u)"
      using cache_rep_stack(2) [OF rep] u(5) [of x] T by (simp add: head_clean_def)
    moreover have "rotate_dirty node (fc u) = Some (fc u)"
      using rotate_dirty_clean [OF rep] u(5) [of x] T by simp
    ultimately have "do_cache_flush node t = Some u" using u(1) by (simp add: do_cache_flush_def)
    then show ?thesis using u t \<open>head_clean (fc u)\<close> by blast
  qed
  obtain H where rep: "cache_rep (fc s) S H"
    using cache_ok_rep [OF cache_ok_same_disk [OF inv]] by auto
  obtain x where x: "cache_stack (fc s) = Some x"
    using cache_rep_stack(2) [OF rep] assms(2) by (cases S) auto
  show ?thesis
  proof (cases "cache_item_dirty (fc s) > cache_size (fc s) * 3 div 4")
    case True
    moreover have "x = hd S" using cache_rep_stack(2) [OF rep] assms(2) x by (cases S) simp_all
    ultimately show ?thesis using x flushed [OF inv refl assms(2), of None]
      by (simp add: cache_cycle_dirty_def victim_def many_dirty_def)
  next
    case False
    obtain c S' where c: "rotate_dirty (Some x) (fc s) = Some c" "cache_rep c S' H"
      "same_data (fc s) c" "set S' = set S" "cache_stack c = Some (first_clean (fc s) S)"
      using rotate_dirty_loop [OF rep assms(2)] x by auto
    have v: "victim (fc s) S = first_clean (fc s) S"
      using False by (simp add: victim_def many_dirty_def)
    note sc = same_contents_same_data [OF c(3)]
    note inv' = cache_inv_same_data [OF inv c(3,2,4)]
    have ne: "S' \<noteq> []" using c(4) assms(2) by auto
    show ?thesis
    proof (cases "head_clean c")
      case True
      then show ?thesis using False x c inv' v sc by (auto simp: cache_cycle_dirty_def)
    next
      case nc: False
      obtain s' S'' where "do_cache_flush (Some x) (s\<lparr>fc := c\<rparr>) = Some s'" "cache_inv s' S''"
        "set S'' = set S" "same_view (s\<lparr>fc := c\<rparr>) s'" "cache_frame (s\<lparr>fc := c\<rparr>) s'"
        "same_contents (s\<lparr>fc := c\<rparr>) s'" "head_clean (fc s')" "cache_stack (fc s') = cache_stack c"
        using flushed [OF inv'(1) c(4) ne, of "Some x"] by auto
      then show ?thesis
        using False nc x c(1,5) v same_contents_trans [OF sc] same_view_trans [OF inv'(2)] cache_frame_trans [OF cache_frame_fc]
        by (auto simp: cache_cycle_dirty_def)
    qed
  qed
qed

text \<open>Taking a node out of the cache.\<close>

lemma dirty_set_remove:
  "distinct S \<Longrightarrow> (\<And>m. is_dirty (nodes c' m) = is_dirty (nodes c m)) \<Longrightarrow>
   dirty_set c' (remove1 n S) = dirty_set c S - {n}"
  by (auto simp: dirty_set_def)

lemma used_set_remove:
  "distinct S \<Longrightarrow> (\<And>m. blk (nodes c' m) = blk (nodes c m)) \<Longrightarrow>
   used_set c' (remove1 n S) = used_set c S - {n}"
  by (auto simp: used_set_def)

lemma finite_dirty_set [simp]: "finite (dirty_set c S)"
  by (simp add: dirty_set_def)

lemma finite_used_set [simp]: "finite (used_set c S)"
  by (simp add: used_set_def)

lemma card_remove_int:
  "finite A \<Longrightarrow> int (card (A - {n})) = int (card A) - (if n \<in> A then 1 else 0)"
  using card.remove [of A n] by (cases "n \<in> A") simp_all

text \<open>Removing a node: the counter of dirty items is left to the caller.\<close>

lemma cache_ok_remove:
  assumes ok: "cache_ok fs d c S" and n: "n \<in> set S"
  shows "cache_ok fs d ((cache_remove n c)\<lparr>cache_item_dirty :=
      cache_item_dirty c - (if is_dirty (nodes c n) then 1 else 0)\<rparr>) (remove1 n S)"
proof -
  let ?c = "(cache_remove n c)\<lparr>cache_item_dirty :=
      cache_item_dirty c - (if is_dirty (nodes c n) then 1 else 0)\<rparr>"
  obtain H where rep: "cache_rep c S H" using cache_ok_rep [OF ok] by auto
  have dist: "distinct S" using ok by (rule cache_ok_distinct)
  have rep': "cache_rep ?c (remove1 n S) (\<lambda>i. remove1 n (H i))"
    by (rule cache_rep_cong [OF cache_remove_rep [OF rep n]]) simp_all
  have data: "blk (nodes ?c m) = blk (nodes c m)" "is_dirty (nodes ?c m) = is_dirty (nodes c m)"
    "node_ok fs d (nodes ?c m) = node_ok fs d (nodes c m)" for m
    by (simp_all add: is_dirty_def node_ok_def)
  have sub: "set (remove1 n S) \<subseteq> set S" by (rule set_remove1_subset)
  have "uniq_blks ?c (remove1 n S)"
    using ok sub unfolding cache_ok_def uniq_blks_def data by blast
  moreover have "dirty_set ?c (remove1 n S) = dirty_set c S - {n}"
    using dist data(2) by (rule dirty_set_remove)
  moreover have "used_set ?c (remove1 n S) = used_set c S - {n}"
    using dist data(1) by (rule used_set_remove)
  moreover have "cache_item_dirty c = int (card (dirty_set c S))"
    "cache_used c = int (card (used_set c S))" using ok by (simp_all add: cache_ok_def)
  ultimately show ?thesis
    using rep' ok sub n data(3)
    by (auto simp: cache_ok_def card_remove_int used_bit_def dirty_set_def used_set_def)
qed

text \<open>Changing the data of a node outside the stack.\<close>

lemma cache_ok_upd_outside:
  assumes ok: "cache_ok fs d c S" and n: "n \<notin> set S"
  shows "cache_ok fs d (upd_node n f c) S"
proof -
  obtain H where rep: "cache_rep c S H" using cache_ok_rep [OF ok] by auto
  have same: "nodes (upd_node n f c) m = nodes c m" if "m \<in> set S" for m
    using that n by auto
  have "cache_rep (upd_node n f c) S H" 
    by (rule cache_rep_cong [OF rep]) (simp_all add: same del: nodes_upd_node)
  moreover have "dirty_set (upd_node n f c) S = dirty_set c S"
    "used_set (upd_node n f c) S = used_set c S"
    using same by (simp_all add: dirty_set_def used_set_def del: nodes_upd_node cong: conj_cong)
  moreover have "uniq_blks (upd_node n f c) S"
    using ok unfolding cache_ok_def uniq_blks_def by (metis same)
  ultimately show ?thesis using ok unfolding cache_ok_def by (metis same upd_node_fields)
qed

lemma cache_inv_upd_outside:
  assumes inv: "cache_inv s S" and n: "n \<notin> set S"
  shows "cache_inv (s\<lparr>fc := upd_node n f (fc s)\<rparr>) S"
    and "same_view s (s\<lparr>fc := upd_node n f (fc s)\<rparr>)"
proof -
  have ok: "cache_ok (unat (fsize (hnd s))) (disk (dev s)) (fc s) S"
    using inv by (rule cache_ok_same_disk)
  have same: "nodes (upd_node n f (fc s)) m = nodes (fc s) m" if "m \<in> set S" for m
    using that n by auto
  have ok': "cache_ok (unat (fsize (hnd s))) (disk (dev s)) (upd_node n f (fc s)) S"
    using ok n by (rule cache_ok_upd_outside)
  then show "cache_inv (s\<lparr>fc := upd_node n f (fc s)\<rparr>) S"
    using inv same by (simp add: cache_inv_def dev_good_def dev_ok_def frag_ok_def sectoff_def)
  have "view (s\<lparr>fc := upd_node n f (fc s)\<rparr>) b = view s b" if "b \<noteq> 0" for b
  proof (rule view_cong [OF ok _ that, where S' = S])
    show "cache_ok (unat (fsize (hnd s))) (disk (dev s))
        (fc (s\<lparr>fc := upd_node n f (fc s)\<rparr>)) S" using ok' by simp
  qed (use same in \<open>auto simp del: nodes_upd_node\<close>)
  then show "same_view s (s\<lparr>fc := upd_node n f (fc s)\<rparr>)" by (simp add: same_view_def)
qed

end
