(* ===== verification/Cache_Interface.thy ===== *)
theory Cache_Interface
  imports Cache_Correct
begin

text \<open>
  The contracts of the frag cache: what \<open>cache_frag\<close>, \<open>cache_frag_write\<close>,
  \<open>cache_available\<close>, \<open>cache_invalidate\<close> and \<open>cache_frag_move\<close> return and what they do
  to the contents of the file system, which pointers stay valid, and the interface
  \<open>frag_store\<close> under which the other components use the cache.
\<close>

section \<open>Changing a node in the cache\<close>

lemma keep_item_dirty: "k = cache_item_dirty c \<Longrightarrow> c\<lparr>cache_item_dirty := k\<rparr> = c"
  by simp

definition flag_bit :: "cache_set \<Rightarrow> int" where
  "flag_bit x = (if is_dirty x then 1 else 0)"

definition keeps_links :: "(cache_set \<Rightarrow> cache_set) \<Rightarrow> bool" where
  "keeps_links f \<longleftrightarrow>
     (\<forall>x. blk (f x) = blk x \<and> stack_up (f x) = stack_up x \<and> stack_down (f x) = stack_down x \<and>
       hash_up (f x) = hash_up x \<and> hash_down (f x) = hash_down x)"

lemma cache_ok_upd:
  assumes ok: "cache_ok fs d c S" and n: "n \<in> set S" and f: "keeps_links f"
    and node: "node_ok fs d (f (nodes c n))"
    and c': "c' = (upd_node n f c)\<lparr>cache_item_dirty :=
               cache_item_dirty c + flag_bit (f (nodes c n)) - flag_bit (nodes c n)\<rparr>"
  shows "cache_ok fs d c' S"
proof -
  obtain H where rep: "cache_rep c S H" using cache_ok_rep [OF ok] by auto
  have fields: "blk (nodes c' m) = blk (nodes c m)" for m
    using f by (simp add: c' keeps_links_def)
  have "cache_rep c' S H"
    by (rule cache_rep_cong [OF rep]) (use f in \<open>simp_all add: c' keeps_links_def\<close>)
  moreover have "uniq_blks c' S" using ok by (simp add: cache_ok_def uniq_blks_def fields)
  moreover have "used_set c' S = used_set c S" by (simp add: used_set_def fields)
  moreover have "\<forall>m \<in> set S. node_ok fs d (nodes c' m)"
    using node cache_ok_node [OF ok] by (simp add: c')
  moreover have "dirty_set c' S =
      (if is_dirty (f (nodes c n)) then insert n (dirty_set c S) else dirty_set c S - {n})"
    using n by (auto simp: c' dirty_set_def)
  moreover have "n \<in> dirty_set c S \<longleftrightarrow> is_dirty (nodes c n)" using n by (simp add: dirty_set_def)
  ultimately have "int (card (dirty_set c' S)) =
      int (card (dirty_set c S)) + flag_bit (f (nodes c n)) - flag_bit (nodes c n)"
    by (simp add: flag_bit_def card_remove_int insert_absorb
        del: card_Diff_insert card_Diff_singleton)
  with \<open>cache_rep c' S H\<close> \<open>uniq_blks c' S\<close> \<open>used_set c' S = used_set c S\<close>
    \<open>\<forall>m \<in> set S. node_ok fs d (nodes c' m)\<close>
  show ?thesis using ok unfolding cache_ok_def by (auto simp: c')
qed

text \<open>The view after a change of the buffer of a node.\<close>

lemma view_upd:
  assumes ok: "cache_ok fs d (fc s) S" and ok': "cache_ok fs' d' (fc s') S"
    and n: "n \<in> set S" "blk (nodes (fc s) n) \<noteq> 0"
    and same: "\<And>m. m \<noteq> n \<Longrightarrow> nodes (fc s') m = nodes (fc s) m"
    and blk: "blk (nodes (fc s') n) = blk (nodes (fc s) n)"
    and disk: "disk (dev s') = disk (dev s)" and a: "a \<noteq> 0"
  shows "view s' a = ((view s)(blk (nodes (fc s) n) := buf (nodes (fc s') n))) a"
proof (cases "a = blk (nodes (fc s) n)")
  case True
  then show ?thesis using view_hit [OF ok' n(1), of a] blk a by simp
next
  case False
  have m: "m \<noteq> n" if "blk (nodes (fc s) m) = a \<or> blk (nodes (fc s') m) = a" for m
    using that False blk by auto
  have "view s' a = view s a"
  proof (rule view_cong [OF ok ok' a])
    fix m assume "m \<in> set S" "blk (nodes (fc s) m) = a" "\<forall>m\<in>set S. blk (nodes (fc s') m) \<noteq> a"
    then have False using m [of m] same [of m] by auto
    then show "disk (dev s') a = buf (nodes (fc s) m)" by simp
  next
    fix k assume k: "k \<in> set S" "blk (nodes (fc s') k) = a"
    then have "k \<noteq> n" using m [of k] by simp
    then show "k \<in> set S \<and> blk (nodes (fc s) k) = a \<and>
        buf (nodes (fc s') k) = buf (nodes (fc s) k)" using k same [of k] by simp
  qed (simp add: disk)
  then show ?thesis using False by simp
qed

section \<open>Adding a node\<close>

text \<open>A node outside the cache is already counted when it is dirty.\<close>

lemma cache_ok_add:
  assumes ok: "cache_ok fs d (c\<lparr>cache_item_dirty := cache_item_dirty c - flag_bit (nodes c n)\<rparr>) S"
    and n: "n \<notin> set S" and node: "node_ok fs d (nodes c n)"
    and new: "blk (nodes c n) = 0 \<or> (\<forall>m \<in> set S. blk (nodes c m) \<noteq> blk (nodes c n))"
  shows "cache_ok fs d (cache_add n c) (S @ [n])"
proof -
  let ?old = "c\<lparr>cache_item_dirty := cache_item_dirty c - flag_bit (nodes c n)\<rparr>"
  obtain H where "cache_rep ?old S H" using cache_ok_rep [OF ok] by auto
  then have rep: "cache_rep c S H" by (rule cache_rep_cong) simp_all
  let ?c = "cache_add n c"
  have data: "is_dirty (nodes ?c m) = is_dirty (nodes c m)"
    "node_ok fs d (nodes ?c m) = node_ok fs d (nodes c m)" for m
    by (simp_all add: is_dirty_def node_ok_def)
  have "uniq_blks ?c (S @ [n])"
    using ok new n by (auto simp: cache_ok_def uniq_blks_def)
  moreover have "dirty_set ?c (S @ [n]) =
      (if is_dirty (nodes c n) then insert n (dirty_set ?old S) else dirty_set ?old S)"
    by (auto simp: dirty_set_def data)
  moreover have "used_set ?c (S @ [n]) =
      (if blk (nodes c n) \<noteq> 0 then insert n (used_set ?old S) else used_set ?old S)"
    by (auto simp: used_set_def)
  moreover have "n \<notin> dirty_set ?old S" "n \<notin> used_set ?old S"
    using n by (simp_all add: dirty_set_def used_set_def)
  moreover have "cache_rep ?c (S @ [n])
      (H(cache_hash (blk (nodes c n)) := n # H (cache_hash (blk (nodes c n)))))"
    by (rule cache_add_rep [OF rep n])
  ultimately show ?thesis
    using ok node by (auto simp: cache_ok_def data used_bit_def flag_bit_def)
qed

lemma view_add:
  assumes ok: "cache_ok fs d (c\<lparr>cache_item_dirty := k\<rparr>) S"
    and ok': "cache_ok fs' d' (cache_add n c) (S @ [n])"
    and n: "blk (nodes c n) \<noteq> 0" "\<forall>m \<in> set S. blk (nodes c m) \<noteq> blk (nodes c n)"
    and a: "a \<noteq> 0"
  shows "view (s\<lparr>fc := cache_add n c\<rparr>) a =
    ((view (s\<lparr>fc := c\<lparr>cache_item_dirty := k\<rparr>\<rparr>))(blk (nodes c n) := buf (nodes c n))) a"
proof -
  let ?s = "s\<lparr>fc := cache_add n c\<rparr>" and ?t = "s\<lparr>fc := c\<lparr>cache_item_dirty := k\<rparr>\<rparr>"
  have ok0: "cache_ok fs d (fc ?t) S" and ok1: "cache_ok fs' d' (fc ?s) (S @ [n])"
    using ok ok' by simp_all
  show ?thesis
  proof (cases "a = blk (nodes c n)")
    case True
    then show ?thesis using view_hit [OF ok1, of n a] a by simp
  next
    case False
    have "view ?s a = view ?t a"
      by (rule view_cong [where s = ?t and s' = ?s, OF ok0 ok1 a]) (use False in auto)
    then show ?thesis using False by simp
  qed
qed

text \<open>The view does not depend on the counters.\<close>

lemma view_item_dirty [simp]:
  "view (s\<lparr>fc := c\<lparr>cache_item_dirty := k\<rparr>\<rparr>) a = view (s\<lparr>fc := c\<rparr>) a"
  by (simp add: view_def cache_node_def frag_buf_def split: option.splits)

lemma cache_inv_frag:
  assumes "dev_good s" "cache_ok (unat (fsize (hnd s))) (disk (dev s)) c S"
    "\<And>n. n \<in> set S \<Longrightarrow> blk (nodes c n) \<noteq> 0 \<Longrightarrow> frag_ok s (blk (nodes c n))"
  shows "cache_inv (s\<lparr>fc := c\<rparr>) S"
  using assms by (simp add: cache_inv_def dev_good_def dev_ok_def frag_ok_def sectoff_def)

section \<open>Taking a node\<close>

lemma dirty_flag_bit: "flags x = CACHE_CLEAN \<Longrightarrow> \<not> is_dirty x"
  by (simp add: is_dirty_def CACHE_CLEAN_def)

lemma view_dev: "disk d = disk (dev s) \<Longrightarrow> view (s\<lparr>dev := d, fc := c\<rparr>) = view (s\<lparr>fc := c\<rparr>)"
  by (rule ext) (simp add: view_def frag_buf_def split: option.splits)

lemma fc_dev_commute: "s\<lparr>dev := d, fc := c\<rparr> = s\<lparr>fc := c, dev := d\<rparr>"
  by simp

lemma cache_inv_dev:
  "same_dev (dev s) d \<Longrightarrow> cache_inv (s\<lparr>dev := d\<rparr>) S = cache_inv s S"
  by (simp add: cache_inv_def dev_good_def dev_ok_def frag_ok_def sectoff_def same_dev_def)

lemma cache_frame_dev: "same_dev (dev s) d \<Longrightarrow> cache_frame s (s\<lparr>dev := d, fc := c\<rparr>)"
  by (simp add: cache_frame_def same_dev_def)

lemma data_read_1:
  assumes "dev_good s" "frag_ok s b"
  shows "\<exists>d. data_read b 1 s = (Some (disk (dev s) b), s\<lparr>dev := d\<rparr>) \<and> same_dev (dev s) d"
proof -
  obtain d where "read_request b s = (False, s\<lparr>dev := d\<rparr>)" "same_dev (dev s) d"
    using read_request_ok [of s b] assms by (auto simp: dev_good_def)
  then show ?thesis by (auto simp: data_read_def same_dev_def)
qed

text \<open>\<open>taken s S t S' n\<close>: node \<open>n\<close> has been taken out of the cache; nothing else has
  changed but the order of the stack and the dirty flags.\<close>

definition taken :: "fsys \<Rightarrow> nat list \<Rightarrow> fsys \<Rightarrow> nat list \<Rightarrow> nat \<Rightarrow> bool" where
  "taken s S t S' n \<longleftrightarrow>
     cache_inv t S' \<and> n \<notin> set S' \<and> insert n (set S') = set S \<and> same_view s t \<and>
     cache_frame s t \<and> cache_size (fc t) = cache_size (fc s) \<and>
     (\<forall>m \<in> set S'. blk (nodes (fc t) m) = blk (nodes (fc s) m) \<and>
        buf (nodes (fc t) m) = buf (nodes (fc s) m))"

text \<open>Removing a clean node does not change the view.\<close>

lemma remove_clean:
  assumes inv: "cache_inv s S" and n: "n \<in> set S" "flags (nodes (fc s) n) = CACHE_CLEAN"
  shows "taken s S (s\<lparr>fc := cache_remove n (fc s)\<rparr>) (remove1 n S) n"
proof -
  let ?t = "s\<lparr>fc := cache_remove n (fc s)\<rparr>"
  have ok: "cache_ok (unat (fsize (hnd s))) (disk (dev s)) (fc s) S"
    using inv by (rule cache_ok_same_disk)
  have dist: "distinct S" using ok by (rule cache_ok_distinct)
  have eq: "(cache_remove n (fc s))\<lparr>cache_item_dirty := cache_item_dirty (fc s)\<rparr> =
      cache_remove n (fc s)"
    by (rule keep_item_dirty) simp
  have "cache_ok (unat (fsize (hnd s))) (disk (dev s))
      ((cache_remove n (fc s))\<lparr>cache_item_dirty := cache_item_dirty (fc s)\<rparr>) (remove1 n S)"
    using cache_ok_remove [OF ok n(1)] dirty_flag_bit [OF n(2)] by simp
  then have ok': "cache_ok (unat (fsize (hnd s))) (disk (dev s)) (fc ?t) (remove1 n S)"
    unfolding eq by simp
  have inv': "cache_inv ?t (remove1 n S)"
    using inv ok' set_remove1_subset [of n S]
    by (auto simp: cache_inv_def dev_good_def dev_ok_def frag_ok_def sectoff_def)
  have sv: "view ?t a = view s a" if "a \<noteq> 0" for a
  proof (rule view_cong [OF ok ok' that])
    fix m assume m: "m \<in> set S" "blk (nodes (fc s) m) = a"
      "\<forall>k \<in> set (remove1 n S). blk (nodes (fc ?t) k) \<noteq> a"
    then have "m = n" using dist by auto
    then show "disk (dev ?t) a = buf (nodes (fc s) m)"
      using cache_ok_node [OF ok n(1)] dirty_flag_bit [OF n(2)] m that
      by (simp add: node_ok_def)
  qed (use dist in auto)
  then show ?thesis using inv' dist n(1) by (auto simp: taken_def same_view_def)
qed

theorem cache_getnode_correct:
  assumes inv: "cache_inv s S" and "S \<noteq> []"
  shows "\<exists>t S'. cache_getnode b s = Some (Some (victim (fc s) S), t) \<and>
    taken s S t S' (victim (fc s) S) \<and>
    blk (nodes (fc t) (victim (fc s) S)) = b \<and>
    flags (nodes (fc t) (victim (fc s) S)) = CACHE_CLEAN \<and>
    length (buf (nodes (fc t) (victim (fc s) S))) = unat (fsize (hnd s))"
proof -
  let ?n = "victim (fc s) S"
  obtain H where rep: "cache_rep (fc s) S H"
    using cache_ok_rep [OF cache_ok_same_disk [OF inv]] by auto
  have hd: "cache_stack (fc s) = Some (hd S)"
    using cache_rep_stack(2) [OF rep] assms(2) by (cases S) simp_all
  have "\<exists>u U. (if flags (nodes (fc s) (hd S)) \<noteq> CACHE_CLEAN then cache_cycle_dirty s
      else Some s) = Some u \<and> cache_inv u U \<and> set U = set S \<and> same_view s u \<and>
      cache_frame s u \<and> same_contents s u \<and> head_clean (fc u) \<and> cache_stack (fc u) = Some ?n"
  proof (cases "flags (nodes (fc s) (hd S)) = CACHE_CLEAN")
    case True
    then have "?n = hd S"
      using assms(2) by (cases S) (auto simp: victim_def first_clean_def)
    then show ?thesis using True inv hd by (auto simp: head_clean_def)
  next
    case False
    then show ?thesis using cache_cycle_dirty_correct [OF assms] by simp
  qed
  then obtain u U where u: "(if flags (nodes (fc s) (hd S)) \<noteq> CACHE_CLEAN
      then cache_cycle_dirty s else Some s) = Some u" "cache_inv u U" "set U = set S"
    "same_view s u" "cache_frame s u" "same_contents s u" "head_clean (fc u)"
    "cache_stack (fc u) = Some ?n" by blast
  obtain HU where repU: "cache_rep (fc u) U HU"
    using cache_ok_rep [OF cache_ok_same_disk [OF u(2)]] by auto
  have nU: "?n \<in> set U" using cache_rep_stack(2) [OF repU] u(8) by (metis hdo_Some_in)
  have clean: "flags (nodes (fc u) ?n) = CACHE_CLEAN" using u(7,8) by (simp add: head_clean_def)
  note rm = remove_clean [OF u(2) nU clean]
  let ?v = "u\<lparr>fc := cache_remove ?n (fc u)\<rparr>"
  let ?f = "\<lambda>x. x\<lparr>blk := b, flags := CACHE_CLEAN\<rparr>"
  let ?t = "?v\<lparr>fc := upd_node ?n ?f (fc ?v)\<rparr>"
  have run: "cache_getnode b s = Some (Some ?n, ?t)"
    using hd u(1,8) dirty_flag_bit [OF clean] by (simp add: cache_getnode_def)
  have inv_v: "cache_inv ?v (remove1 ?n U)" "?n \<notin> set (remove1 ?n U)"
    using rm by (simp_all add: taken_def)
  note out = cache_inv_upd_outside [OF inv_v, of ?f]
  have len: "length (buf (nodes (fc u) ?n)) = unat (fsize (hnd u))"
    using cache_ok_node [OF cache_ok_same_disk [OF u(2)] nU] by (simp add: node_ok_def)
  have "hnd u = hnd s" using u(5) by (simp add: cache_frame_def)
  moreover have "taken s S ?t (remove1 ?n U) ?n"
    using rm out inv_v(2) u(3-6)
    by (auto simp: taken_def same_contents_def cache_frame_def intro: same_view_trans)
  ultimately show ?thesis using run len by auto
qed

section \<open>Putting a block into the cache\<close>

lemma cache_ok_disk:
  assumes "cache_ok fs d c S"
    and "\<And>m. m \<in> set S \<Longrightarrow> \<not> is_dirty (nodes c m) \<Longrightarrow> blk (nodes c m) \<noteq> 0 \<Longrightarrow>
           d' (blk (nodes c m)) = d (blk (nodes c m))"
  shows "cache_ok fs d' c S"
  using assms by (auto simp: cache_ok_def node_ok_def)

lemma taken_miss:
  assumes "taken s S t S' n" "\<And>m. m \<in> set S \<Longrightarrow> blk (nodes (fc s) m) \<noteq> b" "m \<in> set S'"
  shows "blk (nodes (fc t) m) \<noteq> b"
  using assms by (auto simp: taken_def)

text \<open>The node gets block \<open>b\<close> and the bytes \<open>bs\<close> and goes back. Until the disk has the
  bytes, the node would have to be dirty: the invariant holds for the disk with \<open>bs\<close> at
  \<open>b\<close>.\<close>

lemma fill_add:
  assumes tk: "taken s S t S' n"
    and n: "blk (nodes (fc t) n) = b" "flags (nodes (fc t) n) = CACHE_CLEAN"
    and b: "b \<noteq> 0" "\<And>m. m \<in> set S \<Longrightarrow> blk (nodes (fc s) m) \<noteq> b"
    and bs: "length bs = unat (fsize (hnd s))"
    and c: "c = cache_add n (upd_node n (\<lambda>x. x\<lparr>buf := bs\<rparr>) (fc t))"
  shows "cache_ok (unat (fsize (hnd s))) ((disk (dev t))(b := bs)) c (S' @ [n])"
    and "a \<noteq> 0 \<Longrightarrow> view (t\<lparr>fc := c\<rparr>) a = ((view s)(b := bs)) a"
proof -
  let ?fs = "unat (fsize (hnd s))" and ?d = "(disk (dev t))(b := bs)"
  let ?c = "upd_node n (\<lambda>x. x\<lparr>buf := bs\<rparr>) (fc t)"
  have inv: "cache_inv t S'" "n \<notin> set S'" "hnd t = hnd s" and sv: "same_view s t"
    using tk by (simp_all add: taken_def cache_frame_def)
  note miss = taken_miss [OF tk b(2)]
  have other: "nodes ?c m = nodes (fc t) m" if "m \<in> set S'" for m using that inv(2) by auto
  have fb: "flag_bit (nodes ?c n) = 0" using n(2) by (simp add: flag_bit_def dirty_flag_bit)
  have ok: "cache_ok ?fs (disk (dev t)) ?c S'"
    using cache_ok_upd_outside [OF cache_ok_same_disk [OF inv(1)] inv(2)] inv(3) by simp
  have ok1: "cache_ok ?fs ?d ?c S'"
    by (rule cache_ok_disk [OF ok]) (simp add: other miss del: nodes_upd_node)
  then have ok2: "cache_ok ?fs ?d (?c\<lparr>cache_item_dirty :=
      cache_item_dirty ?c - flag_bit (nodes ?c n)\<rparr>) S'"
    by (subst keep_item_dirty) (simp_all only: fb diff_0_right)
  have node: "node_ok ?fs ?d (nodes ?c n)"
    using n bs b(1) by (simp add: node_ok_def is_dirty_def CACHE_CLEAN_def)
  have new: "\<forall>m \<in> set S'. blk (nodes ?c m) \<noteq> blk (nodes ?c n)"
    using miss other n(1) by simp
  show okc: "cache_ok ?fs ?d c (S' @ [n])"
    unfolding c by (rule cache_ok_add [OF ok2 inv(2) node]) (simp add: new del: nodes_upd_node)
  have blkn: "blk (nodes ?c n) = b" "buf (nodes ?c n) = bs" using n(1) by simp_all
  have okc': "cache_ok ?fs ?d (cache_add n ?c) (S' @ [n])" using okc c by simp
  show "view (t\<lparr>fc := c\<rparr>) a = ((view s)(b := bs)) a" if a: "a \<noteq> 0"
  proof -
    have "view (t\<lparr>fc := c\<rparr>) a = ((view (t\<lparr>fc := ?c\<rparr>))(b := bs)) a"
      using view_add [OF ok2 okc', of a t] new a b(1) unfolding c blkn by simp
    moreover have "view (t\<lparr>fc := ?c\<rparr>) a = view s a"
      using cache_inv_upd_outside(2) [OF inv(1,2), of "\<lambda>x. x\<lparr>buf := bs\<rparr>"] sv a
      by (simp add: same_view_def)
    ultimately show ?thesis by simp
  qed
qed

section \<open>Contracts\<close>

text \<open>What a client may rely on after a call that returns the pointer \<open>n\<close>: the node is the
  most recently used one and no other node has changed, except the one that was given to the
  new block.\<close>

definition fetched :: "fsys \<Rightarrow> nat list \<Rightarrow> fsys \<Rightarrow> nat list \<Rightarrow> nat \<Rightarrow> bool" where
  "fetched s S t S' n \<longleftrightarrow>
     cache_inv t S' \<and> set S' = set S \<and> S' \<noteq> [] \<and> last S' = n \<and> cache_frame s t \<and>
     cache_size (fc t) = cache_size (fc s) \<and>
     (blk (nodes (fc s) n) = blk (nodes (fc t) n) \<or> n = victim (fc s) S) \<and>
     (\<forall>m \<in> set S. m \<noteq> n \<longrightarrow> blk (nodes (fc t) m) = blk (nodes (fc s) m) \<and>
        buf (nodes (fc t) m) = buf (nodes (fc s) m))"

lemma view_of_miss:
  assumes "cache_inv s S" "\<And>m. m \<in> set S \<Longrightarrow> blk (nodes (fc s) m) \<noteq> b"
  shows "view s b = disk (dev s) b"
  using view_miss [OF cache_ok_same_disk [OF assms(1)]] assms(2) by simp

lemma cache_refresh_fetched:
  assumes inv: "cache_inv s S" and n: "n \<in> set S"
  shows "\<exists>c. cache_refresh n (fc s) = Some c \<and> same_data (fc s) c \<and>
    fetched s S (s\<lparr>fc := c\<rparr>) (remove1 n S @ [n]) n \<and> same_view s (s\<lparr>fc := c\<rparr>)"
proof -
  obtain H where rep: "cache_rep (fc s) S H"
    using cache_ok_rep [OF cache_ok_same_disk [OF inv]] by auto
  obtain c where c: "cache_refresh n (fc s) = Some c" "cache_rep c (remove1 n S @ [n]) H"
    "same_data (fc s) c" using cache_refresh_same_data [OF rep n] by auto
  have s: "set (remove1 n S @ [n]) = set S" using n cache_rep_stack(4) [OF rep] by auto
  have "fetched s S (s\<lparr>fc := c\<rparr>) (remove1 n S @ [n]) n"
    using cache_inv_same_data(1) [OF inv c(3,2) s] s same_dataD [OF c(3)] c(3)
    by (simp add: fetched_def same_data_def)
  then show ?thesis using c cache_inv_same_data(2) [OF inv c(3,2) s] by blast
qed

text \<open>\<open>cache_frag\<close> returns the buffer of the block; nothing changes in the file system.\<close>

theorem cache_frag_fetched:
  assumes inv: "cache_inv s S" and "S \<noteq> []" "b \<noteq> 0" "frag_ok s b"
  shows "\<exists>n t S'. cache_frag b s = Some (Some n, t) \<and> fetched s S t S' n \<and>
    blk (nodes (fc t) n) = b \<and> frag_buf t n = view s b \<and> same_view s t"
  using cache_ok_same_disk [OF inv] assms(3)
proof (cases rule: cache_node_cases)
  case (hit n)
  obtain c where c: "cache_refresh n (fc s) = Some c" "same_data (fc s) c"
    "fetched s S (s\<lparr>fc := c\<rparr>) (remove1 n S @ [n]) n" "same_view s (s\<lparr>fc := c\<rparr>)"
    using cache_refresh_fetched [OF inv hit(1)] by blast
  have "view s b = buf (nodes (fc s) n)"
    using view_hit [OF cache_ok_same_disk [OF inv]] hit assms(3) by simp
  then show ?thesis
    using c hit same_dataD [OF c(2)] by (auto simp: cache_frag_def frag_buf_def)
next
  case miss
  let ?n = "victim (fc s) S"
  obtain t S' where t: "cache_getnode b s = Some (Some ?n, t)" "taken s S t S' ?n"
    "blk (nodes (fc t) ?n) = b" "flags (nodes (fc t) ?n) = CACHE_CLEAN"
    using cache_getnode_correct [OF inv assms(2), of b] by blast
  have fr: "cache_frame s t" "cache_inv t S'" using t(2) by (simp_all add: taken_def)
  have good: "dev_good t" using fr(2) by (simp add: cache_inv_def)
  obtain d where d: "data_read b 1 t = (Some (disk (dev t) b), t\<lparr>dev := d\<rparr>)"
    "same_dev (dev t) d"
    using data_read_1 [OF good, of b] assms(4) cache_frame_frag_ok [OF fr(1)] by auto
  let ?bs = "disk (dev t) b"
  let ?c = "cache_add ?n (upd_node ?n (\<lambda>x. x\<lparr>buf := ?bs\<rparr>) (fc t))"
  let ?u = "t\<lparr>dev := d, fc := ?c\<rparr>"
  have bs: "length ?bs = unat (fsize (hnd s))"
    using good fr(1) by (simp add: dev_good_def cache_frame_def)
  note fill = fill_add [OF t(2-4) assms(3) miss(1) bs refl]
  have vb: "view s b = ?bs"
    using view_of_miss [OF fr(2) taken_miss [OF t(2) miss(1)]] t(2) assms(3)
    by (simp add: taken_def same_view_def)
  have "cache_ok (unat (fsize (hnd s))) (disk d) ?c (S' @ [?n])"
    using fill(1) d(2) by (simp add: same_dev_def)
  then have "cache_inv ?u (S' @ [?n])"
    using fr t(3) assms(4) cache_frame_frag_ok [OF fr(1)] d(2) t(2)
    by (auto simp: cache_inv_def dev_good_def dev_ok_def frag_ok_def sectoff_def same_dev_def
        cache_frame_def taken_def)
  moreover have "cache_frame s ?u"
    using cache_frame_trans [OF fr(1) cache_frame_dev [OF d(2)]] .
  ultimately have f: "fetched s S ?u (S' @ [?n]) ?n"
    using t(2) by (auto simp: fetched_def taken_def)
  have "view ?u a = view s a" if "a \<noteq> 0" for a
    using fill(2) [OF _ that] vb view_dev [of d t ?c] d(2) by (simp add: same_dev_def)
  then have "same_view s ?u" by (simp add: same_view_def)
  moreover have "cache_frag b s = Some (Some ?n, ?u)"
    using miss(2) t(1,3) d(1) by (simp add: cache_frag_def)
  ultimately show ?thesis using f vb t(3) by (auto simp: frag_buf_def)
qed

text \<open>Marking a node dirty changes neither its block nor its bytes.\<close>

lemma mark_dirty_fields [simp]:
  "blk (nodes (mark_dirty n c) m) = blk (nodes c m)"
  "buf (nodes (mark_dirty n c) m) = buf (nodes c m)"
  "cache_size (mark_dirty n c) = cache_size c"
  by (simp_all add: mark_dirty_def)

lemma mark_dirty_ok:
  assumes ok: "cache_ok fs d c S" and n: "n \<in> set S" "blk (nodes c n) \<noteq> 0"
  shows "cache_ok fs d (mark_dirty n c) S" and "is_dirty (nodes (mark_dirty n c) n)"
    and "a \<noteq> 0 \<Longrightarrow> view (s\<lparr>fc := mark_dirty n c\<rparr>) a = view (s\<lparr>fc := c\<rparr>) a"
proof -
  let ?f = "\<lambda>x. x\<lparr>flags := flags x OR CACHE_DIRTY\<rparr>"
  have node: "node_ok fs d (nodes c n)" using cache_ok_node [OF ok n(1)] .
  have dirty: "is_dirty (?f (nodes c n))"
    using node by (auto simp: node_ok_def is_dirty_def CACHE_CLEAN_def CACHE_DIRTY_def)
  show ok': "cache_ok fs d (mark_dirty n c) S"
  proof (cases "is_dirty (nodes c n)")
    case True
    then show ?thesis using ok by (simp add: mark_dirty_def)
  next
    case False
    show ?thesis
    proof (rule cache_ok_upd [OF ok n(1)])
      show "keeps_links ?f" by (simp add: keeps_links_def)
      show "node_ok fs d (?f (nodes c n))"
        using node n(2) dirty by (auto simp: node_ok_def CACHE_CLEAN_def CACHE_DIRTY_def)
      show "mark_dirty n c = (upd_node n ?f c)\<lparr>cache_item_dirty :=
          cache_item_dirty c + flag_bit (?f (nodes c n)) - flag_bit (nodes c n)\<rparr>"
        using False dirty by (simp add: mark_dirty_def flag_bit_def)
    qed
  qed
  show "is_dirty (nodes (mark_dirty n c) n)" using dirty by (simp add: mark_dirty_def)
  show "view (s\<lparr>fc := mark_dirty n c\<rparr>) a = view (s\<lparr>fc := c\<rparr>) a" if "a \<noteq> 0"
  proof -
    have o1: "cache_ok fs d (fc (s\<lparr>fc := c\<rparr>)) S"
      and o2: "cache_ok fs d (fc (s\<lparr>fc := mark_dirty n c\<rparr>)) S" using ok ok' by simp_all
    show ?thesis by (rule view_cong [OF o1 o2 that]) auto
  qed
qed

text \<open>\<open>cache_frag_write\<close>: with \<open>readflag\<close> the buffer holds the block; without it, the old
  bytes of the node, and only block \<open>b\<close> changes in the file system. The node is dirty: what
  the client stores in the buffer is what the block contains.\<close>

theorem cache_frag_write_fetched:
  assumes inv: "cache_inv s S" and "S \<noteq> []" "b \<noteq> 0" "frag_ok s b"
  shows "\<exists>n t S'. cache_frag_write b readflag s = Some (Some n, t) \<and> fetched s S t S' n \<and>
    blk (nodes (fc t) n) = b \<and> is_dirty (nodes (fc t) n) \<and>
    (readflag \<longrightarrow> frag_buf t n = view s b) \<and>
    (\<forall>a. a \<noteq> 0 \<longrightarrow> view t a = ((view s)(b := frag_buf t n)) a)"
  using cache_ok_same_disk [OF inv] assms(3)
proof (cases rule: cache_node_cases)
  case (hit n)
  obtain c where c: "cache_refresh n (fc s) = Some c" "same_data (fc s) c"
    "fetched s S (s\<lparr>fc := c\<rparr>) (remove1 n S @ [n]) n" "same_view s (s\<lparr>fc := c\<rparr>)"
    using cache_refresh_fetched [OF inv hit(1)] by blast
  let ?S = "remove1 n S @ [n]" and ?t = "s\<lparr>fc := mark_dirty n c\<rparr>"
  have vb: "view s b = buf (nodes (fc s) n)"
    using view_hit [OF cache_ok_same_disk [OF inv]] hit assms(3) by simp
  have invc: "cache_inv (s\<lparr>fc := c\<rparr>) ?S" using c(3) by (simp add: fetched_def)
  have okc: "cache_ok (unat (fsize (hnd s))) (disk (dev s)) c ?S"
    using cache_ok_same_disk [OF invc] by simp
  have nS: "n \<in> set ?S" "blk (nodes c n) \<noteq> 0" using same_dataD [OF c(2)] hit assms(3) by simp_all
  note md = mark_dirty_ok [OF okc nS]
  have "cache_inv ?t ?S"
    using invc md(1) by (simp add: cache_inv_def dev_good_def dev_ok_def frag_ok_def sectoff_def)
  then have "fetched s S ?t ?S n" using c(3) by (simp add: fetched_def cache_frame_def)
  moreover have "view ?t a = ((view s)(b := frag_buf ?t n)) a" if "a \<noteq> 0" for a
    using md(3) [OF that, of s] c(4) that vb same_dataD [OF c(2)]
    by (simp add: same_view_def frag_buf_def)
  ultimately show ?thesis
    using c(1) md(2) hit vb same_dataD [OF c(2)]
    by (auto simp: cache_frag_write_def frag_buf_def)
next
  case miss
  let ?n = "victim (fc s) S" and ?fs = "unat (fsize (hnd s))"
  obtain t S' where t: "cache_getnode b s = Some (Some ?n, t)" "taken s S t S' ?n"
    "blk (nodes (fc t) ?n) = b" "flags (nodes (fc t) ?n) = CACHE_CLEAN"
    "length (buf (nodes (fc t) ?n)) = ?fs"
    using cache_getnode_correct [OF inv assms(2), of b] by blast
  have fr: "cache_frame s t" "cache_inv t S'" using t(2) by (simp_all add: taken_def)
  have good: "dev_good t" using fr(2) by (simp add: cache_inv_def)
  have vb: "view s b = disk (dev t) b"
    using view_of_miss [OF fr(2) taken_miss [OF t(2) miss(1)]] t(2) assms(3)
    by (simp add: taken_def same_view_def)
  have "\<exists>d bs. (if readflag then data_read (blk (nodes (fc t) ?n)) 1 t
      else (Some (frag_buf t ?n), t)) = (Some bs, t\<lparr>dev := d\<rparr>) \<and> same_dev (dev t) d \<and>
      length bs = ?fs \<and> (readflag \<longrightarrow> bs = view s b)"
  proof (cases readflag)
    case True
    obtain d where "data_read b 1 t = (Some (disk (dev t) b), t\<lparr>dev := d\<rparr>)" "same_dev (dev t) d"
      using data_read_1 [OF good, of b] assms(4) cache_frame_frag_ok [OF fr(1)] by auto
    then show ?thesis using True t(3) vb good fr(1) by (auto simp: dev_good_def cache_frame_def)
  next
    case False
    then show ?thesis using t(5) by (auto simp: frag_buf_def intro!: exI [of _ "dev t"])
  qed
  then obtain d bs where d: "(if readflag then data_read (blk (nodes (fc t) ?n)) 1 t
      else (Some (frag_buf t ?n), t)) = (Some bs, t\<lparr>dev := d\<rparr>)" "same_dev (dev t) d"
    "length bs = ?fs" "readflag \<Longrightarrow> bs = view s b" by blast
  let ?c = "cache_add ?n (upd_node ?n (\<lambda>x. x\<lparr>buf := bs\<rparr>) (fc t))"
  let ?u = "t\<lparr>dev := d, fc := mark_dirty ?n ?c\<rparr>" and ?S = "S' @ [?n]"
  note fill = fill_add [OF t(2-4) assms(3) miss(1) d(3) refl]
  have nS: "?n \<in> set ?S" "blk (nodes ?c ?n) \<noteq> 0" "blk (nodes ?c ?n) = b"
    using t(3) assms(3) by simp_all
  note md = mark_dirty_ok [OF fill(1) nS(1,2)]
  have "uniq_blks (mark_dirty ?n ?c) ?S" using md(1) by (simp add: cache_ok_def)
  then have only: "m = ?n" if "m \<in> set ?S" "blk (nodes (mark_dirty ?n ?c) m) = b" for m
    unfolding uniq_blks_def using that nS(1,3) assms(3) by (metis mark_dirty_fields(1))
  have dd: "disk d = disk (dev t)" using d(2) by (simp add: same_dev_def)
  have "cache_ok ?fs (disk d) (mark_dirty ?n ?c) ?S"
  proof (rule cache_ok_disk [OF md(1)])
    fix m assume "m \<in> set ?S" "\<not> is_dirty (nodes (mark_dirty ?n ?c) m)"
    then have "blk (nodes (mark_dirty ?n ?c) m) \<noteq> b" using only [of m] md(2) by metis
    then show "disk d (blk (nodes (mark_dirty ?n ?c) m)) =
        ((disk (dev t))(b := bs)) (blk (nodes (mark_dirty ?n ?c) m))"
      unfolding dd by (rule fun_upd_other [symmetric])
  qed
  then have "cache_inv ?u ?S"
    using fr t(3) assms(4) cache_frame_frag_ok [OF fr(1)] d(2) t(2)
    by (auto simp: cache_inv_def dev_good_def dev_ok_def frag_ok_def sectoff_def same_dev_def
        cache_frame_def taken_def)
  moreover have "cache_frame s ?u"
    using cache_frame_trans [OF fr(1) cache_frame_dev [OF d(2)]] .
  ultimately have f: "fetched s S ?u ?S ?n"
    using t(2) by (auto simp: fetched_def taken_def)
  have buf: "frag_buf ?u ?n = bs" by (simp add: frag_buf_def)
  have "view ?u a = ((view s)(b := bs)) a" if "a \<noteq> 0" for a
    using fill(2) [OF _ that] md(3) [OF _ that, of t] view_dev [of d t "mark_dirty ?n ?c"] d(2)
    by (simp add: same_dev_def)
  moreover have "cache_frag_write b readflag s = Some (Some ?n, ?u)"
    using miss(2) t(1) d(1) by (simp add: cache_frag_write_def)
  ultimately show ?thesis using f d(4) t(3) md(2) buf by auto
qed

text \<open>\<open>cache_available\<close> answers whether the block is cached and changes nothing.\<close>

theorem cache_available_fetched:
  assumes inv: "cache_inv s S" and "b \<noteq> 0"
  shows "(\<exists>n t S'. cache_available b s = Some (Some n, t) \<and> fetched s S t S' n \<and>
      blk (nodes (fc t) n) = b \<and> frag_buf t n = view s b \<and> same_view s t) \<or>
    cache_available b s = Some (None, s) \<and> (\<forall>n \<in> set S. blk (nodes (fc s) n) \<noteq> b) \<and>
    view s b = disk (dev s) b"
  using cache_ok_same_disk [OF inv] assms(2)
proof (cases rule: cache_node_cases)
  case (hit n)
  obtain c where c: "cache_refresh n (fc s) = Some c" "same_data (fc s) c"
    "fetched s S (s\<lparr>fc := c\<rparr>) (remove1 n S @ [n]) n" "same_view s (s\<lparr>fc := c\<rparr>)"
    using cache_refresh_fetched [OF inv hit(1)] by blast
  have "view s b = buf (nodes (fc s) n)"
    using view_hit [OF cache_ok_same_disk [OF inv]] hit assms(2) by simp
  then show ?thesis
    using c hit same_dataD [OF c(2)] by (auto simp: cache_available_def frag_buf_def)
next
  case miss
  then show ?thesis using view_of_miss [OF inv miss(1)] by (simp add: cache_available_def)
qed

text \<open>Storing into the buffer of a dirty node.\<close>

theorem store_frag:
  assumes inv: "cache_inv s S" and n: "n \<in> set S" "is_dirty (nodes (fc s) n)"
    and len: "length bs = length (frag_buf s n)" and a: "a \<noteq> 0"
  shows "cache_inv (set_frag_buf n bs s) S"
    and "view (set_frag_buf n bs s) a = ((view s)(blk (nodes (fc s) n) := bs)) a"
proof -
  let ?f = "\<lambda>x. x\<lparr>buf := bs\<rparr>" and ?fs = "unat (fsize (hnd s))"
  have ok: "cache_ok ?fs (disk (dev s)) (fc s) S" using inv by (rule cache_ok_same_disk)
  have node: "node_ok ?fs (disk (dev s)) (nodes (fc s) n)" by (rule cache_ok_node [OF ok n(1)])
  have up: "set_frag_buf n bs s = s\<lparr>fc := upd_node n ?f (fc s)\<rparr>"
    by (simp add: set_frag_buf_def upd_node_def)
  have ok': "cache_ok ?fs (disk (dev s)) (upd_node n ?f (fc s)) S"
  proof (rule cache_ok_upd [OF ok n(1)])
    show "keeps_links ?f" by (simp add: keeps_links_def)
    show "node_ok ?fs (disk (dev s)) (?f (nodes (fc s) n))"
      using node n(2) len by (simp add: node_ok_def is_dirty_def frag_buf_def)
    show "upd_node n ?f (fc s) = (upd_node n ?f (fc s))\<lparr>cache_item_dirty :=
        cache_item_dirty (fc s) + flag_bit (?f (nodes (fc s) n)) - flag_bit (nodes (fc s) n)\<rparr>"
      by (rule keep_item_dirty [symmetric]) (simp add: flag_bit_def is_dirty_def)
  qed
  show "cache_inv (set_frag_buf n bs s) S"
    using inv ok' unfolding up
    by (simp add: cache_inv_def dev_good_def dev_ok_def frag_ok_def sectoff_def)
  have okf: "cache_ok ?fs (disk (dev s)) (fc (s\<lparr>fc := upd_node n ?f (fc s)\<rparr>)) S"
    using ok' by simp
  have "blk (nodes (fc s) n) \<noteq> 0" using node n(2) by (simp add: node_ok_def)
  then show "view (set_frag_buf n bs s) a = ((view s)(blk (nodes (fc s) n) := bs)) a"
    unfolding up using view_upd [OF ok okf n(1) _ _ _ _ a] by simp
qed

text \<open>\<open>cache_invalidate\<close> throws the cached copy away: the frag has the contents of the disk
  again.\<close>

lemma remove1_distinct_set: "distinct S \<Longrightarrow> set (remove1 n S) = set S - {n}"
  by (induction S) auto

theorem cache_invalidate_correct:
  assumes inv: "cache_inv s S" and b: "b \<noteq> 0"
  shows "\<exists>t S'. cache_invalidate b s = Some ((), t) \<and> cache_inv t S' \<and> set S' = set S \<and>
    cache_frame s t \<and> dev t = dev s \<and> cache_size (fc t) = cache_size (fc s) \<and>
    (\<forall>n \<in> set S. blk (nodes (fc t) n) = (if blk (nodes (fc s) n) = b then 0 else blk (nodes (fc s) n))) \<and>
    (\<forall>a. a \<noteq> 0 \<longrightarrow> view t a = ((view s)(b := disk (dev s) b)) a)"
  using cache_ok_same_disk [OF inv] b
proof (cases rule: cache_node_cases)
  case miss
  then show ?thesis using inv view_of_miss [OF inv miss(1)]
    by (auto simp: cache_invalidate_def)
next
  case (hit n)
  let ?fs = "unat (fsize (hnd s))" and ?d = "disk (dev s)"
  have ok: "cache_ok ?fs ?d (fc s) S" using inv by (rule cache_ok_same_disk)
  have dist: "distinct S" using ok by (rule cache_ok_distinct)
  let ?r = "(cache_remove n (fc s))\<lparr>cache_item_dirty :=
      cache_item_dirty (fc s) - flag_bit (nodes (fc s) n)\<rparr>"
  let ?S = "remove1 n S" and ?f = "\<lambda>x. x\<lparr>blk := 0, flags := CACHE_CLEAN\<rparr>"
  let ?c = "upd_node n ?f ?r"
  have nS: "n \<notin> set ?S" using dist by simp
  have okr: "cache_ok ?fs ?d ?r ?S"
    using cache_ok_remove [OF ok hit(1)] by (simp add: flag_bit_def)
  have okc: "cache_ok ?fs ?d ?c ?S" by (rule cache_ok_upd_outside [OF okr nS])
  have clean: "\<not> is_dirty (nodes ?c n)" by (simp add: is_dirty_def CACHE_CLEAN_def)
  have node: "node_ok ?fs ?d (nodes ?c n)"
    using clean cache_ok_node [OF ok hit(1)] by (simp add: node_ok_def)
  have okc': "cache_ok ?fs ?d (?c\<lparr>cache_item_dirty :=
      cache_item_dirty ?c - flag_bit (nodes ?c n)\<rparr>) ?S"
    using okc clean by (subst keep_item_dirty) (simp_all only: flag_bit_def if_False diff_0_right)
  let ?t = "s\<lparr>fc := cache_add n ?c\<rparr>"
  have okt: "cache_ok ?fs ?d (cache_add n ?c) (?S @ [n])"
    by (rule cache_ok_add [OF okc' nS node]) simp
  have r: "?r = (if is_dirty (nodes (fc s) n)
      then (cache_remove n (fc s))\<lparr>cache_item_dirty := cache_item_dirty (fc s) - 1\<rparr>
      else cache_remove n (fc s))"
    by (auto simp: flag_bit_def intro: keep_item_dirty)
  have run: "cache_invalidate b s = Some ((), ?t)"
    using hit unfolding r by (simp add: cache_invalidate_def Let_def upd_node_def is_dirty_def)
  have blks: "blk (nodes (fc ?t) m) = (if m = n then 0 else blk (nodes (fc s) m))"
    "m \<noteq> n \<Longrightarrow> buf (nodes (fc ?t) m) = buf (nodes (fc s) m)" for m by simp_all
  have st: "set (?S @ [n]) = set S" using remove1_distinct_set [OF dist] hit(1) by auto
  have inv': "cache_inv ?t (?S @ [n])"
    using inv okt st blks unfolding cache_inv_def
    by (simp add: dev_good_def dev_ok_def frag_ok_def sectoff_def del: set_append)
  have uniq: "m = n" if "m \<in> set S" "blk (nodes (fc s) m) = b" for m
    using ok hit that b unfolding cache_ok_def uniq_blks_def by metis
  have vw: "view ?t a = ((view s)(b := ?d b)) a" if a: "a \<noteq> 0" for a
  proof -
    have okf: "cache_ok ?fs ?d (fc ?t) (?S @ [n])" using okt by simp
    show ?thesis
    proof (cases "a = b")
      case True
      have "blk (nodes (fc ?t) m) \<noteq> b" if "m \<in> set (?S @ [n])" for m
        using that uniq [of m] b unfolding st blks by auto
      then show ?thesis using view_miss [OF okf, of b] True by simp
    next
      case False
      have "view ?t a = view s a"
      proof (rule view_cong [OF ok okf a])
        fix m assume m: "m \<in> set S" "blk (nodes (fc s) m) = a"
          "\<forall>k \<in> set (?S @ [n]). blk (nodes (fc ?t) k) \<noteq> a"
        then have "m = n" unfolding st blks by metis
        then show "disk (dev ?t) a = buf (nodes (fc s) m)" using m(2) hit(2) False by simp
      next
        fix k assume "k \<in> set (?S @ [n])" "blk (nodes (fc ?t) k) = a"
        then show "k \<in> set S \<and> blk (nodes (fc s) k) = a \<and>
            buf (nodes (fc ?t) k) = buf (nodes (fc s) k)"
          unfolding st blks using a blks(2) by (auto split: if_splits)
      qed simp
      then show ?thesis using False by simp
    qed
  qed
  have fr: "cache_frame s ?t" "dev ?t = dev s" "cache_size (fc ?t) = cache_size (fc s)"
    by (simp_all add: cache_frame_def same_dev_def)
  have bl: "blk (nodes (fc ?t) m) = (if blk (nodes (fc s) m) = b then 0 else blk (nodes (fc s) m))"
    if "m \<in> set S" for m
  proof (cases "m = n")
    case True
    then show ?thesis unfolding blks(1) using hit(2) by (simp only: simp_thms if_True)
  next
    case False
    then have "blk (nodes (fc s) m) \<noteq> b" using uniq [OF that] by blast
    then show ?thesis unfolding blks(1) using False by (simp only: if_False)
  qed
  have "cache_invalidate b s = Some ((), u) \<and> cache_inv u U \<and> set U = set S \<and>
      cache_frame s u \<and> dev u = dev s \<and> cache_size (fc u) = cache_size (fc s) \<and>
      (\<forall>n \<in> set S. blk (nodes (fc u) n) = (if blk (nodes (fc s) n) = b then 0 else blk (nodes (fc s) n))) \<and>
      (\<forall>a. a \<noteq> 0 \<longrightarrow> view u a = ((view s)(b := ?d b)) a)"
    if "u = ?t" "U = ?S @ [n]" for u U
    unfolding that using run inv' st fr bl vw by (intro conjI ballI allI impI) assumption+
  then show ?thesis by blast
qed

section \<open>Moving a block\<close>

lemma remove_view:
  assumes ok: "cache_ok fs d (fc s) S" and n: "n \<in> set S" "blk (nodes (fc s) n) = b"
    and ok': "cache_ok fs d (fc s') (remove1 n S)"
    and same: "\<And>m. blk (nodes (fc s') m) = blk (nodes (fc s) m)"
      "\<And>m. buf (nodes (fc s') m) = buf (nodes (fc s) m)" "disk (dev s') = disk (dev s)"
    and a: "a \<noteq> 0"
  shows "view s' a = ((view s)(b := disk (dev s) b)) a"
proof -
  have dist: "distinct S" using ok by (rule cache_ok_distinct)
  have S: "set (remove1 n S) = set S - {n}" by (rule remove1_distinct_set [OF dist])
  show ?thesis
  proof (cases "a = b")
    case True
    have "blk (nodes (fc s') m) \<noteq> a" if "m \<in> set (remove1 n S)" for m
      using ok n that True a unfolding same S cache_ok_def uniq_blks_def
      by (metis DiffE singletonI)
    then show ?thesis using view_miss [OF ok'] True same(3) by simp
  next
    case False
    have "view s' a = view s a"
      by (rule view_cong [OF ok ok' a]) (use False n same S in auto)
    then show ?thesis using False by simp
  qed
qed

text \<open>The end of \<open>cache_frag_move\<close>: a node outside the cache gets the block \<open>t\<close> and is made
  dirty.\<close>

lemma move_add:
  assumes ok: "cache_ok fs d (c\<lparr>cache_item_dirty := cache_item_dirty c - flag_bit (nodes c n)\<rparr>) S"
    and n: "n \<notin> set S" "flags (nodes c n) = CACHE_CLEAN \<or> flags (nodes c n) = CACHE_DIRTY"
      "length (buf (nodes c n)) = fs"
    and t: "t \<noteq> 0" "\<And>m. m \<in> set S \<Longrightarrow> blk (nodes c m) \<noteq> t"
    and c1: "c1 = upd_node n (\<lambda>x. x\<lparr>blk := t\<rparr>) c"
    and c2: "c2 = (if is_dirty (nodes c1 n) then c1
       else (upd_node n (\<lambda>x. x\<lparr>flags := CACHE_DIRTY\<rparr>) c1)
              \<lparr>cache_item_dirty := cache_item_dirty c1 + 1\<rparr>)"
  shows "cache_ok fs d (cache_add n c2) (S @ [n])"
    and "a \<noteq> 0 \<Longrightarrow> view (s\<lparr>fc := cache_add n c2\<rparr>) a =
      ((view (s\<lparr>fc := c\<rparr>))(t := buf (nodes c n))) a"
    and "cache_size (cache_add n c2) = cache_size c" "blk (nodes (cache_add n c2) n) = t"
    and "m \<noteq> n \<Longrightarrow> blk (nodes (cache_add n c2) m) = blk (nodes c m)"
proof -
  let ?f = "\<lambda>x. x\<lparr>blk := t, flags := CACHE_DIRTY\<rparr>"
  let ?c = "upd_node n ?f (c\<lparr>cache_item_dirty := cache_item_dirty c - flag_bit (nodes c n)\<rparr>)"
  have nd: "is_dirty (nodes c n) \<longleftrightarrow> flags (nodes c n) = CACHE_DIRTY"
    using n(2) by (auto simp: is_dirty_def CACHE_CLEAN_def CACHE_DIRTY_def)
  have node_eq: "(nodes c n)\<lparr>blk := t, flags := CACHE_DIRTY\<rparr> = (nodes c n)\<lparr>blk := t\<rparr>"
    if "flags (nodes c n) = CACHE_DIRTY" using that by simp
  have c2': "c2\<lparr>cache_item_dirty := cache_item_dirty c2 - 1\<rparr> = ?c"
    using nd by (auto simp: c1 c2 flag_bit_def is_dirty_def node_eq fun_upd_def
        intro!: frag_cache.equality)
  have f: "nodes c2 n = (nodes c n)\<lparr>blk := t, flags := CACHE_DIRTY\<rparr>"
    "nodes c2 m = nodes c m" "cache_size c2 = cache_size c" if "m \<noteq> n" for m
    using nd node_eq that by (auto simp: c1 c2 is_dirty_def)
  have f1: "nodes c2 n = (nodes c n)\<lparr>blk := t, flags := CACHE_DIRTY\<rparr>"
    using f(1) [of "Suc n"] by simp
  have dirty: "is_dirty (nodes c2 n)" by (simp add: f1 is_dirty_def CACHE_DIRTY_def)
  have ok1: "cache_ok fs d ?c S" by (rule cache_ok_upd_outside [OF ok n(1)])
  then have ok2: "cache_ok fs d (c2\<lparr>cache_item_dirty := cache_item_dirty c2 - flag_bit (nodes c2 n)\<rparr>) S"
    using dirty c2' by (simp add: flag_bit_def)
  have node: "node_ok fs d (nodes c2 n)"
    using n(3) t(1) dirty by (simp add: f1 node_ok_def)
  have other: "nodes c2 m = nodes c m" if "m \<in> set S" for m using f(2) [of m] n(1) that by auto
  have new: "\<forall>m \<in> set S. blk (nodes c2 m) \<noteq> blk (nodes c2 n)" using other t(2) f1 by simp
  show oka: "cache_ok fs d (cache_add n c2) (S @ [n])"
    by (rule cache_ok_add [OF ok2 n(1) node]) (use new in simp)
  show "cache_size (cache_add n c2) = cache_size c" using f(3) [of "Suc n"] by simp
  show "blk (nodes (cache_add n c2) n) = t" using f1 by simp
  show "blk (nodes (cache_add n c2) m) = blk (nodes c m)" if "m \<noteq> n" using f(2) [OF that] by simp
  show "view (s\<lparr>fc := cache_add n c2\<rparr>) a = ((view (s\<lparr>fc := c\<rparr>))(t := buf (nodes c n))) a"
    if a: "a \<noteq> 0"
  proof -
    let ?k = "cache_item_dirty c - flag_bit (nodes c n)"
    have o1: "cache_ok fs d (fc (s\<lparr>fc := c\<lparr>cache_item_dirty := ?k\<rparr>\<rparr>)) S"
      and o2: "cache_ok fs d (fc (s\<lparr>fc := ?c\<rparr>)) S" using ok ok1 by simp_all
    have keep: "nodes ?c m = nodes c m" if "m \<in> set S" for m using that n(1) by auto
    have "view (s\<lparr>fc := ?c\<rparr>) a = view (s\<lparr>fc := c\<lparr>cache_item_dirty := ?k\<rparr>\<rparr>) a"
      by (rule view_cong [OF o1 o2 a]) (auto simp: keep simp del: nodes_upd_node)
    moreover have "view (s\<lparr>fc := c2\<lparr>cache_item_dirty := cache_item_dirty c2 - 1\<rparr>\<rparr>) a =
        view (s\<lparr>fc := c2\<rparr>) a" by simp
    moreover have "view (s\<lparr>fc := cache_add n c2\<rparr>) a =
        ((view (s\<lparr>fc := c2\<rparr>))(t := buf (nodes c n))) a"
      using view_add [OF ok2 oka _ new a, of s] f1 t(1) by simp
    ultimately show ?thesis unfolding c2' by simp
  qed
qed

text \<open>After the move the new address has the contents of the old one, which falls back to the
  disk; nothing else changes. The new address must not be cached.\<close>

theorem cache_frag_move_correct:
  assumes inv: "cache_inv s S" and "S \<noteq> []" "to_blk \<noteq> 0" "from_blk \<noteq> 0" "to_blk \<noteq> from_blk"
    and ok_blks: "frag_ok s to_blk" "frag_ok s from_blk"
    and free: "\<And>m. m \<in> set S \<Longrightarrow> blk (nodes (fc s) m) \<noteq> to_blk"
  shows "\<exists>t S'. cache_frag_move to_blk from_blk s = Some ((), t) \<and> cache_inv t S' \<and>
    set S' = set S \<and> cache_frame s t \<and> view t to_blk = view s from_blk \<and>
    (\<forall>a. a \<noteq> 0 \<longrightarrow> a \<noteq> to_blk \<longrightarrow> a \<noteq> from_blk \<longrightarrow> view t a = view s a)"
  using cache_ok_same_disk [OF inv] assms(4)
proof (cases rule: cache_node_cases)
  case (hit n)
  let ?fs = "unat (fsize (hnd s))" and ?d = "disk (dev s)"
  have ok: "cache_ok ?fs ?d (fc s) S" using inv by (rule cache_ok_same_disk)
  have dist: "distinct S" using ok by (rule cache_ok_distinct)
  let ?c = "cache_remove n (fc s)" and ?S = "remove1 n S"
  let ?k = "cache_item_dirty ?c - flag_bit (nodes ?c n)"
  have nd: "is_dirty (nodes ?c n) = is_dirty (nodes (fc s) n)" by (simp add: is_dirty_def)
  have okr: "cache_ok ?fs ?d (?c\<lparr>cache_item_dirty := ?k\<rparr>) ?S"
    using cache_ok_remove [OF ok hit(1)] by (simp add: flag_bit_def nd)
  have node: "node_ok ?fs ?d (nodes (fc s) n)" by (rule cache_ok_node [OF ok hit(1)])
  define c1 where "c1 = upd_node n (\<lambda>x. x\<lparr>blk := to_blk\<rparr>) ?c"
  define c2 where "c2 = (if is_dirty (nodes c1 n) then c1
       else (upd_node n (\<lambda>x. x\<lparr>flags := CACHE_DIRTY\<rparr>) c1)
              \<lparr>cache_item_dirty := cache_item_dirty c1 + 1\<rparr>)"
  let ?t = "s\<lparr>fc := cache_add n c2\<rparr>"
  have nS: "n \<notin> set ?S" using dist by simp
  have fl: "flags (nodes ?c n) = CACHE_CLEAN \<or> flags (nodes ?c n) = CACHE_DIRTY"
    "length (buf (nodes ?c n)) = ?fs" using node by (simp_all add: node_ok_def)
  have new: "blk (nodes ?c m) \<noteq> to_blk" if "m \<in> set ?S" for m
    using free [of m] that notin_set_remove1 [of m S n] by auto
  note mv = move_add [OF okr nS fl assms(3) new c1_def c2_def]
  have run: "cache_frag_move to_blk from_blk s = Some ((), ?t)"
    using hit by (simp add: cache_frag_move_def Let_def c1_def c2_def)
  have st: "set (?S @ [n]) = set S" using remove1_distinct_set [OF dist] hit(1) by auto
  have blks: "frag_ok s (blk (nodes (cache_add n c2) m))"
    if "m \<in> set (?S @ [n])" "blk (nodes (cache_add n c2) m) \<noteq> 0" for m
    using that mv(4) mv(5) [of m] inv ok_blks(1) st unfolding cache_inv_def
    by (cases "m = n") auto
  have "cache_inv ?t (?S @ [n])"
    using cache_inv_frag [of s "cache_add n c2" "?S @ [n]"] inv mv(1) blks
    by (simp add: cache_inv_def)
  moreover have "view ?t a = ((view s)(from_blk := ?d from_blk, to_blk := view s from_blk)) a"
    if a: "a \<noteq> 0" for a
  proof -
    have okf: "cache_ok ?fs ?d (fc (s\<lparr>fc := ?c\<lparr>cache_item_dirty := ?k\<rparr>\<rparr>)) ?S" using okr by simp
    have "view (s\<lparr>fc := ?c\<lparr>cache_item_dirty := ?k\<rparr>\<rparr>) a =
        ((view s)(from_blk := ?d from_blk)) a"
      by (rule remove_view [OF ok hit(1,2) okf _ _ _ a]) simp_all
    moreover have "view s from_blk = buf (nodes (fc s) n)"
      by (rule view_hit [OF ok hit(1,2) assms(4)])
    ultimately show ?thesis using mv(2) [OF _ a, of s] by simp
  qed
  ultimately show ?thesis using run st assms(3,5) by auto
next
  case miss
  let ?n = "victim (fc s) S" and ?fs = "unat (fsize (hnd s))"
  obtain t S' where t: "cache_getnode from_blk s = Some (Some ?n, t)" "taken s S t S' ?n"
    "blk (nodes (fc t) ?n) = from_blk" "flags (nodes (fc t) ?n) = CACHE_CLEAN"
    "length (buf (nodes (fc t) ?n)) = ?fs"
    using cache_getnode_correct [OF inv assms(2), of from_blk] by blast
  have fr: "cache_frame s t" "cache_inv t S'" "?n \<notin> set S'" using t(2) by (simp_all add: taken_def)
  have good: "dev_good t" using fr(2) by (simp add: cache_inv_def)
  obtain d where d: "data_read from_blk 1 t = (Some (disk (dev t) from_blk), t\<lparr>dev := d\<rparr>)"
    "same_dev (dev t) d"
    using data_read_1 [OF good, of from_blk] ok_blks(2) cache_frame_frag_ok [OF fr(1)] by auto
  have dd: "disk d = disk (dev t)" using d(2) by (simp add: same_dev_def)
  let ?bs = "disk (dev t) from_blk"
  let ?c = "upd_node ?n (\<lambda>x. x\<lparr>buf := ?bs\<rparr>) (fc t)"
  define c1 where "c1 = upd_node ?n (\<lambda>x. x\<lparr>blk := to_blk\<rparr>) ?c"
  define c2 where "c2 = (if is_dirty (nodes c1 ?n) then c1
       else (upd_node ?n (\<lambda>x. x\<lparr>flags := CACHE_DIRTY\<rparr>) c1)
              \<lparr>cache_item_dirty := cache_item_dirty c1 + 1\<rparr>)"
  let ?u = "t\<lparr>dev := d, fc := cache_add ?n c2\<rparr>"
  have vb: "view s from_blk = ?bs"
    using view_of_miss [OF fr(2) taken_miss [OF t(2) miss(1)]] t(2) assms(4)
    by (simp add: taken_def same_view_def)
  have fb: "flag_bit (nodes ?c ?n) = 0" using t(4) by (simp add: flag_bit_def dirty_flag_bit)
  have "hnd t = hnd s" using fr(1) by (simp add: cache_frame_def)
  then have okt: "cache_ok ?fs (disk (dev t)) ?c S'" and lbs: "length ?bs = ?fs"
    using cache_ok_upd_outside [OF cache_ok_same_disk [OF fr(2)] fr(3)] good
    by (simp_all add: dev_good_def)
  have okr: "cache_ok ?fs (disk (dev t))
      (?c\<lparr>cache_item_dirty := cache_item_dirty ?c - flag_bit (nodes ?c ?n)\<rparr>) S'"
    using okt by (subst keep_item_dirty) (simp_all only: fb diff_0_right)
  have fl: "flags (nodes ?c ?n) = CACHE_CLEAN \<or> flags (nodes ?c ?n) = CACHE_DIRTY"
    "length (buf (nodes ?c ?n)) = ?fs" using t(4) lbs by simp_all
  have new: "blk (nodes ?c m) \<noteq> to_blk" if "m \<in> set S'" for m
    using taken_miss [OF t(2) free that] that fr(3) by auto
  note mv = move_add [OF okr fr(3) fl assms(3) new c1_def c2_def]
  have run: "cache_frag_move to_blk from_blk s = Some ((), ?u)"
    using miss(2) t(1,3) d(1) by (simp add: cache_frag_move_def Let_def c1_def c2_def)
  have tk: "insert ?n (set S') = set S" using t(2) by (simp add: taken_def)
  have blks: "frag_ok t (blk (nodes (cache_add ?n c2) m))"
    if "m \<in> set (S' @ [?n])" "blk (nodes (cache_add ?n c2) m) \<noteq> 0" for m
    using that mv(4) mv(5) [of m] fr(2) ok_blks(1) cache_frame_frag_ok [OF fr(1)]
    unfolding cache_inv_def by (cases "m = ?n") auto
  have "cache_inv (t\<lparr>fc := cache_add ?n c2\<rparr>) (S' @ [?n])"
    using cache_inv_frag [of t "cache_add ?n c2" "S' @ [?n]"] mv(1) good blks \<open>hnd t = hnd s\<close>
    by simp
  then have "cache_inv ?u (S' @ [?n])"
    using cache_inv_dev [of "t\<lparr>fc := cache_add ?n c2\<rparr>" d "S' @ [?n]"] d(2)
    by (subst fc_dev_commute) simp
  moreover have "cache_frame s ?u"
    using cache_frame_trans [OF fr(1) cache_frame_dev [OF d(2)]] .
  moreover have "view ?u a = ((view s)(to_blk := view s from_blk)) a" if a: "a \<noteq> 0" for a
  proof -
    have "view (t\<lparr>fc := ?c\<rparr>) a = view s a"
      using cache_inv_upd_outside(2) [OF fr(2,3), of "\<lambda>x. x\<lparr>buf := ?bs\<rparr>"] t(2) a
      by (simp add: taken_def same_view_def)
    then show ?thesis using mv(2) [OF _ a, of t] vb view_dev [OF dd, of "cache_add ?n c2"] by simp
  qed
  ultimately show ?thesis using run assms(3) tk by auto
qed

end
