(* ===== verification/Frag_Store.thy ===== *)
theory Frag_Store
  imports Cache_Interface
begin

text \<open>
  The frag cache as the other components see it. \<open>mounted\<close>: the cache invariant with as
  many nodes as \<open>cache_size\<close> says, which is what \<open>open_cache\<close> establishes. The pointer to
  the most recently used frag survives the next call. The locale \<open>frag_store\<close> is the
  interface: reading a frag and updating a frag in place, with the lemmas for sequences of
  updates proved in it, interpreted on the cache.
\<close>

section \<open>A mounted file system\<close>

definition mounted :: "fsys \<Rightarrow> bool" where
  "mounted s \<longleftrightarrow>
     (\<exists>S. cache_inv s S \<and> cache_size (fc s) = int (length S) \<and> CACHE_SIZE_MIN \<le> cache_size (fc s))"

definition valid_frag :: "fsys \<Rightarrow> u32 \<Rightarrow> bool" where
  "valid_frag s b \<longleftrightarrow> b \<noteq> 0 \<and> frag_ok s b"

lemma mountedE:
  assumes "mounted s"
  obtains S where "cache_inv s S" "cache_size (fc s) = int (length S)" "8 \<le> length S" "S \<noteq> []"
proof -
  obtain S where S: "cache_inv s S" "cache_size (fc s) = int (length S)"
    "CACHE_SIZE_MIN \<le> cache_size (fc s)" using assms unfolding mounted_def by blast
  then have "8 \<le> length S" by (simp add: CACHE_SIZE_MIN_def)
  then show ?thesis using that S by force
qed

lemma same_set_length:
  "cache_inv s S \<Longrightarrow> cache_inv t T \<Longrightarrow> set T = set S \<Longrightarrow> length T = length S"
  using cache_ok_distinct [OF cache_ok_same_disk] by (metis distinct_card)

lemma mounted_fetched:
  assumes "cache_inv s S" "cache_size (fc s) = int (length S)" "8 \<le> length S"
    and "fetched s S t T n"
  shows "mounted t"
  unfolding mounted_def
proof (intro exI conjI)
  show "cache_inv t T" using assms(4) by (simp add: fetched_def)
  have "length T = length S"
    using assms(4) unfolding fetched_def by (metis same_set_length [OF assms(1)])
  then show "cache_size (fc t) = int (length T)" "CACHE_SIZE_MIN \<le> cache_size (fc t)"
    using assms by (simp_all add: fetched_def CACHE_SIZE_MIN_def)
qed

lemma cache_frame_valid: "cache_frame s t \<Longrightarrow> valid_frag t = valid_frag s"
  using cache_frame_frag_ok [of s t] by (simp add: valid_frag_def fun_eq_iff)

section \<open>Pointers into the cache\<close>

text \<open>The node that is given away is never the most recently used one, because the cache is
  flushed when more than three quarters of it are dirty.\<close>

lemma victim_not_last:
  assumes ok: "cache_ok fs d c S" and size: "cache_size c = int (length S)" "5 \<le> length S"
  shows "victim c S \<noteq> last S"
proof -
  let ?dirty = "\<lambda>n. flags (nodes c n) \<noteq> CACHE_CLEAN"
  have dist: "distinct S" using ok by (rule cache_ok_distinct)
  have hd_last: "hd S \<noteq> last S"
  proof -
    obtain x xs where "S = x # xs" using size(2) by (cases S) auto
    then show ?thesis using dist size(2) by (cases xs) auto
  qed
  show ?thesis
  proof (cases "many_dirty c \<or> \<not> (\<exists>n \<in> set S. flags (nodes c n) = CACHE_CLEAN)")
    case True
    then show ?thesis using hd_last by (auto simp: victim_def first_clean_def)
  next
    case False
    let ?R = "dropWhile ?dirty S"
    have v: "victim c S = hd ?R" using False by (simp add: victim_def first_clean_def)
    have R: "?R \<noteq> []" using False by (auto simp: dropWhile_eq_Nil_conv)
    show ?thesis
    proof
      assume "victim c S = last S"
      moreover have "last ?R = last S"
        using R by (metis last_appendR takeWhile_dropWhile_id)
      moreover have "distinct ?R" using dist by simp
      ultimately have "length ?R = 1" using v R
        by (cases ?R) (auto split: if_splits dest: last_in_set)
      then have "length (takeWhile ?dirty S) = length S - 1"
        using size(2) by (metis add_diff_cancel_right' length_append takeWhile_dropWhile_id)
      moreover have "set (takeWhile ?dirty S) \<subseteq> dirty_set c S"
        using cache_ok_node [OF ok] flags_simps set_takeWhileD
        by (fastforce simp: dirty_set_def)
      then have "card (set (takeWhile ?dirty S)) \<le> card (dirty_set c S)"
        by (rule card_mono [rotated]) simp
      moreover have "card (set (takeWhile ?dirty S)) = length (takeWhile ?dirty S)"
        using dist by (simp add: distinct_card)
      ultimately have "int (length S) - 1 \<le> cache_item_dirty c"
        using ok size(2) by (simp add: cache_ok_def)
      moreover have "cache_item_dirty c \<le> int (length S) * 3 div 4"
        using False size(1) by (simp add: many_dirty_def)
      ultimately show False using size(2) by linarith
    qed
  qed
qed

text \<open>After two calls of \<open>cache_frag\<close> both pointers are good.\<close>

theorem two_pointers:
  assumes "mounted s" "valid_frag s a" "valid_frag s b"
  shows "\<exists>p t q u. cache_frag a s = Some (Some p, t) \<and> cache_frag b t = Some (Some q, u) \<and>
    frag_buf u p = view s a \<and> frag_buf u q = view s b"
proof -
  obtain S where S: "cache_inv s S" "cache_size (fc s) = int (length S)" "8 \<le> length S" "S \<noteq> []"
    using mountedE [OF assms(1)] .
  obtain p t T where t: "cache_frag a s = Some (Some p, t)" "fetched s S t T p"
    "blk (nodes (fc t) p) = a" "frag_buf t p = view s a" "same_view s t"
    using cache_frag_fetched [OF S(1,4), of a] assms(2) by (auto simp: valid_frag_def)
  have T: "cache_inv t T" "T \<noteq> []" "last T = p" "cache_frame s t" "set T = set S"
    using t(2) by (simp_all add: fetched_def)
  have len: "length T = length S" using same_set_length [OF S(1) T(1,5)] .
  obtain q u U where u: "cache_frag b t = Some (Some q, u)" "fetched t T u U q"
    "blk (nodes (fc u) q) = b" "frag_buf u q = view t b" "same_view t u"
    using cache_frag_fetched [OF T(1,2), of b] assms(3) cache_frame_frag_ok [OF T(4)]
    by (auto simp: valid_frag_def)
  have vb: "frag_buf u q = view s b"
    using u(4) t(5) assms(3) by (simp add: same_view_def valid_frag_def)
  have "frag_buf u p = view s a"
  proof (cases "p = q")
    case True
    have "cache_size (fc t) = int (length T)" using t(2) S(2) len by (simp add: fetched_def)
    then have "victim (fc t) T \<noteq> p"
      using victim_not_last [OF cache_ok_same_disk [OF T(1)]] len S(3) T(3) by simp
    then have "b = a" using u(2,3) t(3) True by (auto simp: fetched_def)
    then show ?thesis using True vb by simp
  next
    case False
    have "p \<in> set T" using T(2,3) by auto
    then show ?thesis using u(2) False t(4) by (auto simp: fetched_def frag_buf_def)
  qed
  then show ?thesis using t(1) u(1) vb by blast
qed

section \<open>The interface\<close>

fun apply_updates :: "(u32 \<times> (bytes \<Rightarrow> bytes)) list \<Rightarrow> (u32 \<Rightarrow> bytes) \<Rightarrow> u32 \<Rightarrow> bytes" where
  "apply_updates [] c = c"
| "apply_updates ((b, f) # us) c = apply_updates us (c(b := f (c b)))"

lemma apply_updates_cong:
  assumes "\<And>x. P x \<Longrightarrow> c x = c' x" "\<And>b f. (b, f) \<in> set us \<Longrightarrow> P b" "P a"
  shows "apply_updates us c a = apply_updates us c' a"
  using assms
proof (induction us arbitrary: c c')
  case Nil
  then show ?case by simp
next
  case (Cons u us)
  obtain b f where u: "u = (b, f)" by (cases u)
  have "P b" using Cons.prems(2) [of b f] u by simp
  then have "apply_updates us (c(b := f (c b))) a = apply_updates us (c'(b := f (c' b))) a"
    using Cons.prems by (intro Cons.IH) auto
  then show ?case using u by simp
qed

text \<open>
  \<open>get b\<close> returns a pointer to the buffer of frag \<open>b\<close>; \<open>get_write b readflag\<close> returns one
  through which the frag may be changed with \<open>store\<close>. \<open>content\<close> is the contents of the file
  system, \<open>rest\<close> the state that these calls do not touch.
\<close>

locale frag_store =
  fixes inv :: "'s \<Rightarrow> bool" and valid :: "'s \<Rightarrow> u32 \<Rightarrow> bool" and content :: "'s \<Rightarrow> u32 \<Rightarrow> bytes"
    and get :: "u32 \<Rightarrow> 's \<Rightarrow> (nat option \<times> 's) option"
    and get_write :: "u32 \<Rightarrow> bool \<Rightarrow> 's \<Rightarrow> (nat option \<times> 's) option"
    and buffer :: "'s \<Rightarrow> nat \<Rightarrow> bytes" and store :: "nat \<Rightarrow> bytes \<Rightarrow> 's \<Rightarrow> 's"
    and rest :: "'s \<Rightarrow> 'r" and unit_size :: "'r \<Rightarrow> nat"
  assumes get_law: "inv s \<Longrightarrow> valid s b \<Longrightarrow>
      wp (get b s) (\<lambda>r t. inv t \<and> valid t = valid s \<and> rest t = rest s \<and>
        (\<forall>a. valid s a \<longrightarrow> content t a = content s a) \<and>
        (\<exists>n. r = Some n \<and> buffer t n = content s b))"
    and get_write_law: "inv s \<Longrightarrow> valid s b \<Longrightarrow>
      wp (get_write b readflag s) (\<lambda>r t. \<exists>n. r = Some n \<and>
        length (buffer t n) = unit_size (rest s) \<and> (readflag \<longrightarrow> buffer t n = content s b) \<and>
        (\<forall>bs. length bs = unit_size (rest s) \<longrightarrow>
           inv (store n bs t) \<and> valid (store n bs t) = valid s \<and> rest (store n bs t) = rest s \<and>
           (\<forall>a. valid s a \<longrightarrow> content (store n bs t) a = ((content s)(b := bs)) a)))"
    and length_law: "inv s \<Longrightarrow> valid s b \<Longrightarrow> length (content s b) = unit_size (rest s)"
begin

text \<open>\<open>holds s t f\<close>: from \<open>s\<close> the contents have become \<open>f\<close>, and nothing else has
  changed.\<close>

definition holds :: "'s \<Rightarrow> 's \<Rightarrow> (u32 \<Rightarrow> bytes) \<Rightarrow> bool" where
  "holds s t f \<longleftrightarrow> inv t \<and> valid t = valid s \<and> rest t = rest s \<and>
     (\<forall>a. valid s a \<longrightarrow> content t a = f a)"

lemma holds_refl: "inv s \<Longrightarrow> holds s s (content s)"
  by (simp add: holds_def)

lemma holdsD:
  assumes "holds s t f"
  shows "inv t" "valid t = valid s" "rest t = rest s" "valid s a \<Longrightarrow> content t a = f a"
  using assms by (simp_all add: holds_def)

lemma holds_trans: "holds s t f \<Longrightarrow> holds t u g \<Longrightarrow> holds s u g"
  by (simp add: holds_def)

lemma holds_cong: "holds s t f \<Longrightarrow> (\<And>a. valid s a \<Longrightarrow> f a = g a) \<Longrightarrow> holds s t g"
  by (simp add: holds_def)

lemma wp_get:
  assumes "inv s" "valid s b"
    and "\<And>n t. holds s t (content s) \<Longrightarrow> buffer t n = content s b \<Longrightarrow> Q (Some n) t"
  shows "wp (get b s) Q"
  using get_law [OF assms(1,2)] by (rule wp_mono) (auto intro: assms(3) simp: holds_def)

lemma wp_get_write:
  assumes "inv s" "valid s b"
    and "\<And>n t. length (buffer t n) = unit_size (rest s) \<Longrightarrow>
           (readflag \<Longrightarrow> buffer t n = content s b) \<Longrightarrow>
           (\<And>bs. length bs = unit_size (rest s) \<Longrightarrow>
              holds s (store n bs t) ((content s)(b := bs))) \<Longrightarrow> Q (Some n) t"
  shows "wp (get_write b readflag s) Q"
  using get_write_law [OF assms(1,2)]
  by (rule wp_mono) (auto simp: holds_def intro!: assms(3))

text \<open>Reading a frag, and changing a frag in place.\<close>

definition read_frag :: "u32 \<Rightarrow> 's \<Rightarrow> (bytes \<times> 's) option" where
  "read_frag b s = do { (p, s) \<leftarrow> get b s; n \<leftarrow> p; Some (buffer s n, s) }"

definition update_frag :: "u32 \<Rightarrow> (bytes \<Rightarrow> bytes) \<Rightarrow> 's \<Rightarrow> (unit \<times> 's) option" where
  "update_frag b f s =
     do { (p, s) \<leftarrow> get_write b True s; n \<leftarrow> p; Some ((), store n (f (buffer s n)) s) }"

lemma read_frag_content:
  "inv s \<Longrightarrow> valid s b \<Longrightarrow>
   wp (read_frag b s) (\<lambda>r t. r = content s b \<and> holds s t (content s))"
  unfolding read_frag_def wp_bind by (rule wp_get) auto

lemma update_frag_content:
  assumes "inv s" "valid s b" "length (f (content s b)) = unit_size (rest s)"
  shows "wp (update_frag b f s) (\<lambda>_ t. holds s t ((content s)(b := f (content s b))))"
  unfolding update_frag_def wp_bind by (rule wp_get_write [OF assms(1,2)]) (use assms(3) in auto)

text \<open>A sequence of updates has the effect of the updates one after the other on the
  contents.\<close>

fun update_frags :: "(u32 \<times> (bytes \<Rightarrow> bytes)) list \<Rightarrow> 's \<Rightarrow> (unit \<times> 's) option" where
  "update_frags [] s = Some ((), s)"
| "update_frags ((b, f) # us) s =
     do { (u, s) \<leftarrow> update_frag b f s; update_frags us s }"

theorem update_frags_content:
  assumes "inv s" "\<And>b f. (b, f) \<in> set us \<Longrightarrow> valid s b"
    and "\<And>b f xs. (b, f) \<in> set us \<Longrightarrow> length xs = unit_size (rest s) \<Longrightarrow>
           length (f xs) = unit_size (rest s)"
  shows "wp (update_frags us s)
    (\<lambda>_ t. holds s t (apply_updates us (content s)))"
  using assms
proof (induction us arbitrary: s)
  case Nil
  then show ?case by (simp add: holds_refl)
next
  case (Cons u us)
  obtain b f where u: "u = (b, f)" by (cases u)
  have v: "valid s b" using Cons.prems(2) [of b f] u by simp
  have len: "length (f (content s b)) = unit_size (rest s)"
    using Cons.prems(3) [of b f] length_law [OF Cons.prems(1) v] u by simp
  have step: "wp (update_frags us t)
      (\<lambda>_ w. holds s w (apply_updates (u # us) (content s)))"
    if t: "holds s t ((content s)(b := f (content s b)))" for t
  proof -
    have "wp (update_frags us t)
        (\<lambda>_ w. holds t w (apply_updates us (content t)))"
    proof (rule Cons.IH)
      show "inv t" by (rule holdsD(1) [OF t])
      show "valid t b" if "(b, f) \<in> set us" for b f
        using Cons.prems(2) [of b f] that holdsD(2) [OF t] by simp
      show "length (f xs) = unit_size (rest t)"
        if "(b, f) \<in> set us" "length xs = unit_size (rest t)" for b f xs
        using Cons.prems(3) [of b f xs] that holdsD(3) [OF t] by simp
    qed
    then show ?thesis
    proof (rule wp_mono)
      fix r w assume "holds t w (apply_updates us (content t))"
      then have "holds s w (apply_updates us (content t))"
        by (rule holds_trans [OF t])
      then show "holds s w (apply_updates (u # us) (content s))"
        by (rule holds_cong)
          (simp add: u, rule apply_updates_cong [where P = "valid s"],
            use holdsD(4) [OF t] Cons.prems(2) in auto)
    qed
  qed
  show ?case
    unfolding u update_frags.simps wp_bind
    by (rule wp_mono [OF update_frag_content [where f = f, OF Cons.prems(1) v len]]) (use step u in simp)
qed

end

section \<open>The cache provides the interface\<close>

definition fs_rest :: "fsys \<Rightarrow> superblock \<times> cg_cache \<times> handler \<times> (u32 \<Rightarrow> cg)" where
  "fs_rest s = (sb s, cgc s, hnd s, disk_cg (dev s))"

definition rest_fsize :: "superblock \<times> cg_cache \<times> handler \<times> (u32 \<Rightarrow> cg) \<Rightarrow> nat" where
  "rest_fsize = (\<lambda>(_, _, h, _). unat (fsize h))"

lemma cache_frame_rest: "cache_frame s t \<Longrightarrow> fs_rest t = fs_rest s"
  by (simp add: cache_frame_def fs_rest_def same_dev_def)

lemma length_view:
  assumes inv: "cache_inv s S" and b: "b \<noteq> 0"
  shows "length (view s b) = unat (fsize (hnd s))"
  using cache_ok_same_disk [OF inv] b
proof (cases rule: cache_node_cases)
  case (hit n)
  have "view s b = buf (nodes (fc s) n)"
    using view_hit [OF cache_ok_same_disk [OF inv]] hit b by simp
  then show ?thesis
    using cache_ok_node [OF cache_ok_same_disk [OF inv] hit(1)] by (simp add: node_ok_def)
next
  case miss
  then show ?thesis using view_of_miss [OF inv miss(1)] inv
    by (simp add: cache_inv_def dev_good_def)
qed

lemma cache_frag_law:
  assumes "mounted s" "valid_frag s b"
  shows "wp (cache_frag b s) (\<lambda>r t. mounted t \<and> valid_frag t = valid_frag s \<and>
    fs_rest t = fs_rest s \<and> (\<forall>a. valid_frag s a \<longrightarrow> view t a = view s a) \<and>
    (\<exists>n. r = Some n \<and> frag_buf t n = view s b))"
proof -
  obtain S where S: "cache_inv s S" "cache_size (fc s) = int (length S)" "8 \<le> length S" "S \<noteq> []"
    using mountedE [OF assms(1)] .
  obtain n t T where t: "cache_frag b s = Some (Some n, t)" "fetched s S t T n"
    "frag_buf t n = view s b" "same_view s t"
    using cache_frag_fetched [OF S(1,4), of b] assms(2) by (auto simp: valid_frag_def)
  have fr: "cache_frame s t" using t(2) by (simp add: fetched_def)
  show ?thesis
    using t mounted_fetched [OF S(1-3) t(2)] cache_frame_valid [OF fr] cache_frame_rest [OF fr]
    by (auto simp: same_view_def valid_frag_def)
qed

lemma set_frag_buf_frame: "cache_frame s t \<Longrightarrow> cache_frame s (set_frag_buf n bs t)"
  by (simp add: cache_frame_def set_frag_buf_def)

lemma cache_frag_write_law:
  assumes "mounted s" "valid_frag s b"
  shows "wp (cache_frag_write b readflag s) (\<lambda>r t. \<exists>n. r = Some n \<and>
    length (frag_buf t n) = rest_fsize (fs_rest s) \<and> (readflag \<longrightarrow> frag_buf t n = view s b) \<and>
    (\<forall>bs. length bs = rest_fsize (fs_rest s) \<longrightarrow>
       mounted (set_frag_buf n bs t) \<and> valid_frag (set_frag_buf n bs t) = valid_frag s \<and>
       fs_rest (set_frag_buf n bs t) = fs_rest s \<and>
       (\<forall>a. valid_frag s a \<longrightarrow> view (set_frag_buf n bs t) a = ((view s)(b := bs)) a)))"
proof -
  obtain S where S: "cache_inv s S" "cache_size (fc s) = int (length S)" "8 \<le> length S" "S \<noteq> []"
    using mountedE [OF assms(1)] .
  have b: "b \<noteq> 0" "frag_ok s b" using assms(2) by (simp_all add: valid_frag_def)
  obtain n t T where t: "cache_frag_write b readflag s = Some (Some n, t)" "fetched s S t T n"
    "blk (nodes (fc t) n) = b" "is_dirty (nodes (fc t) n)" "readflag \<longrightarrow> frag_buf t n = view s b"
    "\<forall>a. a \<noteq> 0 \<longrightarrow> view t a = ((view s)(b := frag_buf t n)) a"
    using cache_frag_write_fetched [OF S(1,4) b] by blast
  have T: "cache_inv t T" "n \<in> set T" and fr: "cache_frame s t"
    using t(2) last_in_set unfolding fetched_def by blast+
  have fs: "rest_fsize (fs_rest s) = unat (fsize (hnd t))"
    using fr by (simp add: cache_frame_def rest_fsize_def fs_rest_def)
  have len: "length (frag_buf t n) = unat (fsize (hnd t))"
    using cache_ok_node [OF cache_ok_same_disk [OF T(1)] T(2)]
    by (simp add: node_ok_def frag_buf_def)
  have "mounted (set_frag_buf n bs t) \<and> valid_frag (set_frag_buf n bs t) = valid_frag s \<and>
       fs_rest (set_frag_buf n bs t) = fs_rest s \<and>
       (\<forall>a. valid_frag s a \<longrightarrow> view (set_frag_buf n bs t) a = ((view s)(b := bs)) a)"
    if bs: "length bs = rest_fsize (fs_rest s)" for bs
  proof -
    have lb: "length bs = length (frag_buf t n)" using bs fs len by simp
    have "mounted (set_frag_buf n bs t)"
      unfolding mounted_def
    proof (intro exI conjI)
      show "cache_inv (set_frag_buf n bs t) T"
        by (rule store_frag(1) [OF T t(4) lb b(1)])
      have "length T = length S"
        using t(2) unfolding fetched_def by (metis same_set_length [OF S(1)])
      then show "cache_size (fc (set_frag_buf n bs t)) = int (length T)"
        "CACHE_SIZE_MIN \<le> cache_size (fc (set_frag_buf n bs t))"
        using t(2) S(2,3) by (simp_all add: set_frag_buf_def fetched_def CACHE_SIZE_MIN_def)
    qed
    moreover have "view (set_frag_buf n bs t) a = ((view s)(b := bs)) a" if "valid_frag s a" for a
      using store_frag(2) [OF T t(4) lb, of a] t(3,6) that by (simp add: valid_frag_def)
    ultimately show ?thesis
      using cache_frame_valid [OF set_frag_buf_frame [OF fr]]
        cache_frame_rest [OF set_frag_buf_frame [OF fr]] by blast
  qed
  then show ?thesis using t(1,5) len fs by auto
qed

interpretation cache: frag_store mounted valid_frag view cache_frag cache_frag_write
    frag_buf set_frag_buf fs_rest rest_fsize
proof unfold_locales
  show "length (view s b) = rest_fsize (fs_rest s)" if "mounted s" "valid_frag s b" for s b
    using mountedE [OF that(1)] length_view that(2)
    by (metis valid_frag_def rest_fsize_def fs_rest_def case_prod_conv)
qed (rule cache_frag_law cache_frag_write_law; assumption)+

section \<open>Opening the cache\<close>

lemma cache_ok_cong:
  assumes ok: "cache_ok fs d c S"
    and "cache_stack c' = cache_stack c" "cache_stack_tail c' = cache_stack_tail c"
    and "hashtable c' = hashtable c" "cache_item_dirty c' = cache_item_dirty c"
    and "cache_used c' = cache_used c" and same: "\<And>n. n \<in> set S \<Longrightarrow> nodes c' n = nodes c n"
  shows "cache_ok fs d c' S"
proof -
  obtain H where rep: "cache_rep c S H" using cache_ok_rep [OF ok] by auto
  have "cache_rep c' S H" by (rule cache_rep_cong [OF rep]) (simp_all add: assms same)
  moreover have "dirty_set c' S = dirty_set c S" "used_set c' S = used_set c S"
    using same by (auto simp: dirty_set_def used_set_def)
  ultimately show ?thesis using ok same assms(5,6) by (auto simp: cache_ok_def uniq_blks_def)
qed

text \<open>The first loop of \<open>cache_adjust\<close>, when memory is available.\<close>

lemma cache_grow_ok:
  assumes "cache_inv s S" "\<And>n. n \<in> set S \<Longrightarrow> n < node_brk (fc s)" "\<And>k. \<not> mem_fails (hnd s) k"
    and "\<And>n. n \<in> set S \<Longrightarrow> blk (nodes (fc s) n) = 0"
  shows "\<exists>t T. cache_grow k s = (False, t) \<and> cache_inv t T \<and> length T = length S + k \<and>
    (\<forall>n \<in> set T. blk (nodes (fc t) n) = 0) \<and> cache_size (fc t) = cache_size (fc s) \<and>
    cache_alloced (fc t) = cache_alloced (fc s) + int k \<and> disk (dev t) = disk (dev s)"
  using assms
proof (induction k arbitrary: s S)
  case 0
  then show ?case by auto
next
  case (Suc k)
  let ?n = "node_brk (fc s)" and ?fs = "unat (fsize (hnd s))" and ?d = "disk (dev s)"
  let ?c = "(upd_node ?n (\<lambda>_. fresh_node ?fs) (fc s))
      \<lparr>node_brk := Suc ?n, cache_alloced := cache_alloced (fc s) + 1\<rparr>"
  let ?h = "(hnd s)\<lparr>mem_count := Suc (Suc (mem_count (hnd s)))\<rparr>"
  let ?t = "s\<lparr>hnd := ?h, fc := cache_add ?n ?c\<rparr>"
  have nS: "?n \<notin> set S" using Suc.prems(2) by blast
  have ok: "cache_ok ?fs ?d (fc s) S" using Suc.prems(1) by (rule cache_ok_same_disk)
  have okc: "cache_ok ?fs ?d ?c S"
    by (rule cache_ok_cong [OF ok]) (use nS in auto)
  have node: "node_ok ?fs ?d (nodes ?c ?n)"
    by (simp add: node_ok_def fresh_node_def is_dirty_def CACHE_CLEAN_def)
  have fb: "flag_bit (nodes ?c ?n) = 0"
    by (simp add: flag_bit_def fresh_node_def is_dirty_def CACHE_CLEAN_def)
  have okc': "cache_ok ?fs ?d (?c\<lparr>cache_item_dirty :=
      cache_item_dirty ?c - flag_bit (nodes ?c ?n)\<rparr>) S"
    using okc by (subst keep_item_dirty) (simp_all only: fb diff_0_right)
  have "cache_ok ?fs ?d (cache_add ?n ?c) (S @ [?n])"
    by (rule cache_ok_add [OF okc' nS node]) (simp add: fresh_node_def)
  moreover have blks: "blk (nodes (fc ?t) m) = 0" if "m \<in> set (S @ [?n])" for m
    using that Suc.prems(4) by (auto simp: fresh_node_def)
  ultimately have "cache_inv ?t (S @ [?n])"
    using Suc.prems(1) by (simp add: cache_inv_def dev_good_def dev_ok_def)
  then have "\<exists>u U. cache_grow k ?t = (False, u) \<and> cache_inv u U \<and>
      length U = length (S @ [?n]) + k \<and> (\<forall>n \<in> set U. blk (nodes (fc u) n) = 0) \<and>
      cache_size (fc u) = cache_size (fc ?t) \<and>
      cache_alloced (fc u) = cache_alloced (fc ?t) + int k \<and> disk (dev u) = disk (dev ?t)"
  proof (rule Suc.IH)
    show "n < node_brk (fc ?t)" if "n \<in> set (S @ [?n])" for n
      using that Suc.prems(2) [of n] by auto
    show "\<not> mem_fails (hnd ?t) k" for k using Suc.prems(3) by simp
    show "blk (nodes (fc ?t) n) = 0" if "n \<in> set (S @ [?n])" for n using blks [OF that] .
  qed
  moreover have "cache_grow (Suc k) s = cache_grow k ?t"
    using Suc.prems(3) by (simp add: cache_alloc_retry_def cache_alloc_def alloc_mem_def Let_def)
  ultimately show ?case by (auto simp del: cache_grow.simps)
qed

text \<open>\<open>open_cache\<close> mounts: every frag has the contents of the disk.\<close>

lemma open_cache_mounts:
  assumes "dev_good s" "\<And>k. \<not> mem_fails (hnd s) k"
  shows "wp (open_cache n s) (\<lambda>_ t. mounted t \<and> cache_size (fc t) = max n CACHE_SIZE_MIN \<and>
    (\<forall>b. b \<noteq> 0 \<longrightarrow> view t b = disk (dev s) b \<and> cache_node b (fc t) = Some None))"
proof -
  let ?c = "(fc s)\<lparr>hashtable := replicate HASH_SIZE None, cache_stack := None,
      cache_stack_tail := None, cache_alloced := 0, cache_used := 0, cache_item_dirty := 0,
      cache_size := max n CACHE_SIZE_MIN\<rparr>"
  let ?g = "(cgc s)\<lparr>cache_cg_data := replicate CACHE_CG_MAX None\<rparr>"
  let ?s = "s\<lparr>cgc := ?g, fc := ?c\<rparr>"
  have "cache_rep ?c [] (\<lambda>_. [])"
    by (simp add: cache_rep_def stk.chain_def hsh.chain_def HASH_SIZE_def)
  then have "cache_inv ?s []"
    using assms(1) by (auto simp: cache_inv_def cache_ok_def uniq_blks_def dirty_set_def
        used_set_def dev_good_def dev_ok_def)
  moreover have "\<not> mem_fails (hnd ?s) k" for k using assms(2) by simp
  ultimately obtain t T where t: "cache_grow (nat (max n CACHE_SIZE_MIN)) ?s = (False, t)"
    "cache_inv t T" "length T = nat (max n CACHE_SIZE_MIN)"
    "\<forall>m \<in> set T. blk (nodes (fc t) m) = 0" "cache_size (fc t) = max n CACHE_SIZE_MIN"
    "cache_alloced (fc t) = int (nat (max n CACHE_SIZE_MIN))" "disk (dev t) = disk (dev s)"
    using cache_grow_ok [of ?s "[]" "nat (max n CACHE_SIZE_MIN)"] by auto
  have pos: "0 \<le> max n CACHE_SIZE_MIN" by (simp add: CACHE_SIZE_MIN_def)
  have "?s\<lparr>fc := (fc ?s)\<lparr>cache_size := max (cache_size (fc ?s)) CACHE_SIZE_MIN\<rparr>\<rparr> = ?s" by simp
  then have run: "open_cache n s = Some ((), t)"
    using t(1,5,6) pos by (simp add: open_cache_def cache_adjust_def Let_def)
  have "mounted t"
    unfolding mounted_def using t(2,3,5) pos by (intro exI [of _ T]) auto
  moreover have "view t b = disk (dev s) b" if "b \<noteq> 0" for b
    using view_of_miss [OF t(2)] t(4,7) that by simp
  moreover have "cache_node b (fc t) = Some None" if "b \<noteq> 0" for b
    by (rule cache_node_None [OF cache_ok_same_disk [OF t(2)]]) (use t(4) that in auto)
  ultimately show ?thesis using run t(5) by simp
qed

section \<open>Addresses outside the partition\<close>

lemma data_read_bad:
  assumes "\<not> frag_ok s b"
  shows "\<exists>d. data_read b n s = (None, s\<lparr>dev := d\<rparr>) \<and> same_dev (dev s) d"
  using assms by (auto simp: data_read_def read_request_def same_dev_def)

text \<open>Reading such a frag returns NULL, but the node that was taken for it does not return to
  the cache.\<close>

lemma cache_frag_bad:
  assumes inv: "cache_inv s S" and "S \<noteq> []" "b \<noteq> 0" "\<not> frag_ok s b"
  shows "\<exists>t T. cache_frag b s = Some (None, t) \<and> cache_inv t T \<and> length S = Suc (length T) \<and>
    same_view s t \<and> frag_ok t = frag_ok s"
proof -
  let ?n = "victim (fc s) S"
  have ok: "cache_ok (unat (fsize (hnd s))) (disk (dev s)) (fc s) S"
    using inv by (rule cache_ok_same_disk)
  have "blk (nodes (fc s) m) \<noteq> b" if "m \<in> set S" for m
    using inv that assms(3,4) unfolding cache_inv_def by metis
  then have miss: "cache_node b (fc s) = Some None" by (rule cache_node_None [OF ok])
  obtain t T where t: "cache_getnode b s = Some (Some ?n, t)" "taken s S t T ?n"
    "blk (nodes (fc t) ?n) = b"
    using cache_getnode_correct [OF inv assms(2), of b] by blast
  have fr: "cache_frame s t" "cache_inv t T" using t(2) by (simp_all add: taken_def)
  have "\<not> frag_ok t b" using assms(4) cache_frame_frag_ok [OF fr(1)] by simp
  then obtain d where d: "data_read b 1 t = (None, t\<lparr>dev := d\<rparr>)" "same_dev (dev t) d"
    using data_read_bad by blast
  have "length S = Suc (length T)"
  proof -
    have "card (set S) = Suc (card (set T))"
      using t(2) unfolding taken_def by (metis card_insert_disjoint finite_set)
    then show ?thesis
      using cache_ok_distinct [OF ok] cache_ok_distinct [OF cache_ok_same_disk [OF fr(2)]]
      by (simp add: distinct_card)
  qed
  moreover have "cache_frag b s = Some (None, t\<lparr>dev := d\<rparr>)"
    using miss t(1,3) d(1) by (simp add: cache_frag_def)
  moreover have "cache_inv (t\<lparr>dev := d\<rparr>) T" using fr(2) cache_inv_dev [OF d(2)] by simp
  moreover have "same_view s (t\<lparr>dev := d\<rparr>)"
    using t(2) d(2) view_dev [of d t "fc t"] by (simp add: taken_def same_view_def same_dev_def)
  moreover have "frag_ok (t\<lparr>dev := d\<rparr>) = frag_ok s"
    using cache_frame_frag_ok [OF cache_frame_trans [OF fr(1) cache_frame_dev [OF d(2), of "fc t"]]]
    by simp
  ultimately show ?thesis by blast
qed

text \<open>A sequence of reads, with the pointers that they return.\<close>

fun read_frags :: "u32 list \<Rightarrow> fsys \<Rightarrow> (nat option list \<times> fsys) option" where
  "read_frags [] s = Some ([], s)"
| "read_frags (b # bs) s =
     do {
       (p, s) \<leftarrow> cache_frag b s;
       (ps, s) \<leftarrow> read_frags bs s;
       Some (p # ps, s)
     }"

lemma read_frags_crash: "read_frags bs s = Some (ps, t) \<Longrightarrow> cache_frag b t = None \<Longrightarrow>
    read_frags (bs @ b # bs') s = None"
  by (induction bs arbitrary: s ps) (auto split: bind_splits)

text \<open>Each bad read returns NULL and loses a node.\<close>

lemma bad_reads_lose:
  assumes "cache_inv s S" "length bs \<le> length S" "\<And>b. b \<in> set bs \<Longrightarrow> b \<noteq> 0 \<and> \<not> frag_ok s b"
  shows "\<exists>t T. read_frags bs s = Some (replicate (length bs) None, t) \<and> cache_inv t T \<and>
    length T + length bs = length S \<and> same_view s t \<and> frag_ok t = frag_ok s"
  using assms
proof (induction bs arbitrary: s S)
  case Nil
  then show ?case by (auto simp: same_view_def)
next
  case (Cons b bs)
  have "S \<noteq> []" using Cons.prems(2) by auto
  then obtain t T where t: "cache_frag b s = Some (None, t)" "cache_inv t T"
    "length S = Suc (length T)" "same_view s t" "frag_ok t = frag_ok s"
    using cache_frag_bad [OF Cons.prems(1), of b] Cons.prems(3) by auto
  obtain u U where "read_frags bs t = Some (replicate (length bs) None, u)" "cache_inv u U"
    "length U + length bs = length T" "same_view t u" "frag_ok u = frag_ok t"
    using Cons.IH [OF t(2)] Cons.prems(2,3) t(3,5) by fastforce
  then show ?case using t by (auto simp: same_view_def)
qed

text \<open>Without nodes \<open>cache_getnode\<close> returns NULL, which \<open>cache_frag\<close> follows.\<close>

lemma empty_cache_crash:
  assumes "cache_inv s []"
  shows "cache_stack (fc s) = None" "cache_getnode b s = Some (None, s)" "cache_frag b s = None"
proof -
  have ok: "cache_ok (unat (fsize (hnd s))) (disk (dev s)) (fc s) []"
    using cache_ok_same_disk [OF assms] .
  have "cache_node b (fc s) = Some None" by (rule cache_node_None [OF ok]) simp
  moreover show "cache_stack (fc s) = None"
    using cache_ok_rep [OF ok] cache_rep_stack(2) by fastforce
  then show "cache_getnode b s = Some (None, s)" by (simp add: cache_getnode_def)
  ultimately show "cache_frag b s = None" by (simp add: cache_frag_def)
qed

lemma bad_reads_crash:
  assumes "cache_inv s S" "length S < length bs"
    and "\<And>b. b \<in> set bs \<Longrightarrow> b \<noteq> 0 \<and> \<not> frag_ok s b"
  shows "\<exists>t. read_frags (take (length S) bs) s = Some (replicate (length S) None, t) \<and>
    cache_stack (fc t) = None \<and> cache_getnode (bs ! length S) t = Some (None, t) \<and>
    cache_frag (bs ! length S) t = None" "read_frags bs s = None"
proof -
  let ?k = "length S"
  obtain t T where t: "read_frags (take ?k bs) s = Some (replicate ?k None, t)" "cache_inv t T" "T = []"
    using bad_reads_lose [OF assms(1), of "take ?k bs"] assms(2,3) by (auto dest: in_set_takeD)
  note e = empty_cache_crash [OF t(2) [unfolded t(3)]]
  show "\<exists>t. read_frags (take ?k bs) s = Some (replicate ?k None, t) \<and> cache_stack (fc t) = None \<and>
    cache_getnode (bs ! ?k) t = Some (None, t) \<and> cache_frag (bs ! ?k) t = None"
    using t(1) e by blast
  show "read_frags bs s = None"
    using read_frags_crash [OF t(1) e(3) [of "bs ! ?k"], where bs' = "drop (Suc ?k) bs"] assms(2)
    by (simp only: Cons_nth_drop_Suc append_take_drop_id)
qed

section \<open>The writes of a flush\<close>

text \<open>Writes of frags, one after the other, whether they succeed or not.\<close>

fun write_frags :: "(u32 \<times> bytes) list \<Rightarrow> fsys \<Rightarrow> fsys" where
  "write_frags [] s = s"
| "write_frags ((b, bs) # ws) s = write_frags ws (snd (data_write bs b 1 s))"

lemma data_write_fc:
  "data_write bs b n (s\<lparr>fc := c\<rparr>) = (fst (data_write bs b n s), (snd (data_write bs b n s))\<lparr>fc := c\<rparr>)"
  "fc (snd (data_write bs b n s)) = fc s"
  by (cases "write_io ((dev s)\<lparr>motor_is_on := True\<rparr>)";
      simp add: data_write_def write_request_def frag_ok_def sectoff_def Let_def)+

lemma write_frags_fc: "write_frags ws (s\<lparr>fc := c\<rparr>) = (write_frags ws s)\<lparr>fc := c\<rparr>"
  by (induction ws arbitrary: s) (auto simp: data_write_fc)

lemma flush_write_dev:
  "dev (flush_write ns s) = dev (write_frags (map (\<lambda>n. (blk (nodes (fc s) n), frag_buf s n)) ns) s)"
proof (induction ns arbitrary: s)
  case Nil
  then show ?case by simp
next
  case (Cons n ns)
  define c where "c = upd_node n (\<lambda>x. x\<lparr>flags := CACHE_CLEAN\<rparr>) (fc s)"
  have same: "blk (nodes c m) = blk (nodes (fc s) m)" "buf (nodes c m) = buf (nodes (fc s) m)" for m
    by (simp_all add: c_def upd_node_def)
  define t where "t = snd (data_write (frag_buf s n) (blk (nodes (fc s) n)) 1 s)"
  have "dev (flush_write (n # ns) s) = dev (flush_write ns (t\<lparr>fc := c\<rparr>))"
    by (simp add: Let_def data_write_fc same t_def frag_buf_def flip: c_def)
  then show ?case
    unfolding Cons.IH by (simp add: write_frags_fc same frag_buf_def t_def)
qed

theorem cache_flush_writes:
  assumes "cache_ok F d (fc s) S" "cache_item_dirty (fc s) \<noteq> 0"
  shows "\<exists>ns t. cache_flush s = Some (Some (length ns), t) \<and>
    sorted (map (\<lambda>n. blk (nodes (fc s) n)) ns) \<and> distinct ns \<and> set ns = dirty_set (fc s) S \<and>
    dev t = dev (write_frags (map (\<lambda>n. (blk (nodes (fc s) n), frag_buf s n)) ns) s)"
proof -
  let ?ns = "nodes (fc s)"
  obtain ns k bad where fl: "flush_collect ?ns S [] 0 False = (ns, k, bad)"
    by (cases "flush_collect ?ns S [] 0 False") auto
  note spec = flush_collect_spec [OF fl]
  have nodeok: "node_ok F d (?ns n)" if "n \<in> set S" for n using assms(1) that by (simp add: cache_ok_def)
  have "to_write ?ns n \<longleftrightarrow> is_dirty (?ns n)" if "n \<in> set S" for n
    using nodeok [OF that] by (auto simp: to_write_def node_ok_def)
  then have filt: "filter (to_write ?ns) S = filter (\<lambda>n. is_dirty (?ns n)) S" by (rule filter_cong [OF refl])
  have mh: "mset ns = mset (filter (\<lambda>n. is_dirty (?ns n)) S)" using spec(1) filt by simp
  have ns: "set ns = dirty_set (fc s) S" "distinct ns"
    using mset_eq_setD [OF mh] mset_eq_imp_distinct_iff [OF mh] cache_ok_distinct [OF assms(1)]
    by (auto simp: dirty_set_def)
  have k: "k = length ns" using spec(2) mset_eq_length [OF mh] filt by simp
  have run: "cache_flush s = Some (Some k, t)"
    if "t = (let s = (if bad \<or> cache_item_dirty (fc s) \<noteq> int k then stop_packets s else s);
                 s = flush_write ns s in s\<lparr>fc := (fc s)\<lparr>cache_item_dirty := 0\<rparr>\<rparr>)" for t
    using assms(2) fl that stack_walk_rep cache_ok_rep [OF assms(1)] by (auto simp: cache_flush_def Let_def)
  have "cache_item_dirty (fc s) = int (length ns)"
    using assms(1) ns distinct_card [OF ns(2)] by (simp add: cache_ok_def)
  moreover have "\<not> bad" using spec(3) nodeok by (auto simp: node_ok_def)
  ultimately show ?thesis
    using run ns k spec(4) flush_write_dev [of ns s] by (simp add: Let_def) blast
qed

end
