(* ===== verification/Cg_Cache.thy ===== *)
theory Cg_Cache
  imports Frag_Store
begin

text \<open>
  The cylinder group cache of fs/cache.c: an array of at most fifteen buffers, least recently
  used first. A pointer to a cylinder group is the number of its buffer.
\<close>

section \<open>The operations\<close>

text \<open>The search of \<open>cache_cg\<close>: where the group is, or the first free slot, or neither.\<close>

datatype cg_slot = Hit nat | Empty nat | Full

fun cg_scan :: "(nat \<Rightarrow> cg) \<Rightarrow> nat option list \<Rightarrow> u32 \<Rightarrow> nat \<Rightarrow> cg_slot" where
  "cg_scan bufs [] cgx i = Full"
| "cg_scan bufs (None # es) cgx i = Empty i"
| "cg_scan bufs (Some p # es) cgx i =
     (if cg_cgx (bufs p) = cgx then Hit i else cg_scan bufs es cgx (Suc i))"

text \<open>The loop of \<open>cache_popup_cg\<close>: the entries behind \<open>index - 1\<close> move down by one.\<close>

function cg_shift :: "nat \<Rightarrow> nat option list \<Rightarrow> bool list \<Rightarrow> nat \<times> nat option list \<times> bool list" where
  "cg_shift index data state =
     (if index < CACHE_CG_MAX \<and> data ! index \<noteq> None
      then cg_shift (Suc index) (data[index - 1 := data ! index]) (state[index - 1 := state ! index])
      else (index, data, state))"
  by pat_completeness auto
termination by (relation "measure (\<lambda>(i, _, _). CACHE_CG_MAX - i)") auto

declare cg_shift.simps [simp del]

definition cache_popup_cg :: "nat \<Rightarrow> cg_cache \<Rightarrow> cg_cache" where
  "cache_popup_cg pos c =
     (if cache_cg_data c ! (pos + 1) = None then c else
      let save_buf = cache_cg_data c ! pos;
          save_state = cache_cg_state c ! pos;
          (index, data, state) = cg_shift (pos + 1) (cache_cg_data c) (cache_cg_state c)
      in c\<lparr>cache_cg_data := data[index - 1 := save_buf],
           cache_cg_state := state[index - 1 := save_state]\<rparr>)"

text \<open>\<open>cache_cg_flush\<close> from \<open>index\<close> on, \<open>n\<close> entries; the result is the number of groups
  written. A group that could not be written stays dirty.\<close>

fun cg_flush_from :: "nat \<Rightarrow> nat \<Rightarrow> nat \<Rightarrow> fsys \<Rightarrow> (nat \<times> fsys) option" where
  "cg_flush_from 0 index written s = Some (written, s)"
| "cg_flush_from (Suc n) index written s =
     (if cache_cg_state (cgc s) ! index then
        (case cache_cg_data (cgc s) ! index of None \<Rightarrow> None
         | Some p \<Rightarrow>
             (let c = cg_at s p;
                  (err, s) = data_write_cg c (cgtod (sb s) (cg_cgx c)) s
              in if err then cg_flush_from n (Suc index) written s
                 else cg_flush_from n (Suc index) (Suc written)
                        (s\<lparr>cgc := (cgc s)\<lparr>cache_cg_state :=
                             (cache_cg_state (cgc s))[index := False]\<rparr>\<rparr>)))
      else cg_flush_from n (Suc index) written s)"

definition cache_cg_flush :: "fsys \<Rightarrow> (nat \<times> fsys) option" where
  "cache_cg_flush s = cg_flush_from CACHE_CG_MAX 0 0 s"

text \<open>Loading group \<open>cgx\<close> into slot \<open>index\<close>, from the flush of dirty groups on.\<close>

definition cg_load :: "u32 \<Rightarrow> nat \<Rightarrow> fsys \<Rightarrow> (nat option \<times> fsys) option" where
  "cg_load cgx index s =
     do {
       p \<leftarrow> cache_cg_data (cgc s) ! index;
       (n, s) \<leftarrow> (if cache_cg_state (cgc s) ! index then cache_cg_flush s else Some (0, s));
       let (r, s) = data_read_cg (cgtod (sb s) cgx) s;
       case r of
         None \<Rightarrow> Some (None, set_cg p ((cg_at s p)\<lparr>cg_cgx := -1\<rparr>) s)
       | Some c \<Rightarrow>
           (let s = set_cg p c s;
                g = (cgc s)\<lparr>cache_cg_state := (cache_cg_state (cgc s))[index := False]\<rparr>
            in Some (Some p, s\<lparr>cgc := cache_popup_cg index g\<rparr>))
     }"

text \<open>The contents of a buffer before it is filled are those that the memory had.\<close>

definition cache_cg :: "u32 \<Rightarrow> fsys \<Rightarrow> (nat option \<times> fsys) option" where
  "cache_cg cgx s =
     (if cgx > fs_ncg (sb s) then Some (None, set_ronly s) else
      case cg_scan (cg_bufs (cgc s)) (take (cache_cg_size (cgc s)) (cache_cg_data (cgc s))) cgx 0 of
        Hit index \<Rightarrow>
          do {
            p \<leftarrow> cache_cg_data (cgc s) ! index;
            Some (Some p, s\<lparr>cgc := cache_popup_cg index (cgc s)\<rparr>)
          }
      | Empty index \<Rightarrow>
          (let (ok, s) = alloc_mem s in
           if \<not> ok then Some (None, s) else
           cg_load cgx index
             (s\<lparr>cgc := (cgc s)\<lparr>cg_brk := Suc (cg_brk (cgc s)),
                  cache_cg_data := (cache_cg_data (cgc s))[index := Some (cg_brk (cgc s))],
                  cache_cg_state := (cache_cg_state (cgc s))[index := False]\<rparr>\<rparr>))
      | Full \<Rightarrow> cg_load cgx 0 s)"

text \<open>The first loop of \<open>cache_cg_write\<close> skips free slots, the second looks for the
  pointer.\<close>

fun cg_lookup :: "(nat \<Rightarrow> cg) \<Rightarrow> nat option list \<Rightarrow> u32 \<Rightarrow> nat \<Rightarrow> nat option" where
  "cg_lookup bufs [] cgx i = None"
| "cg_lookup bufs (None # es) cgx i = cg_lookup bufs es cgx (Suc i)"
| "cg_lookup bufs (Some p # es) cgx i =
     (if cg_cgx (bufs p) = cgx then Some i else cg_lookup bufs es cgx (Suc i))"

fun cg_position :: "nat \<Rightarrow> nat option list \<Rightarrow> nat \<Rightarrow> nat option" where
  "cg_position p [] i = None"
| "cg_position p (e # es) i = (if e = Some p then Some i else cg_position p es (Suc i))"

definition cg_mark :: "nat \<Rightarrow> fsys \<Rightarrow> fsys" where
  "cg_mark index s =
     s\<lparr>cgc := (cgc s)\<lparr>cache_cg_state := (cache_cg_state (cgc s))[index := True]\<rparr>\<rparr>"

text \<open>\<open>n\<close> more calls of \<open>cache_cg\<close> after the first.\<close>

fun cache_cg_tries :: "nat \<Rightarrow> u32 \<Rightarrow> fsys \<Rightarrow> (nat option \<times> fsys) option" where
  "cache_cg_tries 0 cgx s = cache_cg cgx s"
| "cache_cg_tries (Suc n) cgx s =
     do {
       (r, s) \<leftarrow> cache_cg cgx s;
       case r of None \<Rightarrow> cache_cg_tries n cgx s | Some p \<Rightarrow> Some (Some p, s)
     }"

definition cache_cg_write :: "u32 \<Rightarrow> fsys \<Rightarrow> (nat option \<times> fsys) option" where
  "cache_cg_write cgx s =
     (case cg_lookup (cg_bufs (cgc s)) (take (cache_cg_size (cgc s)) (cache_cg_data (cgc s))) cgx 0 of
        Some index \<Rightarrow> Some (cache_cg_data (cgc s) ! index, cg_mark index s)
      | None \<Rightarrow>
          do {
            (r, s) \<leftarrow> cache_cg_tries 2 cgx s;
            case r of None \<Rightarrow> Some (None, s)
            | Some p \<Rightarrow>
                (case cg_position p (take (cache_cg_size (cgc s)) (cache_cg_data (cgc s))) 0 of
                   Some index \<Rightarrow> Some (Some p, cg_mark index s)
                 | None \<Rightarrow> Some (None, stop_packets s))
          })"

text \<open>The loop of \<open>cache_cg_adjust\<close> from \<open>index\<close> on.\<close>

fun cg_drop_from :: "nat \<Rightarrow> nat \<Rightarrow> fsys \<Rightarrow> fsys" where
  "cg_drop_from 0 index s = s"
| "cg_drop_from (Suc n) index s =
     (case cache_cg_data (cgc s) ! index of
        None \<Rightarrow> cg_drop_from n (Suc index) s
      | Some p \<Rightarrow>
          (let (err, s) = (if cache_cg_state (cgc s) ! index
                           then data_write_cg (cg_at s p) (cgtod (sb s) (cg_cgx (cg_at s p))) s
                           else (False, s))
           in cg_drop_from n (Suc index)
                (s\<lparr>cgc := (cgc s)\<lparr>cache_cg_state := (cache_cg_state (cgc s))[index := False],
                     cache_cg_data := (cache_cg_data (cgc s))[index := None]\<rparr>\<rparr>)))"

definition cache_cg_adjust :: "fsys \<Rightarrow> fsys" where
  "cache_cg_adjust s =
     (let size = max (cache_cg_size (cgc s)) 3;
          size = (if size \<ge> CACHE_CG_MAX then CACHE_CG_MAX - 1 else size);
          s = s\<lparr>cgc := (cgc s)\<lparr>cache_cg_size := size\<rparr>\<rparr>
      in cg_drop_from (CACHE_CG_MAX - size) size s)"

end
