(* ===== verification/Cg_Correct.thy ===== *)
theory Cg_Correct
  imports Cg_Cache
begin

text \<open>
  What the cylinder group cache promises: \<open>cg_view s c\<close> is the current contents of group
  \<open>c\<close>; under the invariant \<open>cg_inv\<close> and with a healthy device, \<open>cache_cg\<close> and
  \<open>cache_cg_write\<close> return a pointer to it, and no operation changes the contents of any
  group. \<open>cg_rep\<close> relates the two arrays to the list of cached groups, least recently used
  first, each with its dirty flag.
\<close>

section \<open>The two arrays\<close>

definition cg_rep :: "cg_cache \<Rightarrow> (nat \<times> bool) list \<Rightarrow> bool" where
  "cg_rep c E \<longleftrightarrow>
     cache_cg_data c = map (\<lambda>e. Some (fst e)) E @ replicate (CACHE_CG_MAX - length E) None \<and>
     cache_cg_state c = map snd E @ replicate (CACHE_CG_MAX - length E) False \<and>
     distinct (map fst E) \<and> length E \<le> cache_cg_size c \<and>
     3 \<le> cache_cg_size c \<and> cache_cg_size c < CACHE_CG_MAX \<and>
     (\<forall>e \<in> set E. fst e < cg_brk c)"

lemma cg_rep_nth:
  assumes "cg_rep c E"
  shows "i < length E \<Longrightarrow> cache_cg_data c ! i = Some (fst (E ! i))"
    and "i < length E \<Longrightarrow> cache_cg_state c ! i = snd (E ! i)"
    and "length E \<le> i \<Longrightarrow> i < CACHE_CG_MAX \<Longrightarrow> cache_cg_data c ! i = None"
    and "length E \<le> i \<Longrightarrow> i < CACHE_CG_MAX \<Longrightarrow> \<not> cache_cg_state c ! i"
    and "length E < CACHE_CG_MAX"
  using assms by (auto simp: cg_rep_def nth_append)

lemma cg_rep_update:
  assumes "cg_rep c E" "i < length E"
  shows "cg_rep (c\<lparr>cache_cg_state := (cache_cg_state c)[i := d]\<rparr>) (E[i := (fst (E ! i), d)])"
proof -
  have e: "map fst (E[i := (fst (E ! i), d)]) = map fst E"
    using assms(2) by (simp add: map_update) (metis list_update_id nth_map)
  have "map (\<lambda>e. Some (fst e)) (E[i := (fst (E ! i), d)]) = map Some (map fst E)"
    unfolding e [symmetric] by simp
  moreover have "fst e < cg_brk c" if "e \<in> set (E[i := (fst (E ! i), d)])" for e
    using assms(1) that e unfolding cg_rep_def by (metis image_eqI image_set imageE)
  ultimately show ?thesis
    using assms e by (auto simp: cg_rep_def list_update_append map_update comp_def)
qed

lemma cg_shift_list:
  assumes "length X + length Y + Suc k = CACHE_CG_MAX" "0 < k"
  shows "\<exists>d b. cg_shift (Suc (length X))
      (map (\<lambda>e. Some (fst e)) X @ z # map (\<lambda>e. Some (fst e)) Y @ replicate k None)
      (map snd X @ zb # map snd Y @ replicate k False) = (Suc (length X + length Y), d, b) \<and>
    d[length X + length Y := v] = map (\<lambda>e. Some (fst e)) (X @ Y) @ v # replicate k None \<and>
    b[length X + length Y := vb] = map snd (X @ Y) @ vb # replicate k False"
  using assms
proof (induction Y arbitrary: X z zb)
  case Nil
  have "replicate k (None :: nat option) ! 0 = None" using Nil.prems(2) by simp
  then show ?case using Nil.prems by (subst cg_shift.simps) (simp add: nth_append list_update_append)
next
  case (Cons y Y)
  have "\<exists>d b. cg_shift (Suc (length (X @ [y])))
      (map (\<lambda>e. Some (fst e)) (X @ [y]) @ Some (fst y) # map (\<lambda>e. Some (fst e)) Y @ replicate k None)
      (map snd (X @ [y]) @ snd y # map snd Y @ replicate k False) =
        (Suc (length (X @ [y]) + length Y), d, b) \<and>
    d[length (X @ [y]) + length Y := v] =
      map (\<lambda>e. Some (fst e)) ((X @ [y]) @ Y) @ v # replicate k None \<and>
    b[length (X @ [y]) + length Y := vb] = map snd ((X @ [y]) @ Y) @ vb # replicate k False"
    by (rule Cons.IH) (use Cons.prems in simp_all)
  then show ?case
    using Cons.prems by (subst cg_shift.simps) (simp add: nth_append list_update_append)
qed

text \<open>\<open>cache_popup_cg\<close> moves an entry to the end.\<close>

lemma popup_rep:
  assumes rep: "cg_rep c (X @ e # Y)"
  shows "cg_rep (cache_popup_cg (length X) c) (X @ Y @ [e])"
    and "cg_bufs (cache_popup_cg (length X) c) = cg_bufs c"
    and "cache_cg_size (cache_popup_cg (length X) c) = cache_cg_size c"
    and "cg_brk (cache_popup_cg (length X) c) = cg_brk c"
proof -
  have "cg_rep (cache_popup_cg (length X) c) (X @ Y @ [e]) \<and>
    cg_bufs (cache_popup_cg (length X) c) = cg_bufs c \<and>
    cache_cg_size (cache_popup_cg (length X) c) = cache_cg_size c \<and>
    cg_brk (cache_popup_cg (length X) c) = cg_brk c"
  proof (cases Y)
    case Nil
    have "cache_cg_data c ! (length X + 1) = None"
      using cg_rep_nth(3) [OF rep, of "length X + 1"] cg_rep_nth(5) [OF rep] rep Nil
      by (simp add: cg_rep_def)
    then show ?thesis using rep Nil by (simp add: cache_popup_cg_def)
  next
    case (Cons y Z)
    let ?k = "CACHE_CG_MAX - length (X @ e # Y)"
    have k: "length X + length Y + Suc ?k = CACHE_CG_MAX" "0 < ?k"
      using cg_rep_nth(5) [OF rep] by simp_all
    obtain d b where db: "cg_shift (Suc (length X))
        (map (\<lambda>e. Some (fst e)) X @ Some (fst e) # map (\<lambda>e. Some (fst e)) Y @ replicate ?k None)
        (map snd X @ snd e # map snd Y @ replicate ?k False) = (Suc (length X + length Y), d, b)"
      "d[length X + length Y := Some (fst e)] =
         map (\<lambda>e. Some (fst e)) (X @ Y) @ Some (fst e) # replicate ?k None"
      "b[length X + length Y := snd e] = map snd (X @ Y) @ snd e # replicate ?k False"
      using cg_shift_list [OF k] by blast
    have arr: "cache_cg_data c =
        map (\<lambda>e. Some (fst e)) X @ Some (fst e) # map (\<lambda>e. Some (fst e)) Y @ replicate ?k None"
      "cache_cg_state c = map snd X @ snd e # map snd Y @ replicate ?k False"
      using rep by (simp_all add: cg_rep_def)
    have nn: "cache_cg_data c ! Suc (length X) = Some (fst y)"
      "cache_cg_data c ! length X = Some (fst e)" "cache_cg_state c ! length X = snd e"
      unfolding arr by (simp_all add: nth_append Cons)
    have sh: "cg_shift (length X + 1) (cache_cg_data c) (cache_cg_state c) =
        (Suc (length X + length Y), d, b)"
      using db(1) by (simp add: arr)
    have "cache_popup_cg (length X) c =
        c\<lparr>cache_cg_data := map (\<lambda>e. Some (fst e)) (X @ Y @ [e]) @ replicate ?k None,
          cache_cg_state := map snd (X @ Y @ [e]) @ replicate ?k False\<rparr>"
      unfolding cache_popup_cg_def sh using nn db(2,3) by simp
    then show ?thesis using rep by (auto simp: cg_rep_def)
  qed
  then show "cg_rep (cache_popup_cg (length X) c) (X @ Y @ [e])"
    and "cg_bufs (cache_popup_cg (length X) c) = cg_bufs c"
    and "cache_cg_size (cache_popup_cg (length X) c) = cache_cg_size c"
    and "cg_brk (cache_popup_cg (length X) c) = cg_brk c" by simp_all
qed

section \<open>The invariant\<close>

definition cg_layout :: "fsys \<Rightarrow> bool" where
  "cg_layout s \<longleftrightarrow>
     (\<forall>c < fs_ncg (sb s). frag_ok s (cgtod (sb s) c) \<and>
        cg_cgx (disk_cg (dev s) (cgtod (sb s) c)) = c) \<and>
     inj_on (cgtod (sb s)) {c. c < fs_ncg (sb s)}"

definition cgx_of :: "fsys \<Rightarrow> nat \<times> bool \<Rightarrow> u32" where
  "cgx_of s e = cg_cgx (cg_at s (fst e))"

lemma map_cgx_of: "map (cgx_of s) E = map (\<lambda>p. cg_cgx (cg_at s p)) (map fst E)"
  by (simp add: cgx_of_def)

definition cg_inv :: "fsys \<Rightarrow> (nat \<times> bool) list \<Rightarrow> bool" where
  "cg_inv s E \<longleftrightarrow>
     cg_rep (cgc s) E \<and> distinct (map (cgx_of s) E) \<and> cg_layout s \<and>
     dev_ok s \<and> \<not> fs_ronly (sb s) \<and> (\<forall>k. \<not> mem_fails (hnd s) k) \<and>
     (\<forall>e \<in> set E. cgx_of s e < fs_ncg (sb s) \<and>
        (\<not> snd e \<longrightarrow> cg_at s (fst e) = disk_cg (dev s) (cgtod (sb s) (cgx_of s e))))"

definition cg_view :: "fsys \<Rightarrow> u32 \<Rightarrow> cg" where
  "cg_view s c =
     (case List.find (\<lambda>e. case e of None \<Rightarrow> False | Some p \<Rightarrow> cg_cgx (cg_at s p) = c)
        (cache_cg_data (cgc s)) of
        Some (Some p) \<Rightarrow> cg_at s p
      | _ \<Rightarrow> disk_cg (dev s) (cgtod (sb s) c))"

lemma cg_view_hit:
  assumes inv: "cg_inv s E" and "e \<in> set E" "cgx_of s e = c"
  shows "cg_view s c = cg_at s (fst e)"
proof -
  let ?P = "\<lambda>e. case e of None \<Rightarrow> False | Some p \<Rightarrow> cg_cgx (cg_at s p) = c"
  have data: "Some (fst e) \<in> set (cache_cg_data (cgc s))"
    using inv assms(2) by (auto simp: cg_inv_def cg_rep_def)
  have "?P (Some (fst e))" using assms(3) by (simp add: cgx_of_def)
  then obtain x where x: "List.find ?P (cache_cg_data (cgc s)) = Some x"
    using data by (cases "List.find ?P (cache_cg_data (cgc s))") (auto simp: find_None_iff)
  then have "?P x" "x \<in> set (cache_cg_data (cgc s))" by (auto simp: find_Some_iff)
  then obtain e' where e': "x = Some (fst e')" "e' \<in> set E" "cgx_of s e' = c"
    using inv by (auto simp: cg_inv_def cg_rep_def cgx_of_def split: option.splits)
  have "inj_on (cgx_of s) (set E)" using inv by (simp add: cg_inv_def distinct_map)
  then have "e' = e" using e' assms(2,3) by (auto dest: inj_onD)
  then show ?thesis using x e' by (simp add: cg_view_def)
qed

lemma cg_view_miss:
  assumes inv: "cg_inv s E" and "\<And>e. e \<in> set E \<Longrightarrow> cgx_of s e \<noteq> c"
  shows "cg_view s c = disk_cg (dev s) (cgtod (sb s) c)"
proof -
  have "List.find (\<lambda>e. case e of None \<Rightarrow> False | Some p \<Rightarrow> cg_cgx (cg_at s p) = c)
      (cache_cg_data (cgc s)) = None"
    using inv assms(2)
    by (auto simp: find_None_iff cg_inv_def cg_rep_def cgx_of_def split: option.splits)
  then show ?thesis by (simp add: cg_view_def)
qed

text \<open>A clean entry and its copy on the disk are the same.\<close>

lemma cg_view_clean:
  assumes inv: "cg_inv s E" and "e \<in> set E" "\<not> snd e" "cgx_of s e = c"
  shows "cg_view s c = disk_cg (dev s) (cgtod (sb s) c)"
  using cg_view_hit [OF inv assms(2,4)] inv assms by (auto simp: cg_inv_def)

lemma cg_view_cgx:
  assumes inv: "cg_inv s E" and "c < fs_ncg (sb s)"
  shows "cg_cgx (cg_view s c) = c"
proof (cases "\<exists>e \<in> set E. cgx_of s e = c")
  case True
  then show ?thesis using cg_view_hit [OF inv] by (auto simp: cgx_of_def)
next
  case False
  then show ?thesis using cg_view_miss [OF inv, of c] inv assms(2)
    by (auto simp: cg_inv_def cg_layout_def)
qed

section \<open>What stays the same\<close>

definition cg_frame :: "fsys \<Rightarrow> fsys \<Rightarrow> bool" where
  "cg_frame s t \<longleftrightarrow>
     sb t = sb s \<and> fc t = fc s \<and> same_dev ((dev s)\<lparr>disk_cg := disk_cg (dev t)\<rparr>) (dev t) \<and>
     (\<exists>k. hnd t = (hnd s)\<lparr>mem_count := k\<rparr>) \<and>
     cache_cg_size (cgc t) = cache_cg_size (cgc s)"

definition cg_same_view :: "fsys \<Rightarrow> fsys \<Rightarrow> bool" where
  "cg_same_view s t \<longleftrightarrow> (\<forall>c < fs_ncg (sb s). cg_view t c = cg_view s c)"

lemma cg_frame_refl [simp]: "cg_frame s s"
  by (auto simp: cg_frame_def same_dev_def intro: exI [of _ "mem_count (hnd s)"])

lemma cg_frame_trans: "cg_frame s t \<Longrightarrow> cg_frame t u \<Longrightarrow> cg_frame s u"
  by (auto simp: cg_frame_def same_dev_def)

lemma cg_same_view_refl [simp]: "cg_same_view s s"
  by (simp add: cg_same_view_def)

lemma cg_same_view_trans:
  "cg_same_view s t \<Longrightarrow> cg_same_view t u \<Longrightarrow> sb t = sb s \<Longrightarrow> cg_same_view s u"
  by (simp add: cg_same_view_def)

lemma cg_frame_frag_ok: "cg_frame s t \<Longrightarrow> frag_ok t = frag_ok s"
  by (rule ext) (auto simp: cg_frame_def same_dev_def frag_ok_def sectoff_def)

text \<open>The frag cache does not notice.\<close>

lemma cg_frame_cache_inv:
  assumes "cg_frame s t"
  shows "cache_inv t S = cache_inv s S"
proof -
  have "dev_good t = dev_good s" "fsize (hnd t) = fsize (hnd s)" "fc t = fc s"
    "disk (dev t) = disk (dev s)"
    using assms by (auto simp: cg_frame_def same_dev_def dev_good_def dev_ok_def)
  then show ?thesis unfolding cache_inv_def cg_frame_frag_ok [OF assms] by simp
qed

lemma cg_frame_mounted: "cg_frame s t \<Longrightarrow> mounted t = mounted s"
  using cg_frame_cache_inv [of s t] by (simp add: mounted_def cg_frame_def)

lemma cg_frame_view: "cg_frame s t \<Longrightarrow> view t = view s"
  by (rule ext) (simp add: view_def frag_buf_def cg_frame_def same_dev_def split: option.splits)

lemma cg_frame_valid: "cg_frame s t \<Longrightarrow> valid_frag t = valid_frag s"
  by (rule ext) (simp add: valid_frag_def cg_frame_frag_ok)

text \<open>Two states with the same entries but for their order and flags.\<close>

lemma cg_view_perm:
  assumes inv: "cg_inv s E" "cg_inv t E'"
    and E: "set (map fst E') = set (map fst E)" and bufs: "cg_bufs (cgc t) = cg_bufs (cgc s)"
    and disk: "\<And>c. c < fs_ncg (sb s) \<Longrightarrow> (\<And>e. e \<in> set E \<Longrightarrow> cgx_of s e \<noteq> c) \<Longrightarrow>
      disk_cg (dev t) (cgtod (sb t) c) = disk_cg (dev s) (cgtod (sb s) c)"
  shows "cg_same_view s t"
  unfolding cg_same_view_def
proof (intro allI impI)
  fix c assume c: "c < fs_ncg (sb s)"
  have at: "cg_at t p = cg_at s p" for p using bufs by (simp add: cg_at_def)
  show "cg_view t c = cg_view s c"
  proof (cases "\<exists>e \<in> set E. cgx_of s e = c")
    case True
    then obtain e where e: "e \<in> set E" "cgx_of s e = c" by auto
    then have "fst e \<in> set (map fst E')" unfolding E by simp
    then obtain e' where e': "e' \<in> set E'" "fst e' = fst e" by auto
    then have "cgx_of t e' = c" using e(2) at by (simp add: cgx_of_def)
    then show ?thesis
      using cg_view_hit [OF inv(1) e] cg_view_hit [OF inv(2) e'(1)] e'(2) at by simp
  next
    case False
    have "cgx_of t e' \<noteq> c" if e': "e' \<in> set E'" for e'
    proof -
      have "fst e' \<in> set (map fst E')" using e' by simp
      then obtain e where "e \<in> set E" "fst e = fst e'" unfolding E by auto
      then show ?thesis using False at by (auto simp: cgx_of_def)
    qed
    then show ?thesis
      using cg_view_miss [OF inv(1), of c] cg_view_miss [OF inv(2), of c] disk [OF c] False by auto
  qed
qed

section \<open>Flushing\<close>

lemma data_write_cg_ok:
  assumes "dev_ok s" "\<not> fs_ronly (sb s)" "frag_ok s b"
  shows "\<exists>d. data_write_cg c b s = (False, s\<lparr>dev := d\<rparr>) \<and>
    disk_cg d = (disk_cg (dev s))(b := c) \<and> same_dev ((dev s)\<lparr>disk_cg := disk_cg d\<rparr>) d"
proof -
  obtain d where "write_request b s = (False, s\<lparr>dev := d\<rparr>)" "same_dev (dev s) d"
    using write_request_ok assms by blast
  then show ?thesis by (auto simp: data_write_cg_def same_dev_def)
qed

text \<open>Writing one dirty group.\<close>

lemma clean_entry:
  assumes inv: "cg_inv s E" and i: "i < length E"
    and d: "disk_cg d = (disk_cg (dev s))(cgtod (sb s) (cgx_of s (E ! i)) := cg_at s (fst (E ! i)))"
      "same_dev ((dev s)\<lparr>disk_cg := disk_cg d\<rparr>) d"
    and t: "t = s\<lparr>dev := d,
      cgc := (cgc s)\<lparr>cache_cg_state := (cache_cg_state (cgc s))[i := False]\<rparr>\<rparr>"
  shows "cg_inv t (E[i := (fst (E ! i), False)])" "cg_same_view s t" "cg_frame s t"
proof -
  let ?e = "E ! i" and ?E = "E[i := (fst (E ! i), False)]"
  have e: "?e \<in> set E" using i by simp
  have rep: "cg_rep (cgc s) E" and lay: "cg_layout s"
    and inj: "inj_on (cgx_of s) (set E)" and dist: "distinct E"
    using inv by (simp_all add: cg_inv_def distinct_map)
  have fr: "cg_frame s t"
    using d(2) by (auto simp: cg_frame_def t intro: exI [of _ "mem_count (hnd s)"])
  have cgx: "cgx_of t = cgx_of s" by (rule ext) (simp add: cgx_of_def cg_at_def t)
  have fst: "map fst ?E = map fst E"
    using i by (simp add: map_update) (metis list_update_id nth_map)
  then have cgxs: "map (cgx_of s) ?E = map (cgx_of s) E"
    unfolding map_cgx_of by simp
  have cb: "cgx_of s ?e < fs_ncg (sb s)" using inv e by (simp add: cg_inv_def)
  have injd: "cgtod (sb s) c \<noteq> cgtod (sb s) (cgx_of s ?e)"
    if "c < fs_ncg (sb s)" "c \<noteq> cgx_of s ?e" for c
    using lay that cb by (auto simp: cg_layout_def inj_on_def)
  have "cgx_of s e < fs_ncg (sb s) \<and>
      (\<not> snd e \<longrightarrow> cg_at s (fst e) = disk_cg d (cgtod (sb s) (cgx_of s e)))"
    if "e \<in> set ?E" for e
  proof (cases "e = (fst ?e, False)")
    case True
    then show ?thesis using cb d(1) by (simp add: cgx_of_def)
  next
    case False
    then have eE: "e \<in> set E" and "e \<noteq> ?e"
      using that set_update_distinct [OF dist i] by auto
    then have "cgx_of s e \<noteq> cgx_of s ?e" using inj eE e by (auto dest: inj_onD)
    then show ?thesis using inv eE injd d(1) by (simp add: cg_inv_def)
  qed
  moreover have "cg_rep (cgc t) ?E" using cg_rep_update [OF rep i] by (simp add: t)
  moreover have "cg_layout t"
  proof -
    have "frag_ok t = frag_ok s" using cg_frame_frag_ok [OF fr] .
    moreover have "cg_cgx (disk_cg d (cgtod (sb s) c)) = c" if "c < fs_ncg (sb s)" for c
      using that lay injd [OF that] unfolding d(1) cg_layout_def
      by (cases "c = cgx_of s ?e") (simp_all add: cgx_of_def)
    ultimately show ?thesis using lay by (simp add: cg_layout_def t)
  qed
  ultimately show inv': "cg_inv t ?E"
    using inv d(2) unfolding cg_inv_def cgx cgxs
    by (simp add: t dev_ok_def same_dev_def cg_at_def)
  show "cg_frame s t" by (rule fr)
  show "cg_same_view s t"
  proof (rule cg_view_perm [OF inv inv'])
    show "set (map fst ?E) = set (map fst E)" unfolding fst ..
    show "cg_bufs (cgc t) = cg_bufs (cgc s)" by (simp add: t)
    fix c assume c: "c < fs_ncg (sb s)" "\<And>e. e \<in> set E \<Longrightarrow> cgx_of s e \<noteq> c"
    then have "c \<noteq> cgx_of s ?e" using e by metis
    then show "disk_cg (dev t) (cgtod (sb t) c) = disk_cg (dev s) (cgtod (sb s) c)"
      using injd [OF c(1)] d(1) by (simp add: t)
  qed
qed

lemma cg_flush_from_ok:
  assumes "cg_inv s E" "index + n = CACHE_CG_MAX"
  shows "\<exists>w' t E'. cg_flush_from n index w s = Some (w', t) \<and> cg_inv t E' \<and>
    map fst E' = map fst E \<and> (\<forall>i < length E. index \<le> i \<longrightarrow> \<not> snd (E' ! i)) \<and>
    (\<forall>i < index. i < length E \<longrightarrow> E' ! i = E ! i) \<and>
    cg_same_view s t \<and> cg_frame s t \<and> cg_bufs (cgc t) = cg_bufs (cgc s)"
  using assms
proof (induction n arbitrary: index w s E)
  case 0
  then show ?case using cg_rep_nth(5) [of "cgc s" E] by (auto simp: cg_inv_def)
next
  case (Suc n)
  have rep: "cg_rep (cgc s) E" using Suc.prems(1) by (simp add: cg_inv_def)
  have idx: "Suc index + n = CACHE_CG_MAX" using Suc.prems(2) by simp
  show ?case
  proof (cases "index < length E \<and> snd (E ! index)")
    case False
    then have st: "\<not> cache_cg_state (cgc s) ! index"
      using cg_rep_nth(2,4) [OF rep, of index] Suc.prems(2) by (cases "index < length E") auto
    obtain w' t E' where t: "cg_flush_from n (Suc index) w s = Some (w', t)" "cg_inv t E'"
      "map fst E' = map fst E" "\<forall>i < length E. Suc index \<le> i \<longrightarrow> \<not> snd (E' ! i)"
      "\<forall>i < Suc index. i < length E \<longrightarrow> E' ! i = E ! i"
      "cg_same_view s t" "cg_frame s t" "cg_bufs (cgc t) = cg_bufs (cgc s)"
      using Suc.IH [OF Suc.prems(1) idx, of w] by blast
    have "\<not> snd (E' ! i)" if "i < length E" "index \<le> i" for i
      using that t(4,5) False by (cases "i = index") auto
    then show ?thesis using st t by (auto intro!: exI)
  next
    case True
    then have i: "index < length E" by simp
    let ?e = "E ! index"
    have e: "?e \<in> set E" using i by simp
    have st: "cache_cg_state (cgc s) ! index" "cache_cg_data (cgc s) ! index = Some (fst ?e)"
      using cg_rep_nth(1,2) [OF rep i] True by simp_all
    have ok: "dev_ok s" "\<not> fs_ronly (sb s)" "frag_ok s (cgtod (sb s) (cgx_of s ?e))"
      using Suc.prems(1) e by (simp_all add: cg_inv_def cg_layout_def)
    obtain d where d: "data_write_cg (cg_at s (fst ?e)) (cgtod (sb s) (cgx_of s ?e)) s =
        (False, s\<lparr>dev := d\<rparr>)"
      "disk_cg d = (disk_cg (dev s))(cgtod (sb s) (cgx_of s ?e) := cg_at s (fst ?e))"
      "same_dev ((dev s)\<lparr>disk_cg := disk_cg d\<rparr>) d"
      using data_write_cg_ok [OF ok] by blast
    let ?s = "s\<lparr>dev := d,
      cgc := (cgc s)\<lparr>cache_cg_state := (cache_cg_state (cgc s))[index := False]\<rparr>\<rparr>"
    let ?E = "E[index := (fst ?e, False)]"
    note step = clean_entry [OF Suc.prems(1) i d(2,3) refl]
    obtain w' t E' where t: "cg_flush_from n (Suc index) (Suc w) ?s = Some (w', t)" "cg_inv t E'"
      "map fst E' = map fst ?E" "\<forall>i < length ?E. Suc index \<le> i \<longrightarrow> \<not> snd (E' ! i)"
      "\<forall>i < Suc index. i < length ?E \<longrightarrow> E' ! i = ?E ! i"
      "cg_same_view ?s t" "cg_frame ?s t" "cg_bufs (cgc t) = cg_bufs (cgc ?s)"
      using Suc.IH [OF step(1) idx, of "Suc w"] by blast
    have "map fst ?E = map fst E"
      using i by (simp add: map_update) (metis list_update_id nth_map)
    moreover have "\<not> snd (E' ! j)" if "j < length E" "index \<le> j" for j
      using that t(4,5) by (cases "j = index") auto
    moreover have "E' ! j = E ! j" if "j < index" "j < length E" for j
      using that t(5) by simp
    moreover have "cg_flush_from (Suc n) index w s = Some (w', t)"
      using st d(1) t(1) by (simp add: cgx_of_def)
    moreover have "cg_same_view s t"
      using cg_same_view_trans [OF step(2) t(6)] by simp
    moreover have "cg_frame s t" using cg_frame_trans [OF step(3) t(7)] .
    ultimately show ?thesis using t(2,3,8) by (auto simp del: cg_flush_from.simps)
  qed
qed

section \<open>Searching\<close>

lemma cg_scan_hit:
  "\<forall>x \<in> set X. cg_cgx (bufs (fst x)) \<noteq> c \<Longrightarrow> cg_cgx (bufs (fst e)) = c \<Longrightarrow>
   cg_scan bufs (map (\<lambda>e. Some (fst e)) X @ Some (fst e) # es) c i = Hit (i + length X)"
  by (induction X arbitrary: i) auto

lemma cg_scan_miss:
  "\<forall>x \<in> set X. cg_cgx (bufs (fst x)) \<noteq> c \<Longrightarrow>
   cg_scan bufs (map (\<lambda>e. Some (fst e)) X @ replicate k None) c i =
     (if k = 0 then Full else Empty (i + length X))"
proof (induction X arbitrary: i)
  case Nil
  then show ?case by (cases k) simp_all
next
  case (Cons x X)
  then show ?case by simp
qed

lemma cg_lookup_hit:
  "\<forall>x \<in> set X. cg_cgx (bufs (fst x)) \<noteq> c \<Longrightarrow> cg_cgx (bufs (fst e)) = c \<Longrightarrow>
   cg_lookup bufs (map (\<lambda>e. Some (fst e)) X @ Some (fst e) # es) c i = Some (i + length X)"
  by (induction X arbitrary: i) auto

lemma cg_lookup_miss:
  "\<forall>x \<in> set X. cg_cgx (bufs (fst x)) \<noteq> c \<Longrightarrow>
   cg_lookup bufs (map (\<lambda>e. Some (fst e)) X @ replicate k None) c i = None"
proof (induction X arbitrary: i)
  case Nil
  then show ?case by (induction k arbitrary: i) simp_all
next
  case (Cons x X)
  then show ?case by simp
qed

lemma cg_position_at:
  "p \<notin> fst ` set X \<Longrightarrow>
   cg_position p (map (\<lambda>e. Some (fst e)) X @ Some p # es) i = Some (i + length X)"
  by (induction X arbitrary: i) auto

lemma cg_rep_take:
  assumes "cg_rep c E"
  shows "take (cache_cg_size c) (cache_cg_data c) =
    map (\<lambda>e. Some (fst e)) E @ replicate (cache_cg_size c - length E) None"
  using assms by (auto simp: cg_rep_def min_def)

lemma split_entry:
  assumes "cg_inv s E" "e \<in> set E"
  obtains X Y where "E = X @ e # Y" "\<forall>x \<in> set X. cgx_of s x \<noteq> cgx_of s e"
    "\<forall>x \<in> set Y. cgx_of s x \<noteq> cgx_of s e"
proof -
  obtain X Y where E: "E = X @ e # Y" using assms(2) by (auto dest: split_list)
  have "distinct (map (cgx_of s) (X @ e # Y))" using assms(1) E by (simp add: cg_inv_def)
  then have "cgx_of s e \<notin> cgx_of s ` set X" "cgx_of s e \<notin> cgx_of s ` set Y" by auto
  then show ?thesis using that [OF E] by (metis imageI)
qed

section \<open>Loading\<close>

lemma cg_inv_cgc:
  assumes inv: "cg_inv s E" and rep: "cg_rep g E'" and "set E' = set E"
    and bufs: "cg_bufs g = cg_bufs (cgc s)"
  shows "cg_inv (s\<lparr>cgc := g\<rparr>) E'" "cg_same_view s (s\<lparr>cgc := g\<rparr>)"
proof -
  have cgx: "cgx_of (s\<lparr>cgc := g\<rparr>) = cgx_of s"
    using bufs by (auto simp: cgx_of_def cg_at_def fun_eq_iff)
  have "inj_on (cgx_of s) (set E)" "distinct E'"
    using inv rep by (auto simp: cg_inv_def cg_rep_def distinct_map)
  then have "distinct (map (cgx_of s) E')" by (simp add: distinct_map assms(3))
  then show inv': "cg_inv (s\<lparr>cgc := g\<rparr>) E'"
    using inv rep assms(3) bufs unfolding cg_inv_def cgx
    by (simp add: cg_layout_def dev_ok_def frag_ok_def sectoff_def cg_at_def)
  show "cg_same_view s (s\<lparr>cgc := g\<rparr>)"
    by (rule cg_view_perm [OF inv inv']) (use assms(3) bufs in auto)
qed

lemma data_read_cg_ok:
  assumes "dev_ok s" "frag_ok s b"
  shows "\<exists>d. data_read_cg b s = (Some (disk_cg (dev s) b), s\<lparr>dev := d\<rparr>) \<and> same_dev (dev s) d"
proof -
  obtain d where "read_request b s = (False, s\<lparr>dev := d\<rparr>)" "same_dev (dev s) d"
    using read_request_ok assms by blast
  then show ?thesis by (auto simp: data_read_cg_def same_dev_def)
qed

text \<open>A group is read into the buffer of entry \<open>length X\<close>, whose old contents are on the
  disk; \<open>view0\<close> is the contents of the groups before.\<close>

lemma cg_fill:
  assumes rep: "cg_rep (cgc s) (X @ (p, b) # Y)" and lay: "cg_layout s" "dev_ok s"
      "\<not> fs_ronly (sb s)" "\<forall>k. \<not> mem_fails (hnd s) k"
    and dist: "distinct (map (cgx_of s) (X @ Y))"
    and ents: "\<forall>e \<in> set (X @ Y). cgx_of s e < fs_ncg (sb s) \<and>
        (\<not> snd e \<longrightarrow> cg_at s (fst e) = disk_cg (dev s) (cgtod (sb s) (cgx_of s e)))"
    and c: "c < fs_ncg (sb s)" "\<forall>e \<in> set (X @ Y). cgx_of s e \<noteq> c"
    and d: "same_dev (dev s) d"
    and t: "t = (set_cg p (disk_cg (dev s) (cgtod (sb s) c)) (s\<lparr>dev := d\<rparr>))
        \<lparr>cgc := cache_popup_cg (length X) ((cgc (set_cg p (disk_cg (dev s) (cgtod (sb s) c)) s))
           \<lparr>cache_cg_state := (cache_cg_state (cgc s))[length X := False]\<rparr>)\<rparr>"
  shows "cg_inv t (X @ Y @ [(p, False)])" "cg_frame s t"
    and "cg_at t p = disk_cg (dev s) (cgtod (sb s) c)"
    and "\<And>q. q \<noteq> p \<Longrightarrow> cg_at t q = cg_at s q"
    and "\<And>e. e \<in> set (X @ Y) \<Longrightarrow> cg_view t (cgx_of s e) = cg_at s (fst e)"
    and "\<And>a. \<forall>e \<in> set (X @ Y). cgx_of s e \<noteq> a \<Longrightarrow> a < fs_ncg (sb s) \<Longrightarrow>
           cg_view t a = disk_cg (dev s) (cgtod (sb s) a)"
proof -
  let ?c = "disk_cg (dev s) (cgtod (sb s) c)" and ?E = "X @ Y @ [(p, False)]"
  let ?g = "(cgc (set_cg p ?c s))\<lparr>cache_cg_state := (cache_cg_state (cgc s))[length X := False]\<rparr>"
  have "cg_rep ?g (X @ (p, False) # Y)"
    using cg_rep_update [OF rep, of "length X" False]
    by (simp add: list_update_append set_cg_def cg_rep_def)
  note pop = popup_rep [OF this]
  have bufs: "cg_bufs (cgc t) = (cg_bufs (cgc s))(p := ?c)"
    using pop(2) by (simp add: t set_cg_def)
  show at: "cg_at t p = ?c" and oth: "\<And>q. q \<noteq> p \<Longrightarrow> cg_at t q = cg_at s q"
    using bufs by (simp_all add: cg_at_def)
  have np: "fst e \<noteq> p" if "e \<in> set (X @ Y)" for e
    using rep that by (auto simp: cg_rep_def)
  have cgx: "cgx_of t e = cgx_of s e" if "e \<in> set (X @ Y)" for e
    using oth [OF np [OF that]] by (simp add: cgx_of_def)
  have cgxp: "cgx_of t (p, False) = c" using at lay(1) c(1) by (simp add: cgx_of_def cg_layout_def)
  have st: "sb t = sb s" "fc t = fc s" "hnd t = hnd s" "dev t = d"
    by (simp_all add: t set_cg_def)
  have size: "cache_cg_size (cgc t) = cache_cg_size (cgc s)"
    using pop(3) by (simp add: t set_cg_def)
  show fr: "cg_frame s t"
    using st d size
    by (auto simp: cg_frame_def same_dev_def intro: exI [of _ "mem_count (hnd s)"])
  have dd: "disk_cg d = disk_cg (dev s)" using d by (simp add: same_dev_def)
  have "cg_rep (cgc t) ?E" using pop(1) by (simp add: t set_cg_def)
  moreover have "distinct (map (cgx_of t) ?E)"
    using dist c(2) cgx cgxp by (auto simp: distinct_map inj_on_def)
  moreover have "cg_layout t"
    using lay(1) cg_frame_frag_ok [OF fr] st dd by (simp add: cg_layout_def)
  moreover have "dev_ok t" using lay(2) d st by (simp add: dev_ok_def same_dev_def)
  moreover have "cgx_of t e < fs_ncg (sb t) \<and>
      (\<not> snd e \<longrightarrow> cg_at t (fst e) = disk_cg (dev t) (cgtod (sb t) (cgx_of t e)))"
    if "e \<in> set ?E" for e
  proof (cases "e \<in> set (X @ Y)")
    case True
    then show ?thesis using ents cgx [OF True] oth [OF np [OF True]] st dd by simp
  next
    case False
    then have "e = (p, False)" using that by auto
    then show ?thesis using cgxp at st dd c(1) by simp
  qed
  ultimately show inv': "cg_inv t ?E" using lay(3,4) st by (simp add: cg_inv_def)
  show "cg_view t (cgx_of s e) = cg_at s (fst e)" if "e \<in> set (X @ Y)" for e
    using cg_view_hit [OF inv', of e] that cgx [OF that] oth [OF np [OF that]] by simp
  show "cg_view t a = disk_cg (dev s) (cgtod (sb s) a)"
    if a: "\<forall>e \<in> set (X @ Y). cgx_of s e \<noteq> a" "a < fs_ncg (sb s)" for a
  proof (cases "a = c")
    case True
    then show ?thesis using cg_view_hit [OF inv', of "(p, False)"] cgxp at by simp
  next
    case False
    then have "\<And>e. e \<in> set ?E \<Longrightarrow> cgx_of t e \<noteq> a" using a(1) cgx cgxp by auto
    then show ?thesis using cg_view_miss [OF inv'] st dd by simp
  qed
qed

section \<open>Contracts\<close>

text \<open>What the caller knows after a call that returned the pointer \<open>p\<close> to group \<open>c\<close>.\<close>

definition cg_fetched :: "fsys \<Rightarrow> u32 \<Rightarrow> fsys \<Rightarrow> (nat \<times> bool) list \<Rightarrow> nat \<times> bool \<Rightarrow> bool" where
  "cg_fetched s c t E e \<longleftrightarrow>
     cg_inv t E \<and> e \<in> set E \<and> cgx_of t e = c \<and> cg_at t (fst e) = cg_view s c \<and>
     cg_same_view s t \<and> cg_frame s t"

text \<open>A cached group: the pointer is the old one and no buffer changes.\<close>

lemma cache_cg_hit:
  assumes inv: "cg_inv s E" and e: "e \<in> set E" "cgx_of s e = c"
  shows "\<exists>t E'. cache_cg c s = Some (Some (fst e), t) \<and> cg_fetched s c t E' e \<and>
    set E' = set E \<and> cg_bufs (cgc t) = cg_bufs (cgc s) \<and> sb t = sb s \<and> hnd t = hnd s \<and>
    dev t = dev s"
proof -
  obtain X Y where E: "E = X @ e # Y" "\<forall>x \<in> set X. cgx_of s x \<noteq> c"
    using split_entry [OF inv e(1)] e(2) by metis
  have rep: "cg_rep (cgc s) (X @ e # Y)" using inv E by (simp add: cg_inv_def)
  let ?t = "s\<lparr>cgc := cache_popup_cg (length X) (cgc s)\<rparr>"
  note pop = popup_rep [OF rep]
  have scan: "cg_scan (cg_bufs (cgc s)) (take (cache_cg_size (cgc s)) (cache_cg_data (cgc s))) c 0 =
      Hit (length X)"
    unfolding cg_rep_take [OF rep]
    using cg_scan_hit [of X "cg_bufs (cgc s)" c e _ 0] E(2) e(2)
    by (simp add: cgx_of_def cg_at_def)
  have "cache_cg_data (cgc s) ! length X = Some (fst e)"
    using cg_rep_nth(1) [OF rep, of "length X"] by simp
  moreover have "c < fs_ncg (sb s)" using inv e by (auto simp: cg_inv_def)
  ultimately have run: "cache_cg c s = Some (Some (fst e), ?t)"
    using scan by (simp add: cache_cg_def)
  have setE: "set (X @ Y @ [e]) = set E" using E by auto
  note inv' = cg_inv_cgc [OF inv pop(1) setE pop(2)]
  have "cg_frame s ?t"
    using pop(3) by (auto simp: cg_frame_def same_dev_def intro: exI [of _ "mem_count (hnd s)"])
  then have "cg_fetched s c ?t (X @ Y @ [e]) e"
    using inv' cg_view_hit [OF inv e] pop(2) e setE
    by (auto simp: cg_fetched_def cgx_of_def cg_at_def)
  then show ?thesis using run setE pop(2) by auto
qed

text \<open>The part of the invariant that a full or a free slot leaves to \<open>cg_fill\<close>.\<close>

lemma cg_invD:
  assumes "cg_inv s E"
  shows "cg_rep (cgc s) E" "cg_layout s" "dev_ok s" "\<not> fs_ronly (sb s)"
    "\<forall>k. \<not> mem_fails (hnd s) k" "distinct (map (cgx_of s) E)"
    "\<forall>e \<in> set E. cgx_of s e < fs_ncg (sb s) \<and>
        (\<not> snd e \<longrightarrow> cg_at s (fst e) = disk_cg (dev s) (cgtod (sb s) (cgx_of s e)))"
  using assms by (simp_all add: cg_inv_def)

lemma fetch_free_slot:
  assumes inv: "cg_inv s E" and c: "c < fs_ncg (sb s)" "\<forall>e \<in> set E. cgx_of s e \<noteq> c"
    and free: "length E < cache_cg_size (cgc s)"
  shows "\<exists>p t. cache_cg c s = Some (Some p, t) \<and> cg_fetched s c t (E @ [(p, False)]) (p, False)"
proof -
  note D = cg_invD [OF inv]
  let ?p = "cg_brk (cgc s)" and ?k = "length E"
  have k: "?k < CACHE_CG_MAX" using cg_rep_nth(5) [OF D(1)] .
  have scan: "cg_scan (cg_bufs (cgc s)) (take (cache_cg_size (cgc s)) (cache_cg_data (cgc s))) c 0 =
      Empty ?k"
    unfolding cg_rep_take [OF D(1)]
    using cg_scan_miss [of E "cg_bufs (cgc s)" c "cache_cg_size (cgc s) - ?k" 0] c(2) free
    by (simp add: cgx_of_def cg_at_def)
  let ?h = "(hnd s)\<lparr>mem_count := Suc (mem_count (hnd s))\<rparr>"
  let ?g = "(cgc s)\<lparr>cg_brk := Suc ?p, cache_cg_data := (cache_cg_data (cgc s))[?k := Some ?p],
      cache_cg_state := (cache_cg_state (cgc s))[?k := False]\<rparr>"
  define u where "u = s\<lparr>hnd := ?h, cgc := ?g\<rparr>"
  have u: "sb u = sb s" "fc u = fc s" "dev u = dev s" "hnd u = ?h" "cgc u = ?g"
    by (simp_all add: u_def)
  obtain m where m: "CACHE_CG_MAX - ?k = Suc m" "CACHE_CG_MAX - Suc ?k = m"
    using k by (cases "CACHE_CG_MAX - ?k") auto
  have old: "\<forall>e \<in> set E. fst e < ?p" using D(1) by (simp add: cg_rep_def)
  then have rep: "cg_rep (cgc u) (E @ [(?p, False)])"
    using D(1) free m by (auto simp: cg_rep_def list_update_append u)
  have cgx: "cgx_of u = cgx_of s" "cg_at u = cg_at s"
    by (simp_all add: cgx_of_def cg_at_def fun_eq_iff u)
  have lay: "cg_layout u" "dev_ok u"
    using D(2,3) by (simp_all add: cg_layout_def frag_ok_def sectoff_def dev_ok_def u)
  have "frag_ok u (cgtod (sb u) c)" using lay(1) c(1) u by (simp add: cg_layout_def)
  then obtain d where d: "data_read_cg (cgtod (sb u) c) u =
      (Some (disk_cg (dev u) (cgtod (sb u) c)), u\<lparr>dev := d\<rparr>)" "same_dev (dev u) d"
    using data_read_cg_ok [OF lay(2)] by blast
  let ?c = "disk_cg (dev u) (cgtod (sb u) c)"
  define t where "t = (set_cg ?p ?c (u\<lparr>dev := d\<rparr>))
        \<lparr>cgc := cache_popup_cg ?k ((cgc (set_cg ?p ?c u))
           \<lparr>cache_cg_state := (cache_cg_state (cgc u))[?k := False]\<rparr>)\<rparr>"
  have pre: "\<not> fs_ronly (sb u)" "\<forall>k. \<not> mem_fails (hnd u) k" "distinct (map (cgx_of u) (E @ []))"
    "\<forall>e \<in> set (E @ []). cgx_of u e < fs_ncg (sb u) \<and>
        (\<not> snd e \<longrightarrow> cg_at u (fst e) = disk_cg (dev u) (cgtod (sb u) (cgx_of u e)))"
    "c < fs_ncg (sb u)" "\<forall>e \<in> set (E @ []). cgx_of u e \<noteq> c"
    using D c cgx u by simp_all
  note fill = cg_fill [OF rep lay pre d(2) t_def]
  have idx: "cache_cg_data ?g ! ?k = Some ?p" "\<not> cache_cg_state ?g ! ?k"
    using cg_rep_nth(1,2) [OF rep, of ?k] u by simp_all
  have "\<not> fs_ncg (sb s) < c" using c(1) by simp
  then have "cache_cg c s = cg_load c ?k u"
    using scan D(5) by (simp add: cache_cg_def alloc_mem_def Let_def u_def)
  then have run: "cache_cg c s = Some (Some ?p, t)"
    using idx d(1) by (simp add: cg_load_def t_def set_cg_def Let_def u)
  have "cg_view t a = cg_view s a" if a: "a < fs_ncg (sb s)" for a
  proof (cases "\<exists>e \<in> set E. cgx_of s e = a")
    case True
    then show ?thesis using fill(5) cg_view_hit [OF inv] cgx by auto
  next
    case False
    then show ?thesis using fill(6) [of a] cg_view_miss [OF inv, of a] a cgx u by auto
  qed
  moreover have "cg_at t ?p = cg_view s c" using cg_view_miss [OF inv, of c] c(2) fill(3) u by auto
  moreover have "cgx_of t (?p, False) = c"
    using fill(3) D(2) c(1) u by (simp add: cgx_of_def cg_layout_def)
  moreover have "cg_frame s u" by (auto simp: cg_frame_def same_dev_def u)
  ultimately show ?thesis
    using run fill(1) cg_frame_trans [OF _ fill(2)]
    by (auto simp: cg_fetched_def cg_same_view_def)
qed

text \<open>With all slots in use, the least recently used group goes, after a flush if it is
  dirty.\<close>

lemma fetch_full:
  assumes inv: "cg_inv s E" and c: "c < fs_ncg (sb s)" "\<forall>e \<in> set E. cgx_of s e \<noteq> c"
    and full: "length E = cache_cg_size (cgc s)"
  shows "\<exists>p t E'. cache_cg c s = Some (Some p, t) \<and>
    cg_fetched s c t (E' @ [(p, False)]) (p, False) \<and> map fst E' = map fst (tl E)"
proof -
  note D = cg_invD [OF inv]
  have scan: "cg_scan (cg_bufs (cgc s)) (take (cache_cg_size (cgc s)) (cache_cg_data (cgc s))) c 0 =
      Full"
    unfolding cg_rep_take [OF D(1)]
    using cg_scan_miss [of E "cg_bufs (cgc s)" c 0 0] c(2) full
    by (simp add: cgx_of_def cg_at_def)
  have "E \<noteq> []" using full D(1) by (auto simp: cg_rep_def)
  then have E0: "0 < length E" by simp
  have "\<exists>n u U. (if cache_cg_state (cgc s) ! 0 then cache_cg_flush s else Some (0, s)) = Some (n, u) \<and>
    cg_inv u U \<and> map fst U = map fst E \<and> \<not> snd (U ! 0) \<and> cg_same_view s u \<and> cg_frame s u \<and>
    cg_bufs (cgc u) = cg_bufs (cgc s)"
  proof (cases "snd (E ! 0)")
    case True
    obtain w t U where "cg_flush_from CACHE_CG_MAX 0 0 s = Some (w, t)" "cg_inv t U"
      "map fst U = map fst E" "\<forall>i < length E. 0 \<le> i \<longrightarrow> \<not> snd (U ! i)"
      "cg_same_view s t" "cg_frame s t" "cg_bufs (cgc t) = cg_bufs (cgc s)"
      using cg_flush_from_ok [OF inv, of 0 CACHE_CG_MAX 0] by auto
    then show ?thesis
      using True cg_rep_nth(2) [OF D(1) E0] E0 by (auto simp: cache_cg_flush_def)
  next
    case False
    then show ?thesis using cg_rep_nth(2) [OF D(1) E0] inv by auto
  qed
  then obtain n u U where u:
    "(if cache_cg_state (cgc s) ! 0 then cache_cg_flush s else Some (0, s)) = Some (n, u)"
    "cg_inv u U" "map fst U = map fst E" "\<not> snd (U ! 0)" "cg_same_view s u" "cg_frame s u"
    "cg_bufs (cgc u) = cg_bufs (cgc s)" by blast
  have at: "cg_at u = cg_at s" using u(7) by (simp add: cg_at_def fun_eq_iff)
  have sbu: "sb u = sb s" using u(6) by (simp add: cg_frame_def)
  have "length U = length E" using u(3) map_eq_imp_length_eq by blast
  then obtain x Y where U: "U = x # Y" using E0 by (cases U) auto
  obtain p where x: "x = (p, False)" using u(4) U by (cases x) simp
  have p: "p = fst (E ! 0)" "map fst Y = map fst (tl E)"
    using u(3) U x E0 by (cases E; simp)+
  have cgxs: "map (cgx_of u) U = map (cgx_of s) E" unfolding map_cgx_of u(3) at ..
  have cu: "\<forall>e \<in> set U. cgx_of u e \<noteq> c"
  proof
    fix e assume "e \<in> set U"
    then have "cgx_of u e \<in> set (map (cgx_of u) U)" by simp
    then show "cgx_of u e \<noteq> c" unfolding cgxs using c(2) by auto
  qed
  note Du = cg_invD [OF u(2)]
  have "frag_ok u (cgtod (sb s) c)" using Du(2) c(1) sbu by (simp add: cg_layout_def)
  then obtain d where d: "data_read_cg (cgtod (sb s) c) u =
      (Some (disk_cg (dev u) (cgtod (sb s) c)), u\<lparr>dev := d\<rparr>)" "same_dev (dev u) d"
    using data_read_cg_ok [OF Du(3)] by blast
  let ?c = "disk_cg (dev u) (cgtod (sb u) c)"
  define t where "t = (set_cg p ?c (u\<lparr>dev := d\<rparr>))
        \<lparr>cgc := cache_popup_cg 0 ((cgc (set_cg p ?c u))
           \<lparr>cache_cg_state := (cache_cg_state (cgc u))[0 := False]\<rparr>)\<rparr>"
  have t_def': "t = (set_cg p ?c (u\<lparr>dev := d\<rparr>))
        \<lparr>cgc := cache_popup_cg (length []) ((cgc (set_cg p ?c u))
           \<lparr>cache_cg_state := (cache_cg_state (cgc u))[length [] := False]\<rparr>)\<rparr>"
    by (simp add: t_def)
  have pre: "cg_rep (cgc u) ([] @ (p, False) # Y)" "distinct (map (cgx_of u) ([] @ Y))"
    "\<forall>e \<in> set ([] @ Y). cgx_of u e < fs_ncg (sb u) \<and>
        (\<not> snd e \<longrightarrow> cg_at u (fst e) = disk_cg (dev u) (cgtod (sb u) (cgx_of u e)))"
    "c < fs_ncg (sb u)" "\<forall>e \<in> set ([] @ Y). cgx_of u e \<noteq> c"
    using Du U x cu c sbu by simp_all
  note fill = cg_fill [OF pre(1) Du(2-5) pre(2-5) d(2) t_def']
  have idx: "cache_cg_data (cgc s) ! 0 = Some p" using cg_rep_nth(1) [OF D(1) E0] p by simp
  have run: "cache_cg c s = Some (Some p, t)"
    using scan c(1) idx u(1) d(1) sbu
    by (simp add: cache_cg_def cg_load_def t_def set_cg_def Let_def)
  have "cg_view t a = cg_view s a" if a: "a < fs_ncg (sb s)" for a
  proof -
    have "cg_view t a = cg_view u a"
    proof (cases "\<exists>e \<in> set Y. cgx_of u e = a")
      case True
      then obtain e where e: "e \<in> set Y" "cgx_of u e = a" by blast
      then show ?thesis using fill(5) [of e] cg_view_hit [OF u(2), of e] U by simp
    next
      case False
      have "cg_view t a = disk_cg (dev u) (cgtod (sb u) a)" using fill(6) [of a] False a sbu by auto
      moreover have "cg_view u a = disk_cg (dev u) (cgtod (sb u) a)"
        using cg_view_clean [OF u(2), of x] cg_view_miss [OF u(2), of a] False U x
        by (cases "cgx_of u x = a") auto
      ultimately show ?thesis by simp
    qed
    then show ?thesis using u(5) a by (simp add: cg_same_view_def)
  qed
  moreover have "cg_at t p = cg_view s c"
    using cg_view_miss [OF u(2), of c] cu fill(3) u(5) c(1) by (auto simp: cg_same_view_def)
  moreover have "cgx_of t (p, False) = c"
    using fill(3) Du(2) c(1) sbu by (simp add: cgx_of_def cg_layout_def)
  ultimately have "cg_fetched s c t (Y @ [(p, False)]) (p, False)"
    using fill(1) cg_frame_trans [OF u(6) fill(2)] by (simp add: cg_fetched_def cg_same_view_def)
  then show ?thesis using run p(2) by blast
qed

text \<open>\<open>cache_cg\<close> returns a pointer to the group and changes no group.\<close>

theorem cache_cg_correct:
  assumes inv: "cg_inv s E" and c: "c < fs_ncg (sb s)"
  shows "\<exists>e t E'. cache_cg c s = Some (Some (fst e), t) \<and> cg_fetched s c t E' e"
proof (cases "\<exists>e \<in> set E. cgx_of s e = c")
  case True
  then show ?thesis using cache_cg_hit [OF inv] by blast
next
  case False
  then have nin: "\<forall>e \<in> set E. cgx_of s e \<noteq> c" by auto
  have "length E \<le> cache_cg_size (cgc s)" using inv by (simp add: cg_inv_def cg_rep_def)
  then consider "length E < cache_cg_size (cgc s)" | "length E = cache_cg_size (cgc s)" by linarith
  then show ?thesis
  proof cases
    case 1
    then show ?thesis using fetch_free_slot [OF inv c nin] by (metis fst_conv)
  next
    case 2
    then show ?thesis using fetch_full [OF inv c nin] by (metis fst_conv)
  qed
qed

section \<open>Writing\<close>

lemma mark_entry:
  assumes inv: "cg_inv s E" and i: "i < length E"
  shows "cg_inv (cg_mark i s) (E[i := (fst (E ! i), True)])" "cg_same_view s (cg_mark i s)"
    "cg_frame s (cg_mark i s)" "cg_at (cg_mark i s) = cg_at s"
proof -
  let ?E = "E[i := (fst (E ! i), True)]" and ?t = "cg_mark i s"
  note D = cg_invD [OF inv]
  show at: "cg_at ?t = cg_at s" by (simp add: fun_eq_iff cg_at_def cg_mark_def)
  have cgx: "cgx_of ?t = cgx_of s" by (simp add: fun_eq_iff cgx_of_def at)
  have fst: "map fst ?E = map fst E"
    using i by (simp add: map_update) (metis list_update_id nth_map)
  have rep: "cg_rep (cgc ?t) ?E" using cg_rep_update [OF D(1) i] by (simp add: cg_mark_def)
  have "E ! i \<in> set E" using i by simp
  then have "cgx_of s (fst (E ! i), True) < fs_ncg (sb s)"
    using D(7) by (simp add: cgx_of_def)
  then have ents: "\<forall>e \<in> set ?E. cgx_of s e < fs_ncg (sb s) \<and>
        (\<not> snd e \<longrightarrow> cg_at s (fst e) = disk_cg (dev s) (cgtod (sb s) (cgx_of s e)))"
    using D(7) set_update_subset_insert [of E i "(fst (E ! i), True)"] by auto
  have "distinct (map (cgx_of s) ?E)" using D(6) unfolding map_cgx_of fst .
  then show inv': "cg_inv ?t ?E"
    using rep D ents unfolding cg_inv_def cgx
    by (simp add: cg_mark_def cg_layout_def frag_ok_def sectoff_def dev_ok_def cg_at_def)
  show "cg_same_view s ?t"
    by (rule cg_view_perm [OF inv inv']) (simp_all add: fst cg_mark_def del: set_map)
  show "cg_frame s ?t"
    by (auto simp: cg_frame_def cg_mark_def same_dev_def intro: exI [of _ "mem_count (hnd s)"])
qed

text \<open>The entry at a position becomes a dirty one.\<close>

lemma mark_fetched:
  assumes f: "cg_fetched s c t E e" and E: "E = X @ e # Y"
  shows "\<exists>E'. cg_fetched s c (cg_mark (length X) t) E' (fst e, True)"
proof -
  have i: "length X < length E" "E ! length X = e" using E by simp_all
  have inv: "cg_inv t E" using f by (simp add: cg_fetched_def)
  note m = mark_entry [OF inv i(1)]
  have "(fst e, True) \<in> set (E[length X := (fst (E ! length X), True)])"
    using set_update_memI [OF i(1), of "(fst e, True)"] i(2) by simp
  moreover have "sb t = sb s" using f by (simp add: cg_fetched_def cg_frame_def)
  ultimately show ?thesis
    using f m cg_same_view_trans [of s t] cg_frame_trans [of s t]
    unfolding cg_fetched_def by (auto simp: cgx_of_def)
qed

text \<open>\<open>cache_cg_write\<close> returns a pointer to the group, which is dirty afterwards.\<close>

theorem cache_cg_write_correct:
  assumes inv: "cg_inv s E" and c: "c < fs_ncg (sb s)"
  shows "\<exists>p t E'. cache_cg_write c s = Some (Some p, t) \<and> cg_fetched s c t E' (p, True)"
proof (cases "\<exists>e \<in> set E. cgx_of s e = c")
  case True
  then obtain e where e: "e \<in> set E" "cgx_of s e = c" by auto
  obtain X Y where E: "E = X @ e # Y" "\<forall>x \<in> set X. cgx_of s x \<noteq> c"
    using split_entry [OF inv e(1)] e(2) by metis
  have rep: "cg_rep (cgc s) (X @ e # Y)" using inv E by (simp add: cg_inv_def)
  have look: "cg_lookup (cg_bufs (cgc s)) (take (cache_cg_size (cgc s)) (cache_cg_data (cgc s))) c 0 =
      Some (length X)"
    unfolding cg_rep_take [OF rep]
    using cg_lookup_hit [of X "cg_bufs (cgc s)" c e _ 0] E(2) e(2)
    by (simp add: cgx_of_def cg_at_def)
  have "cache_cg_data (cgc s) ! length X = Some (fst e)"
    using cg_rep_nth(1) [OF rep, of "length X"] by simp
  then have "cache_cg_write c s = Some (Some (fst e), cg_mark (length X) s)"
    using look by (simp add: cache_cg_write_def)
  moreover have "cg_fetched s c s E e"
    using inv e cg_view_hit [OF inv e] by (simp add: cg_fetched_def)
  ultimately show ?thesis using mark_fetched [OF _ E(1)] by blast
next
  case False
  then have nin: "\<forall>e \<in> set E. cgx_of s e \<noteq> c" by auto
  have rep: "cg_rep (cgc s) E" using inv by (simp add: cg_inv_def)
  have look: "cg_lookup (cg_bufs (cgc s)) (take (cache_cg_size (cgc s)) (cache_cg_data (cgc s))) c 0 =
      None"
    unfolding cg_rep_take [OF rep]
    using cg_lookup_miss [of E "cg_bufs (cgc s)" c _ 0] nin by (simp add: cgx_of_def cg_at_def)
  obtain e t F where t: "cache_cg c s = Some (Some (fst e), t)" "cg_fetched s c t F e"
    using cache_cg_correct [OF inv c] by blast
  have invt: "cg_inv t F" "e \<in> set F" using t(2) by (simp_all add: cg_fetched_def)
  obtain X Y where F: "F = X @ e # Y" using invt(2) by (auto dest: split_list)
  have rept: "cg_rep (cgc t) (X @ e # Y)" using invt F by (simp add: cg_inv_def)
  then have "fst e \<notin> fst ` set X" by (auto simp: cg_rep_def)
  then have "cg_position (fst e) (take (cache_cg_size (cgc t)) (cache_cg_data (cgc t))) 0 =
      Some (length X)"
    unfolding cg_rep_take [OF rept] using cg_position_at [of "fst e" X _ 0] by simp
  then have "cache_cg_write c s = Some (Some (fst e), cg_mark (length X) t)"
    using look t(1) by (simp add: cache_cg_write_def numeral_2_eq_2)
  then show ?thesis using mark_fetched [OF t(2) F] by blast
qed

text \<open>A change through the pointer of a dirty group changes this group only.\<close>

theorem set_cg_correct:
  assumes inv: "cg_inv s E" and e: "(p, True) \<in> set E" "cg_cgx x = cgx_of s (p, True)"
  shows "cg_inv (set_cg p x s) E" "cg_frame s (set_cg p x s)"
    and "a < fs_ncg (sb s) \<Longrightarrow> cg_view (set_cg p x s) a = ((cg_view s)(cg_cgx x := x)) a"
proof -
  let ?t = "set_cg p x s"
  note D = cg_invD [OF inv]
  have at: "cg_at ?t q = (if q = p then x else cg_at s q)" for q
    by (simp add: cg_at_def set_cg_def)
  have only: "snd e'" if "e' \<in> set E" "fst e' = p" for e'
  proof -
    have "distinct (map fst E)" using D(1) by (simp add: cg_rep_def)
    then have "inj_on fst (set E)" by (simp add: distinct_map)
    then show ?thesis using that e(1) by (metis inj_onD fst_conv snd_conv)
  qed
  have cgx: "cgx_of ?t = cgx_of s"
    using e(2) by (auto simp: fun_eq_iff cgx_of_def at)
  show inv': "cg_inv ?t E"
    using D only unfolding cg_inv_def cgx
    by (auto simp: set_cg_def cg_layout_def frag_ok_def sectoff_def dev_ok_def cg_rep_def cg_at_def)
  show "cg_frame s ?t"
    by (auto simp: cg_frame_def set_cg_def same_dev_def intro: exI [of _ "mem_count (hnd s)"])
  show "cg_view ?t a = ((cg_view s)(cg_cgx x := x)) a" if "a < fs_ncg (sb s)"
  proof (cases "\<exists>e \<in> set E. cgx_of s e = a")
    case True
    then obtain e' where e': "e' \<in> set E" "cgx_of s e' = a" by auto
    have "inj_on (cgx_of s) (set E)" using D(6) by (simp add: distinct_map)
    then have "fst e' = p \<longleftrightarrow> a = cg_cgx x"
      using e e' by (metis cgx_of_def fst_conv inj_onD)
    then show ?thesis
      using cg_view_hit [OF inv e'] cg_view_hit [OF inv' e'(1)] e'(2) cgx at by simp
  next
    case False
    then have "a \<noteq> cg_cgx x" using e by auto
    then show ?thesis
      using cg_view_miss [OF inv, of a] cg_view_miss [OF inv', of a] False cgx
      by (auto simp: set_cg_def)
  qed
qed

text \<open>\<open>cache_cg_flush\<close> brings every group to the disk.\<close>

theorem cache_cg_flush_correct:
  assumes inv: "cg_inv s E"
  shows "\<exists>n t E'. cache_cg_flush s = Some (n, t) \<and> cg_inv t E' \<and> cg_same_view s t \<and>
    cg_frame s t \<and> (\<forall>c < fs_ncg (sb s). disk_cg (dev t) (cgtod (sb s) c) = cg_view s c)"
proof -
  obtain n t E' where t: "cg_flush_from CACHE_CG_MAX 0 0 s = Some (n, t)" "cg_inv t E'"
    "map fst E' = map fst E" "\<forall>i < length E. 0 \<le> i \<longrightarrow> \<not> snd (E' ! i)"
    "cg_same_view s t" "cg_frame s t"
    using cg_flush_from_ok [OF inv, of 0 CACHE_CG_MAX 0] by auto
  have sbt: "sb t = sb s" using t(6) by (simp add: cg_frame_def)
  have "length E' = length E" using t(3) map_eq_imp_length_eq by blast
  then have clean: "\<not> snd e" if "e \<in> set E'" for e
    using t(4) that by (auto simp: in_set_conv_nth)
  have "disk_cg (dev t) (cgtod (sb s) c) = cg_view s c" if c: "c < fs_ncg (sb s)" for c
  proof -
    have "cg_view t c = disk_cg (dev t) (cgtod (sb t) c)"
      using cg_view_clean [OF t(2)] cg_view_miss [OF t(2)] clean by metis
    then show ?thesis using t(5) c sbt by (simp add: cg_same_view_def)
  qed
  then show ?thesis using t by (auto simp: cache_cg_flush_def)
qed

end
