(* ===== verification/Sample.thy ===== *)
theory Sample
  imports Cg_Correct
begin

text \<open>
  A small mounted file system with one cylinder group, on which the witnesses of the theorems
  are evaluated: frags of 512 bytes, eight frags per block, 64 inodes from frag 32 on, and 256
  frags in the group. The contents of the disk and the cylinder group are arguments.
\<close>

definition sample_sb :: superblock where
  "sample_sb = \<lparr>fs_cblkno = 24, fs_iblkno = 32, fs_cgoffset = 0, fs_cgmask = -1, fs_ncg = 1,
     fs_bsize = 4096, fs_fsize = 512, fs_frag = 8, fs_bshift = 12, fs_fshift = 9,
     fs_fragshift = 3, fs_nindir = 1024, fs_inopb = 32, fs_nspf = 1, fs_npsect = 64,
     fs_interleave = 1, fs_trackskew = 0, fs_nsect = 64, fs_spc = 64, fs_ipg = 64,
     fs_fpg = 256, fs_cstotal = \<lparr>cs_ndir = 1, cs_nbfree = 20, cs_nifree = 60, cs_nffree = 6\<rparr>,
     fs_new_cstotal = \<lparr>cs_ndir = 0, cs_nbfree = 0, cs_nifree = 0, cs_nffree = 0\<rparr>,
     fs_fmod = 0, fs_ronly = False, fs_flags = 0,
     fs_csp = [\<lparr>cs_ndir = 1, cs_nbfree = 20, cs_nifree = 60, cs_nffree = 6\<rparr>],
     fs_nrpos = 1, fs_contigsumsize = 0, fs_time = 900, fs_bmask = 0xfffff000,
     fs_fmask = 0xfffffe00, fs_csaddr = 88, fs_clean = 0, fs_new_time = 0, fs_new_csaddr = 0,
     fs_inodefmt = 2, fs_maxfilesize = (0, 0x7fffffff), fs_qbmask = (0, 0xfff),
     fs_qfmask = (0, 0x1ff), fs_postblformat = 1, fs_magic = 0x11954,
     fs_dsize = 160, fs_new_dsize = 0, fs_minfree = 5, fs_fsmnt = replicate 512 0,
     fs_cgrotor = 0\<rparr>"

definition sample_cg :: cg where
  "sample_cg = \<lparr>cg_cgx = 0, cg_magic_ok = True, cg_niblk = 64, cg_ndblk = 256,
     cg_cs = \<lparr>cs_ndir = 1, cs_nbfree = 20, cs_nifree = 60, cs_nffree = 6\<rparr>, cg_irotor = 0,
     cg_frsum = [0, 0, 0, 0, 0, 0, 1, 0], cg_blktot = [5, 5, 5, 5], cg_blks = [5, 5, 5, 5],
     cg_inosused = 0x0f # replicate 7 0,
     cg_blksfree = replicate 11 0 @ [0xfc] @ replicate 20 255,
     cg_clustersum = [0], cg_clustersfree = replicate 4 0, cg_nclusterblks = 32\<rparr>"

definition sample_hnd :: handler where
  "sample_hnd = \<lparr>receiving_packets = True, Res2 = 0, Pinum = 0, Poffset = 0,
     mem_fails = (\<lambda>_. False), mem_count = 0, opt_space = False, bsd44fs = True,
     case_dependent = False, now = 1000, uninit = 0, tranmask = 0, unix_paths = False,
     resolve_symlinks = True, read_link = False, linkname = None, fs_lfmask = 511,
     fs_lbmask = 4095, fsize = 512, bsize = 4096, pfragshift = 7, fblkshift = 3\<rparr>"

definition sample :: "(u32 \<Rightarrow> bytes) \<Rightarrow> cg \<Rightarrow> fsys" where
  "sample d g =
     \<lparr>dev = \<lparr>disk = d, disk_cg = (\<lambda>_. g), disk_sb = sample_sb, disk_csp = fs_csp sample_sb,
        io_fails = (\<lambda>_. False), io_count = 0, answers = [],
        use_td64 = 1, phys_sectorsize = 512, phys_sectorshift = 9, psectoffset = 0,
        psectmax = 1024, motor_is_on = False\<rparr>,
      sb = sample_sb,
      fc = \<lparr>nodes = (\<lambda>_. fresh_node 512), node_brk = 0, cache_stack = None,
        cache_stack_tail = None, hashtable = [], cache_alloced = 0, cache_used = 0,
        cache_item_dirty = 0, cache_size = 0\<rparr>,
      cgc = \<lparr>cg_bufs = (\<lambda>_. g), cg_brk = 0, cache_cg_data = replicate CACHE_CG_MAX None,
        cache_cg_state = replicate CACHE_CG_MAX False, cache_cg_size = 4\<rparr>,
      hnd = sample_hnd\<rparr>"

definition opened :: "(u32 \<Rightarrow> bytes) \<Rightarrow> cg \<Rightarrow> fsys" where
  "opened d g = snd (the (open_cache 8 (sample d g)))"

lemma cache_grow_frame:
  assumes "\<And>k. \<not> mem_fails (hnd s) k"
  shows "\<exists>t m. cache_grow k s = (False, t) \<and> sb t = sb s \<and> cgc t = cgc s \<and> dev t = dev s \<and>
    hnd t = (hnd s)\<lparr>mem_count := m\<rparr> \<and> cache_alloced (fc t) = cache_alloced (fc s) + int k \<and>
    cache_size (fc t) = cache_size (fc s)"
  using assms
proof (induction k arbitrary: s)
  case 0
  then show ?case by (auto intro: exI [of _ "mem_count (hnd s)"])
next
  case (Suc k)
  let ?n = "node_brk (fc s)"
  let ?c = "(upd_node ?n (\<lambda>_. fresh_node (unat (fsize (hnd s)))) (fc s))
      \<lparr>node_brk := Suc ?n, cache_alloced := cache_alloced (fc s) + 1\<rparr>"
  let ?t = "s\<lparr>hnd := (hnd s)\<lparr>mem_count := Suc (Suc (mem_count (hnd s)))\<rparr>,
      fc := cache_add ?n ?c\<rparr>"
  have step: "cache_grow (Suc k) s = cache_grow k ?t"
    using Suc.prems by (simp add: cache_alloc_retry_def cache_alloc_def alloc_mem_def Let_def)
  obtain t m where "cache_grow k ?t = (False, t)" "sb t = sb ?t" "cgc t = cgc ?t" "dev t = dev ?t"
    "hnd t = (hnd ?t)\<lparr>mem_count := m\<rparr>"
    "cache_alloced (fc t) = cache_alloced (fc ?t) + int k" "cache_size (fc t) = cache_size (fc ?t)"
    using Suc.IH [of ?t] Suc.prems by auto
  then show ?case unfolding step by (auto simp: algebra_simps)
qed

lemma opened_state:
  assumes "\<And>b. length (d b) = 512"
  shows "mounted (opened d g)" "\<And>b. b \<noteq> 0 \<Longrightarrow> view (opened d g) b = d b"
    and "sb (opened d g) = sample_sb" "cgc (opened d g) = cgc (sample d g)"
    and "dev (opened d g) = dev (sample d g)"
    and "\<exists>m. hnd (opened d g) = sample_hnd\<lparr>mem_count := m\<rparr>"
    and "\<And>b. b \<noteq> 0 \<Longrightarrow> cache_node b (fc (opened d g)) = Some None"
proof -
  let ?s = "sample d g"
  have fit: "\<not> mem_fails (hnd ?s) k" for k by (simp add: sample_def sample_hnd_def)
  have "dev_good ?s"
    using assms by (simp add: dev_good_def dev_ok_def sample_def sample_sb_def sample_hnd_def)
  from open_cache_mounts [OF this fit, of 8]
  obtain t where t: "open_cache 8 ?s = Some ((), t)" "mounted t"
    "\<And>b. b \<noteq> 0 \<Longrightarrow> view t b = disk (dev ?s) b"
    "\<And>b. b \<noteq> 0 \<Longrightarrow> cache_node b (fc t) = Some None"
    by (auto simp: wp_ex)
  then have o: "opened d g = t" by (simp add: opened_def)
  show "mounted (opened d g)" using t(2) o by simp
  show "view (opened d g) b = d b" if "b \<noteq> 0" for b using t(3) [OF that] o by (simp add: sample_def)
  show "cache_node b (fc (opened d g)) = Some None" if "b \<noteq> 0" for b
    using t(4) [OF that] o by simp
  define u where "u = ?s\<lparr>fc := (fc ?s)\<lparr>hashtable := replicate HASH_SIZE None,
      cache_stack := None, cache_stack_tail := None, cache_alloced := 0, cache_used := 0,
      cache_item_dirty := 0, cache_size := 8\<rparr>\<rparr>"
  have cg: "(cgc ?s)\<lparr>cache_cg_data := replicate CACHE_CG_MAX None\<rparr> = cgc ?s"
    by (simp add: sample_def)
  have e: "open_cache 8 ?s = cache_adjust u"
    by (simp add: open_cache_def u_def CACHE_SIZE_MIN_def sample_def)
  obtain t' m where t': "cache_grow 8 u = (False, t')" "sb t' = sb u" "cgc t' = cgc u"
    "dev t' = dev u" "hnd t' = (hnd u)\<lparr>mem_count := m\<rparr>" "cache_alloced (fc t') = 8"
    "cache_size (fc t') = 8"
    using cache_grow_frame [of u 8] fit by (auto simp: u_def)
  have "cache_adjust u = Some ((), t')"
    using t'(1,6,7) by (simp add: cache_adjust_def u_def CACHE_SIZE_MIN_def)
  then have "t' = t" using t(1) e by simp
  then show "sb (opened d g) = sample_sb" "cgc (opened d g) = cgc (sample d g)"
    "dev (opened d g) = dev (sample d g)"
    "\<exists>m. hnd (opened d g) = sample_hnd\<lparr>mem_count := m\<rparr>"
    using t'(2-5) o by (auto simp: u_def) (auto simp: sample_def)
qed

lemma opened_valid:
  assumes "\<And>b. length (d b) = 512"
  shows "valid_frag (opened d g) b \<longleftrightarrow> b \<noteq> 0 \<and> b < 1024"
proof -
  obtain m where "hnd (opened d g) = sample_hnd\<lparr>mem_count := m\<rparr>"
    using opened_state(6) [of d, OF assms] by blast
  then show ?thesis
    using opened_state(5) [of d, OF assms, where g = g]
    by (simp add: valid_frag_def frag_ok_def sectoff_def sample_def sample_hnd_def)
qed

lemma opened_cg_inv:
  assumes "\<And>b. length (d b) = 512" "cg_cgx g = 0"
  shows "cg_inv (opened d g) []" "cg_view (opened d g) 0 = g"
proof -
  obtain m where h: "hnd (opened d g) = sample_hnd\<lparr>mem_count := m\<rparr>"
    using opened_state(6) [of d, OF assms(1)] by blast
  note o = opened_state(3-5) [of d, OF assms(1), where g = g] h
  have rep: "cg_rep (cgc (opened d g)) []"
    by (simp add: cg_rep_def o sample_def CACHE_CG_MAX_def)
  have zero: "c = 0" if "c < fs_ncg (sb (opened d g))" for c :: u32
    using that by (simp add: o sample_sb_def word_less_nat_alt unat_eq_0)
  have lay: "cg_layout (opened d g)"
    unfolding cg_layout_def
  proof (intro conjI allI impI)
    fix c :: u32 assume "c < fs_ncg (sb (opened d g))"
    then have "c = 0" by (rule zero)
    then show "frag_ok (opened d g) (cgtod (sb (opened d g)) c)"
      "cg_cgx (disk_cg (dev (opened d g)) (cgtod (sb (opened d g)) c)) = c"
      using assms(2)
      by (simp_all add: frag_ok_def sectoff_def cgtod_def cgstart_def cgbase_def o sample_def
          sample_hnd_def sample_sb_def)
  next
    show "inj_on (cgtod (sb (opened d g))) {c. c < fs_ncg (sb (opened d g))}"
      using zero by (auto intro!: inj_onI)
  qed
  show inv: "cg_inv (opened d g) []"
    unfolding cg_inv_def using rep lay
    by (simp add: dev_ok_def o sample_def sample_sb_def sample_hnd_def)
  show "cg_view (opened d g) 0 = g"
    using cg_view_miss [OF inv, of 0] by (simp add: o sample_def)
qed

end
