(* ===== verification/Medium.thy ===== *)
theory Medium
  imports Block_Device
begin

text \<open>
  The medium as the device sees it, a sequence of bytes. \<open>data_read\<close> and \<open>data_write\<close> of the model
  transfer whole frags of a medium that is indexed by frag numbers. Here it is shown that the byte
  address in the request, the two words that the code computes from the number of the first frag,
  is the place of these frags on a medium of bytes, so that both transfers do to its bytes what
  the model says of its frags.
\<close>

section \<open>Places\<close>

text \<open>The byte address of a request: the high word counts with the 64-bit commands only.\<close>

definition io_start :: "fsys \<Rightarrow> u32 \<Rightarrow> nat" where
  "io_start s num =
     (if use_td64 (dev s) \<noteq> 0 then unat (io_Actual s num) * 2 ^ 32 else 0) + unat (io_Offset s num)"

text \<open>Where a frag lies: the frags follow each other from the start of the partition on.\<close>

definition frag_place :: "fsys \<Rightarrow> u32 \<Rightarrow> nat" where
  "frag_place s num = unat (psectoffset (dev s)) * unat (phys_sectorsize (dev s)) +
     unat num * unat (fsize (hnd s))"

text \<open>The sector size is a power of two that divides the size of a frag.\<close>

definition geometry :: "fsys \<Rightarrow> bool" where
  "geometry s \<longleftrightarrow> phys_sectorshift (dev s) < 32 \<and>
     unat (phys_sectorsize (dev s)) = 2 ^ phys_sectorshift (dev s) \<and>
     unat (phys_sectorsize (dev s)) dvd unat (fsize (hnd s))"

text \<open>A frag in the reach of the commands in use: the number of its sector has 32 bits, and
  without the 64-bit commands the byte address has.\<close>

definition addressable :: "fsys \<Rightarrow> u32 \<Rightarrow> bool" where
  "addressable s num \<longleftrightarrow> frag_place s num <
     (if use_td64 (dev s) \<noteq> 0 then 2 ^ 32 * 2 ^ phys_sectorshift (dev s) else 2 ^ 32)"

lemma addressable_bound:
  assumes "addressable s num"
  shows "frag_place s num < 2 ^ 32 * 2 ^ phys_sectorshift (dev s)"
proof -
  have le: "(2 :: nat) ^ 32 \<le> 2 ^ 32 * 2 ^ phys_sectorshift (dev s)" by simp
  show ?thesis
    using assms less_le_trans [OF _ le, of "frag_place s num"] unfolding addressable_def
    by (cases "use_td64 (dev s) = 0") (simp_all only: simp_thms if_True if_False)
qed

lemma sectoff_exact:
  assumes "geometry s" "frag_place s num < 2 ^ 32 * 2 ^ phys_sectorshift (dev s)"
  shows "unat (sectoff s num) * 2 ^ phys_sectorshift (dev s) = frag_place s num"
proof -
  let ?k = "phys_sectorshift (dev s)"
  define q where "q = fsize (hnd s) div phys_sectorsize (dev s)"
  have sz: "unat (phys_sectorsize (dev s)) = 2 ^ ?k" using assms(1) by (simp add: geometry_def)
  have q: "unat q * 2 ^ ?k = unat (fsize (hnd s))"
    using assms(1) by (simp add: q_def unat_div sz geometry_def)
  have e: "frag_place s num = (unat q * unat num + unat (psectoffset (dev s))) * 2 ^ ?k"
    by (simp add: frag_place_def sz q [symmetric] algebra_simps)
  then have "unat q * unat num + unat (psectoffset (dev s)) < 2 ^ 32"
    using assms(2) by simp
  then have "unat (sectoff s num) = unat q * unat num + unat (psectoffset (dev s))"
    by (simp add: sectoff_def unat_word_ariths flip: q_def)
  then show ?thesis using e by simp
qed

text \<open>The code computes the place.\<close>

lemma io_start_place:
  assumes g: "geometry s" and a: "addressable s num"
  shows "io_start s num = frag_place s num"
proof -
  let ?k = "phys_sectorshift (dev s)"
  have k: "?k \<le> 32" using g by (simp add: geometry_def)
  note x = sectoff_exact [OF g addressable_bound [OF a]] and i = io_address [OF k, of num]
  show ?thesis
  proof (cases "use_td64 (dev s) = 0")
    case True
    then have "frag_place s num < 2 ^ 32" using a by (simp add: addressable_def)
    moreover have "unat (io_Actual s num) * 2 ^ 32 \<le> frag_place s num" using x i by linarith
    ultimately have "unat (io_Actual s num) = 0" by (cases "unat (io_Actual s num)") auto
    then show ?thesis using True x i by (simp add: io_start_def)
  next
    case False
    then show ?thesis using x i by (simp add: io_start_def)
  qed
qed

section \<open>Bytes\<close>

text \<open>\<open>n\<close> bytes of the medium, and the medium after bytes were written.\<close>

definition bytes_at :: "(nat \<Rightarrow> u8) \<Rightarrow> nat \<Rightarrow> nat \<Rightarrow> bytes" where
  "bytes_at m a n = map m [a..<a + n]"

definition put_bytes :: "bytes \<Rightarrow> nat \<Rightarrow> (nat \<Rightarrow> u8) \<Rightarrow> nat \<Rightarrow> u8" where
  "put_bytes b a m x = (if a \<le> x \<and> x < a + length b then b ! (x - a) else m x)"

text \<open>The frags of the state are those of the medium.\<close>

definition on_medium :: "(nat \<Rightarrow> u8) \<Rightarrow> fsys \<Rightarrow> bool" where
  "on_medium m s \<longleftrightarrow>
     (\<forall>a. disk (dev s) a = bytes_at m (frag_place s a) (unat (fsize (hnd s))))"

lemma bytes_at_append: "bytes_at m a (n + k) = bytes_at m a n @ bytes_at m (a + n) k"
  using upt_add_eq_append [of a "a + n" k] by (simp add: bytes_at_def add.assoc)

lemma bytes_at_put_in:
  "a + k + n \<le> a + length b \<Longrightarrow> bytes_at (put_bytes b a m) (a + k) n = slice b k n"
  by (auto simp: bytes_at_def put_bytes_def slice_def intro!: nth_equalityI)

lemma bytes_at_put_out:
  "c + n \<le> a \<or> a + length b \<le> c \<Longrightarrow> bytes_at (put_bytes b a m) c n = bytes_at m c n"
  by (auto simp: bytes_at_def put_bytes_def)

lemma frag_place_add:
  assumes "unat num + i < 2 ^ 32"
  shows "frag_place s (num + of_nat i) = frag_place s num + i * unat (fsize (hnd s))"
proof -
  have "unat (of_nat i :: u32) = i" using assms by (simp add: unat_of_nat32)
  then have "unat (num + of_nat i) = unat num + i" using assms by (simp add: unat_word_ariths(1))
  then show ?thesis by (simp add: frag_place_def add_mult_distrib)
qed

lemma disk_frags_medium:
  assumes "on_medium m s" "unat num + n \<le> 2 ^ 32"
  shows "disk_frags (disk (dev s)) num n = bytes_at m (frag_place s num) (n * unat (fsize (hnd s)))"
  using assms(2)
proof (induction n)
  case 0
  then show ?case by (simp add: disk_frags_def bytes_at_def)
next
  case (Suc n)
  have "disk_frags (disk (dev s)) num (Suc n) =
      disk_frags (disk (dev s)) num n @ disk (dev s) (num + of_nat n)"
    by (simp add: disk_frags_def)
  moreover have "disk (dev s) (num + of_nat n) =
      bytes_at m (frag_place s num + n * unat (fsize (hnd s))) (unat (fsize (hnd s)))"
    using Suc.prems assms(1) frag_place_add [of num n s] by (simp add: on_medium_def)
  moreover have "Suc n * unat (fsize (hnd s)) = n * unat (fsize (hnd s)) + unat (fsize (hnd s))"
    by simp
  ultimately show ?case using Suc by (simp only: bytes_at_append Suc_leD add_Suc_right)
qed

lemma put_frags_medium:
  assumes "on_medium m s" "unat num + n \<le> 2 ^ 32" "length b = n * unat (fsize (hnd s))"
  shows "put_frags (unat (fsize (hnd s))) b num n (disk (dev s)) a =
    bytes_at (put_bytes b (frag_place s num) m) (frag_place s a) (unat (fsize (hnd s)))"
proof (cases "unat (a - num) < n")
  case True
  define i where "i = unat (a - num)"
  have a: "a = num + of_nat i" "unat (of_nat i :: u32) = i" by (simp_all add: i_def)
  have i: "i < n" "unat num + i < 2 ^ 32" using True assms(2) by (simp_all add: i_def)
  have "Suc i * unat (fsize (hnd s)) \<le> n * unat (fsize (hnd s))"
    using i(1) by (intro mult_le_mono1) simp
  then show ?thesis
    using True bytes_at_put_in [of "frag_place s num" "i * unat (fsize (hnd s))" "unat (fsize (hnd s))" b m]
      frag_place_add [OF i(2), of s] assms(3)
    by (simp add: put_frags_def a add.commute)
next
  case False
  let ?f = "unat (fsize (hnd s))"
  have "unat a < unat num \<or> unat num + n \<le> unat a"
    using False assms(2) unat_sub [of num a]
    by (cases "num \<le> a") (auto simp: word_le_nat_alt)
  then have "Suc (unat a) * ?f \<le> unat num * ?f \<or> (unat num + n) * ?f \<le> unat a * ?f"
    by (metis Suc_leI mult_le_mono1)
  then have "frag_place s a + ?f \<le> frag_place s num \<or> frag_place s num + length b \<le> frag_place s a"
    by (auto simp: frag_place_def assms(3) algebra_simps)
  then show ?thesis
    using False bytes_at_put_out [of "frag_place s a" ?f "frag_place s num" b m] assms(1)
    by (simp add: put_frags_def on_medium_def)
qed

section \<open>Transfers\<close>

text \<open>A request changes neither the bytes of the medium nor where they lie; a read may find out
  the command set.\<close>

definition same_place :: "device \<Rightarrow> device \<Rightarrow> bool" where
  "same_place d e \<longleftrightarrow> disk e = disk d \<and> psectoffset e = psectoffset d \<and> psectmax e = psectmax d \<and>
     phys_sectorsize e = phys_sectorsize d \<and> phys_sectorshift e = phys_sectorshift d"

lemma same_place_geometry:
  assumes "same_place (dev s) (dev t)" "hnd t = hnd s"
  shows "geometry t = geometry s" "frag_place t a = frag_place s a" "frag_ok t a = frag_ok s a"
    "on_medium m t = on_medium m s"
  using assms by (simp_all add: same_place_def geometry_def frag_place_def frag_ok_def sectoff_def
      on_medium_def)

lemma same_place_trans: "same_place d e \<Longrightarrow> same_place e f \<Longrightarrow> same_place d f"
  by (simp add: same_place_def)

lemma retry_io_place: "same_place d (snd (retry_io n d)) \<and> use_td64 (snd (retry_io n d)) = use_td64 d"
  by (induction n d rule: retry_io.induct) (auto simp: same_place_def do_io_def Let_def)

lemma ask_retry_place: "same_place d (snd (ask_retry as d)) \<and> use_td64 (snd (ask_retry as d)) = use_td64 d"
proof (induction as arbitrary: d)
  case Nil
  then show ?case by (simp add: same_place_def)
next
  case (Cons a as)
  obtain ok e where e: "retry_io 4 d = (ok, e)" by fastforce
  then have "same_place d e" "use_td64 e = use_td64 d" using retry_io_place [of d 4] by simp_all
  then show ?case using Cons [of e] e by (auto simp: same_place_def)
qed

lemma write_io_place: "same_place d (snd (write_io d)) \<and> use_td64 (snd (write_io d)) = use_td64 d"
  using ask_retry_place [of "snd (do_io d)" "answers (snd (do_io d))"]
  by (auto simp: write_io_def same_place_def do_io_def split: prod.splits)

lemma read_io_place: "same_place d (snd (read_io d))"
proof (induction d rule: read_io.induct)
  case (1 d)
  then show ?case
    using ask_retry_place [of "snd (do_io d)" "answers (snd (do_io d))"]
    by (subst read_io.simps) (auto simp: same_place_def do_io_def split: prod.splits)
qed

lemma read_request_place:
  assumes "read_request num s = (err, t)"
  shows "same_place (dev s) (dev t)" "hnd t = hnd s" "\<not> err \<Longrightarrow> frag_ok s num"
  using assms read_io_place [of "(dev s)\<lparr>motor_is_on := True\<rparr>"]
  by (auto simp: read_request_def same_place_def Let_def split: prod.splits if_splits)

lemma write_request_place:
  assumes "write_request num s = (err, t)"
  shows "same_place (dev s) (dev t)" "hnd t = hnd s" "use_td64 (dev t) = use_td64 (dev s)"
    "\<not> err \<Longrightarrow> frag_ok s num"
  using assms write_io_place [of "(dev s)\<lparr>motor_is_on := True\<rparr>"]
  by (auto simp: write_request_def same_place_def Let_def split: prod.splits if_splits)

text \<open>A read that succeeds, with whatever retries, returns the bytes at the address of its last
  request; a write stores them there.\<close>

lemma data_read_bytes:
  assumes "geometry s" "on_medium m s" "unat num + n \<le> 2 ^ 32"
    and "data_read num n s = (Some b, t)" "addressable t num"
  shows "b = bytes_at m (io_start t num) (n * unat (fsize (hnd s)))" "on_medium m t"
    "io_start t num = frag_place s num" "frag_ok s num"
proof -
  have r: "read_request num s = (False, t)" "b = disk_frags (disk (dev t)) num n"
    using assms(4) by (auto simp: data_read_def split: prod.splits if_splits)
  note p = read_request_place [OF r(1)]
  note g = same_place_geometry [OF p(1,2)]
  show io: "io_start t num = frag_place s num"
    using io_start_place [of t num] assms(1,5) g(1,2) by simp
  show "on_medium m t" using g(4) assms(2) by simp
  show "b = bytes_at m (io_start t num) (n * unat (fsize (hnd s)))"
    using disk_frags_medium [of m t num n] g assms(2,3) r(2) p(2) io by simp
  show "frag_ok s num" using p(3) by simp
qed

lemma data_write_bytes:
  assumes "geometry s" "on_medium m s" "unat num + n \<le> 2 ^ 32" "length b = n * unat (fsize (hnd s))"
    and "data_write b num n s = (False, t)" "addressable s num"
  shows "on_medium (put_bytes b (io_start s num) m) t" "io_start s num = frag_place s num"
    "frag_ok s num"
proof -
  obtain u where u: "write_request num s = (False, u)" "t = u\<lparr>dev := (dev u)\<lparr>disk :=
      put_frags (unat (fsize (hnd u))) b num n (disk (dev u))\<rparr>\<rparr>"
    using assms(5) by (auto simp: data_write_def split: prod.splits if_splits)
  note p = write_request_place [OF u(1)]
  show io: "io_start s num = frag_place s num" by (rule io_start_place [OF assms(1,6)])
  have "frag_place t a = frag_place s a" for a
    using p(1,2) u(2) by (simp add: frag_place_def same_place_def)
  then show "on_medium (put_bytes b (io_start s num) m) t"
    using put_frags_medium [OF assms(2-4)] p(1,2) u(2) io
    by (simp add: on_medium_def same_place_def)
  show "frag_ok s num" using p(4) by simp
qed

text \<open>A request that passes the check of the range begins inside of the partition.\<close>

lemma frag_ok_inside:
  assumes "geometry s" "addressable s num" "frag_ok s num"
  shows "frag_place s num < unat (psectmax (dev s)) * unat (phys_sectorsize (dev s))"
proof -
  let ?k = "phys_sectorshift (dev s)"
  have "frag_place s num = unat (sectoff s num) * 2 ^ ?k"
    by (rule sectoff_exact [OF assms(1) addressable_bound [OF assms(2)], symmetric])
  moreover have "unat (sectoff s num) < unat (psectmax (dev s))"
    using assms(3) by (simp add: frag_ok_def word_less_nat_alt)
  ultimately show ?thesis using assms(1) by (simp add: geometry_def)
qed

end
