(* ===== verification/Cache_Properties.thy ===== *)
theory Cache_Properties
  imports Sample Medium
begin

text \<open>
  What the device layer, the frag cache and the cylinder group cache promise, stated over
  \<open>mounted\<close> states and their \<open>view\<close> of the file system.
\<close>

section \<open>The device\<close>



text \<open>A write to a read-only file system, and one to a frag behind the end of the
  partition, fails and leaves the medium as it was; so does a read behind the end.\<close>

lemma data_write_refused:
  "(fs_ronly (sb s) \<or> \<not> frag_ok s num \<longrightarrow>
     fst (data_write b num n s) \<and> disk (dev (snd (data_write b num n s))) = disk (dev s)) \<and>
   (\<not> frag_ok s num \<longrightarrow> fst (data_read num n s) = None)"
  by (simp_all add: data_write_def write_request_def data_read_def read_request_def Let_def)

text \<open>The two words of the address in a 64-bit request give the byte address of the
  sector, without overflow.\<close>

theorem request_address:
  assumes "phys_sectorshift (dev s) \<le> 32"
  shows "unat (io_Actual s num) * 2 ^ 32 + unat (io_Offset s num) =
         unat (sectoff s num) * 2 ^ phys_sectorshift (dev s)"
  by (rule io_address [OF assms])

lemma request_address_witness:
  "unat (io_Actual (sample (\<lambda>_. []) sample_cg) 0x1000000) * 2 ^ 32 +
     unat (io_Offset (sample (\<lambda>_. []) sample_cg) 0x1000000) =
   unat (sectoff (sample (\<lambda>_. []) sample_cg) 0x1000000) * 2 ^ 9"
  using request_address [of "sample (\<lambda>_. []) sample_cg" "0x1000000"] by (simp add: sample_def)

section \<open>The frag cache\<close>

lemma cache_size_links [simp]:
  "cache_size (cache_add n c) = cache_size c" "cache_size (cache_remove n c) = cache_size c"
  "cache_size (upd_node n f c) = cache_size c"
  by (simp_all add: cache_add_def cache_remove_def hash_add_def hash_remove_def stack_add_def
      stack_remove_def upd_node_def Let_def split: option.splits)

lemma cache_size_invalidate:
  "cache_invalidate b s = Some (u, t) \<Longrightarrow> cache_size (fc t) = cache_size (fc s)"
  by (auto simp: cache_invalidate_def Let_def bind_eq_Some_conv split: option.splits if_splits)

lemma cache_size_move:
  assumes "cache_frag_move a b s = Some (u, t)" "cache_node b (fc s) = Some (Some n)"
  shows "cache_size (fc t) = cache_size (fc s)"
  using assms by (auto simp: cache_frag_move_def Let_def split: if_splits)

text \<open>C31: opening the cache mounts the file system: every frag has the contents of the
  disk.\<close>

theorem open_cache_mounted:
  assumes "dev_good s" "\<And>k. \<not> mem_fails (hnd s) k"
  shows "wp (open_cache n s) (\<lambda>_ t. mounted t \<and> cache_size (fc t) = max n CACHE_SIZE_MIN \<and>
    (\<forall>b. b \<noteq> 0 \<longrightarrow> view t b = disk (dev s) b))"
  by (rule wp_mono [OF open_cache_mounts [OF assms]]) simp

lemma open_cache_mounted_witness:
  "\<exists>t. open_cache 20 (sample (\<lambda>_. replicate 512 3) sample_cg) = Some ((), t) \<and> mounted t \<and>
     cache_size (fc t) = 20 \<and> view t 77 = replicate 512 3"
proof -
  have "dev_good (sample (\<lambda>_. replicate 512 3) sample_cg)"
    by (simp add: dev_good_def dev_ok_def sample_def sample_sb_def sample_hnd_def)
  then have "wp (open_cache 20 (sample (\<lambda>_. replicate 512 3) sample_cg))
      (\<lambda>_ t. mounted t \<and> cache_size (fc t) = max 20 CACHE_SIZE_MIN \<and>
        (\<forall>b. b \<noteq> 0 \<longrightarrow> view t b = disk (dev (sample (\<lambda>_. replicate 512 3) sample_cg)) b))"
    by (rule open_cache_mounted) (simp add: sample_def sample_hnd_def)
  then show ?thesis by (auto simp: wp_ex CACHE_SIZE_MIN_def) (simp add: sample_def)
qed

text \<open>C2: \<open>cache_frag\<close> returns a buffer with the contents of the frag, and the file system
  stays as it was.\<close>

theorem cache_frag_reads:
  assumes "mounted s" "valid_frag s b"
  shows "wp (cache_frag b s) (\<lambda>r t. mounted t \<and> (\<exists>n. r = Some n \<and> frag_buf t n = view s b) \<and>
    (\<forall>a. valid_frag s a \<longrightarrow> view t a = view s a) \<and> fs_rest t = fs_rest s)"
  by (rule wp_mono [OF cache_frag_law [OF assms]]) auto

abbreviation sample_disk :: "u32 \<Rightarrow> bytes" where
  "sample_disk \<equiv> (\<lambda>a. replicate 512 (ucast a))"

lemma sample_disk_opened:
  "mounted (opened sample_disk sample_cg)"
  "a \<noteq> 0 \<Longrightarrow> a < 1024 \<Longrightarrow> valid_frag (opened sample_disk sample_cg) a"
  "a \<noteq> 0 \<Longrightarrow> view (opened sample_disk sample_cg) a = replicate 512 (ucast a)"
  by (simp_all add: opened_state opened_valid)

lemma cache_frag_reads_witness:
  "\<exists>n t. cache_frag 7 (opened sample_disk sample_cg) = Some (Some n, t) \<and>
     frag_buf t n = replicate 512 7"
  using cache_frag_reads [OF sample_disk_opened(1,2), of 7] by (auto simp: wp_ex sample_disk_opened)

text \<open>C20: two pointers from \<open>cache_frag\<close> are good at the same time: the second call does not
  evict the frag of the first.\<close>

theorem two_pointers_good:
  assumes "mounted s" "valid_frag s a" "valid_frag s b"
  shows "\<exists>p t q u. cache_frag a s = Some (Some p, t) \<and> cache_frag b t = Some (Some q, u) \<and>
    frag_buf u p = view s a \<and> frag_buf u q = view s b"
  by (rule two_pointers [OF assms])

lemma two_pointers_good_witness:
  "\<exists>p t q u. cache_frag 7 (opened sample_disk sample_cg) = Some (Some p, t) \<and>
     cache_frag 9 t = Some (Some q, u) \<and> frag_buf u p = replicate 512 7 \<and>
     frag_buf u q = replicate 512 9"
  using two_pointers_good [OF sample_disk_opened(1,2,2), of 7 9] by (simp add: sample_disk_opened)

text \<open>C1: a sequence of changes of frags through the pointers of \<open>cache_frag_write\<close> changes
  the contents of the file system like the same sequence of updates of a map from frag
  addresses to bytes.\<close>

theorem cache_updates_refine:
  assumes "mounted s" "\<And>b f. (b, f) \<in> set us \<Longrightarrow> valid_frag s b"
    and "\<And>b f xs. (b, f) \<in> set us \<Longrightarrow> length xs = unat (fsize (hnd s)) \<Longrightarrow>
           length (f xs) = unat (fsize (hnd s))"
  shows "wp (cache.update_frags us s) (\<lambda>_ t. mounted t \<and>
    (\<forall>a. valid_frag s a \<longrightarrow> view t a = apply_updates us (view s) a))"
proof -
  have f: "rest_fsize (fs_rest s) = unat (fsize (hnd s))" by (simp add: rest_fsize_def fs_rest_def)
  show ?thesis
    by (rule wp_mono [OF cache.update_frags_content [OF assms(1)]])
      (use assms(2,3) in \<open>auto simp: cache.holds_def f\<close>)
qed

lemma cache_updates_refine_witness:
  "\<exists>t. cache.update_frags [(7, \<lambda>b. b[0 := 1]), (8, \<lambda>b. b[1 := 2]), (7, \<lambda>b. b[2 := 3])]
     (opened sample_disk sample_cg) = Some ((), t) \<and> view t 7 = [1, 7, 3] @ replicate 509 7"
proof -
  have h: "unat (fsize (hnd (opened sample_disk sample_cg))) = 512"
    using opened_state(6) [of sample_disk sample_cg] by (auto simp: sample_hnd_def)
  have e: "replicate 512 (7 :: u8) = 7 # 7 # 7 # replicate 509 7"
    by (simp add: numeral_eq_Suc)
  have "wp (cache.update_frags [(7, \<lambda>b. b[0 := 1]), (8, \<lambda>b. b[1 := 2]), (7, \<lambda>b. b[2 := 3])]
      (opened sample_disk sample_cg)) (\<lambda>_ t. mounted t \<and>
    (\<forall>a. valid_frag (opened sample_disk sample_cg) a \<longrightarrow> view t a =
      apply_updates [(7, \<lambda>b. b[0 := 1]), (8, \<lambda>b. b[1 := 2]), (7, \<lambda>b. b[2 := 3])]
        (view (opened sample_disk sample_cg)) a))"
    by (rule cache_updates_refine) (auto simp: sample_disk_opened)
  then show ?thesis
    using sample_disk_opened(2) [of 7] by (auto simp: wp_ex sample_disk_opened e)
qed

text \<open>C3: \<open>cache_flush\<close> brings the disk up to date with every change, and no frag is dirty
  afterwards.\<close>

theorem cache_flush_syncs:
  assumes "mounted s"
  shows "wp (cache_flush s) (\<lambda>_ t. mounted t \<and> cache_item_dirty (fc t) = 0 \<and>
    (\<forall>b. b \<noteq> 0 \<longrightarrow> disk (dev t) b = view s b \<and> view t b = view s b))"
proof -
  obtain S where S: "cache_inv s S" "cache_size (fc s) = int (length S)" "8 \<le> length S"
    using mountedE [OF assms] by metis
  obtain r t where t: "cache_flush s = Some (r, t)" "cache_inv t S" "same_view s t"
    "\<forall>b. b \<noteq> 0 \<longrightarrow> disk (dev t) b = view s b" "cache_item_dirty (fc t) = 0"
    "cache_size (fc t) = cache_size (fc s)"
    using cache_flush_correct [OF S(1)] by blast
  have "mounted t" unfolding mounted_def using t(2,6) S(2,3) by (auto simp: CACHE_SIZE_MIN_def)
  then show ?thesis using t by (simp add: same_view_def)
qed

lemma cache_flush_syncs_witness:
  "\<exists>r t. cache_flush (opened sample_disk sample_cg) = Some (r, t) \<and>
     disk (dev t) 7 = replicate 512 7"
  using cache_flush_syncs [OF sample_disk_opened(1)] by (auto simp: wp_ex sample_disk_opened)

text \<open>C30: what \<open>cache_flush\<close> does to the device, whatever requests fail, are the writes of the
  dirty nodes, each of them once, in ascending order of their addresses, and nothing else.\<close>

theorem flush_in_order:
  assumes "cache_ok F d (fc s) S" "cache_item_dirty (fc s) \<noteq> 0"
  shows "\<exists>ns t. cache_flush s = Some (Some (length ns), t) \<and>
    sorted (map (\<lambda>n. blk (nodes (fc s) n)) ns) \<and> distinct ns \<and> set ns = dirty_set (fc s) S \<and>
    dev t = dev (write_frags (map (\<lambda>n. (blk (nodes (fc s) n), frag_buf s n)) ns) s)"
  by (rule cache_flush_writes [OF assms])

lemma flush_in_order_witness:
  "\<exists>n s ns t. cache_frag_write 7 True (opened sample_disk sample_cg) = Some (Some n, s) \<and> n \<in> set ns \<and>
     cache_flush s = Some (Some (length ns), t) \<and>
     dev t = dev (write_frags (map (\<lambda>n. (blk (nodes (fc s) n), frag_buf s n)) ns) s)"
proof -
  let ?s = "opened sample_disk sample_cg"
  obtain S where S: "cache_inv ?s S" "S \<noteq> []" using mountedE [OF sample_disk_opened(1)] by metis
  have v: "valid_frag ?s 7" by (rule sample_disk_opened) simp_all
  then obtain n t T where t: "cache_frag_write 7 True ?s = Some (Some n, t)" "fetched ?s S t T n"
    "is_dirty (nodes (fc t) n)"
    using cache_frag_write_fetched [OF S, of 7 True] by (auto simp: valid_frag_def)
  then have inv: "cache_inv t T" and n: "n \<in> dirty_set (fc t) T"
    using last_in_set by (auto simp: fetched_def dirty_set_def)
  note ok = cache_ok_same_disk [OF inv]
  have "cache_item_dirty (fc t) \<noteq> 0"
    using n ok by (auto simp: cache_ok_def dirty_set_def)
  from flush_in_order [OF ok this] show ?thesis using t(1) n by blast
qed

text \<open>C25: looking for a node to reuse always ends, with a clean node at the head of the LRU
  stack; what had to be written was written.\<close>

theorem cache_cycle_dirty_ends:
  assumes "mounted s"
  shows "\<exists>t. cache_cycle_dirty s = Some t \<and> mounted t \<and> head_clean (fc t) \<and>
    (\<forall>b. b \<noteq> 0 \<longrightarrow> view t b = view s b)"
proof -
  obtain S where S: "cache_inv s S" "cache_size (fc s) = int (length S)" "8 \<le> length S" "S \<noteq> []"
    using mountedE [OF assms] .
  obtain t T where t: "cache_cycle_dirty s = Some t" "cache_inv t T" "set T = set S"
    "same_view s t" "same_contents s t" "head_clean (fc t)"
    using cache_cycle_dirty_correct [OF S(1,4)] by blast
  have "length T = length S" by (rule same_set_length [OF S(1) t(2,3)])
  then have "mounted t" unfolding mounted_def using t(2,5) S(2,3)
    by (auto simp: CACHE_SIZE_MIN_def same_contents_def)
  then show ?thesis using t by (simp add: same_view_def)
qed

lemma cache_cycle_dirty_ends_witness:
  "\<exists>t. cache_cycle_dirty (opened sample_disk sample_cg) = Some t \<and> head_clean (fc t)"
  using cache_cycle_dirty_ends [OF sample_disk_opened(1)] by blast

text \<open>\<open>cache_invalidate\<close> drops the change of a frag: its contents are those of the disk
  again, and no other frag is touched.\<close>

theorem cache_invalidate_forgets:
  assumes "mounted s" "b \<noteq> 0"
  shows "wp (cache_invalidate b s) (\<lambda>_ t. mounted t \<and> disk (dev t) = disk (dev s) \<and>
    (\<forall>a. a \<noteq> 0 \<longrightarrow> view t a = (if a = b then disk (dev s) b else view s a)))"
proof -
  obtain S where S: "cache_inv s S" "cache_size (fc s) = int (length S)" "8 \<le> length S" "S \<noteq> []"
    using mountedE [OF assms(1)] .
  obtain t T where t: "cache_invalidate b s = Some ((), t)" "cache_inv t T" "set T = set S"
    "dev t = dev s" "\<forall>a. a \<noteq> 0 \<longrightarrow> view t a = ((view s)(b := disk (dev s) b)) a"
    using cache_invalidate_correct [OF S(1) assms(2)] by blast
  have "length T = length S" by (rule same_set_length [OF S(1) t(2,3)])
  moreover have "cache_size (fc t) = cache_size (fc s)"
    using t(1) cache_size_invalidate by simp
  ultimately have "mounted t" unfolding mounted_def using t(2) S(2,3)
    by (auto simp: CACHE_SIZE_MIN_def)
  then show ?thesis using t by simp
qed

lemma cache_invalidate_forgets_witness:
  "\<exists>t. cache_invalidate 7 (opened sample_disk sample_cg) = Some ((), t) \<and>
     view t 7 = replicate 512 7"
  using cache_invalidate_forgets [OF sample_disk_opened(1), of 7]
    opened_state(5) [of sample_disk sample_cg]
  by (auto simp: wp_ex sample_def)

text \<open>Moving a frag to an address that is not in the cache gives that address the
  contents, and no third frag is touched.\<close>

lemma cache_frag_move_moves:
  assumes "mounted s" "valid_frag s to_blk" "valid_frag s from_blk" "to_blk \<noteq> from_blk"
    and "cache_node to_blk (fc s) = Some None"
  shows "\<exists>t. cache_frag_move to_blk from_blk s = Some ((), t) \<and> view t to_blk = view s from_blk \<and>
    (\<forall>a. valid_frag s a \<longrightarrow> a \<noteq> to_blk \<longrightarrow> a \<noteq> from_blk \<longrightarrow> view t a = view s a)"
proof -
  obtain S where S: "cache_inv s S" "cache_size (fc s) = int (length S)" "8 \<le> length S" "S \<noteq> []"
    using mountedE [OF assms(1)] .
  have free: "blk (nodes (fc s) m) \<noteq> to_blk" if "m \<in> set S" for m
    using cache_node_cases [OF cache_ok_same_disk [OF S(1)], of to_blk] assms(2,5) that
    by (auto simp: valid_frag_def)
  show ?thesis
    using cache_frag_move_correct [OF S(1,4), of to_blk from_blk] assms free
    by (auto simp: valid_frag_def)
qed

text \<open>C32: a read of a frag behind the end of the partition returns NULL, loses a node of the
  cache for good and changes no contents, as long as the cache has a node. After as many such
  reads as it has nodes the cache is empty; then \<open>cache_getnode\<close> returns NULL, and \<open>cache_frag\<close> in
  turn follows it.\<close>

theorem bad_reads_empty_the_cache:
  assumes "cache_inv s S" "\<And>b. b \<in> set bs \<Longrightarrow> b \<noteq> 0 \<and> \<not> frag_ok s b"
  shows "(length bs \<le> length S \<longrightarrow> (\<exists>t T. read_frags bs s = Some (replicate (length bs) None, t) \<and>
      cache_inv t T \<and> length T + length bs = length S \<and> same_view s t)) \<and>
    (length S < length bs \<longrightarrow> (\<exists>t. read_frags (take (length S) bs) s = Some (replicate (length S) None, t) \<and>
      cache_stack (fc t) = None \<and> cache_getnode (bs ! length S) t = Some (None, t) \<and>
      cache_frag (bs ! length S) t = None) \<and> read_frags bs s = None)"
  using bad_reads_lose [OF assms(1) _ assms(2)] bad_reads_crash [OF assms(1) _ assms(2)] by blast

lemma bad_reads_empty_the_cache_witness:
  "\<exists>n t. read_frags (replicate n 2000) (opened sample_disk sample_cg) = Some (replicate n None, t) \<and>
     cache_frag 2000 t = None"
proof -
  obtain S where S: "cache_inv (opened sample_disk sample_cg) S"
    using mountedE [OF sample_disk_opened(1)] by metis
  have "\<not> valid_frag (opened sample_disk sample_cg) 2000" by (simp add: opened_valid)
  then have "\<exists>t. read_frags (take (length S) (replicate (Suc (length S)) 2000)) (opened sample_disk sample_cg) =
      Some (replicate (length S) None, t) \<and> cache_frag (replicate (Suc (length S)) 2000 ! length S) t = None"
    using bad_reads_empty_the_cache [OF S, of "replicate (Suc (length S)) 2000"]
    by (auto simp: valid_frag_def simp del: replicate_Suc)
  then show ?thesis by (auto simp: min_def simp del: replicate_Suc)
qed

end
