(* ===== verification/Free_Map.thy ===== *)
theory Free_Map
  imports Bffs_State
begin

text \<open>
  The search and the update of the free maps of a cylinder group: the pure functions of
  fs/alloc.c. A free map is a byte array with one bit per frag, set when the frag is free.
  \<open>F\<close> stands for \<open>FRAGS_PER_BLK\<close>, which is 1, 2, 4 or 8.
\<close>

section \<open>Whole blocks\<close>

definition block_alloc :: "nat \<Rightarrow> bytes \<Rightarrow> nat \<Rightarrow> bytes" where
  "block_alloc F m fpos =
     (if F = 1 then bit_clr m fpos
      else if F = 2 then
        (let m = m[fpos div 8 := m ! (fpos div 8) AND NOT (push_bit (fpos AND 6) 1)]
         in m[fpos div 8 := m ! (fpos div 8) AND NOT (push_bit (fpos AND 6 OR 1) 1)])
      else if F = 4 then
        m[fpos div 8 := m ! (fpos div 8) AND (if fpos AND 4 \<noteq> 0 then 0x0f else 0xf0)]
      else if F = 8 then m[fpos div 8 := 0]
      else m)"

definition block_dealloc :: "nat \<Rightarrow> bytes \<Rightarrow> nat \<Rightarrow> bytes" where
  "block_dealloc F m fpos =
     (if F = 1 then bit_set m fpos
      else if F = 2 then
        (let m = m[fpos div 8 := m ! (fpos div 8) OR push_bit (fpos AND 6) 1]
         in m[fpos div 8 := m ! (fpos div 8) OR push_bit (fpos AND 6 OR 1) 1])
      else if F = 4 then
        m[fpos div 8 := m ! (fpos div 8) OR (if fpos AND 4 \<noteq> 0 then 0xf0 else 0x0f)]
      else if F = 8 then m[fpos div 8 := 0xff]
      else m)"

definition block_avail :: "nat \<Rightarrow> bytes \<Rightarrow> nat \<Rightarrow> bool" where
  "block_avail F m fpos =
     (if F = 1 then bit_val m fpos
      else if F = 2 then bit_val m (2 * (fpos div 2)) \<and> bit_val m (fpos OR 1)
      else if F = 4 then
        (let temp = (if fpos AND 4 \<noteq> 0 then 0xf0 else 0x0f)
         in m ! (fpos div 8) AND temp = temp)
      else if F = 8 then m ! (fpos div 8) = 0xff
      else False)"

text \<open>From the frag to the end of its block.\<close>

fun all_free :: "bytes \<Rightarrow> nat \<Rightarrow> nat \<Rightarrow> bool" where
  "all_free m frag 0 = True"
| "all_free m frag (Suc n) = (if \<not> bit_val m frag then False else all_free m (Suc frag) n)"

definition frags_left_are_free :: "nat \<Rightarrow> bytes \<Rightarrow> nat \<Rightarrow> bool" where
  "frags_left_are_free F m frag = all_free m frag (F - frag mod F)"

section \<open>The nearest free block\<close>

text \<open>The scan of \<open>block_free_find\<close> for 1, 2 and 4 frags per block: over the block addresses
  from the first one, until the distance grows again.\<close>

fun closest :: "(nat \<Rightarrow> bool) \<Rightarrow> int \<Rightarrow> nat list \<Rightarrow> int \<Rightarrow> int \<Rightarrow> int" where
  "closest avail preferred [] fragpos mindist = fragpos"
| "closest avail preferred (i # is) fragpos mindist =
     (if avail i then
        (let absdist = \<bar>preferred - int i\<bar>
         in if absdist \<le> mindist then closest avail preferred is (int i) absdist else fragpos)
      else closest avail preferred is fragpos mindist)"

text \<open>The addresses that the loops visit; with 4 frags per block it goes by whole bytes and
  looks at both halves.\<close>

definition scan_addrs :: "nat \<Rightarrow> nat \<Rightarrow> nat list" where
  "scan_addrs F maxfrag =
     (if F = 4 then concat (map (\<lambda>b. [8 * b, 8 * b + 4]) [0..<(maxfrag + 7) div 8])
      else map (\<lambda>k. F * k) [0..<(maxfrag + F - 1) div F])"

text \<open>The two searches for 8 frags per block, over the bytes; -1 when nothing is found
  below, \<open>maxfrag\<close> when nothing is found above.\<close>

fun search_down :: "bytes \<Rightarrow> nat \<Rightarrow> int" where
  "search_down m 0 = (if m ! 0 = 0xff then 0 else -1)"
| "search_down m (Suc n) = (if m ! Suc n = 0xff then int (Suc n) else search_down m n)"

fun search_up :: "bytes \<Rightarrow> nat \<Rightarrow> nat \<Rightarrow> nat" where
  "search_up m pindex 0 = pindex"
| "search_up m pindex (Suc n) =
     (if m ! pindex = 0xff then pindex else search_up m (Suc pindex) n)"

definition block_free_find :: "nat \<Rightarrow> bytes \<Rightarrow> nat \<Rightarrow> nat \<Rightarrow> int" where
  "block_free_find F m ndblk preferred =
     (let preferred = preferred - preferred mod F;
          preferred = (if preferred > ndblk then 0 else preferred)
      in if F = 1 \<or> F = 2 \<or> F = 4 then
           closest (block_avail F m) (int preferred) (scan_addrs F ndblk) (-1) (int ndblk)
         else if F = 8 then
           (let preferred = preferred div 8;
                maxfrag = ndblk div 8;
                nindex = search_down m preferred;
                pindex = search_up m (preferred + 1) (maxfrag - (preferred + 1))
            in if nindex < 0 then (if pindex < maxfrag then int (pindex * 8) else -1)
               else if pindex \<ge> maxfrag then nindex * 8
               else if int pindex - int preferred < int preferred - nindex then int (pindex * 8)
               else nindex * 8)
         else -1)"

section \<open>A block with enough free frags\<close>

text \<open>The inner loop for \<open>OPT_TIME\<close>: \<open>n\<close> frags from \<open>pos\<close> on, \<open>freehere\<close> free ones
  before \<open>pos\<close>.\<close>

fun first_fit :: "bytes \<Rightarrow> nat \<Rightarrow> nat \<Rightarrow> nat \<Rightarrow> nat \<Rightarrow> nat option" where
  "first_fit m min_frags pos freehere 0 = None"
| "first_fit m min_frags pos freehere (Suc n) =
     (if bit_val m pos then
        (if Suc freehere = min_frags then Some (pos - freehere)
         else first_fit m min_frags (Suc pos) (Suc freehere) n)
      else first_fit m min_frags (Suc pos) 0 n)"

fun time_search :: "nat \<Rightarrow> bytes \<Rightarrow> nat \<Rightarrow> nat list \<Rightarrow> nat option" where
  "time_search F m min_frags [] = None"
| "time_search F m min_frags (i # is) =
     (case first_fit m min_frags i 0 F of
        Some pos \<Rightarrow> Some pos
      | None \<Rightarrow> time_search F m min_frags is)"

text \<open>The inner loop for \<open>OPT_SPACE\<close>, with \<open>MIN_CHECK\<close> at the end of each run. \<open>Inl\<close> is an
  exact fit, \<open>Inr\<close> the best size and place so far.\<close>

definition min_check :: "nat \<Rightarrow> nat \<Rightarrow> nat \<Rightarrow> nat \<times> int \<Rightarrow> nat + nat \<times> int" where
  "min_check min_frags pos freehere best =
     (if freehere = min_frags then Inl (pos - freehere)
      else if freehere \<ge> min_frags \<and> freehere < fst best then Inr (freehere, int (pos - freehere))
      else Inr best)"

fun best_fit :: "bytes \<Rightarrow> nat \<Rightarrow> nat \<Rightarrow> nat \<Rightarrow> nat \<Rightarrow> nat \<times> int \<Rightarrow> nat + nat \<times> int" where
  "best_fit m min_frags pos freehere 0 best = min_check min_frags pos freehere best"
| "best_fit m min_frags pos freehere (Suc n) best =
     (if bit_val m pos then best_fit m min_frags (Suc pos) (Suc freehere) n best
      else (case min_check min_frags pos freehere best of
              Inl place \<Rightarrow> Inl place
            | Inr best \<Rightarrow> best_fit m min_frags (Suc pos) 0 n best))"

fun space_search :: "nat \<Rightarrow> bytes \<Rightarrow> nat \<Rightarrow> nat list \<Rightarrow> nat \<times> int \<Rightarrow> int" where
  "space_search F m min_frags [] best = snd best"
| "space_search F m min_frags (i # is) best =
     (case best_fit m min_frags i 0 F best of
        Inl place \<Rightarrow> int place
      | Inr best \<Rightarrow> space_search F m min_frags is best)"

text \<open>The smallest size from \<open>min_frags\<close> on of which there is a fragment.\<close>

fun usable_size :: "u32 list \<Rightarrow> nat \<Rightarrow> nat \<Rightarrow> nat" where
  "usable_size frsum min_frags 0 = min_frags"
| "usable_size frsum min_frags (Suc n) =
     (if frsum ! min_frags \<noteq> 0 then min_frags else usable_size frsum (Suc min_frags) n)"

text \<open>The blocks from the preferred one up, then those below it, nearest first.\<close>

definition fit_addrs :: "nat \<Rightarrow> nat \<Rightarrow> nat \<Rightarrow> nat list" where
  "fit_addrs F preferred ndblk =
     map (\<lambda>k. preferred + F * k) [0..<(ndblk - preferred + F - 1) div F] @
     map (\<lambda>k. F * k) (rev [0..<preferred div F])"

definition block_fragblock_find :: "bool \<Rightarrow> nat \<Rightarrow> cg \<Rightarrow> nat \<Rightarrow> nat \<Rightarrow> int" where
  "block_fragblock_find space F mycg preferred min_frags =
     (let m = cg_blksfree mycg;
          ndblk = unat (cg_ndblk mycg);
          preferred = preferred - preferred mod F;
          preferred = (if preferred > ndblk then 0 else preferred)
      in if min_frags < 1 \<or> min_frags > F then -1
         else if \<not> space then
           (case time_search F m min_frags (fit_addrs F preferred ndblk) of
              None \<Rightarrow> -1 | Some pos \<Rightarrow> int pos)
         else
           space_search F m (usable_size (cg_frsum mycg) min_frags (F - min_frags))
             (fit_addrs F preferred ndblk) (F, -1))"

section \<open>What the functions do to the bits\<close>

lemma frags_cases:
  assumes "F \<in> {1, 2, 4, 8::nat}"
  obtains "F = 1" | "F = 2" | "F = 4" | "F = 8"
  using assms by auto

lemma nat_and_6: "(n::nat) AND 6 = 2 * (n mod 8 div 2)"
proof -
  have "n AND 6 = (n AND 7) AND 6" by (simp add: and.assoc)
  also have "n AND 7 = n mod 8" using take_bit_eq_mask [of 3 n] by (simp add: take_bit_eq_mod mask_eq_exp_minus_1)
  finally have e: "n AND 6 = (n mod 8) AND 6" .
  have "n mod 8 < 8" by simp
  then consider "n mod 8 = 0" | "n mod 8 = 1" | "n mod 8 = 2" | "n mod 8 = 3" | "n mod 8 = 4"
    | "n mod 8 = 5" | "n mod 8 = 6" | "n mod 8 = 7" by linarith
  then show ?thesis unfolding e by cases simp_all
qed

lemma lt_8_cases:
  assumes "(j::nat) < 8"
  obtains "j = 0" | "j = 1" | "j = 2" | "j = 3" | "j = 4" | "j = 5" | "j = 6" | "j = 7"
  using assms by (auto simp: less_Suc_eq numeral_eq_Suc)

lemma nat_and_4: "((n::nat) AND 4 \<noteq> 0) = (n mod 8 \<ge> 4)"
proof -
  have "n AND 4 = (n AND 7) AND 4" by (simp add: and.assoc)
  also have "n AND 7 = n mod 8"
    using take_bit_eq_mask [of 3 n] by (simp add: take_bit_eq_mod mask_eq_exp_minus_1)
  finally have e: "n AND 4 = (n mod 8) AND 4" .
  have "n mod 8 < 8" by simp
  then show ?thesis unfolding e by (cases "n mod 8" rule: lt_8_cases) simp_all
qed

lemma bit_nibbles:
  assumes "j < 8"
  shows "bit (0x0f :: u8) j = (j < 4)" "bit (0xf0 :: u8) j = (4 \<le> j)"
  using assms by (cases j rule: lt_8_cases; simp)+

lemma bit_ff: "j < 8 \<Longrightarrow> bit (0xff :: u8) j"
  by (cases j rule: lt_8_cases) simp_all

text \<open>Aligned blocks lie in one byte.\<close>

lemma aligned_byte:
  assumes "F \<in> {1, 2, 4, 8::nat}" "F dvd fpos" "fpos + F \<le> 8 * n"
  shows "fpos mod 8 + F \<le> 8" "fpos div 8 < n"
    and "fpos \<le> i \<and> i < fpos + F \<longleftrightarrow>
      i div 8 = fpos div 8 \<and> fpos mod 8 \<le> i mod 8 \<and> i mod 8 < fpos mod 8 + F"
proof -
  obtain k where k: "fpos = F * k" using assms(2) by (auto simp: dvd_def)
  show 1: "fpos mod 8 + F \<le> 8"
    using assms(1)
  proof (cases rule: frags_cases)
    case 1 then show ?thesis using mod_less_divisor [of 8 fpos] by linarith
  next
    case 2 then show ?thesis using k by presburger
  next
    case 3 then show ?thesis using k by presburger
  next
    case 4 then show ?thesis using k by presburger
  qed
  show "fpos div 8 < n" using assms(1,3) by auto
  define q r p t where "q = fpos div 8" and "r = fpos mod 8" and "p = i div 8" and "t = i mod 8"
  have "fpos = 8 * q + r" "i = 8 * p + t" "t < 8" "r + F \<le> 8"
    using 1 by (simp_all add: q_def r_def p_def t_def)
  then show "fpos \<le> i \<and> i < fpos + F \<longleftrightarrow>
      i div 8 = fpos div 8 \<and> fpos mod 8 \<le> i mod 8 \<and> i mod 8 < fpos mod 8 + F"
    unfolding q_def [symmetric] r_def [symmetric] p_def [symmetric] t_def [symmetric]
    by (cases p q rule: linorder_cases) auto
qed

lemma bit_half:
  assumes "r = 0 \<or> r = 4" "j < 8" "fpos mod 8 = r"
  shows "bit ((w :: u8) AND (if fpos AND 4 \<noteq> 0 then 0x0f else 0xf0)) j =
      (bit w j \<and> \<not> (r \<le> j \<and> j < r + 4))"
    and "bit ((w :: u8) OR (if fpos AND 4 \<noteq> 0 then 0xf0 else 0x0f)) j =
      (bit w j \<or> r \<le> j \<and> j < r + 4)"
    and "bit (if fpos AND 4 \<noteq> 0 then 0xf0 else 0x0f :: u8) j = (r \<le> j \<and> j < r + 4)"
proof -
  have h: "(fpos AND 4 \<noteq> 0) = (r = 4)" unfolding nat_and_4 using assms by auto
  show "bit ((w :: u8) AND (if fpos AND 4 \<noteq> 0 then 0x0f else 0xf0)) j =
      (bit w j \<and> \<not> (r \<le> j \<and> j < r + 4))"
    and "bit ((w :: u8) OR (if fpos AND 4 \<noteq> 0 then 0xf0 else 0x0f)) j =
      (bit w j \<or> r \<le> j \<and> j < r + 4)"
    and "bit (if fpos AND 4 \<noteq> 0 then 0xf0 else 0x0f :: u8) j = (r \<le> j \<and> j < r + 4)"
    unfolding h using assms(1,2) bit_nibbles [OF assms(2)]
    by (auto simp: bit_and_iff bit_or_iff)
qed

lemma bit_update_byte:
  assumes "k < length m"
  shows "bit_val (m[k := w]) i = (if i div 8 = k then bit w (i mod 8) else bit_val m i)"
  using assms by (simp add: bit_val_def nth_list_update)

lemma block_alloc_bits [bitmap]:
  assumes F: "F \<in> {1, 2, 4, 8}" and "F dvd fpos" "fpos + F \<le> 8 * length m"
  shows "bit_val (block_alloc F m fpos) i \<longleftrightarrow> bit_val m i \<and> \<not> (fpos \<le> i \<and> i < fpos + F)"
  using F
proof (cases rule: frags_cases)
  case 1
  then show ?thesis using assms(3) by (auto simp: block_alloc_def bit_val_clr)
next
  case 2
  have r: "fpos mod 8 = 0 \<or> fpos mod 8 = 2 \<or> fpos mod 8 = 4 \<or> fpos mod 8 = 6"
    using assms(2) 2 by presburger
  have "fpos AND 6 = fpos mod 8" "fpos AND 6 OR 1 = (fpos + 1) mod 8" "(fpos + 1) div 8 = fpos div 8"
    unfolding nat_and_6 using r by (auto simp: mod_Suc div_Suc)
  then have "block_alloc F m fpos = bit_clr (bit_clr m fpos) (fpos + 1)"
    using 2 by (simp add: block_alloc_def bit_clr_def Let_def)
  then show ?thesis using assms(3) 2 by (auto simp: bit_val_clr)
next
  case 3
  note b = aligned_byte [OF assms]
  have r: "fpos mod 8 = 0 \<or> fpos mod 8 = 4" using assms(2) 3 by presburger
  have j: "i mod 8 < 8" by simp
  have "bit_val (block_alloc F m fpos) i =
      (if i div 8 = fpos div 8
       then bit (m ! (fpos div 8)) (i mod 8) \<and> \<not> (fpos mod 8 \<le> i mod 8 \<and> i mod 8 < fpos mod 8 + 4)
       else bit_val m i)"
    using 3 b(2) bit_half(1) [OF r j refl] by (simp add: block_alloc_def bit_update_byte)
  then show ?thesis unfolding b(3) using 3 by (auto simp: bit_val_def)
next
  case 4
  note b = aligned_byte [OF assms]
  have "fpos mod 8 = 0" using assms(2) 4 by presburger
  then show ?thesis unfolding b(3) using 4 b(2) by (auto simp: block_alloc_def bit_update_byte)
qed

lemma block_dealloc_bits [bitmap]:
  assumes F: "F \<in> {1, 2, 4, 8}" and "F dvd fpos" "fpos + F \<le> 8 * length m"
  shows "bit_val (block_dealloc F m fpos) i \<longleftrightarrow> bit_val m i \<or> fpos \<le> i \<and> i < fpos + F"
  using F
proof (cases rule: frags_cases)
  case 1
  then show ?thesis using assms(3) by (auto simp: block_dealloc_def bit_val_set)
next
  case 2
  have r: "fpos mod 8 = 0 \<or> fpos mod 8 = 2 \<or> fpos mod 8 = 4 \<or> fpos mod 8 = 6"
    using assms(2) 2 by presburger
  have "fpos AND 6 = fpos mod 8" "fpos AND 6 OR 1 = (fpos + 1) mod 8" "(fpos + 1) div 8 = fpos div 8"
    unfolding nat_and_6 using r by (auto simp: mod_Suc div_Suc)
  then have "block_dealloc F m fpos = bit_set (bit_set m fpos) (fpos + 1)"
    using 2 by (simp add: block_dealloc_def bit_set_def Let_def)
  then show ?thesis using assms(3) 2 by (auto simp: bit_val_set)
next
  case 3
  note b = aligned_byte [OF assms]
  have r: "fpos mod 8 = 0 \<or> fpos mod 8 = 4" using assms(2) 3 by presburger
  have j: "i mod 8 < 8" by simp
  have "bit_val (block_dealloc F m fpos) i =
      (if i div 8 = fpos div 8
       then bit (m ! (fpos div 8)) (i mod 8) \<or> fpos mod 8 \<le> i mod 8 \<and> i mod 8 < fpos mod 8 + 4
       else bit_val m i)"
    using 3 b(2) bit_half(2) [OF r j refl] by (simp add: block_dealloc_def bit_update_byte)
  then show ?thesis unfolding b(3) using 3 by (auto simp: bit_val_def)
next
  case 4
  note b = aligned_byte [OF assms]
  have "fpos mod 8 = 0" using assms(2) 4 by presburger
  moreover have "bit (0xff :: u8) (i mod 8)" by (rule bit_ff) simp
  ultimately show ?thesis unfolding b(3) using 4 b(2)
    by (simp add: block_dealloc_def bit_update_byte)
qed

lemma length_block_alloc [simp]: "length (block_alloc F m fpos) = length m"
  by (simp add: block_alloc_def Let_def)

lemma length_block_dealloc [simp]: "length (block_dealloc F m fpos) = length m"
  by (simp add: block_dealloc_def Let_def)

lemma mask_and_eq:
  "w AND k = (k :: u8) \<longleftrightarrow> (\<forall>j < 8. bit k j \<longrightarrow> bit w j)"
proof
  assume "w AND k = k"
  then show "\<forall>j < 8. bit k j \<longrightarrow> bit w j" by (metis bit_and_iff)
next
  assume *: "\<forall>j < 8. bit k j \<longrightarrow> bit w j"
  show "w AND k = k" by (rule bit_word_eqI) (use * in \<open>auto simp: bit_and_iff\<close>)
qed

lemma byte_full: "w = (0xff :: u8) \<longleftrightarrow> (\<forall>j < 8. bit w j)"
proof
  assume *: "\<forall>j < 8. bit w j"
  show "w = 0xff" by (rule bit_word_eqI) (use * bit_ff in auto)
qed (use bit_ff in simp)

text \<open>\<open>block_avail\<close> is true of a block when all of its frags are free.\<close>

definition range_free :: "bytes \<Rightarrow> nat \<Rightarrow> nat \<Rightarrow> bool" where
  "range_free m i n \<longleftrightarrow> (\<forall>j. i \<le> j \<and> j < i + n \<longrightarrow> bit_val m j)"

lemma range_free_byte:
  assumes "F \<in> {1, 2, 4, 8}" "F dvd fpos"
  shows "range_free m fpos F \<longleftrightarrow>
    (\<forall>j < 8. fpos mod 8 \<le> j \<and> j < fpos mod 8 + F \<longrightarrow> bit (m ! (fpos div 8)) j)"
proof -
  have b3: "fpos \<le> i \<and> i < fpos + F \<longleftrightarrow>
      i div 8 = fpos div 8 \<and> fpos mod 8 \<le> i mod 8 \<and> i mod 8 < fpos mod 8 + F" for i
    by (rule aligned_byte(3) [OF assms, of "fpos + F"]) simp
  show ?thesis
  proof
    assume *: "range_free m fpos F"
    show "\<forall>j < 8. fpos mod 8 \<le> j \<and> j < fpos mod 8 + F \<longrightarrow> bit (m ! (fpos div 8)) j"
    proof (intro allI impI)
      fix j assume j: "j < (8::nat)" "fpos mod 8 \<le> j \<and> j < fpos mod 8 + F"
      have i: "(8 * (fpos div 8) + j) div 8 = fpos div 8" "(8 * (fpos div 8) + j) mod 8 = j"
        using j(1) by simp_all
      then have "fpos \<le> 8 * (fpos div 8) + j \<and> 8 * (fpos div 8) + j < fpos + F"
        unfolding b3 using j(2) by simp
      then have "bit_val m (8 * (fpos div 8) + j)" using * unfolding range_free_def by blast
      then show "bit (m ! (fpos div 8)) j" unfolding bit_val_def i .
    qed
  next
    assume *: "\<forall>j < 8. fpos mod 8 \<le> j \<and> j < fpos mod 8 + F \<longrightarrow> bit (m ! (fpos div 8)) j"
    show "range_free m fpos F"
      unfolding range_free_def b3 using * by (auto simp: bit_val_def)
  qed
qed

theorem block_avail_free:
  assumes F: "F \<in> {1, 2, 4, 8}" and "F dvd fpos"
  shows "block_avail F m fpos \<longleftrightarrow> range_free m fpos F"
  using F
proof (cases rule: frags_cases)
  case 1
  have "fpos \<le> j \<and> j < fpos + 1 \<longleftrightarrow> j = fpos" for j by auto
  then show ?thesis using 1 by (auto simp: block_avail_def range_free_def)
next
  case 2
  have e: "fpos OR Suc 0 = Suc fpos" using assms(2) 2 by (simp add: or_Suc_0_eq)
  have r: "(fpos \<le> j \<and> j < fpos + 2) = (j = fpos \<or> j = Suc fpos)" for j by auto
  have "range_free m fpos 2 \<longleftrightarrow> bit_val m fpos \<and> bit_val m (Suc fpos)"
    unfolding range_free_def r by auto
  moreover have "2 * (fpos div 2) = fpos" using assms(2) 2 by simp
  ultimately show ?thesis unfolding 2 by (simp add: block_avail_def e)
next
  case 3
  have r: "fpos mod 8 = 0 \<or> fpos mod 8 = 4" using assms(2) 3 by presburger
  show ?thesis
    unfolding range_free_byte [OF assms]
    using 3 bit_half(3) [OF r _ refl] by (simp add: block_avail_def Let_def mask_and_eq)
next
  case 4
  have "fpos mod 8 = 0" using assms(2) 4 by presburger
  then show ?thesis
    unfolding range_free_byte [OF assms] using 4 by (simp add: block_avail_def byte_full)
qed

lemma all_free_range: "all_free m frag n \<longleftrightarrow> range_free m frag n"
proof (induction n arbitrary: frag)
  case 0
  then show ?case by (auto simp: range_free_def)
next
  case (Suc n)
  have "frag \<le> j \<and> j < frag + Suc n \<longleftrightarrow> j = frag \<or> Suc frag \<le> j \<and> j < Suc frag + n" for j
    by auto
  then show ?case using Suc by (auto simp: range_free_def)
qed

theorem frags_left_are_free_range:
  "frags_left_are_free F m frag \<longleftrightarrow> range_free m frag (F - frag mod F)"
  by (simp add: frags_left_are_free_def all_free_range)

section \<open>The nearest free block is found\<close>

lemma closest_correct:
  assumes "sorted_wrt (<) is"
    and "fp = -1 \<and> (\<forall>i \<in> set is. \<bar>pref - int i\<bar> \<le> md) \<or>
      (\<exists>j. fp = int j \<and> md = \<bar>pref - int j\<bar> \<and> (\<forall>i \<in> set is. j < i))"
    and "r = closest avail pref is fp md"
  shows "(r = fp \<or> (\<exists>i \<in> set is. avail i \<and> r = int i)) \<and>
    (fp \<noteq> -1 \<longrightarrow> \<bar>pref - r\<bar> \<le> md) \<and>
    (\<forall>i \<in> set is. avail i \<longrightarrow> r \<noteq> -1 \<and> \<bar>pref - r\<bar> \<le> \<bar>pref - int i\<bar>)"
  using assms
proof (induction "is" arbitrary: fp md)
  case Nil
  then show ?case by auto
next
  case (Cons i xs)
  show ?case
  proof (cases "avail i")
    case False
    have "(r = fp \<or> (\<exists>i \<in> set xs. avail i \<and> r = int i)) \<and> (fp \<noteq> -1 \<longrightarrow> \<bar>pref - r\<bar> \<le> md) \<and>
        (\<forall>i \<in> set xs. avail i \<longrightarrow> r \<noteq> -1 \<and> \<bar>pref - r\<bar> \<le> \<bar>pref - int i\<bar>)"
      by (rule Cons.IH) (use Cons.prems False in auto)
    then show ?thesis using False by auto
  next
    case av: True
    show ?thesis
    proof (cases "\<bar>pref - int i\<bar> \<le> md")
      case True
      have "(r = int i \<or> (\<exists>k \<in> set xs. avail k \<and> r = int k)) \<and>
          (int i \<noteq> -1 \<longrightarrow> \<bar>pref - r\<bar> \<le> \<bar>pref - int i\<bar>) \<and>
          (\<forall>k \<in> set xs. avail k \<longrightarrow> r \<noteq> -1 \<and> \<bar>pref - r\<bar> \<le> \<bar>pref - int k\<bar>)"
        by (rule Cons.IH) (use Cons.prems av True in auto)
      then show ?thesis using av True by auto
    next
      case False
      then obtain j where j: "fp = int j" "md = \<bar>pref - int j\<bar>" "\<forall>k \<in> set (i # xs). j < k"
        using Cons.prems(2) by auto
      have r: "r = fp" using Cons.prems(3) av False by simp
      have "\<bar>pref - r\<bar> \<le> \<bar>pref - int k\<bar>" if "k \<in> set (i # xs)" for k
      proof -
        have "j < i" "i \<le> k" using j(3) Cons.prems(1) that by auto
        then show ?thesis using False r j(1,2) by linarith
      qed
      then show ?thesis using r j by auto
    qed
  qed
qed

lemma scan_addrs_sorted: "F \<in> {1, 2, 4} \<Longrightarrow> sorted_wrt (<) (scan_addrs F n)"
proof -
  assume F: "F \<in> {1, 2, 4}"
  have pairs: "sorted_wrt (<) (concat (map (\<lambda>b. [8 * b, 8 * b + 4]) [0..<k]))" for k :: nat
  proof (induction k)
    case 0
    then show ?case by simp
  next
    case (Suc k)
    then show ?case by (auto simp: sorted_wrt_append)
  qed
  have "sorted_wrt (<) (map (\<lambda>k. F * k) [0..<k])" for k
    using F by (induction k) (auto simp: sorted_wrt_append)
  then show ?thesis using pairs by (simp add: scan_addrs_def)
qed

text \<open>The scan visits the addresses of all blocks, and for 4 frags per block possibly the
  second half of the last byte.\<close>

lemma scan_addrs_set:
  assumes F: "F \<in> {1, 2, 4}" "F dvd n"
  shows "{b. F dvd b \<and> b < n} \<subseteq> set (scan_addrs F n)"
    and "i \<in> set (scan_addrs F n) \<Longrightarrow> F dvd i \<and> (i < n \<or> F = 4 \<and> i = n \<and> \<not> 8 dvd n)"
proof -
  obtain k where k: "n = F * k" using F(2) by (auto simp: dvd_def)
  have simple: "set (scan_addrs F n) = {b. F dvd b \<and> b < n}" if "F \<noteq> 4"
  proof -
    have "(n + F - 1) div F = k" using k F(1) that by auto
    then show ?thesis using k F(1) that by (auto simp: scan_addrs_def dvd_def)
  qed
  have four: "i \<in> set (scan_addrs 4 n) \<longleftrightarrow> 4 dvd i \<and> i div 8 < (n + 7) div 8" for i
  proof -
    have "set (scan_addrs 4 n) = (\<Union>b < (n + 7) div 8. {8 * b, 8 * b + 4})"
      by (simp add: scan_addrs_def atLeast0LessThan)
    then have "i \<in> set (scan_addrs 4 n) \<longleftrightarrow> (\<exists>b < (n + 7) div 8. i = 8 * b \<or> i = 8 * b + 4)"
      by auto
    also have "\<dots> \<longleftrightarrow> 4 dvd i \<and> i div 8 < (n + 7) div 8"
    proof
      assume "4 dvd i \<and> i div 8 < (n + 7) div 8"
      moreover from this have "i = 8 * (i div 8) \<or> i = 8 * (i div 8) + 4" by presburger
      ultimately show "\<exists>b < (n + 7) div 8. i = 8 * b \<or> i = 8 * b + 4" by blast
    qed auto
    finally show ?thesis .
  qed
  show "{b. F dvd b \<and> b < n} \<subseteq> set (scan_addrs F n)"
  proof (cases "F = 4")
    case True
    have "i div 8 < (n + 7) div 8" if "i < n" for i
      using that div_le_mono [of "i + 8" "n + 7" 8] by simp
    then show ?thesis using four True by blast
  next
    case False
    then show ?thesis using simple by simp
  qed
  show "F dvd i \<and> (i < n \<or> F = 4 \<and> i = n \<and> \<not> 8 dvd n)" if "i \<in> set (scan_addrs F n)"
  proof (cases "F = 4")
    case True
    then have i: "4 dvd i" "i div 8 < (n + 7) div 8" and n: "4 dvd n" using that four F(2) by auto
    have half: "\<exists>q. x = 8 * q \<or> x = 8 * q + 4" if "4 dvd x" for x :: nat
      using that by presburger
    obtain p q where "i = 8 * p \<or> i = 8 * p + 4" "n = 8 * q \<or> n = 8 * q + 4"
      using half [OF i(1)] half [OF n] by auto
    moreover from this have "\<not> 8 dvd n \<longleftrightarrow> n = 8 * q + 4" by presburger
    ultimately show ?thesis using i True by auto
  next
    case False
    then show ?thesis using that simple by auto
  qed
qed

lemma search_down_correct:
  "search_down m n = r \<Longrightarrow> r = -1 \<and> (\<forall>k \<le> n. m ! k \<noteq> 0xff) \<or>
   (\<exists>k \<le> n. r = int k \<and> m ! k = 0xff \<and> (\<forall>j. k < j \<and> j \<le> n \<longrightarrow> m ! j \<noteq> 0xff))"
proof (induction n)
  case 0
  then show ?case by (auto split: if_splits)
next
  case (Suc n)
  show ?case
  proof (cases "m ! Suc n = 0xff")
    case True
    then show ?thesis using Suc.prems by auto
  next
    case False
    then have "search_down m n = r" using Suc.prems by simp
    from Suc.IH [OF this] False show ?thesis by (auto simp: le_Suc_eq)
  qed
qed

lemma search_up_correct:
  "search_up m p n = k \<Longrightarrow> p \<le> k \<and> k \<le> p + n \<and> (k < p + n \<longrightarrow> m ! k = 0xff) \<and>
   (\<forall>j. p \<le> j \<and> j < k \<longrightarrow> m ! j \<noteq> 0xff)"
proof (induction n arbitrary: p)
  case 0
  then show ?case by auto
next
  case (Suc n)
  show ?case
  proof (cases "m ! p = 0xff")
    case True
    then show ?thesis using Suc.prems by auto
  next
    case False
    then have "search_up m (Suc p) n = k" using Suc.prems by simp
    from Suc.IH [OF this] False show ?thesis
      by (metis Suc_leD Suc_le_eq add_Suc_right add_Suc le_neq_implies_less)
  qed
qed

text \<open>
  \<open>block_free_find\<close> returns -1 when there is no free block, and otherwise the free block
  nearest to the preferred address, whole and inside the group. The last half byte of the map
  of a group with an odd number of four-frag blocks must not be marked free.
\<close>

theorem block_free_find_nearest:
  assumes F: "F \<in> {1, 2, 4, 8}" "F dvd ndblk" and pref: "pref < ndblk" "F dvd pref"
    and tail: "F = 4 \<Longrightarrow> \<not> 8 dvd ndblk \<Longrightarrow> \<not> range_free m ndblk 4"
    and r: "r = block_free_find F m ndblk preferred" "pref = preferred - preferred mod F"
  shows "r = -1 \<and> (\<forall>b. F dvd b \<longrightarrow> b < ndblk \<longrightarrow> \<not> range_free m b F) \<or>
    (\<exists>p. r = int p \<and> F dvd p \<and> p < ndblk \<and> range_free m p F \<and>
      (\<forall>b. F dvd b \<longrightarrow> b < ndblk \<longrightarrow> range_free m b F \<longrightarrow>
        \<bar>int pref - int p\<bar> \<le> \<bar>int pref - int b\<bar>))"
proof (cases "F = 8")
  case False
  then have F': "F \<in> {1, 2, 4}" using F(1) by auto
  note addrs = scan_addrs_set [OF F' F(2)]
  have r': "r = closest (block_avail F m) (int pref) (scan_addrs F ndblk) (-1) (int ndblk)"
    using r F' pref(1) by (auto simp: block_free_find_def)
  have start: "(-1::int) = -1 \<and> (\<forall>i \<in> set (scan_addrs F ndblk). \<bar>int pref - int i\<bar> \<le> int ndblk)"
    using addrs(2) pref(1) by fastforce
  note c = closest_correct [OF scan_addrs_sorted [OF F'] disjI1 [OF start] r']
  have av: "block_avail F m i = range_free m i F" if "F dvd i" for i
    using block_avail_free [OF F(1) that] .
  have real: "i < ndblk" if "i \<in> set (scan_addrs F ndblk)" "range_free m i F" for i
    using addrs(2) [OF that(1)] that(2) tail by auto
  show ?thesis
  proof (cases "r = -1")
    case True
    have "\<not> range_free m b F" if "F dvd b" "b < ndblk" for b
      using c that addrs(1) av True by blast
    then show ?thesis using True by simp
  next
    case False
    then obtain p where p: "p \<in> set (scan_addrs F ndblk)" "block_avail F m p" "r = int p"
      using c by auto
    then have "F dvd p" "range_free m p F" "p < ndblk"
      using addrs(2) av real by blast+
    moreover have "\<bar>int pref - int p\<bar> \<le> \<bar>int pref - int b\<bar>"
      if b: "F dvd b" "b < ndblk" "range_free m b F" for b
    proof -
      have "b \<in> set (scan_addrs F ndblk)" using addrs(1) b by blast
      then show ?thesis using c av b p(3) by simp
    qed
    ultimately show ?thesis using p(3) by blast
  qed
next
  case True
  define q where "q = pref div 8"
  define M where "M = ndblk div 8"
  have q: "pref = 8 * q" "ndblk = 8 * M" "q < M"
    using pref F(2) True by (auto simp: q_def M_def dvd_def)
  have rf: "range_free m b F \<longleftrightarrow> m ! (b div 8) = 0xff" if "F dvd b" for b
    using block_avail_free [OF F(1) that] True by (simp add: block_avail_def)
  define ni pi where "ni = search_down m q" and "pi = search_up m (q + 1) (M - (q + 1))"
  have r': "r = (if ni < 0 then (if pi < M then int (pi * 8) else -1)
               else if pi \<ge> M then ni * 8
               else if int pi - int q < int q - ni then int (pi * 8) else ni * 8)"
    unfolding r(1) block_free_find_def Let_def r(2) [symmetric] ni_def pi_def q_def M_def
    using True pref(1) by simp
  note down = search_down_correct [OF ni_def [symmetric]]
  have up: "q < pi" "pi \<le> M" "pi < M \<Longrightarrow> m ! pi = 0xff"
    "\<And>j. q < j \<Longrightarrow> j < pi \<Longrightarrow> m ! j \<noteq> 0xff"
    using search_up_correct [OF pi_def [symmetric]] q(3) by auto
  have blocks: "\<exists>c < M. b = 8 * c" if "F dvd b" "b < ndblk" for b
    using that True q by (auto simp: dvd_def)
  show ?thesis
  proof (cases "ni < 0")
    case neg: True
    then have none: "\<And>k. k \<le> q \<Longrightarrow> m ! k \<noteq> 0xff" using down by auto
    show ?thesis
    proof (cases "pi < M")
      case True
      then have "r = int (8 * pi)" using r' neg by simp
      moreover have "range_free m (8 * pi) F" "F dvd 8 * pi" "8 * pi < ndblk"
        using rf [of "8 * pi"] up(3) True \<open>F = 8\<close> q by auto
      moreover have "\<bar>int pref - int (8 * pi)\<bar> \<le> \<bar>int pref - int b\<bar>"
        if b: "F dvd b" "b < ndblk" "range_free m b F" for b
      proof -
        obtain c where c: "c < M" "b = 8 * c" using blocks b by blast
        then have "m ! c = 0xff" using rf [OF b(1)] b(3) by simp
        then have "\<not> c \<le> q" using none by blast
        moreover have "\<not> c < pi" using \<open>m ! c = 0xff\<close> up(4) [of c] calculation by fastforce
        ultimately show ?thesis using c q up(1) by linarith
      qed
      ultimately show ?thesis by blast
    next
      case False
      then have "r = -1" using r' neg by simp
      moreover have "\<not> range_free m b F" if b: "F dvd b" "b < ndblk" for b
      proof
        assume "range_free m b F"
        obtain c where c: "c < M" "b = 8 * c" using blocks b by blast
        then have "m ! c = 0xff" using rf [OF b(1)] \<open>range_free m b F\<close> by simp
        then show False using none [of c] up(4) [of c] c False by force
      qed
      ultimately show ?thesis by blast
    qed
  next
    case pos: False
    then obtain k where k: "ni = int k" "k \<le> q" "m ! k = 0xff"
      "\<And>j. k < j \<Longrightarrow> j \<le> q \<Longrightarrow> m ! j \<noteq> 0xff" using down by auto
    define p where "p = (if pi < M \<and> int pi - int q < int q - int k then pi else k)"
    have "r = int (8 * p)" using r' pos k(1) by (auto simp: p_def)
    moreover have "range_free m (8 * p) F" "F dvd 8 * p" "8 * p < ndblk"
      using rf [of "8 * p"] up(3) k(2,3) \<open>F = 8\<close> q by (auto simp: p_def)
    moreover have "\<bar>int pref - int (8 * p)\<bar> \<le> \<bar>int pref - int b\<bar>"
      if b: "F dvd b" "b < ndblk" "range_free m b F" for b
    proof -
      obtain c where c: "c < M" "b = 8 * c" using blocks b by blast
      then have "m ! c = 0xff" using rf [OF b(1)] b(3) by simp
      then have "c \<le> k \<or> pi \<le> c" using k(4) [of c] up(4) [of c] by force
      then show ?thesis
        using c q up(1) k(2) unfolding p_def
        by (cases "pi < M \<and> int pi - int q < int q - int k"; simp; linarith)
    qed
    ultimately show ?thesis by blast
  qed
qed

corollary block_free_find_preferred:
  assumes F: "F \<in> {1, 2, 4, 8}" "F dvd ndblk" and pref: "pref < ndblk" "F dvd pref"
    and tail: "F = 4 \<Longrightarrow> \<not> 8 dvd ndblk \<Longrightarrow> \<not> range_free m ndblk 4"
    and free: "range_free m pref F"
  shows "block_free_find F m ndblk pref = int pref"
proof -
  have "pref = pref - pref mod F" using pref(2) by simp
  from block_free_find_nearest [OF F pref tail refl this] free pref show ?thesis by force
qed

section \<open>A block with enough free frags is found\<close>

text \<open>\<open>fits m i n p k\<close>: \<open>k\<close> free frags at \<open>p\<close>, inside the \<open>n\<close> frags from \<open>i\<close>.\<close>

definition fits :: "bytes \<Rightarrow> nat \<Rightarrow> nat \<Rightarrow> nat \<Rightarrow> nat \<Rightarrow> bool" where
  "fits m i n p k \<longleftrightarrow> i \<le> p \<and> p + k \<le> i + n \<and> range_free m p k"

lemma range_free_0 [simp]: "range_free m p 0"
  by (auto simp: range_free_def)

lemma range_free_extend:
  "range_free m p n \<Longrightarrow> bit_val m (p + n) \<Longrightarrow> range_free m p (Suc n)"
  by (auto simp: range_free_def less_Suc_eq)

lemma range_free_shorter: "range_free m p n \<Longrightarrow> k \<le> n \<Longrightarrow> range_free m p k"
  by (auto simp: range_free_def)

lemma first_fit_correct:
  assumes "freehere < k" "freehere \<le> pos" "range_free m (pos - freehere) freehere"
  shows "case first_fit m k pos freehere n of
      None \<Rightarrow> \<forall>p. \<not> fits m (pos - freehere) (freehere + n) p k
    | Some p \<Rightarrow> fits m (pos - freehere) (freehere + n) p k"
  using assms
proof (induction n arbitrary: pos freehere)
  case 0
  then show ?case by (auto simp: fits_def)
next
  case (Suc n)
  have eq: "Suc pos - Suc freehere = pos - freehere" by simp
  show ?case
  proof (cases "bit_val m pos")
    case True
    have run: "range_free m (pos - freehere) (Suc freehere)"
      by (rule range_free_extend [OF Suc.prems(3)]) (use True Suc.prems(2) in simp)
    show ?thesis
    proof (cases "Suc freehere = k")
      case eqk: True
      then show ?thesis using True run by (simp add: fits_def)
    next
      case False
      have "case first_fit m k (Suc pos) (Suc freehere) n of
          None \<Rightarrow> \<forall>p. \<not> fits m (Suc pos - Suc freehere) (Suc freehere + n) p k
        | Some p \<Rightarrow> fits m (Suc pos - Suc freehere) (Suc freehere + n) p k"
        by (rule Suc.IH) (use Suc.prems run False in simp_all)
      then show ?thesis using True False by (simp split: option.splits)
    qed
  next
    case False
    have IH: "case first_fit m k (Suc pos) 0 n of
        None \<Rightarrow> \<forall>p. \<not> fits m (Suc pos) n p k | Some p \<Rightarrow> fits m (Suc pos) n p k"
      using Suc.IH [of 0 "Suc pos"] Suc.prems(1) by (simp split: option.splits)
    have old: "\<not> fits m (pos - freehere) (freehere + Suc n) p k" if "\<not> fits m (Suc pos) n p k" for p
    proof
      assume f: "fits m (pos - freehere) (freehere + Suc n) p k"
      have "p \<le> pos" using f that Suc.prems(2) by (auto simp: fits_def)
      moreover have "pos < p + k" using f Suc.prems(1,2) by (auto simp: fits_def)
      ultimately show False using f False by (auto simp: fits_def range_free_def)
    qed
    show ?thesis
    proof (cases "first_fit m k (Suc pos) 0 n")
      case None
      then show ?thesis using IH False old by simp
    next
      case (Some p)
      then show ?thesis using IH False Suc.prems(2) by (auto simp: fits_def)
    qed
  qed
qed

lemma time_search_correct:
  assumes "0 < k"
  shows "case time_search F m k is of
      None \<Rightarrow> \<forall>i \<in> set is. \<forall>p. \<not> fits m i F p k
    | Some p \<Rightarrow> \<exists>i \<in> set is. fits m i F p k"
proof (induction "is")
  case Nil
  then show ?case by simp
next
  case (Cons i xs)
  have "case first_fit m k i 0 F of None \<Rightarrow> \<forall>p. \<not> fits m i F p k | Some p \<Rightarrow> fits m i F p k"
    using first_fit_correct [of 0 k i m F] assms by (simp split: option.splits)
  then show ?case using Cons
    by (auto split: option.splits)
qed

text \<open>The addresses tried are those of the blocks of the group.\<close>

lemma fit_addrs_set:
  assumes "0 < F" "F dvd pref" "pref \<le> ndblk"
  shows "set (fit_addrs F pref ndblk) = {b. F dvd b \<and> b < ndblk}"
proof -
  obtain q where q: "pref = F * q" using assms(2) by (auto simp: dvd_def)
  have less: "k < (ndblk - pref + F - 1) div F \<longleftrightarrow> pref + F * k < ndblk" for k
  proof -
    have "k < (ndblk - pref + F - 1) div F \<longleftrightarrow> Suc k * F \<le> ndblk - pref + F - 1"
      using assms(1) by (metis Suc_le_eq less_eq_div_iff_mult_less_eq)
    also have "\<dots> \<longleftrightarrow> F * k < ndblk - pref"
      using assms(1) by (auto simp: algebra_simps)
    also have "\<dots> \<longleftrightarrow> pref + F * k < ndblk" by auto
    finally show ?thesis .
  qed
  have up: "(\<lambda>k. pref + F * k) ` {k. k < (ndblk - pref + F - 1) div F} =
      {b. F dvd b \<and> pref \<le> b \<and> b < ndblk}"
  proof (intro set_eqI iffI)
    fix b assume "b \<in> {b. F dvd b \<and> pref \<le> b \<and> b < ndblk}"
    then obtain k where "b = pref + F * k"
      using q assms(2) by (metis (mono_tags, lifting) dvdE dvd_diff_nat le_add_diff_inverse mem_Collect_eq)
    then show "b \<in> (\<lambda>k. pref + F * k) ` {k. k < (ndblk - pref + F - 1) div F}"
      using less \<open>b \<in> _\<close> by auto
  next
    fix b assume "b \<in> (\<lambda>k. pref + F * k) ` {k. k < (ndblk - pref + F - 1) div F}"
    then obtain k where "b = pref + F * k" "pref + F * k < ndblk" using less by auto
    then show "b \<in> {b. F dvd b \<and> pref \<le> b \<and> b < ndblk}" using assms(2) by simp
  qed
  have down: "(\<lambda>k. F * k) ` {k. k < pref div F} = {b. F dvd b \<and> b < pref}"
    using q assms(1) by (auto simp: dvd_def)
  show ?thesis
    unfolding fit_addrs_def using up down assms(3)
    by (auto simp: atLeast0LessThan lessThan_def simp del: upt_Suc)
qed

theorem fragblock_find_time:
  assumes "F \<in> {1, 2, 4, 8}" "1 \<le> k" "k \<le> F" "preferred \<le> unat (cg_ndblk c)"
  shows "block_fragblock_find False F c preferred k = -1 \<and>
      (\<forall>b p. F dvd b \<longrightarrow> b < unat (cg_ndblk c) \<longrightarrow> \<not> fits (cg_blksfree c) b F p k) \<or>
    (\<exists>b p. block_fragblock_find False F c preferred k = int p \<and> F dvd b \<and>
      b < unat (cg_ndblk c) \<and> fits (cg_blksfree c) b F p k)"
proof -
  let ?p = "preferred - preferred mod F" and ?n = "unat (cg_ndblk c)"
  have F: "0 < F" using assms(1) by auto
  have p: "F dvd ?p" by (simp add: minus_mod_eq_mult_div)
  have pn: "?p \<le> ?n" by (rule le_trans [OF diff_le_self assms(4)])
  note addrs = fit_addrs_set [OF F p pn]
  have r: "block_fragblock_find False F c preferred k =
      (case time_search F (cg_blksfree c) k (fit_addrs F ?p ?n) of None \<Rightarrow> -1 | Some pos \<Rightarrow> int pos)"
    using assms(2,3) pn by (simp add: block_fragblock_find_def Let_def)
  show ?thesis
    using time_search_correct [of k "fit_addrs F ?p ?n" "cg_blksfree c" F] assms(2)
    unfolding r addrs by (cases "time_search F (cg_blksfree c) k (fit_addrs F ?p ?n)") auto
qed

text \<open>With \<open>OPT_SPACE\<close> the place that is returned has room for the frags, too.\<close>

lemma min_check_correct:
  assumes "0 < k" "freehere \<le> pos" "range_free m (pos - freehere) freehere"
  shows "min_check k pos freehere best = Inl p \<Longrightarrow> fits m (pos - freehere) freehere p k"
    and "min_check k pos freehere best = Inr best' \<Longrightarrow>
      best' = best \<or> (\<exists>p. snd best' = int p \<and> fits m (pos - freehere) freehere p k)"
proof -
  have fit: "fits m (pos - freehere) freehere (pos - freehere) k" if "k \<le> freehere"
    using assms that by (simp add: fits_def range_free_shorter)
  show "fits m (pos - freehere) freehere p k" if "min_check k pos freehere best = Inl p"
    using that fit by (auto simp: min_check_def split: if_splits)
  show "best' = best \<or> (\<exists>p. snd best' = int p \<and> fits m (pos - freehere) freehere p k)"
    if c: "min_check k pos freehere best = Inr best'"
  proof (cases "best' = best")
    case False
    then have "k \<le> freehere" "snd best' = int (pos - freehere)"
      using c by (auto simp: min_check_def split: if_splits)
    then show ?thesis using fit by blast
  qed simp
qed

lemma best_fit_correct:
  assumes "0 < k" "freehere \<le> pos" "range_free m (pos - freehere) freehere"
  shows "case best_fit m k pos freehere n best of
      Inl p \<Rightarrow> fits m (pos - freehere) (freehere + n) p k
    | Inr best' \<Rightarrow> best' = best \<or>
        (\<exists>p. snd best' = int p \<and> fits m (pos - freehere) (freehere + n) p k)"
  using assms
proof (induction n arbitrary: pos freehere best)
  case 0
  then show ?case
    using min_check_correct [OF 0] by (auto split: sum.splits)
next
  case (Suc n)
  have wide: "fits m (pos - freehere) (freehere + Suc n) p k"
    if "fits m (pos - freehere) freehere p k \<or> fits m (Suc pos) n p k" for p
    using that Suc.prems(2) by (auto simp: fits_def)
  show ?case
  proof (cases "bit_val m pos")
    case True
    have run: "range_free m (Suc pos - Suc freehere) (Suc freehere)"
      using range_free_extend [OF Suc.prems(3)] True Suc.prems(2) by simp
    show ?thesis
      using Suc.IH [of "Suc freehere" "Suc pos" best] Suc.prems True run
      by (auto split: sum.splits)
  next
    case False
    show ?thesis
    proof (cases "min_check k pos freehere best")
      case (Inl p)
      then show ?thesis
        using False wide min_check_correct(1) [OF Suc.prems] by simp
    next
      case (Inr b)
      have "case best_fit m k (Suc pos) 0 n b of
          Inl p \<Rightarrow> fits m (Suc pos) n p k
        | Inr best' \<Rightarrow> best' = b \<or> (\<exists>p. snd best' = int p \<and> fits m (Suc pos) n p k)"
        using Suc.IH [of 0 "Suc pos" b] Suc.prems(1) by (auto split: sum.splits)
      then show ?thesis
        using False Inr wide min_check_correct(2) [OF Suc.prems Inr]
        by (auto split: sum.splits)
    qed
  qed
qed

lemma space_search_correct:
  assumes "0 < k"
    and "snd best = -1 \<or> (\<exists>i p. F dvd i \<and> i < N \<and> snd best = int p \<and> fits m i F p k)"
    and "\<And>i. i \<in> set is \<Longrightarrow> F dvd i \<and> i < N"
  shows "space_search F m k is best = -1 \<or>
    (\<exists>i p. F dvd i \<and> i < N \<and> space_search F m k is best = int p \<and> fits m i F p k)"
  using assms(2,3)
proof (induction "is" arbitrary: best)
  case Nil
  then show ?case by simp
next
  case (Cons i xs)
  have i: "F dvd i" "i < N" using Cons.prems(2) by simp_all
  have bf: "case best_fit m k i 0 F best of Inl p \<Rightarrow> fits m i F p k
    | Inr best' \<Rightarrow> best' = best \<or> (\<exists>p. snd best' = int p \<and> fits m i F p k)"
    using best_fit_correct [OF assms(1), of 0 i m F best] by (auto split: sum.splits)
  show ?case
  proof (cases "best_fit m k i 0 F best")
    case (Inl p)
    then show ?thesis using bf i by auto
  next
    case (Inr b)
    then have "snd b = -1 \<or> (\<exists>i p. F dvd i \<and> i < N \<and> snd b = int p \<and> fits m i F p k)"
      using bf i Cons.prems(1) by auto
    then show ?thesis using Cons.IH [of b] Cons.prems(2) Inr by simp
  qed
qed

lemma usable_size_bounds: "k \<le> usable_size frsum k n \<and> usable_size frsum k n \<le> k + n"
proof (induction n arbitrary: k)
  case 0
  then show ?case by simp
next
  case (Suc n)
  have "Suc k \<le> usable_size frsum (Suc k) n" using Suc [of "Suc k"] by (rule conjunct1)
  then show ?case using Suc [of "Suc k"] by (auto simp del: Suc_le_eq)
qed

theorem fragblock_find_sound:
  assumes "F \<in> {1, 2, 4, 8}" "1 \<le> k" "k \<le> F" "preferred \<le> unat (cg_ndblk c)"
    and r: "block_fragblock_find space F c preferred k \<noteq> -1"
  shows "\<exists>b p. block_fragblock_find space F c preferred k = int p \<and> F dvd b \<and>
      b < unat (cg_ndblk c) \<and> fits (cg_blksfree c) b F p k"
proof (cases space)
  case False
  then show ?thesis using fragblock_find_time [OF assms(1-4)] r by auto
next
  case True
  let ?p = "preferred - preferred mod F" and ?n = "unat (cg_ndblk c)"
  let ?k = "usable_size (cg_frsum c) k (F - k)"
  have F: "0 < F" using assms(1) by auto
  have p: "F dvd ?p" by (simp add: minus_mod_eq_mult_div)
  have pn: "?p \<le> ?n" by (rule le_trans [OF diff_le_self assms(4)])
  note addrs = fit_addrs_set [OF F p pn]
  have k: "k \<le> ?k" using usable_size_bounds [of k] by simp
  have e: "block_fragblock_find space F c preferred k =
      space_search F (cg_blksfree c) ?k (fit_addrs F ?p ?n) (F, -1)"
    using True assms(2,3) pn by (simp add: block_fragblock_find_def Let_def)
  have pos: "0 < ?k" using k assms(2) by linarith
  have "space_search F (cg_blksfree c) ?k (fit_addrs F ?p ?n) (F, -1) = -1 \<or>
    (\<exists>i p. F dvd i \<and> i < ?n \<and>
      space_search F (cg_blksfree c) ?k (fit_addrs F ?p ?n) (F, -1) = int p \<and>
      fits (cg_blksfree c) i F p ?k)"
    by (rule space_search_correct [OF pos]) (simp_all add: addrs)
  then obtain b q where b: "F dvd b" "b < ?n" "block_fragblock_find space F c preferred k = int q"
    "fits (cg_blksfree c) b F q ?k"
    using r unfolding e by blast
  have "fits (cg_blksfree c) b F q k"
    using b(4) k by (auto simp: fits_def range_free_shorter)
  then show ?thesis using b by blast
qed

end
