(* ===== verification/Alloc.thy ===== *)
theory Alloc
  imports Cg_Correct Free_Map
begin

text \<open>
  The block and frag allocator of fs/alloc.c: the counters of a cylinder group and of the
  file system, the cluster map, and the four operations \<open>block_allocate\<close>,
  \<open>block_deallocate\<close>, \<open>frags_allocate\<close> and \<open>frags_deallocate\<close>. The adjustment of a
  counter is a word that is added to it: -1 is the largest word.
\<close>

section \<open>Counters\<close>

definition upd_cg :: "nat \<Rightarrow> (cg \<Rightarrow> cg) \<Rightarrow> fsys \<Rightarrow> fsys" where
  "upd_cg p f s = set_cg p (f (cg_at s p)) s"

definition upd_sb :: "(superblock \<Rightarrow> superblock) \<Rightarrow> fsys \<Rightarrow> fsys" where
  "upd_sb f s = s\<lparr>sb := f (sb s)\<rparr>"

text \<open>\<open>fs_cs(fs, cgx)\<close> as the place of an assignment.\<close>

definition upd_cs :: "u32 \<Rightarrow> (csum \<Rightarrow> csum) \<Rightarrow> superblock \<Rightarrow> superblock" where
  "upd_cs cgx f fs = fs\<lparr>fs_csp := (fs_csp fs)[unat cgx := f (fs_csp fs ! unat cgx)]\<rparr>"

definition add_nbfree :: "u32 \<Rightarrow> csum \<Rightarrow> csum" where
  "add_nbfree a c = c\<lparr>cs_nbfree := cs_nbfree c + a\<rparr>"

definition add_nffree :: "u32 \<Rightarrow> csum \<Rightarrow> csum" where
  "add_nffree a c = c\<lparr>cs_nffree := cs_nffree c + a\<rparr>"

definition upd_totals :: "(csum \<Rightarrow> csum) \<Rightarrow> superblock \<Rightarrow> superblock" where
  "upd_totals f fs =
     (let fs = fs\<lparr>fs_cstotal := f (fs_cstotal fs)\<rparr>
      in if fs_updated fs then fs\<lparr>fs_new_cstotal := f (fs_new_cstotal fs)\<rparr> else fs)"

definition add_totals :: "(csum \<Rightarrow> csum) \<Rightarrow> superblock \<Rightarrow> superblock" where
  "add_totals f fs = (upd_totals f fs)\<lparr>fs_fmod := fs_fmod fs + 1\<rparr>"

text \<open>The rotational tables: \<open>cg_blktot\<close> has an entry per cylinder, \<open>cg_blks\<close> one per
  rotational position of each cylinder.\<close>

definition adjust_rotation :: "superblock \<Rightarrow> u32 \<Rightarrow> u32 \<Rightarrow> cg \<Rightarrow> cg" where
  "adjust_rotation fs block adjust c =
     (let cylinder = unat (cbtocylno fs block);
          pos = cylinder * unat (fs_nrpos fs) + unat (cbtorpos fs block)
      in c\<lparr>cg_blks := (cg_blks c)[pos := cg_blks c ! pos + ucast adjust],
           cg_blktot := (cg_blktot c)[cylinder := cg_blktot c ! cylinder + adjust]\<rparr>)"

definition adjust_blks_free :: "nat \<Rightarrow> u32 \<Rightarrow> u32 \<Rightarrow> u32 \<Rightarrow> fsys \<Rightarrow> fsys" where
  "adjust_blks_free mycg cgx block adjust s =
     (let s = upd_sb (upd_cs cgx (add_nbfree adjust)) s;
          s = upd_cg mycg (adjust_rotation (sb s) block adjust) s;
          s = upd_cg mycg (\<lambda>c. c\<lparr>cg_cs := add_nbfree adjust (cg_cs c)\<rparr>) s
      in upd_sb (add_totals (add_nbfree adjust)) s)"

definition adjust_frags_free :: "nat \<Rightarrow> u32 \<Rightarrow> u32 \<Rightarrow> fsys \<Rightarrow> fsys" where
  "adjust_frags_free mycg cgx adjust s =
     (let s = upd_sb (upd_cs cgx (add_nffree adjust)) s;
          s = upd_cg mycg (\<lambda>c. c\<lparr>cg_cs := add_nffree adjust (cg_cs c)\<rparr>) s
      in upd_sb (add_totals (add_nffree adjust)) s)"

definition frsum_add :: "nat \<Rightarrow> u32 \<Rightarrow> cg \<Rightarrow> cg" where
  "frsum_add n adjust c =
     (if n \<noteq> 0 then c\<lparr>cg_frsum := (cg_frsum c)[n := cg_frsum c ! n + adjust]\<rparr> else c)"

definition adjust_frsum :: "nat \<Rightarrow> nat \<Rightarrow> u32 \<Rightarrow> fsys \<Rightarrow> fsys" where
  "adjust_frsum mycg n adjust s = upd_cg mycg (frsum_add n adjust) s"

section \<open>Clusters of free blocks\<close>

text \<open>The set bits from \<open>i\<close> up, at most \<open>n\<close> of them, and those below \<open>i\<close>.\<close>

fun run_up :: "bytes \<Rightarrow> nat \<Rightarrow> nat \<Rightarrow> nat" where
  "run_up m i 0 = 0"
| "run_up m i (Suc n) = (if bit_val m i then Suc (run_up m (Suc i) n) else 0)"

fun run_down :: "bytes \<Rightarrow> nat \<Rightarrow> nat \<Rightarrow> nat" where
  "run_down m i 0 = 0"
| "run_down m 0 (Suc n) = 0"
| "run_down m (Suc i) (Suc n) = (if bit_val m i then Suc (run_down m i n) else 0)"

definition sum_add :: "nat \<Rightarrow> u32 \<Rightarrow> cg \<Rightarrow> cg" where
  "sum_add i a c = c\<lparr>cg_clustersum := (cg_clustersum c)[i := cg_clustersum c ! i + a]\<rparr>"

text \<open>The search forward ends at \<open>cg_nclusterblks\<close>, the one backward at the first block; both
  look at \<open>contigsumsize\<close> blocks at most.\<close>

definition clusteracct_cg :: "superblock \<Rightarrow> nat \<Rightarrow> u32 \<Rightarrow> cg \<Rightarrow> cg" where
  "clusteracct_cg fs blkno adjust c =
     (let contigsumsize = unat (fs_contigsumsize fs);
          c = (if 0 <s adjust then c\<lparr>cg_clustersfree := bit_set (cg_clustersfree c) blkno\<rparr>
               else c\<lparr>cg_clustersfree := bit_clr (cg_clustersfree c) blkno\<rparr>);
          start = blkno + 1;
          limit = min (start + contigsumsize) (unat (cg_nclusterblks c));
          forw = run_up (cg_clustersfree c) start (limit - start);
          back = run_down (cg_clustersfree c) blkno contigsumsize;
          i = min (back + forw + 1) contigsumsize;
          c = sum_add i adjust c;
          c = (if back > 0 then sum_add back (- adjust) c else c)
      in if forw > 0 then sum_add forw (- adjust) c else c)"

definition ffs_clusteracct :: "nat \<Rightarrow> u32 \<Rightarrow> u32 \<Rightarrow> fsys \<Rightarrow> fsys" where
  "ffs_clusteracct mycg block adjust s =
     (if fs_contigsumsize (sb s) \<le>s 0 then s
      else upd_cg mycg
             (clusteracct_cg (sb s) (unat (fragstoblks (sb s) block)) adjust) s)"

section \<open>Blocks\<close>

text \<open>The group with the most free blocks, the first one of them.\<close>

fun best_cg :: "csum list \<Rightarrow> u32 \<Rightarrow> u32 \<Rightarrow> u32 \<Rightarrow> nat \<Rightarrow> u32 \<times> u32" where
  "best_cg cs cgx bfree index 0 = (cgx, bfree)"
| "best_cg cs cgx bfree index (Suc n) =
     (if bfree < cs_nbfree (cs ! unat index)
      then best_cg cs index (cs_nbfree (cs ! unat index)) (index + 1) n
      else best_cg cs cgx bfree (index + 1) n)"

definition find_block :: "superblock \<Rightarrow> cg \<Rightarrow> u32 \<Rightarrow> int" where
  "find_block fs c preferred =
     block_free_find (fpb fs) (cg_blksfree c) (unat (cg_ndblk c)) (unat preferred)"

definition no_blocks :: "superblock \<Rightarrow> bool" where
  "no_blocks fs \<longleftrightarrow>
     fs_updated fs \<and> cs_nbfree (fs_new_cstotal fs) = 0 \<or>
     \<not> fs_updated fs \<and> cs_nbfree (fs_cstotal fs) = 0"

text \<open>The end of \<open>block_allocate\<close>: the block is taken.\<close>

definition take_block :: "u32 \<Rightarrow> int \<Rightarrow> fsys \<Rightarrow> (u32 \<times> fsys) option" where
  "take_block cgx block s =
     do {
       (r, s) \<leftarrow> cache_cg_write cgx s;
       case r of None \<Rightarrow> Some (0, s)
       | Some mycg \<Rightarrow>
           (let b = of_int block;
                s = upd_cg mycg (\<lambda>c. c\<lparr>cg_blksfree :=
                      block_alloc (fpb (sb s)) (cg_blksfree c) (nat block)\<rparr>) s;
                s = adjust_blks_free mycg cgx b (-1) s;
                s = ffs_clusteracct mycg b (-1) s
            in Some (b + cgbase (sb s) cgx, s))
     }"

text \<open>\<open>block_free_find\<close> reads through the pointer that \<open>cache_cg\<close> returned: NULL is
  undefined behaviour.\<close>

definition block_allocate :: "u32 \<Rightarrow> fsys \<Rightarrow> (u32 \<times> fsys) option" where
  "block_allocate nearblock s =
     do {
       let cgx = dtog (sb s) nearblock;
       (r, s) \<leftarrow> cache_cg cgx s;
       if no_blocks (sb s) then Some (0, s) else
       do {
         mycg \<leftarrow> r;
         let block = find_block (sb s) (cg_at s mycg) (dtogd (sb s) nearblock);
         if block \<noteq> -1 then take_block cgx block s
         else
           (let (cgx, bfree) =
                  best_cg (fs_csp (sb s)) cgx 0 0 (unat (fs_ncg (sb s)))
            in if bfree = 0 then Some (0, set_ronly s)
               else do {
                 (r, s) \<leftarrow> cache_cg cgx s;
                 mycg \<leftarrow> r;
                 let block = find_block (sb s) (cg_at s mycg) 0;
                 if block = -1 then Some (0, set_ronly s) else take_block cgx block s
               })
       }
     }"

definition block_deallocate :: "u32 \<Rightarrow> fsys \<Rightarrow> (unit \<times> fsys) option" where
  "block_deallocate block s =
     do {
       let cgx = dtog (sb s) block;
       (r, s) \<leftarrow> cache_cg_write cgx s;
       case r of None \<Rightarrow> Some ((), s)
       | Some mycg \<Rightarrow>
           (let cblock = dtogd (sb s) block;
                s = upd_cg mycg (\<lambda>c. c\<lparr>cg_blksfree :=
                      block_dealloc (fpb (sb s)) (cg_blksfree c) (unat cblock)\<rparr>) s;
                s = adjust_blks_free mycg cgx cblock 1 s;
                s = ffs_clusteracct mycg cblock 1 s
            in Some ((), s))
     }"

section \<open>Frags\<close>

fun set_bits :: "nat \<Rightarrow> nat \<Rightarrow> bytes \<Rightarrow> bytes" where
  "set_bits i 0 m = m"
| "set_bits i (Suc n) m = set_bits (Suc i) n (bit_set m i)"

fun clr_bits :: "nat \<Rightarrow> nat \<Rightarrow> bytes \<Rightarrow> bytes" where
  "clr_bits i 0 m = m"
| "clr_bits i (Suc n) m = clr_bits (Suc i) n (bit_clr m i)"

text \<open>The loop that frees the low frags goes downward.\<close>

fun set_bits_down :: "nat \<Rightarrow> nat \<Rightarrow> bytes \<Rightarrow> bytes" where
  "set_bits_down i 0 m = m"
| "set_bits_down i (Suc n) m = set_bits_down (i - 1) n (bit_set m (i - 1))"

definition upd_map :: "nat \<Rightarrow> (bytes \<Rightarrow> bytes) \<Rightarrow> fsys \<Rightarrow> fsys" where
  "upd_map mycg f s = upd_cg mycg (\<lambda>c. c\<lparr>cg_blksfree := f (cg_blksfree c)\<rparr>) s"

text \<open>The free frags of the block just below and just above the given ones.\<close>

definition free_below :: "nat \<Rightarrow> bytes \<Rightarrow> nat \<Rightarrow> nat" where
  "free_below F m frag = run_down m frag (frag mod F)"

definition free_above :: "nat \<Rightarrow> bytes \<Rightarrow> nat \<Rightarrow> nat \<Rightarrow> nat" where
  "free_above F m frag frags = run_up m (frag + frags) (F - (frag mod F + frags))"

text \<open>The result is 1 for a failure. The low and high frags are freed again after the whole
  block was allocated.\<close>

definition frags_allocate :: "u32 \<Rightarrow> u32 \<Rightarrow> fsys \<Rightarrow> (int \<times> fsys) option" where
  "frags_allocate fragstart frags s =
     do {
       let cgx = dtog (sb s) fragstart;
       (r, s) \<leftarrow> cache_cg_write cgx s;
       case r of None \<Rightarrow> Some (1, s)
       | Some mycg \<Rightarrow>
           (let F = fpb (sb s);
                m = cg_blksfree (cg_at s mycg);
                cgfragstart = unat (dtogd (sb s) fragstart);
                blkstart = fragstart - of_nat (cgfragstart mod F);
                count_low = free_below F m cgfragstart;
                count_high = free_above F m cgfragstart (unat frags);
                s = adjust_frsum mycg count_low 1 s;
                s = adjust_frsum mycg count_high 1 s
            in if frags + of_nat count_low + of_nat count_high = fs_frag (sb s) then
                 do {
                   (cgblkstart, s) \<leftarrow> block_allocate blkstart s;
                   if cgblkstart \<noteq> blkstart then
                     do {
                       (u, s) \<leftarrow> (if cgblkstart \<noteq> 0 then block_deallocate cgblkstart s
                                 else Some ((), s));
                       let s = adjust_frags_free mycg cgx frags s;
                       let s = adjust_frsum mycg count_low (-1) s;
                       let s = adjust_frsum mycg count_high (-1) s;
                       Some (1, set_ronly s)
                     }
                   else
                     (let s = upd_map mycg (set_bits_down cgfragstart count_low) s;
                          s = upd_map mycg (set_bits (cgfragstart + unat frags) count_high) s
                      in Some (0, adjust_frags_free mycg cgx (fs_frag (sb s) - frags) s))
                 }
               else
                 (let s = adjust_frsum mycg (unat frags + count_low + count_high) (-1) s;
                      s = upd_map mycg (clr_bits cgfragstart (unat frags)) s
                  in Some (0, adjust_frags_free mycg cgx (- frags) s)))
     }"

definition frags_deallocate :: "u32 \<Rightarrow> u32 \<Rightarrow> fsys \<Rightarrow> (unit \<times> fsys) option" where
  "frags_deallocate fragstart frags s =
     (if frags = 0 then Some ((), s) else
      do {
        let cgx = dtog (sb s) fragstart;
        (r, s) \<leftarrow> cache_cg_write cgx s;
        case r of None \<Rightarrow> Some ((), s)
        | Some mycg \<Rightarrow>
            (let F = fpb (sb s);
                 m = cg_blksfree (cg_at s mycg);
                 cgfragstart = unat (dtogd (sb s) fragstart);
                 blkstart = fragstart - of_nat (cgfragstart mod F);
                 count_low = free_below F m cgfragstart;
                 count_high = free_above F m cgfragstart (unat frags);
                 s = adjust_frsum mycg count_low (-1) s;
                 s = adjust_frsum mycg count_high (-1) s
             in if frags + of_nat count_low + of_nat count_high = fs_frag (sb s) then
                  do {
                    (u, s) \<leftarrow> block_deallocate blkstart s;
                    Some ((), adjust_frags_free mycg cgx (frags - fs_frag (sb s)) s)
                  }
                else
                  (let s = adjust_frsum mycg (unat frags + count_low + count_high) 1 s;
                       s = upd_map mycg (set_bits cgfragstart (unat frags)) s
                   in Some ((), adjust_frags_free mycg cgx frags s)))
      })"

end
