(* ===== verification/Map_Properties.thy ===== *)
theory Map_Properties
  imports Sample Alloc
begin

text \<open>
  What the cylinder group cache and the searches in the free map promise.
\<close>

section \<open>The cylinder group cache\<close>

lemma sample_cg_opened:
  "cg_inv (opened (\<lambda>a. replicate 512 0) sample_cg) []"
  "cg_view (opened (\<lambda>a. replicate 512 0) sample_cg) 0 = sample_cg"
  "fs_ncg (sb (opened (\<lambda>a. replicate 512 0) sample_cg)) = 1"
  "cgtod (sb (opened (\<lambda>a. replicate 512 0) sample_cg)) 0 = 24"
  by (simp_all add: opened_cg_inv opened_state)
    (simp_all add: sample_cg_def opened_cg_inv opened_state sample_sb_def cgtod_def cgstart_def
      cgbase_def)

text \<open>C28: \<open>cache_cg\<close> returns the block of the group asked for, as it was left by the last
  change, whether the group was in one of the slots, took a free slot, or evicted another
  group; no group changes.\<close>

theorem cache_cg_reads:
  assumes "cg_inv s E" "c < fs_ncg (sb s)"
  shows "\<exists>p t E'. cache_cg c s = Some (Some p, t) \<and> cg_inv t E' \<and> cg_at t p = cg_view s c \<and>
    (\<forall>a < fs_ncg (sb s). cg_view t a = cg_view s a) \<and> view t = view s"
proof -
  obtain e t E' where t: "cache_cg c s = Some (Some (fst e), t)" "cg_fetched s c t E' e"
    using cache_cg_correct [OF assms] by blast
  then show ?thesis using cg_frame_view [of s t] by (auto simp: cg_fetched_def cg_same_view_def)
qed

lemma cache_cg_reads_witness:
  "\<exists>p t. cache_cg 0 (opened (\<lambda>a. replicate 512 0) sample_cg) = Some (Some p, t) \<and>
     cg_at t p = sample_cg"
  using cache_cg_reads [OF sample_cg_opened(1), of 0] sample_cg_opened(2,3) by auto

text \<open>C21: a block stored through the pointer of \<open>cache_cg_write\<close> is the block of its group
  from then on, and the other groups stay as they were.\<close>

theorem cache_cg_write_stores:
  assumes "cg_inv s E" "c < fs_ncg (sb s)" "cg_cgx x = c"
  shows "\<exists>p t E'. cache_cg_write c s = Some (Some p, t) \<and> cg_at t p = cg_view s c \<and>
    cg_inv (set_cg p x t) E' \<and>
    (\<forall>a < fs_ncg (sb s). cg_view (set_cg p x t) a = ((cg_view s)(c := x)) a)"
proof -
  obtain p t E' where t: "cache_cg_write c s = Some (Some p, t)" "cg_fetched s c t E' (p, True)"
    using cache_cg_write_correct [OF assms(1,2)] by blast
  have f: "cg_inv t E'" "(p, True) \<in> set E'" "cg_cgx x = cgx_of t (p, True)"
    "cg_at t p = cg_view s c" "cg_same_view s t" "sb t = sb s"
    using t(2) assms(3) by (simp_all add: cg_fetched_def cg_frame_def)
  then show ?thesis
    using t(1) set_cg_correct(1) [OF f(1-3)] set_cg_correct(3) [OF f(1-3)] assms(3)
    by (intro exI [of _ p] exI [of _ t] exI [of _ E']) (auto simp: cg_same_view_def)
qed

lemma cache_cg_write_stores_witness:
  "\<exists>p t. cache_cg_write 0 (opened (\<lambda>a. replicate 512 0) sample_cg) = Some (Some p, t) \<and>
     cg_view (set_cg p (sample_cg\<lparr>cg_irotor := 5\<rparr>) t) 0 = sample_cg\<lparr>cg_irotor := 5\<rparr>"
proof -
  have x: "cg_cgx (sample_cg\<lparr>cg_irotor := 5\<rparr>) = 0" by (simp add: sample_cg_def)
  show ?thesis
    using cache_cg_write_stores [OF sample_cg_opened(1) _ x] sample_cg_opened(3) by fastforce
qed

text \<open>C29: \<open>cache_cg_flush\<close> brings the block of every group on the disk up to date.\<close>

theorem cache_cg_flush_syncs:
  assumes "cg_inv s E"
  shows "\<exists>n t E'. cache_cg_flush s = Some (n, t) \<and> cg_inv t E' \<and> view t = view s \<and>
    (\<forall>c < fs_ncg (sb s). disk_cg (dev t) (cgtod (sb s) c) = cg_view s c \<and>
       cg_view t c = cg_view s c)"
proof -
  obtain n t E' where t: "cache_cg_flush s = Some (n, t)" "cg_inv t E'" "cg_same_view s t"
    "cg_frame s t" "\<forall>c < fs_ncg (sb s). disk_cg (dev t) (cgtod (sb s) c) = cg_view s c"
    using cache_cg_flush_correct [OF assms] by blast
  then show ?thesis using cg_frame_view [OF t(4)] by (auto simp: cg_same_view_def)
qed

lemma cache_cg_flush_syncs_witness:
  "\<exists>n t. cache_cg_flush (opened (\<lambda>a. replicate 512 0) sample_cg) = Some (n, t) \<and>
     disk_cg (dev t) 24 = sample_cg"
  using cache_cg_flush_syncs [OF sample_cg_opened(1)] sample_cg_opened(2-4) by auto

section \<open>Blocks in the free map\<close>

text \<open>C23: taking a free block clears the bits of its frags and no others, and giving it back
  restores the map.\<close>

theorem block_alloc_dealloc:
  assumes "F \<in> {1, 2, 4, 8}" "F dvd fpos" "fpos + F \<le> 8 * length m" "block_avail F m fpos"
  shows "(\<forall>i. bit_val (block_alloc F m fpos) i \<longleftrightarrow>
      bit_val m i \<and> \<not> (fpos \<le> i \<and> i < fpos + F)) \<and>
    \<not> block_avail F (block_alloc F m fpos) fpos \<and>
    block_dealloc F (block_alloc F m fpos) fpos = m"
proof -
  have free: "range_free m fpos F" using block_avail_free [OF assms(1,2)] assms(4) by simp
  have len: "fpos + F \<le> 8 * length (block_alloc F m fpos)" using assms(3) by simp
  note bits = block_alloc_bits [OF assms(1-3)] block_dealloc_bits [OF assms(1,2) len]
  have "F > 0" using assms(1) by auto
  then have "\<not> range_free (block_alloc F m fpos) fpos F"
    by (auto simp: range_free_def bits intro!: exI [of _ fpos])
  moreover have "block_dealloc F (block_alloc F m fpos) fpos = m"
    by (rule bytes_eq_bits) (use free in \<open>auto simp: bits range_free_def\<close>)
  ultimately show ?thesis using bits(1) block_avail_free [OF assms(1,2)] by simp
qed

lemma block_alloc_dealloc_witness:
  "block_dealloc 4 (block_alloc 4 [255, 255, 255] 12) 12 = [255, 255, 255]"
  using block_alloc_dealloc [of 4 12 "[255, 255, 255]"] by (simp add: block_avail_def)

text \<open>C22: the search for a block returns the free block closest to the preferred address, and
  -1 only when no block of the group is free.\<close>

theorem block_free_find_closest:
  assumes "F \<in> {1, 2, 4, 8}" "F dvd ndblk" "preferred - preferred mod F < ndblk"
    and "F = 4 \<Longrightarrow> \<not> 8 dvd ndblk \<Longrightarrow> \<not> range_free m ndblk 4"
  shows "block_free_find F m ndblk preferred = -1 \<and>
      (\<forall>b. F dvd b \<longrightarrow> b < ndblk \<longrightarrow> \<not> block_avail F m b) \<or>
    (\<exists>p. block_free_find F m ndblk preferred = int p \<and> F dvd p \<and> p < ndblk \<and>
      block_avail F m p \<and>
      (\<forall>b. F dvd b \<longrightarrow> b < ndblk \<longrightarrow> block_avail F m b \<longrightarrow>
        \<bar>int (preferred - preferred mod F) - int p\<bar> \<le>
        \<bar>int (preferred - preferred mod F) - int b\<bar>))"
  using block_free_find_nearest [OF assms(1,2,3) _ assms(4) refl refl] block_avail_free [OF assms(1)]
  by (simp add: dvd_minus_mod cong: conj_cong)

lemma block_free_find_closest_witness:
  "\<exists>p. block_free_find 8 [0, 255, 0, 0, 255] 40 19 = int p \<and> 8 dvd p"
proof -
  have "block_avail 8 [0, 255, 0, 0, 255] 8" by (simp add: block_avail_def)
  moreover have "\<not> (\<forall>b. 8 dvd b \<longrightarrow> b < 40 \<longrightarrow> \<not> block_avail 8 [0, 255, 0, 0, 255] b)"
    using calculation by (auto intro!: exI [of _ 8])
  ultimately show ?thesis
    using block_free_find_closest [of 8 40 19 "[0, 255, 0, 0, 255]"] by auto
qed

lemma range_free_list: "range_free m p k \<longleftrightarrow> list_all (bit_val m) [p..<p + k]"
  by (auto simp: range_free_def list_all_iff)

text \<open>C26: with the time strategy the search for \<open>k\<close> frags fails only when no block of the
  group holds \<open>k\<close> free frags in a row.\<close>

theorem fragblock_find_complete:
  assumes "F \<in> {1, 2, 4, 8}" "1 \<le> k" "k \<le> F" "preferred \<le> unat (cg_ndblk c)"
    and "F dvd b" "b < unat (cg_ndblk c)" "b \<le> p" "p + k \<le> b + F"
    and "range_free (cg_blksfree c) p k"
  shows "block_fragblock_find False F c preferred k \<noteq> -1"
  using fragblock_find_time [OF assms(1-4)] assms(5-9) by (force simp: fits_def)

lemma fragblock_find_complete_witness:
  "block_fragblock_find False 8 sample_cg 100 5 \<noteq> -1"
proof -
  have "range_free (cg_blksfree sample_cg) 90 5"
    unfolding range_free_list by code_simp
  then show ?thesis
    by (intro fragblock_find_complete [of 8 5 100 sample_cg 88 90]) (auto simp: sample_cg_def)
qed

text \<open>C27: with either strategy the frags that the search returns are free and lie in one
  block.\<close>

theorem fragblock_find_free:
  assumes "F \<in> {1, 2, 4, 8}" "1 \<le> k" "k \<le> F" "preferred \<le> unat (cg_ndblk c)"
    and "block_fragblock_find space F c preferred k \<noteq> -1"
  shows "\<exists>b p. block_fragblock_find space F c preferred k = int p \<and> F dvd b \<and>
    b < unat (cg_ndblk c) \<and> b \<le> p \<and> p + k \<le> b + F \<and> range_free (cg_blksfree c) p k"
  using fragblock_find_sound [OF assms] by (auto simp: fits_def)

lemma fragblock_find_free_witness:
  "\<exists>p. block_fragblock_find True 8 (sample_cg\<lparr>cg_ndblk := 96\<rparr>) 88 6 = int p \<and>
     range_free (cg_blksfree sample_cg) p 6"
proof -
  have "block_fragblock_find True 8 (sample_cg\<lparr>cg_ndblk := 96\<rparr>) 88 6 \<noteq> -1"
    by code_simp
  from fragblock_find_free [OF _ _ _ _ this] show ?thesis by (auto simp: sample_cg_def)
qed

end
