(* ===== verification/Inode.thy ===== *)
theory Inode
  imports Alloc
begin

text \<open>
  fs/inode.c: inodes in the frags of the disk, the tree of index blocks behind the block
  pointers of an inode (\<open>ridisk_frag\<close>, \<open>cidisk_frag\<close>, \<open>widisk_frag\<close>), and the allocation
  of inode numbers. A pointer to an inode is the node of its frag with the byte offset in the
  buffer; a field is read and written through it in the state at that moment, so that a
  pointer whose node has been given to another block reads that block, as in the C code.
\<close>

section \<open>Inodes\<close>

definition NDADDR :: nat where "NDADDR = 12"
definition NIADDR :: nat where "NIADDR = 3"

text \<open>The byte offsets of the fields of \<open>icommon_t\<close>; the low word of \<open>ic_size\<close> is the
  second one.\<close>

definition sizeof_icommon :: nat where "sizeof_icommon = 128"
definition ic_mode :: nat where "ic_mode = 0"
definition ic_nlink :: nat where "ic_nlink = 2"
definition ic_size :: nat where "ic_size = 12"
definition ic_atime :: nat where "ic_atime = 16"
definition ic_mtime :: nat where "ic_mtime = 24"
definition ic_ctime :: nat where "ic_ctime = 32"
definition ic_db :: "nat \<Rightarrow> nat" where "ic_db i = 40 + 4 * i"
definition ic_ib :: "nat \<Rightarrow> nat" where "ic_ib i = 88 + 4 * i"
definition ic_blocks :: nat where "ic_blocks = 104"
definition ic_gen :: nat where "ic_gen = 108"

lemmas ic_offsets = sizeof_icommon_def ic_mode_def ic_nlink_def ic_size_def ic_atime_def
  ic_mtime_def ic_ctime_def ic_db_def ic_ib_def ic_blocks_def ic_gen_def

definition IFMT :: u16 where "IFMT = 0xF000"
definition IFDIR :: u16 where "IFDIR = 0x4000"
definition IFREG :: u16 where "IFREG = 0x8000"
definition IFLNK :: u16 where "IFLNK = 0xA000"
definition IFCHR :: u16 where "IFCHR = 0x2000"
definition IREAD :: u16 where "IREAD = 0x100"
definition IWRITE :: u16 where "IWRITE = 0x80"

type_synonym iptr = "nat \<times> nat"

definition get32 :: "fsys \<Rightarrow> iptr \<Rightarrow> nat \<Rightarrow> u32" where
  "get32 s p field = peek32 (frag_buf s (fst p)) (snd p + field)"

definition get16 :: "fsys \<Rightarrow> iptr \<Rightarrow> nat \<Rightarrow> u16" where
  "get16 s p field = peek16 (frag_buf s (fst p)) (snd p + field)"

definition put32 :: "iptr \<Rightarrow> nat \<Rightarrow> u32 \<Rightarrow> fsys \<Rightarrow> fsys" where
  "put32 p field v s =
     set_frag_buf (fst p) (poke32 (frag_buf s (fst p)) (snd p + field) v) s"

definition put16 :: "iptr \<Rightarrow> nat \<Rightarrow> u16 \<Rightarrow> fsys \<Rightarrow> fsys" where
  "put16 p field v s =
     set_frag_buf (fst p) (poke16 (frag_buf s (fst p)) (snd p + field) v) s"

text \<open>\<open>memset(p, 0, sizeof (*p))\<close>.\<close>

definition wipe_inode :: "iptr \<Rightarrow> fsys \<Rightarrow> fsys" where
  "wipe_inode p s =
     set_frag_buf (fst p) (poke (frag_buf s (fst p)) (snd p) (replicate sizeof_icommon 0)) s"

definition inode_frag :: "superblock \<Rightarrow> u32 \<Rightarrow> u32" where
  "inode_frag fs inum = itod fs inum + itodo fs inum"

definition inode_offset :: "superblock \<Rightarrow> u32 \<Rightarrow> nat" where
  "inode_offset fs inum = sizeof_icommon * unat (itofo fs inum)"

definition inode_read :: "u32 \<Rightarrow> fsys \<Rightarrow> (iptr option \<times> fsys) option" where
  "inode_read inum s =
     do {
       let inum = (if inum = 0 then 2 else inum);
       (buf, s) \<leftarrow> cache_frag (inode_frag (sb s) inum) s;
       Some (map_option (\<lambda>n. (n, inode_offset (sb s) inum)) buf, s)
     }"

definition inode_modify :: "u32 \<Rightarrow> fsys \<Rightarrow> (iptr option \<times> fsys) option" where
  "inode_modify inum s =
     do {
       let inum = (if inum = 0 then 2 else inum);
       (buf, s) \<leftarrow> cache_frag_write (inode_frag (sb s) inum) True s;
       Some (map_option (\<lambda>n. (n, inode_offset (sb s) inum)) buf, s)
     }"

text \<open>Sectors of 512 bytes per block and per frag, the unit of \<open>ic_blocks\<close>.\<close>

definition NDSPB :: "fsys \<Rightarrow> u32" where
  "NDSPB s = drop_bit 9 (bsize (hnd s))"

definition NDSPF :: "fsys \<Rightarrow> u32" where
  "NDSPF s = drop_bit 9 (fsize (hnd s))"

definition ADJUST_IC_BLKS :: "iptr \<Rightarrow> u32 \<Rightarrow> fsys \<Rightarrow> fsys" where
  "ADJUST_IC_BLKS p adjust s = put32 p ic_blocks (get32 s p ic_blocks + adjust) s"

definition ADJUST_IC_SIZE :: "iptr \<Rightarrow> u32 \<Rightarrow> fsys \<Rightarrow> fsys" where
  "ADJUST_IC_SIZE p adjust s = put32 p ic_size (get32 s p ic_size + adjust) s"

section \<open>The path to a block pointer\<close>

text \<open>
  The digits of the index of a block behind the direct ones, lowest level first: the number of
  the pointer in its frag and of the frag in its index block. The number of digits is the
  level of indirection.
\<close>

function index_digits :: "nat \<Rightarrow> nat \<Rightarrow> nat \<Rightarrow> (nat \<times> nat) list" where
  "index_digits pshift bshift ind =
     (let ptr = ind mod 2 ^ pshift;
          ind = ind div 2 ^ pshift;
          frg = ind mod 2 ^ bshift;
          ind = ind div 2 ^ bshift
      in (ptr, frg) # (if ind > 0 then index_digits pshift bshift (ind - 1) else []))"
  by pat_completeness auto
termination
proof (relation "measure (\<lambda>(p, b, i). i)")
  fix pshift bshift ind x xa xb xc :: nat
  assume "x = ind mod 2 ^ pshift" "xa = ind div 2 ^ pshift" "xb = xa mod 2 ^ bshift"
    "xc = xa div 2 ^ bshift" "0 < xc"
  moreover have "ind div 2 ^ pshift div 2 ^ bshift \<le> ind"
    by (meson div_le_dividend le_trans)
  ultimately show "((pshift, bshift, xc - 1), pshift, bshift, ind) \<in> measure (\<lambda>(p, b, i). i)"
    by auto
qed simp

declare index_digits.simps [simp del]

text \<open>A file frag number is split into the block number and the frag in the block.\<close>

definition file_blk_num :: "superblock \<Rightarrow> u32 \<Rightarrow> u32" where
  "file_blk_num fs ffn = ffn div fs_frag fs"

definition blk_frac :: "superblock \<Rightarrow> u32 \<Rightarrow> u32" where
  "blk_frac fs ffn = ffn - ffn div fs_frag fs * fs_frag fs"

text \<open>The number of an indirect block as an \<open>int\<close>; the arrays of digits have \<open>NIADDR\<close>
  entries, and a longer path is written beyond them. \<open>None\<close> is undefined behaviour.\<close>

definition block_path :: "fsys \<Rightarrow> u32 \<Rightarrow> (nat \<times> nat) list option" where
  "block_path s blkno =
     (let ind = sint (blkno - 12);
          digits = index_digits (pfragshift (hnd s)) (fblkshift (hnd s)) (nat ind)
      in if ind < 0 \<or> length digits > NIADDR then None else Some digits)"

section \<open>Reading the tree\<close>

text \<open>The walk from the pointer in the inode down to the data block; 0 is a hole or an
  error.\<close>

fun index_walk :: "(nat \<times> nat) list \<Rightarrow> u32 \<Rightarrow> fsys \<Rightarrow> (u32 \<times> fsys) option" where
  "index_walk [] curblk s = Some (curblk, s)"
| "index_walk ((ptr, frg) # ds) curblk s =
     do {
       (temp, s) \<leftarrow> cache_frag (curblk + of_nat frg) s;
       case temp of None \<Rightarrow> Some (0, s)
       | Some n \<Rightarrow>
           (let curblk = peek32 (frag_buf s n) (4 * ptr)
            in if curblk = 0 then Some (0, s) else index_walk ds curblk s)
     }"

definition ridisk_frag :: "u32 \<Rightarrow> u32 \<Rightarrow> fsys \<Rightarrow> (u32 \<times> fsys) option" where
  "ridisk_frag file_frag_num inum s =
     do {
       (inode, s) \<leftarrow> inode_read inum s;
       case inode of None \<Rightarrow> Some (0, s)
       | Some p \<Rightarrow>
           (let blkno = file_blk_num (sb s) file_frag_num;
                frac = blk_frac (sb s) file_frag_num
            in if blkno < 12 then
                 (let curblk = get32 s p (ic_db (unat blkno))
                  in Some (if curblk = 0 then 0 else curblk + frac, s))
               else
                 do {
                   digits \<leftarrow> block_path s blkno;
                   let curblk = get32 s p (ic_ib (length digits - 1));
                   if curblk = 0 then Some (0, s)
                   else do {
                     (curblk, s) \<leftarrow> index_walk (rev digits) curblk s;
                     Some (if curblk = 0 then 0 else curblk + frac, s)
                   }
                 })
     }"

section \<open>Changing the tree\<close>

text \<open>\<open>block_erase\<close>: \<open>n\<close> frags from \<open>fsfrag\<close> on.\<close>

fun erase_frags :: "nat \<Rightarrow> u32 \<Rightarrow> fsys \<Rightarrow> (unit \<times> fsys) option" where
  "erase_frags 0 fsfrag s = Some ((), s)"
| "erase_frags (Suc n) fsfrag s =
     do {
       (ptr, s) \<leftarrow> cache_frag_write fsfrag False s;
       case ptr of None \<Rightarrow> Some ((), s)
       | Some p \<Rightarrow>
           erase_frags n (fsfrag + 1) (set_frag_buf p (replicate (unat (fsize (hnd s))) 0) s)
     }"

definition block_erase :: "u32 \<Rightarrow> fsys \<Rightarrow> (unit \<times> fsys) option" where
  "block_erase fsblock s = erase_frags (fpb (sb s)) fsblock s"

text \<open>The scan of \<open>prev_frag_addr\<close> over the \<open>n\<close> frags below; without any, the variable keeps
  the value that it had.\<close>

fun prev_scan :: "nat \<Rightarrow> u32 \<Rightarrow> u32 \<Rightarrow> fsys \<Rightarrow> (u32 \<times> fsys) option" where
  "prev_scan 0 inum prev_frag s = Some (prev_frag, s)"
| "prev_scan (Suc n) inum prev_frag s =
     do {
       (prev_frag, s) \<leftarrow> ridisk_frag (of_nat n) inum s;
       if prev_frag \<noteq> 0 then Some (prev_frag, s) else prev_scan n inum prev_frag s
     }"

text \<open>\<open>prev_frag\<close> is not initialised.\<close>

definition prev_frag_addr :: "u32 \<Rightarrow> u32 \<Rightarrow> fsys \<Rightarrow> (u32 \<times> fsys) option" where
  "prev_frag_addr file_frag_num inum s =
     do {
       let n = nat (sint (file_frag_num - 1) + 1);
       (prev_frag, s) \<leftarrow> prev_scan n inum (uninit (hnd s)) s;
       Some (if prev_frag = 0 then itod (sb s) inum else prev_frag, s)
     }"

text \<open>The end of a change: the word \<open>ptr\<close> of a frag of an index block.\<close>

definition put_pointer :: "u32 \<Rightarrow> nat \<Rightarrow> u32 \<Rightarrow> fsys \<Rightarrow> (bool \<times> fsys) option" where
  "put_pointer frag ptr v s =
     do {
       (temp, s) \<leftarrow> cache_frag_write frag True s;
       case temp of None \<Rightarrow> Some (False, s)
       | Some n \<Rightarrow> Some (True, set_frag_buf n (poke32 (frag_buf s n) (4 * ptr) v) s)
     }"

text \<open>The loop of \<open>cidisk_frag\<close>; the result 1 is a failure.\<close>

fun cidisk_walk :: "(nat \<times> nat) list \<Rightarrow> u32 \<Rightarrow> u32 \<Rightarrow> u32 \<Rightarrow> fsys \<Rightarrow> (u32 \<times> fsys) option" where
  "cidisk_walk [] curblk inum newblk s = Some (0, s)"
| "cidisk_walk [(ptr, frg)] curblk inum newblk s =
     do {
       (ok, s) \<leftarrow> put_pointer (curblk + of_nat frg) ptr newblk s;
       Some (if ok then 0 else 1, s)
     }"
| "cidisk_walk ((ptr, frg) # ds) curblk inum newblk s =
     do {
       let ocurblk = curblk;
       (temp, s) \<leftarrow> cache_frag (curblk + of_nat frg) s;
       case temp of None \<Rightarrow> Some (1, s)
       | Some n \<Rightarrow>
           (let curblk = peek32 (frag_buf s n) (4 * ptr)
            in if curblk \<noteq> 0 then cidisk_walk ds curblk inum newblk s
               else do {
                 (curblk, s) \<leftarrow> block_allocate ocurblk s;
                 if curblk = 0 then Some (1, s)
                 else do {
                   (u, s) \<leftarrow> block_erase curblk s;
                   (inode, s) \<leftarrow> inode_modify inum s;
                   case inode of None \<Rightarrow> Some (1, s)
                   | Some p \<Rightarrow>
                       do {
                         let s = ADJUST_IC_BLKS p (NDSPB s) s;
                         (ok, s) \<leftarrow> put_pointer (ocurblk + of_nat frg) ptr curblk s;
                         if \<not> ok then Some (1, s) else cidisk_walk ds curblk inum newblk s
                       }
                 }
               })
     }"

definition cidisk_frag :: "u32 \<Rightarrow> u32 \<Rightarrow> u32 \<Rightarrow> fsys \<Rightarrow> (u32 \<times> fsys) option" where
  "cidisk_frag file_frag_num inum newblk s =
     do {
       (inode, s) \<leftarrow> inode_read inum s;
       case inode of None \<Rightarrow> Some (0, s)
       | Some p \<Rightarrow>
           (let blkno = file_blk_num (sb s) file_frag_num
            in if blkno < 12 then
                 do {
                   (inode, s) \<leftarrow> inode_modify inum s;
                   case inode of None \<Rightarrow> Some (1, s)
                   | Some p \<Rightarrow> Some (0, put32 p (ic_db (unat blkno)) newblk s)
                 }
               else
                 do {
                   digits \<leftarrow> block_path s blkno;
                   let curblk = get32 s p (ic_ib (length digits - 1));
                   if curblk \<noteq> 0 then cidisk_walk (rev digits) curblk inum newblk s
                   else do {
                     (prev_frag, s) \<leftarrow> prev_frag_addr file_frag_num inum s;
                     (curblk, s) \<leftarrow> block_allocate prev_frag s;
                     if curblk = 0 then Some (1, s)
                     else do {
                       (u, s) \<leftarrow> block_erase curblk s;
                       (inode, s) \<leftarrow> inode_modify inum s;
                       case inode of None \<Rightarrow> Some (1, s)
                       | Some p \<Rightarrow>
                           (let s = put32 p (ic_ib (length digits - 1)) curblk s;
                                s = ADJUST_IC_BLKS p (NDSPB s) s
                            in cidisk_walk (rev digits) curblk inum newblk s)
                     }
                   }
                 })
     }"

text \<open>The loop of \<open>widisk_frag\<close> allocates the data block, too; an index block is erased.\<close>

fun widisk_walk :: "(nat \<times> nat) list \<Rightarrow> u32 \<Rightarrow> u32 \<Rightarrow> u32 \<Rightarrow> fsys \<Rightarrow> (u32 \<times> fsys) option" where
  "widisk_walk [] curblk inum prev_frag s = Some (curblk, s)"
| "widisk_walk ((ptr, frg) # ds) curblk inum prev_frag s =
     do {
       let ocurblk = curblk;
       (temp, s) \<leftarrow> cache_frag (curblk + of_nat frg) s;
       case temp of None \<Rightarrow> Some (0, s)
       | Some n \<Rightarrow>
           (let curblk = peek32 (frag_buf s n) (4 * ptr)
            in if curblk \<noteq> 0 then widisk_walk ds curblk inum prev_frag s
               else do {
                 (curblk, s) \<leftarrow> block_allocate prev_frag s;
                 if curblk = 0 then Some (0, s)
                 else do {
                   (ok, s) \<leftarrow> put_pointer (ocurblk + of_nat frg) ptr curblk s;
                   if \<not> ok then Some (0, s) else
                   do {
                     (inode, s) \<leftarrow> inode_modify inum s;
                     case inode of None \<Rightarrow> Some (0, s)
                     | Some p \<Rightarrow>
                         do {
                           let s = ADJUST_IC_BLKS p (NDSPB s) s;
                           (u, s) \<leftarrow> (if ds \<noteq> [] then block_erase curblk s else Some ((), s));
                           widisk_walk ds curblk inum prev_frag s
                         }
                   }
                 }
               })
     }"

definition widisk_frag :: "u32 \<Rightarrow> u32 \<Rightarrow> fsys \<Rightarrow> (u32 \<times> fsys) option" where
  "widisk_frag file_frag_num inum s =
     do {
       (inode, s) \<leftarrow> inode_read inum s;
       case inode of None \<Rightarrow> Some (0, s)
       | Some p \<Rightarrow>
           (let blkno = file_blk_num (sb s) file_frag_num;
                frac = blk_frac (sb s) file_frag_num
            in if blkno < 12 then
                 (let curblk = get32 s p (ic_db (unat blkno))
                  in if curblk \<noteq> 0 then Some (curblk + frac, s)
                     else do {
                       (prev_frag, s) \<leftarrow> prev_frag_addr file_frag_num inum s;
                       (curblk, s) \<leftarrow> block_allocate prev_frag s;
                       if curblk = 0 then Some (0, s)
                       else do {
                         (inode, s) \<leftarrow> inode_modify inum s;
                         case inode of None \<Rightarrow> Some (0, s)
                         | Some p \<Rightarrow>
                             (let s = ADJUST_IC_BLKS p (NDSPB s) s
                              in Some (curblk + frac, put32 p (ic_db (unat blkno)) curblk s))
                       }
                     })
               else
                 do {
                   digits \<leftarrow> block_path s blkno;
                   let curblk = get32 s p (ic_ib (length digits - 1));
                   if curblk \<noteq> 0 then
                     do {
                       (prev_frag, s) \<leftarrow> prev_frag_addr file_frag_num inum s;
                       (curblk, s) \<leftarrow> widisk_walk (rev digits) curblk inum prev_frag s;
                       Some (if curblk = 0 then 0 else curblk + frac, s)
                     }
                   else do {
                     (prev_frag, s) \<leftarrow> prev_frag_addr file_frag_num inum s;
                     (curblk, s) \<leftarrow> block_allocate prev_frag s;
                     if curblk = 0 then Some (0, s)
                     else do {
                       (inode, s) \<leftarrow> inode_modify inum s;
                       case inode of None \<Rightarrow> Some (0, s)
                       | Some p \<Rightarrow>
                           do {
                             let s = ADJUST_IC_BLKS p (NDSPB s) s;
                             let s = put32 p (ic_ib (length digits - 1)) curblk s;
                             (u, s) \<leftarrow> block_erase curblk s;
                             (curblk, s) \<leftarrow> widisk_walk (rev digits) curblk inum prev_frag s;
                             Some (if curblk = 0 then 0 else curblk + frac, s)
                           }
                     }
                   }
                 })
     }"

end
