(* ===== verification/Tree_Correct.thy ===== *)
theory Tree_Correct
  imports Inode Sample
begin

text \<open>
  The tree of index blocks as a function of the contents of the file system: the path to a
  block pointer is a bijective numeral, and the walks of fs/inode.c read and change the
  pointer at its end.
\<close>

section \<open>Paths as numerals\<close>

text \<open>The number that a list of digits stands for, lowest digit first; every level counts the
  blocks of the levels below.\<close>

fun digits_value :: "nat \<Rightarrow> nat \<Rightarrow> (nat \<times> nat) list \<Rightarrow> nat" where
  "digits_value p b [] = 0"
| "digits_value p b [(ptr, frg)] = ptr + 2 ^ p * frg"
| "digits_value p b ((ptr, frg) # ds) =
     ptr + 2 ^ p * (frg + 2 ^ b * Suc (digits_value p b ds))"

definition digits_ok :: "nat \<Rightarrow> nat \<Rightarrow> (nat \<times> nat) list \<Rightarrow> bool" where
  "digits_ok p b ds \<longleftrightarrow> ds \<noteq> [] \<and> (\<forall>(ptr, frg) \<in> set ds. ptr < 2 ^ p \<and> frg < 2 ^ b)"

lemma index_digits_ne [simp]: "index_digits p b ind \<noteq> []"
  by (subst index_digits.simps) (simp add: Let_def)

lemma index_digits_ok: "digits_ok p b (index_digits p b ind)"
proof (induction p b ind rule: index_digits.induct)
  case (1 p b ind)
  then show ?case
    by (subst index_digits.simps) (auto simp: digits_ok_def Let_def)
qed

lemma digits_value_Cons:
  "ds \<noteq> [] \<Longrightarrow> digits_value p b ((ptr, frg) # ds) =
     ptr + 2 ^ p * (frg + 2 ^ b * Suc (digits_value p b ds))"
  by (cases ds) simp_all

lemma index_digits_value: "digits_value p b (index_digits p b ind) = ind"
proof (induction p b ind rule: index_digits.induct)
  case (1 p b ind)
  define q where "q = ind div 2 ^ p div 2 ^ b"
  have split: "ind = ind mod 2 ^ p + 2 ^ p * (ind div 2 ^ p mod 2 ^ b + 2 ^ b * q)"
    unfolding q_def by (metis add.commute div_mult_mod_eq mult.commute)
  show ?case
  proof (cases "q > 0")
    case True
    have "digits_value p b (index_digits p b (q - 1)) = q - 1"
      using 1 True unfolding q_def by simp
    moreover have "index_digits p b ind =
        (ind mod 2 ^ p, ind div 2 ^ p mod 2 ^ b) # index_digits p b (q - 1)"
      using True by (subst index_digits.simps) (simp add: Let_def q_def)
    ultimately show ?thesis using True split by (simp add: digits_value_Cons)
  next
    case False
    then have "index_digits p b ind = [(ind mod 2 ^ p, ind div 2 ^ p mod 2 ^ b)]"
      by (subst index_digits.simps) (simp add: Let_def q_def)
    then show ?thesis using False split by simp
  qed
qed

lemma index_digits_unique:
  "digits_ok p b ds \<Longrightarrow> index_digits p b (digits_value p b ds) = ds"
proof (induction ds)
  case Nil
  then show ?case by (simp add: digits_ok_def)
next
  case (Cons d ds)
  obtain ptr frg where d: "d = (ptr, frg)" by (cases d)
  have lt: "ptr < 2 ^ p" "frg < 2 ^ b" using Cons.prems d by (simp_all add: digits_ok_def)
  show ?case
  proof (cases "ds = []")
    case True
    then show ?thesis using d lt by (subst index_digits.simps) (simp add: Let_def)
  next
    case False
    then have IH: "index_digits p b (digits_value p b ds) = ds"
      using Cons by (simp add: digits_ok_def)
    define v where "v = digits_value p b ds"
    define i where "i = ptr + 2 ^ p * (frg + 2 ^ b * Suc v)"
    have e: "i mod 2 ^ p = ptr" "i div 2 ^ p = frg + 2 ^ b * Suc v"
      using lt by (simp_all add: i_def del: mult_Suc_right)
    moreover have "(frg + 2 ^ b * Suc v) mod 2 ^ b = frg"
      "(frg + 2 ^ b * Suc v) div 2 ^ b = Suc v"
      using lt by (simp_all del: mult_Suc_right)
    ultimately have "index_digits p b i = (ptr, frg) # index_digits p b v"
      by (subst index_digits.simps) (simp add: Let_def del: mult_Suc_right)
    then show ?thesis
      unfolding d digits_value_Cons [OF False] using IH by (simp add: v_def i_def)
  qed
qed

text \<open>The number of blocks that \<open>n\<close> levels reach.\<close>

fun level_blocks :: "nat \<Rightarrow> nat \<Rightarrow> nat" where
  "level_blocks q 0 = 0"
| "level_blocks q (Suc n) = q * Suc (level_blocks q n)"

lemma digits_levels:
  "0 < q \<Longrightarrow> q = 2 ^ p * 2 ^ b \<Longrightarrow> 0 < n \<Longrightarrow>
   length (index_digits p b ind) \<le> n \<longleftrightarrow> ind < level_blocks q n"
proof (induction p b ind arbitrary: n rule: index_digits.induct)
  case (1 p b ind)
  define w where "w = ind div q"
  have w: "ind div 2 ^ p div 2 ^ b = w" using 1(3) by (simp add: w_def div_mult2_eq)
  have lt: "ind < q * k \<longleftrightarrow> w < k" for k
    unfolding w_def using 1(2) by (simp add: div_less_iff_less_mult mult.commute)
  obtain m where m: "n = Suc m" using 1(4) by (cases n) auto
  show ?case
  proof (cases "w > 0")
    case True
    have e: "length (index_digits p b ind) = Suc (length (index_digits p b (w - 1)))"
      using True w by (subst index_digits.simps) (simp add: Let_def)
    have "length (index_digits p b (w - 1)) \<le> m \<longleftrightarrow> w - 1 < level_blocks q m" if "0 < m"
    proof -
      have "0 < ind div 2 ^ p div 2 ^ b" using True w by simp
      from 1(1) [OF refl refl refl refl this 1(2,3) that] show ?thesis unfolding w .
    qed
    note IH = this
    have "Suc (length (index_digits p b (w - 1))) \<le> Suc m \<longleftrightarrow> w < Suc (level_blocks q m)"
    proof (cases "m = 0")
      case True
      then show ?thesis using \<open>w > 0\<close> by (simp add: less_Suc_eq_le)
    next
      case False
      then show ?thesis using IH \<open>w > 0\<close> by arith
    qed
    then show ?thesis unfolding e m level_blocks.simps lt .
  next
    case False
    then have "length (index_digits p b ind) = 1"
      using w by (subst index_digits.simps) (simp add: Let_def)
    then show ?thesis using False unfolding m level_blocks.simps lt by simp
  qed
qed

section \<open>The pointers on the way to a block\<close>

text \<open>A pointer of the file system is the word at an offset of a frag.\<close>

type_synonym slot = "u32 \<times> nat"

definition frag_word :: "(u32 \<Rightarrow> bytes) \<Rightarrow> slot \<Rightarrow> u32" where
  "frag_word f p = peek32 (f (fst p)) (snd p)"

definition set_word :: "slot \<Rightarrow> u32 \<Rightarrow> (u32 \<Rightarrow> bytes) \<Rightarrow> u32 \<Rightarrow> bytes" where
  "set_word p v f = f(fst p := poke32 (f (fst p)) (snd p) v)"

text \<open>A word is aligned and inside its frag.\<close>

definition slot_ok :: "nat \<Rightarrow> slot \<Rightarrow> bool" where
  "slot_ok n p \<longleftrightarrow> snd p mod 4 = 0 \<and> snd p + 4 \<le> n"

lemma frag_word_set_word:
  assumes "slot_ok n p" "slot_ok n q" "length (f (fst p)) = n"
  shows "frag_word (set_word p v f) q = (if q = p then v else frag_word f q)"
proof -
  have "snd q + 4 \<le> snd p \<or> snd p + 4 \<le> snd q" if "snd p \<noteq> snd q"
    using assms(1,2) that unfolding slot_ok_def by presburger
  then show ?thesis
    using assms unfolding frag_word_def set_word_def slot_ok_def
    by (cases p; cases q) (auto simp: peek32_poke32_other)
qed

text \<open>The pointers that a walk down the tree reads; it ends at a hole.\<close>

fun walk_slots :: "(u32 \<Rightarrow> bytes) \<Rightarrow> (nat \<times> nat) list \<Rightarrow> u32 \<Rightarrow> slot list" where
  "walk_slots f [] curblk = []"
| "walk_slots f ((ptr, frg) # ds) curblk =
     (let p = (curblk + of_nat frg, 4 * ptr); c = frag_word f p
      in p # (if c = 0 then [] else walk_slots f ds c))"

definition inode_slot :: "superblock \<Rightarrow> u32 \<Rightarrow> nat \<Rightarrow> slot" where
  "inode_slot fs inum field =
     (let i = (if inum = 0 then 2 else inum) in (inode_frag fs i, inode_offset fs i + field))"

definition file_slots :: "fsys \<Rightarrow> (u32 \<Rightarrow> bytes) \<Rightarrow> u32 \<Rightarrow> u32 \<Rightarrow> slot list" where
  "file_slots s f inum blkno =
     (if blkno < 12 then [inode_slot (sb s) inum (ic_db (unat blkno))]
      else (let digits = the (block_path s blkno);
                p = inode_slot (sb s) inum (ic_ib (length digits - 1));
                c = frag_word f p
            in p # (if c = 0 then [] else walk_slots f (rev digits) c)))"

text \<open>The block number that has an index in the tree.\<close>

definition in_reach :: "fsys \<Rightarrow> u32 \<Rightarrow> bool" where
  "in_reach s blkno \<longleftrightarrow> blkno < 12 \<or> block_path s blkno \<noteq> None"

lemma walk_slots_cong:
  "(\<And>p. p \<in> set (walk_slots f ds c) \<Longrightarrow> frag_word g p = frag_word f p) \<Longrightarrow>
   walk_slots g ds c = walk_slots f ds c"
  by (induction f ds c rule: walk_slots.induct) (auto simp: Let_def split: if_splits)

lemma file_slots_cong:
  assumes "\<And>p. p \<in> set (file_slots s f inum blkno) \<Longrightarrow> frag_word g p = frag_word f p"
  shows "file_slots s g inum blkno = file_slots s f inum blkno"
  using assms unfolding file_slots_def
  by (auto simp: Let_def intro!: walk_slots_cong split: if_splits)

section \<open>Reading a pointer\<close>

context frag_store
begin

text \<open>The rules for a program that started in \<open>s0\<close> and has changed the contents to \<open>f\<close>.\<close>

lemma wp_get_from:
  assumes "holds s0 s f" "valid s0 b"
    and "\<And>n t. holds s0 t f \<Longrightarrow> buffer t n = f b \<Longrightarrow> Q (Some n) t"
  shows "wp (get b s) Q"
proof (rule wp_get)
  show "inv s" "valid s b" using assms(1,2) by (simp_all add: holds_def)
  fix n t assume "holds s t (content s)" "buffer t n = content s b"
  then show "Q (Some n) t"
    using assms(1,2) by (intro assms(3)) (simp_all add: holds_def)
qed

lemma wp_get_write_from:
  assumes "holds s0 s f" "valid s0 b"
    and "\<And>n t. length (buffer t n) = unit_size (rest s0) \<Longrightarrow>
           (readflag \<Longrightarrow> buffer t n = f b) \<Longrightarrow>
           (\<And>bs. length bs = unit_size (rest s0) \<Longrightarrow> holds s0 (store n bs t) (f(b := bs))) \<Longrightarrow>
           Q (Some n) t"
  shows "wp (get_write b readflag s) Q"
proof (rule wp_get_write)
  show "inv s" "valid s b" using assms(1,2) by (simp_all add: holds_def)
  fix n t assume a: "length (buffer t n) = unit_size (rest s)"
    "readflag \<Longrightarrow> buffer t n = content s b"
    "\<And>bs. length bs = unit_size (rest s) \<Longrightarrow> holds s (store n bs t) ((content s)(b := bs))"
  show "Q (Some n) t"
  proof (rule assms(3))
    show "length (buffer t n) = unit_size (rest s0)" using a(1) assms(1) by (simp add: holds_def)
    show "buffer t n = f b" if readflag using a(2) [OF that] assms(1,2) by (simp add: holds_def)
    show "holds s0 (store n bs t) (f(b := bs))" if "length bs = unit_size (rest s0)" for bs
      using a(3) [of bs] that assms(1) by (simp add: holds_def)
  qed
qed

lemma length_from: "holds s0 s f \<Longrightarrow> valid s0 b \<Longrightarrow> length (f b) = unit_size (rest s0)"
  using length_law [of s b] by (simp add: holds_def)

end

lemma fs_rest_fields:
  assumes "fs_rest t = fs_rest s"
  shows "sb t = sb s" "hnd t = hnd s" "cgc t = cgc s" "disk_cg (dev t) = disk_cg (dev s)"
  using assms by (simp_all add: fs_rest_def)

lemma holds_fields:
  assumes "cache.holds s t f"
  shows "sb t = sb s" "hnd t = hnd s" "block_path t = block_path s"
  using cache.holdsD(3) [OF assms] by (auto simp: fs_rest_def block_path_def fun_eq_iff)

text \<open>A property of the state that no look at a frag in \<open>B\<close> can break is kept by every read of a
  pointer in one of these frags.\<close>

definition stable :: "u32 set \<Rightarrow> (fsys \<Rightarrow> bool) \<Rightarrow> fsys \<Rightarrow> (u32 \<Rightarrow> bytes) \<Rightarrow> bool" where
  "stable B R s0 f \<longleftrightarrow> (\<forall>s b r t. cache.holds s0 s f \<longrightarrow> R s \<longrightarrow> valid_frag s0 b \<longrightarrow> b \<in> B \<longrightarrow>
     cache_frag b s = Some (r, t) \<longrightarrow> R t)"

definition keeping :: "(fsys \<Rightarrow> bool) \<Rightarrow> fsys \<Rightarrow> fsys \<Rightarrow> (u32 \<Rightarrow> bytes) \<Rightarrow> bool" where
  "keeping R s0 s f \<longleftrightarrow> cache.holds s0 s f \<and> R s"

lemma stable_True [simp]: "stable B (\<lambda>_. True) s0 f"
  by (simp add: stable_def)

lemma keeping_holds: "keeping R s0 s f \<Longrightarrow> cache.holds s0 s f"
  and keeping_True [simp]: "keeping (\<lambda>_. True) s0 s f = cache.holds s0 s f"
  by (simp_all add: keeping_def)

lemma wp_get_keeping:
  assumes st: "stable B R s0 f" and h: "keeping R s0 s f" and v: "valid_frag s0 b" "b \<in> B"
    and q: "\<And>n t. keeping R s0 t f \<Longrightarrow> frag_buf t n = f b \<Longrightarrow> Q (Some n) t"
  shows "wp (cache_frag b s) Q"
proof -
  have "wp (cache_frag b s) (\<lambda>r t. \<exists>n. r = Some n \<and> cache.holds s0 t f \<and> frag_buf t n = f b)"
    by (rule cache.wp_get_from [OF keeping_holds [OF h] v(1)]) simp
  then obtain n t where t: "cache_frag b s = Some (Some n, t)" "cache.holds s0 t f" "frag_buf t n = f b"
    by (auto simp: wp_ex)
  have "R t" using st h v t(1) unfolding stable_def keeping_def by blast
  then show ?thesis using t q by (simp add: keeping_def)
qed

lemma index_walk_reads:
  assumes st: "stable B R s0 f" and "keeping R s0 s f"
    and "\<forall>p \<in> set (walk_slots f ds c). valid_frag s0 (fst p) \<and> fst p \<in> B"
  shows "wp (index_walk ds c s) (\<lambda>r t. keeping R s0 t f \<and>
    r = (if ds = [] then c else frag_word f (last (walk_slots f ds c))))"
  using assms(2,3)
proof (induction ds arbitrary: c s)
  case Nil
  then show ?case by simp
next
  case (Cons d ds curblk s)
  obtain ptr frg where d: "d = (ptr, frg)" by (cases d)
  define p where "p = (curblk + of_nat frg, 4 * ptr)"
  have v: "valid_frag s0 (curblk + of_nat frg)" "curblk + of_nat frg \<in> B" using Cons.prems(2) d by (simp_all add: Let_def)
  show ?case
    unfolding d index_walk.simps wp_bind
  proof (rule wp_get_keeping [OF st Cons.prems(1) v])
    fix n t assume t: "keeping R s0 t f" "frag_buf t n = f (curblk + of_nat frg)"
    define c where "c = frag_word f p"
    have c: "peek32 (frag_buf t n) (4 * ptr) = c" using t(2) by (simp add: c_def p_def frag_word_def)
    have sl: "walk_slots f ((ptr, frg) # ds) curblk = p # (if c = 0 then [] else walk_slots f ds c)"
      by (simp add: p_def c_def Let_def)
    show "wp (case (Some n, t) of (temp, s) \<Rightarrow> case temp of None \<Rightarrow> Some (0, s)
       | Some n \<Rightarrow> (let curblk = peek32 (frag_buf s n) (4 * ptr)
            in if curblk = 0 then Some (0, s) else index_walk ds curblk s))
      (\<lambda>r t. keeping R s0 t f \<and> r = (if (ptr, frg) # ds = [] then curblk
         else frag_word f (last (walk_slots f ((ptr, frg) # ds) curblk))))"
    proof (cases "c = 0")
      case True
      then show ?thesis using t(1) c sl by (simp add: c_def)
    next
      case False
      then have vv: "\<forall>p \<in> set (walk_slots f ds c). valid_frag s0 (fst p) \<and> fst p \<in> B" using Cons.prems(2) d sl by simp
      have "wp (index_walk ds c t) (\<lambda>r t. keeping R s0 t f \<and>
          r = (if ds = [] then c else frag_word f (last (walk_slots f ds c))))"
        by (rule Cons.IH [OF t(1) vv])
      moreover have "walk_slots f ds c = [] \<longleftrightarrow> ds = []"
        by (cases ds) (auto simp: Let_def)
      ultimately show ?thesis using False c sl by (auto simp: c_def cong: if_cong)
    qed
  qed
qed

lemma wp_inode_read_keeping:
  assumes st: "stable B R s0 f" and "keeping R s0 s f" "valid_frag s0 (fst (inode_slot (sb s0) inum 0))"
    and B: "fst (inode_slot (sb s0) inum 0) \<in> B"
    and q: "\<And>p t. keeping R s0 t f \<Longrightarrow>
           (\<And>field. get32 t p field = frag_word f (inode_slot (sb s0) inum field)) \<Longrightarrow> Q (Some p) t"
  shows "wp (inode_read inum s) Q"
proof -
  define i where "i = (if inum = 0 then 2 else inum)"
  have sb: "sb s = sb s0" by (rule holds_fields [OF keeping_holds [OF assms(2)]])
  have v: "valid_frag s0 (inode_frag (sb s) i)" "inode_frag (sb s) i \<in> B"
    using assms(3) B by (simp_all add: inode_slot_def Let_def i_def sb)
  show ?thesis
    unfolding inode_read_def Let_def i_def [symmetric] wp_bind
  proof (rule wp_get_keeping [OF st assms(2) v])
    fix n t assume t: "keeping R s0 t f" "frag_buf t n = f (inode_frag (sb s) i)"
    have "get32 t (n, inode_offset (sb s0) i) field = frag_word f (inode_slot (sb s0) inum field)"
      for field
      using t(2) by (simp add: get32_def frag_word_def inode_slot_def Let_def i_def sb)
    then show "wp (case (Some n, t) of (ptr, s') \<Rightarrow>
        Some (map_option (\<lambda>n. (n, inode_offset (sb s') i)) ptr, s')) Q"
      using q [OF t(1)] by (simp add: holds_fields(1) [OF keeping_holds [OF t(1)]])
  qed
qed

lemmas wp_inode_read = wp_inode_read_keeping [where R = "\<lambda>_. True" and B = UNIV, simplified]

definition frags_valid :: "fsys \<Rightarrow> slot list \<Rightarrow> bool" where
  "frags_valid s ps \<longleftrightarrow> list_all (\<lambda>p. valid_frag s (fst p)) ps"

text \<open>The frag that the tree has for a frag of a file.\<close>

definition file_frag_addr :: "fsys \<Rightarrow> (u32 \<Rightarrow> bytes) \<Rightarrow> u32 \<Rightarrow> u32 \<Rightarrow> u32" where
  "file_frag_addr s f inum file_frag_num =
     (let c = frag_word f (last (file_slots s f inum (file_blk_num (sb s) file_frag_num)))
      in if c = 0 then 0 else c + blk_frac (sb s) file_frag_num)"

lemma inode_slot_frag: "fst (inode_slot fs inum field) = fst (inode_slot fs inum 0)"
  by (simp add: inode_slot_def Let_def)

lemma file_slots_hd:
  "\<exists>field ps. file_slots s f inum blkno = inode_slot (sb s) inum field # ps"
  by (auto simp: file_slots_def Let_def)

lemma frags_valid_inode:
  assumes "frags_valid s (file_slots s f inum blkno)"
  shows "valid_frag s (fst (inode_slot (sb s) inum 0))"
proof -
  obtain field ps where "file_slots s f inum blkno = inode_slot (sb s) inum field # ps"
    using file_slots_hd by blast
  then show ?thesis
    using assms inode_slot_frag [of "sb s" inum field] by (simp add: frags_valid_def)
qed

lemma inode_frag_in:
  assumes "fst ` set (file_slots s f inum blkno) \<subseteq> B"
  shows "fst (inode_slot (sb s) inum 0) \<in> B"
proof -
  obtain field ps where "file_slots s f inum blkno = inode_slot (sb s) inum field # ps"
    using file_slots_hd by blast
  then show ?thesis using assms inode_slot_frag [of "sb s" inum field] by simp
qed

lemma ridisk_frag_reads_keeping:
  assumes st: "stable B R s0 f" and h: "keeping R s0 s f" and r: "in_reach s0 (file_blk_num (sb s0) file_frag_num)"
    and v: "frags_valid s0 (file_slots s0 f inum (file_blk_num (sb s0) file_frag_num))"
    and B: "fst ` set (file_slots s0 f inum (file_blk_num (sb s0) file_frag_num)) \<subseteq> B"
  shows "wp (ridisk_frag file_frag_num inum s) (\<lambda>r t. keeping R s0 t f \<and>
    r = file_frag_addr s0 f inum file_frag_num)"
  unfolding ridisk_frag_def wp_bind
proof (rule wp_inode_read_keeping [OF st h frags_valid_inode [OF v] inode_frag_in [OF B]])
  fix p t assume t: "keeping R s0 t f"
    and get: "\<And>field. get32 t p field = frag_word f (inode_slot (sb s0) inum field)"
  define b where "b = file_blk_num (sb s0) file_frag_num"
  note e = holds_fields [OF keeping_holds [OF t]]
  note v' = v [folded b_def] and B' = B [folded b_def]
  show "wp (case (Some p, t) of (inode, s) \<Rightarrow> case inode of None \<Rightarrow> Some (0, s)
       | Some p \<Rightarrow>
           (let blkno = file_blk_num (sb s) file_frag_num;
                frac = blk_frac (sb s) file_frag_num
            in if blkno < 12 then
                 (let curblk = get32 s p (ic_db (unat blkno))
                  in Some (if curblk = 0 then 0 else curblk + frac, s))
               else
                 block_path s blkno \<bind> (\<lambda>digits.
                   let curblk = get32 s p (ic_ib (length digits - 1))
                   in if curblk = 0 then Some (0, s)
                   else index_walk (rev digits) curblk s \<bind> (\<lambda>(curblk, s).
                     Some (if curblk = 0 then 0 else curblk + frac, s)))))
     (\<lambda>r t. keeping R s0 t f \<and> r = file_frag_addr s0 f inum file_frag_num)"
  proof (cases "b < 12")
    case True
    then show ?thesis using t get
      by (simp add: e b_def [symmetric] Let_def file_frag_addr_def file_slots_def)
  next
    case False
    then obtain ds where ds: "block_path s0 b = Some ds" using r by (auto simp: in_reach_def b_def)
    define c where "c = frag_word f (inode_slot (sb s0) inum (ic_ib (length ds - 1)))"
    have ne: "ds \<noteq> []" using ds by (auto simp: block_path_def Let_def split: if_splits)
    show ?thesis
    proof (cases "c = 0")
      case True
      then show ?thesis using t get False ds c_def
        by (simp add: e b_def [symmetric] Let_def file_frag_addr_def file_slots_def)
    next
      case nz: False
      have sl: "file_slots s0 f inum b =
          inode_slot (sb s0) inum (ic_ib (length ds - 1)) # walk_slots f (rev ds) c"
        using False ds nz by (simp add: file_slots_def c_def Let_def)
      have "\<forall>p \<in> set (walk_slots f (rev ds) c). valid_frag s0 (fst p) \<and> fst p \<in> B"
        using v' B' sl by (auto simp: frags_valid_def list_all_iff)
      from index_walk_reads [OF st t this]
      have w: "wp (index_walk (rev ds) c t) (\<lambda>r t. keeping R s0 t f \<and>
          r = frag_word f (last (walk_slots f (rev ds) c)))" using ne by simp
      have "walk_slots f (rev ds) c \<noteq> []"
        using ne by (cases "rev ds") (auto simp: Let_def)
      then have a: "file_frag_addr s0 f inum file_frag_num =
          (let c = frag_word f (last (walk_slots f (rev ds) c))
           in if c = 0 then 0 else c + blk_frac (sb s0) file_frag_num)"
        by (simp add: file_frag_addr_def b_def [symmetric] sl)
      show ?thesis
        using False nz get ds
        by (simp add: e b_def [symmetric] Let_def c_def [symmetric] a del: One_nat_def
            split del: if_split)
          (rule wp_mono [OF w], simp add: e)
    qed
  qed
qed

lemmas ridisk_frag_reads = ridisk_frag_reads_keeping [where R = "\<lambda>_. True" and B = UNIV, simplified]

section \<open>Changing a pointer\<close>

abbreviation frag_size :: "fsys \<Rightarrow> nat" where
  "frag_size s \<equiv> unat (fsize (hnd s))"

lemma unit_frag_size [simp]: "rest_fsize (fs_rest s) = frag_size s"
  by (simp add: rest_fsize_def fs_rest_def)

lemma put_pointer_sets:
  assumes h: "cache.holds s0 s f" and v: "valid_frag s0 b" and n: "slot_ok (frag_size s0) (b, 4 * ptr)"
  shows "wp (put_pointer b ptr v s) (\<lambda>r t. r \<and> cache.holds s0 t (set_word (b, 4 * ptr) v f))"
  unfolding put_pointer_def wp_bind
proof (rule cache.wp_get_write_from [OF h v])
  fix n t assume "True \<Longrightarrow> frag_buf t n = f b"
    and "\<And>bs. length bs = rest_fsize (fs_rest s0) \<Longrightarrow>
           cache.holds s0 (set_frag_buf n bs t) (f(b := bs))"
  then show "wp (case (Some n, t) of (temp, s) \<Rightarrow> case temp of None \<Rightarrow> Some (False, s)
       | Some n \<Rightarrow> Some (True, set_frag_buf n (poke32 (frag_buf s n) (4 * ptr) v) s))
     (\<lambda>r t. r \<and> cache.holds s0 t (set_word (b, 4 * ptr) v f))"
    using n cache.length_from [OF h v] by (simp add: set_word_def slot_ok_def)
qed

lemma cidisk_walk_sets:
  assumes "cache.holds s0 s f" "frags_valid s0 (walk_slots f ds c)"
    and "length (walk_slots f ds c) = length ds" "ds \<noteq> []"
    and "slot_ok (frag_size s0) (last (walk_slots f ds c))"
  shows "wp (cidisk_walk ds c inum newblk s) (\<lambda>r t. r = 0 \<and>
    cache.holds s0 t (set_word (last (walk_slots f ds c)) newblk f))"
  using assms
proof (induction ds arbitrary: c s)
  case Nil
  then show ?case by simp
next
  case (Cons d ds curblk s)
  obtain ptr frg where d: "d = (ptr, frg)" by (cases d)
  define p where "p = (curblk + of_nat frg, 4 * ptr)"
  define c where "c = frag_word f p"
  have sl: "walk_slots f ((ptr, frg) # ds) curblk = p # (if c = 0 then [] else walk_slots f ds c)"
    by (simp add: p_def c_def Let_def)
  have v: "valid_frag s0 (curblk + of_nat frg)"
    using Cons.prems(2) d by (simp add: Let_def frags_valid_def)
  show ?case
  proof (cases ds)
    case Nil
    have l: "last (walk_slots f (d # ds) curblk) = p" using sl d Nil by (simp split: if_splits)
    have "slot_ok (frag_size s0) p" using Cons.prems(5) unfolding l .
    from put_pointer_sets [OF Cons.prems(1) v this [unfolded p_def]]
    show ?thesis
      unfolding l unfolding d Nil cidisk_walk.simps wp_bind
      by (rule wp_mono) (simp add: p_def)
  next
    case (Cons d' ds')
    have nz: "c \<noteq> 0" "length (walk_slots f ds c) = length ds"
      using Cons.prems(3) d sl \<open>ds = d' # ds'\<close> by (auto split: if_splits)
    have ne: "walk_slots f ds c \<noteq> []" using nz(2) Cons by auto
    have word: "frag_word f (curblk + of_nat frg, 4 * ptr) = c" by (simp add: c_def p_def)
    have key: "wp (cidisk_walk ds c inum newblk t) (\<lambda>r t. r = 0 \<and>
        cache.holds s0 t (set_word (last (walk_slots f ds c)) newblk f))"
      if "cache.holds s0 t f" for t
    proof (rule Cons.IH [OF that])
      show "frags_valid s0 (walk_slots f ds c)"
        using Cons.prems(2) d sl nz by (simp add: frags_valid_def)
      show "ds \<noteq> []" using \<open>ds = d' # ds'\<close> by simp
      show "slot_ok (frag_size s0) (last (walk_slots f ds c))"
        using Cons.prems(5) d sl nz ne by simp
    qed (rule nz(2))
    have l: "last (walk_slots f (d # ds) curblk) = last (walk_slots f ds c)"
      using d sl nz ne by simp
    show ?thesis
      unfolding l unfolding d \<open>ds = d' # ds'\<close> cidisk_walk.simps wp_bind Let_def
      by (rule cache.wp_get_from [OF Cons.prems(1) v])
        (use key nz(1) word \<open>ds = d' # ds'\<close> in \<open>simp add: frag_word_def\<close>)
  qed
qed

lemma wp_inode_modify:
  assumes h: "cache.holds s0 s f" and v: "valid_frag s0 (fst (inode_slot (sb s0) inum 0))"
    and Q: "\<And>p t. (\<And>field w. slot_ok (frag_size s0) (inode_slot (sb s0) inum field) \<Longrightarrow>
        cache.holds s0 (put32 p field w t) (set_word (inode_slot (sb s0) inum field) w f)) \<Longrightarrow>
      Q (Some p) t"
  shows "wp (inode_modify inum s) Q"
proof -
  define i where "i = (if inum = 0 then 2 else inum)"
  have sb: "sb s = sb s0" by (rule holds_fields [OF h])
  have v': "valid_frag s0 (inode_frag (sb s) i)"
    using v by (simp add: inode_slot_def Let_def i_def sb)
  show ?thesis
    unfolding inode_modify_def Let_def i_def [symmetric] wp_bind
  proof (rule cache.wp_get_write_from [OF h v'])
    fix n t assume t: "True \<Longrightarrow> frag_buf t n = f (inode_frag (sb s) i)"
      and st: "\<And>bs. length bs = rest_fsize (fs_rest s0) \<Longrightarrow>
        cache.holds s0 (set_frag_buf n bs t) (f(inode_frag (sb s) i := bs))"
    have len: "length (frag_buf t n) = frag_size s0"
      using cache.length_from [OF h v'] t by simp
    have "cache.holds s0 (set_frag_buf n (frag_buf t n) t) (f(inode_frag (sb s) i := frag_buf t n))"
      by (rule st) (simp add: len)
    from holds_fields(1) [OF this] have sbt: "sb t = sb s0" by (simp add: set_frag_buf_def)
    have "cache.holds s0 (put32 (n, inode_offset (sb s0) i) field w t)
        (set_word (inode_slot (sb s0) inum field) w f)"
      if "slot_ok (frag_size s0) (inode_slot (sb s0) inum field)" for field w
      using that t len st
      by (simp add: put32_def set_word_def inode_slot_def Let_def i_def sb slot_ok_def)
    then show "wp (case (Some n, t) of (ptr, s') \<Rightarrow>
        Some (map_option (\<lambda>n. (n, inode_offset (sb s') i)) ptr, s')) Q"
      using Q by (simp add: sbt)
  qed
qed

text \<open>Every index block on the way to the block exists.\<close>

definition full_path :: "fsys \<Rightarrow> (u32 \<Rightarrow> bytes) \<Rightarrow> u32 \<Rightarrow> u32 \<Rightarrow> bool" where
  "full_path s f inum blkno \<longleftrightarrow> length (file_slots s f inum blkno) =
     (if blkno < 12 then 1 else Suc (length (the (block_path s blkno))))"

lemma cidisk_frag_sets:
  assumes h: "cache.holds s0 s f" and r: "in_reach s0 (file_blk_num (sb s0) file_frag_num)"
    and v: "frags_valid s0 (file_slots s0 f inum (file_blk_num (sb s0) file_frag_num))"
    and full: "full_path s0 f inum (file_blk_num (sb s0) file_frag_num)"
    and ok: "slot_ok (frag_size s0)
      (last (file_slots s0 f inum (file_blk_num (sb s0) file_frag_num)))"
  shows "wp (cidisk_frag file_frag_num inum newblk s) (\<lambda>r t. r = 0 \<and> cache.holds s0 t
    (set_word (last (file_slots s0 f inum (file_blk_num (sb s0) file_frag_num))) newblk f))"
proof -
  define b where "b = file_blk_num (sb s0) file_frag_num"
  note vi = frags_valid_inode [OF v]
  note defs = b_def [symmetric]
  note r = r [folded b_def] and v = v [folded b_def] and full = full [folded b_def]
    and ok = ok [folded b_def]
  define Q where "Q = (\<lambda>(r :: u32) t. r = 0 \<and>
    cache.holds s0 t (set_word (last (file_slots s0 f inum b)) newblk f))"
  have direct: "wp (inode_modify inum t) (\<lambda>r t. wp (case r of None \<Rightarrow> Some (1, t)
      | Some p \<Rightarrow> Some (0, put32 p (ic_db (unat b)) newblk t)) Q)"
    if lt: "b < 12" and t: "cache.holds s0 t f" for t
  proof (rule wp_inode_modify [OF t vi])
    fix p u assume put: "\<And>field w. slot_ok (frag_size s0) (inode_slot (sb s0) inum field) \<Longrightarrow>
      cache.holds s0 (put32 p field w u) (set_word (inode_slot (sb s0) inum field) w f)"
    have "file_slots s0 f inum b = [inode_slot (sb s0) inum (ic_db (unat b))]"
      using lt by (simp add: file_slots_def)
    then show "wp (case Some p of None \<Rightarrow> Some (1, u)
        | Some p \<Rightarrow> Some (0, put32 p (ic_db (unat b)) newblk u)) Q"
      using put ok by (simp add: Q_def)
  qed
  have indirect: "\<exists>ds c. block_path s0 b = Some ds \<and>
      frag_word f (inode_slot (sb s0) inum (ic_ib (length ds - 1))) = c \<and> c \<noteq> 0 \<and>
      (\<forall>t. cache.holds s0 t f \<longrightarrow> wp (cidisk_walk (rev ds) c inum newblk t) Q)"
    if ge: "\<not> b < 12"
  proof -
    obtain ds where ds: "block_path s0 b = Some ds" using r ge by (auto simp: in_reach_def)
    define c where "c = frag_word f (inode_slot (sb s0) inum (ic_ib (length ds - 1)))"
    have ne: "ds \<noteq> []" using ds by (auto simp: block_path_def Let_def split: if_splits)
    have sl: "file_slots s0 f inum b = inode_slot (sb s0) inum (ic_ib (length ds - 1)) #
        (if c = 0 then [] else walk_slots f (rev ds) c)"
      using ge ds by (simp add: file_slots_def c_def Let_def)
    have nz: "c \<noteq> 0" "length (walk_slots f (rev ds) c) = length (rev ds)"
      using full ge ds sl ne by (auto simp: full_path_def split: if_splits)
    then have wne: "walk_slots f (rev ds) c \<noteq> []" using ne by auto
    have l: "last (file_slots s0 f inum b) = last (walk_slots f (rev ds) c)"
      using sl nz wne by simp
    have "wp (cidisk_walk (rev ds) c inum newblk t) Q" if t: "cache.holds s0 t f" for t
      unfolding Q_def l
      by (rule cidisk_walk_sets [OF t _ nz(2)])
        (use v sl nz ne ok l in \<open>simp_all add: frags_valid_def\<close>)
    then show ?thesis using ds nz(1) c_def by blast
  qed
  show ?thesis
  proof (cases "b < 12")
    case True
    then show ?thesis
      unfolding cidisk_frag_def wp_bind defs Q_def [symmetric]
      by (intro wp_inode_read [OF h vi])
        (use direct in \<open>simp add: holds_fields Let_def b_def [symmetric]
            cong: if_cong option.case_cong\<close>)
  next
    case False
    with indirect obtain ds c where ds: "block_path s0 b = Some ds"
      "frag_word f (inode_slot (sb s0) inum (ic_ib (length ds - 1))) = c" "c \<noteq> 0"
      "\<And>t. cache.holds s0 t f \<Longrightarrow> wp (cidisk_walk (rev ds) c inum newblk t) Q" by blast
    with False show ?thesis
      unfolding cidisk_frag_def wp_bind defs Q_def [symmetric]
      by (intro wp_inode_read [OF h vi])
        (simp add: holds_fields Let_def b_def [symmetric] del: One_nat_def)
  qed
qed

section \<open>The pointers are aligned words inside their frags\<close>

text \<open>The sizes of a mounted file system: a frag holds a number of inodes and \<open>2 ^ pfragshift\<close>
  pointers.\<close>

definition tree_layout :: "fsys \<Rightarrow> bool" where
  "tree_layout s \<longleftrightarrow> INOPF (sb s) \<noteq> 0 \<and>
     frag_size s = sizeof_icommon * unat (INOPF (sb s)) \<and> frag_size s = 4 * 2 ^ pfragshift (hnd s)"

lemma inode_offset_fits:
  assumes "tree_layout s"
  shows "inode_offset (sb s) i + sizeof_icommon \<le> frag_size s"
proof -
  have "itofo (sb s) i \<le> INOPF (sb s) - 1" by (simp add: itofo_def word_and_le1)
  then have "unat (itofo (sb s) i) < unat (INOPF (sb s))"
    using assms unfolding tree_layout_def word_le_nat_alt
    by (metis Suc_pred' less_Suc_eq_le unat_gt_0 unat_minus_one)
  then have "sizeof_icommon * Suc (unat (itofo (sb s) i)) \<le> frag_size s"
    using assms unfolding tree_layout_def by (metis Suc_leI mult_le_mono2)
  then show ?thesis by (simp add: inode_offset_def)
qed

lemma inode_slot_ok:
  assumes "tree_layout s" "field mod 4 = 0" "field + 4 \<le> sizeof_icommon"
  shows "slot_ok (frag_size s) (inode_slot (sb s) inum field)"
proof -
  define i where "i = (if inum = 0 then 2 else inum)"
  have "(inode_offset (sb s) i + field) mod 4 = field mod 4"
    by (simp add: inode_offset_def sizeof_icommon_def mod_add_cong [of _ 4 0])
  then show ?thesis
    using inode_offset_fits [OF assms(1), of i] assms(2,3)
    by (simp add: slot_ok_def inode_slot_def i_def Let_def)
qed

lemma walk_slots_ok:
  assumes "tree_layout s" "\<forall>(ptr, frg) \<in> set ds. ptr < 2 ^ pfragshift (hnd s)"
  shows "list_all (slot_ok (frag_size s)) (walk_slots f ds c)"
  using assms(2)
proof (induction f ds c rule: walk_slots.induct)
  case (2 f ptr frg ds curblk)
  have "slot_ok (frag_size s) (curblk + of_nat frg, 4 * ptr)"
    using 2(2) assms(1) by (auto simp: slot_ok_def tree_layout_def)
  then show ?case using 2 by (simp add: Let_def)
qed simp

lemma block_path_digits:
  assumes "block_path s blkno = Some ds"
  shows "digits_ok (pfragshift (hnd s)) (fblkshift (hnd s)) ds" "length ds \<le> 3"
  using assms index_digits_ok by (auto simp: block_path_def Let_def NIADDR_def split: if_splits)

lemma file_slots_ok:
  assumes "tree_layout s" "in_reach s blkno"
  shows "list_all (slot_ok (frag_size s)) (file_slots s f inum blkno)"
proof (cases "blkno < 12")
  case True
  then have "unat blkno < 12" by (simp add: word_less_nat_alt)
  then show ?thesis
    using True inode_slot_ok [OF assms(1), of "ic_db (unat blkno)"]
    by (simp add: file_slots_def ic_offsets mod_add_cong)
next
  case False
  then obtain ds where ds: "block_path s blkno = Some ds" using assms(2) by (auto simp: in_reach_def)
  have "\<forall>(ptr, frg) \<in> set (rev ds). ptr < 2 ^ pfragshift (hnd s)"
    using block_path_digits(1) [OF ds] by (auto simp: digits_ok_def)
  moreover have "ic_ib (length ds - 1) mod 4 = 0 \<and> ic_ib (length ds - 1) + 4 \<le> sizeof_icommon"
    using block_path_digits(2) [OF ds] by (simp add: ic_offsets mod_add_cong)
  ultimately show ?thesis
    using False ds inode_slot_ok [OF assms(1)] walk_slots_ok [OF assms(1)]
    by (simp add: file_slots_def Let_def)
qed

section \<open>The tree after a change\<close>

lemma walk_slots_set:
  assumes "slot_ok n p" "list_all (slot_ok n) (walk_slots f ds c)" "length (f (fst p)) = n"
    and "p \<notin> set (butlast (walk_slots f ds c))"
    and "p \<in> set (walk_slots f ds c) \<Longrightarrow> length (walk_slots f ds c) = length ds"
  shows "walk_slots (set_word p v f) ds c = walk_slots f ds c"
  using assms(2-5)
proof (induction f ds c rule: walk_slots.induct)
  case (2 f ptr frg ds curblk)
  define q where "q = (curblk + of_nat frg, 4 * ptr)"
  define c where "c = frag_word f q"
  define ps where "ps = (if c = 0 then [] else walk_slots f ds c)"
  have sl: "walk_slots f ((ptr, frg) # ds) curblk = q # ps"
    by (simp add: q_def c_def ps_def Let_def)
  have sl': "walk_slots g ((ptr, frg) # ds) curblk =
      q # (if frag_word g q = 0 then [] else walk_slots g ds (frag_word g q))" for g
    by (simp add: q_def Let_def)
  show ?case
  proof (cases "p = q")
    case True
    then have "ps = []" using 2(4) unfolding sl by (cases ps) auto
    then have "ds = []" using 2(5) True unfolding sl by simp
    then show ?thesis unfolding sl' by simp
  next
    case False
    have w: "frag_word (set_word p v f) q = c"
      using frag_word_set_word [of n p q f v] assms(1) 2(2,3) False sl by (simp add: c_def)
    show ?thesis
    proof (cases "c = 0")
      case True
      then show ?thesis unfolding sl' w by (simp add: c_def [symmetric])
    next
      case nz: False
      then have ps: "ps = walk_slots f ds c" by (simp add: ps_def)
      have "walk_slots (set_word p v f) ds c = walk_slots f ds c"
      proof (rule 2(1) [OF q_def c_def nz])
        show "list_all (slot_ok n) (walk_slots f ds c)" using 2(2) sl ps by simp
        show "length (f (fst p)) = n" by (rule 2(3))
        show "p \<notin> set (butlast (walk_slots f ds c))"
          using 2(4) unfolding sl ps by (auto split: if_splits)
        show "length (walk_slots f ds c) = length ds" if "p \<in> set (walk_slots f ds c)"
          using 2(5) that unfolding sl ps by simp
      qed
      then show ?thesis unfolding sl' w by (simp add: c_def [symmetric])
    qed
  qed
qed simp

lemma file_slots_set:
  assumes "tree_layout s" "in_reach s b" "length (f (fst p)) = frag_size s"
    and "slot_ok (frag_size s) p" "p \<notin> set (butlast (file_slots s f inum b))"
    and "p \<in> set (file_slots s f inum b) \<Longrightarrow> full_path s f inum b"
  shows "file_slots s (set_word p v f) inum b = file_slots s f inum b"
proof (cases "b < 12")
  case True
  then show ?thesis by (simp add: file_slots_def)
next
  case False
  define ds where "ds = the (block_path s b)"
  define q where "q = inode_slot (sb s) inum (ic_ib (length ds - 1))"
  have ne: "ds \<noteq> []"
    using assms(2) False by (auto simp: ds_def in_reach_def block_path_def Let_def split: if_splits)
  define c where "c = frag_word f q"
  define ps where "ps = (if c = 0 then [] else walk_slots f (rev ds) c)"
  have sl': "file_slots s g inum b =
      q # (if frag_word g q = 0 then [] else walk_slots g (rev ds) (frag_word g q))" for g
    using False by (simp add: file_slots_def ds_def q_def Let_def)
  have sl: "file_slots s f inum b = q # ps" using sl' [of f] by (simp add: ps_def c_def)
  have len: "p \<in> set (q # ps) \<Longrightarrow> length ps = length ds"
    using assms(6) False unfolding full_path_def sl by (simp add: ds_def)
  have ok: "list_all (slot_ok (frag_size s)) (q # ps)"
    using file_slots_ok [OF assms(1,2), of f inum] unfolding sl .
  have "p \<noteq> q" using assms(5) len ne unfolding sl by (cases ps) auto
  then have w: "frag_word (set_word p v f) q = c"
    using frag_word_set_word [of "frag_size s" p q f v] assms(3,4) ok by (simp add: c_def)
  show ?thesis
  proof (cases "c = 0")
    case True
    then show ?thesis unfolding sl' w by (simp add: c_def [symmetric])
  next
    case nz: False
    then have ps: "ps = walk_slots f (rev ds) c" by (simp add: ps_def)
    have "walk_slots (set_word p v f) (rev ds) c = walk_slots f (rev ds) c"
    proof (rule walk_slots_set)
      show "slot_ok (frag_size s) p" "length (f (fst p)) = frag_size s" by (fact assms)+
      show "list_all (slot_ok (frag_size s)) (walk_slots f (rev ds) c)" using ok ps by simp
      show "p \<notin> set (butlast (walk_slots f (rev ds) c))"
        using assms(5) unfolding sl ps by (auto split: if_splits)
      show "length (walk_slots f (rev ds) c) = length (rev ds)"
        if "p \<in> set (walk_slots f (rev ds) c)"
        using len that unfolding ps by simp
    qed
    then show ?thesis unfolding sl' w by (simp add: c_def [symmetric])
  qed
qed

text \<open>The frag number of a file block changes where its pointer is the changed one, and
  nowhere else.\<close>

lemma file_frag_addr_set:
  assumes "tree_layout s" "in_reach s (file_blk_num (sb s) ffn)"
    and "length (f (fst p)) = frag_size s" "slot_ok (frag_size s) p"
    and "p \<notin> set (butlast (file_slots s f inum (file_blk_num (sb s) ffn)))"
    and "p \<in> set (file_slots s f inum (file_blk_num (sb s) ffn)) \<Longrightarrow>
      full_path s f inum (file_blk_num (sb s) ffn)"
  shows "file_frag_addr s (set_word p v f) inum ffn =
    (if last (file_slots s f inum (file_blk_num (sb s) ffn)) = p
     then (if v = 0 then 0 else v + blk_frac (sb s) ffn)
     else file_frag_addr s f inum ffn)"
proof -
  let ?ps = "file_slots s f inum (file_blk_num (sb s) ffn)"
  have same: "file_slots s (set_word p v f) inum (file_blk_num (sb s) ffn) = ?ps"
    by (rule file_slots_set [OF assms(1-6)])
  have "?ps \<noteq> []" using file_slots_hd [of s f inum "file_blk_num (sb s) ffn"] by auto
  then have "slot_ok (frag_size s) (last ?ps)"
    using file_slots_ok [OF assms(1,2), of f inum] by (simp add: list_all_iff)
  from frag_word_set_word [of _ _ _ f v, OF assms(4) this assms(3)] show ?thesis
    by (auto simp: file_frag_addr_def same Let_def)
qed

end
