(* ===== verification/Tree_Properties.thy ===== *)
theory Tree_Properties
  imports Tree_Correct
begin

text \<open>
  What the inode layer promises of the tree of index blocks: the path to a block is a
  bijective numeral of at most three digits, \<open>ridisk_frag\<close> finds the frag that the tree has
  for a frag of a file, and \<open>cidisk_frag\<close> changes it for the frags of one block only.
\<close>

section \<open>The path to a block\<close>

text \<open>Every block behind the direct ones has one path, and every path of digits in their
  range is the path of one block.\<close>

theorem index_digits_numeral:
  "bij_betw (index_digits p b) UNIV {ds. digits_ok p b ds} \<and>
   digits_value p b (index_digits p b n) = n"
proof
  show "bij_betw (index_digits p b) UNIV {ds. digits_ok p b ds}"
    by (rule bij_betw_byWitness [where f' = "digits_value p b"])
      (auto simp: index_digits_value index_digits_unique index_digits_ok)
qed (rule index_digits_value)

text \<open>C24: the code reaches a block exactly when its number is below the number of blocks that
  three levels of index blocks have; then the digits fit into arrays with \<open>NIADDR\<close> entries.\<close>

theorem block_path_bounds:
  "block_path s blkno \<noteq> None \<longleftrightarrow>
   0 \<le> sint (blkno - 12) \<and>
   nat (sint (blkno - 12)) < level_blocks (2 ^ pfragshift (hnd s) * 2 ^ fblkshift (hnd s)) NIADDR"
  using digits_levels [of "2 ^ pfragshift (hnd s) * 2 ^ fblkshift (hnd s)" "pfragshift (hnd s)"
      "fblkshift (hnd s)" NIADDR "nat (sint (blkno - 12))"]
  by (auto simp: block_path_def Let_def NIADDR_def)

section \<open>The frag of a file\<close>

text \<open>A disk with one inode, a direct and an index block.\<close>

definition sample_tree :: "u32 \<Rightarrow> bytes" where
  "sample_tree b =
     (if b = 32 then poke32 (poke32 (replicate 512 0) 344 256) 308 304
      else if b = 256 then poke32 (replicate 512 0) 4 320
      else replicate 512 0)"

lemma sample_tree_length: "length (sample_tree b) = 512"
  by (simp add: sample_tree_def)

abbreviation sample_file :: fsys where
  "sample_file \<equiv> opened sample_tree sample_cg"

lemmas sample_file = opened_state [of sample_tree, OF sample_tree_length, where g = sample_cg]

lemma sample_file_paths:
  "block_path sample_file 12 = Some [(0, 0)]" "block_path sample_file 13 = Some [(1, 0)]"
  "pfragshift (hnd sample_file) = 7" "fsize (hnd sample_file) = 512" "tree_layout sample_file"
proof -
  obtain m where h: "hnd sample_file = sample_hnd\<lparr>mem_count := m\<rparr>" using sample_file(6) by blast
  show "pfragshift (hnd sample_file) = 7" "fsize (hnd sample_file) = 512"
    by (simp_all add: h sample_hnd_def)
  have "index_digits 7 3 0 = [(0, 0)]" "index_digits 7 3 1 = [(1, 0)]"
    by (subst index_digits.simps, simp)+
  then show "block_path sample_file 12 = Some [(0, 0)]" "block_path sample_file 13 = Some [(1, 0)]"
    by (simp_all add: block_path_def h sample_hnd_def NIADDR_def)
  show "tree_layout sample_file"
    by (simp add: tree_layout_def sample_file(3) h sample_hnd_def sample_sb_def INOPF_def
        sizeof_icommon_def)
qed

lemma sample_file_slots:
  assumes "\<And>b. b \<noteq> 0 \<Longrightarrow> f b = sample_tree b"
  shows "file_slots sample_file f 2 3 = [(32, 308)]" "file_slots sample_file f 2 13 = [(32, 344), (256, 4)]"
    "frag_word f (32, 308) = 304" "frag_word f (256, 4) = 320"
proof -
  have sl: "inode_slot sample_sb 2 (ic_db 3) = (32, 308)" "inode_slot sample_sb 2 (ic_ib 0) = (32, 344)"
    by code_simp+
  have w: "peek32 (sample_tree 32) 308 = 304" "peek32 (sample_tree 32) 344 = 256"
    "peek32 (sample_tree 256) 4 = 320" by code_simp+
  show "file_slots sample_file f 2 3 = [(32, 308)]"
    by (simp add: file_slots_def sample_file(3) sl)
  show "file_slots sample_file f 2 13 = [(32, 344), (256, 4)]"
    by (simp add: file_slots_def sample_file(3) sl sample_file_paths frag_word_def assms w)
  show "frag_word f (32, 308) = 304" "frag_word f (256, 4) = 320"
    by (simp_all add: frag_word_def assms w)
qed

lemma sample_file_valid: "valid_frag sample_file b \<longleftrightarrow> b \<noteq> 0 \<and> b < 1024"
  by (rule opened_valid [of sample_tree, OF sample_tree_length])

lemma sample_file_view: "b \<noteq> 0 \<Longrightarrow> view sample_file b = sample_tree b"
  by (rule sample_file(2))

lemma sample_file_blocks:
  "file_blk_num sample_sb 109 = 13" "file_blk_num sample_sb 107 = 13" "file_blk_num sample_sb 30 = 3"
  "blk_frac sample_sb 109 = 5" "blk_frac sample_sb 107 = 3" "blk_frac sample_sb 30 = 6"
  by code_simp+

text \<open>C4: \<open>ridisk_frag\<close> returns the frag that the contents of the file system give for a frag of
  a file, 0 in a hole, and changes nothing.\<close>

theorem ridisk_frag_finds:
  assumes "mounted s" "in_reach s (file_blk_num (sb s) file_frag_num)"
    and "frags_valid s (file_slots s (view s) inum (file_blk_num (sb s) file_frag_num))"
  shows "wp (ridisk_frag file_frag_num inum s) (\<lambda>r t. cache.holds s t (view s) \<and>
    r = file_frag_addr s (view s) inum file_frag_num)"
  by (rule ridisk_frag_reads [OF cache.holds_refl [OF assms(1)] assms(2,3)])

lemma ridisk_frag_finds_witness:
  "wp (ridisk_frag 109 2 sample_file) (\<lambda>r t. cache.holds sample_file t (view sample_file) \<and> r = 325)"
proof -
  note s = sample_file_slots [of "view sample_file", OF sample_file_view]
  have "wp (ridisk_frag 109 2 sample_file) (\<lambda>r t. cache.holds sample_file t (view sample_file) \<and>
      r = file_frag_addr sample_file (view sample_file) 2 109)"
    by (rule ridisk_frag_finds)
      (simp_all add: sample_file(1,3) sample_file_blocks in_reach_def sample_file_paths s
        frags_valid_def sample_file_valid)
  then show ?thesis by (simp add: file_frag_addr_def sample_file(3) sample_file_blocks s)
qed

text \<open>C5: after \<open>cidisk_frag\<close> has given a new frag to a block whose index blocks all exist,
  \<open>ridisk_frag\<close> finds the new one for the frags of that block, and what it found before for
  every file frag whose pointer is another one: the map from file frags to disk frags is
  updated at one block. The part of \<open>cidisk_frag\<close> that allocates, erases and links missing index
  blocks is not covered.\<close>

theorem cidisk_frag_remaps:
  assumes "mounted s" "tree_layout s"
    and "in_reach s (file_blk_num (sb s) ffn)" "full_path s (view s) inum (file_blk_num (sb s) ffn)"
    and "frags_valid s (file_slots s (view s) inum (file_blk_num (sb s) ffn))"
    and "in_reach s (file_blk_num (sb s) ffn')"
    and "frags_valid s (file_slots s (view s) inum' (file_blk_num (sb s) ffn'))"
    and "last (file_slots s (view s) inum (file_blk_num (sb s) ffn))
      \<notin> set (butlast (file_slots s (view s) inum' (file_blk_num (sb s) ffn')))"
    and "last (file_slots s (view s) inum (file_blk_num (sb s) ffn))
      \<in> set (file_slots s (view s) inum' (file_blk_num (sb s) ffn')) \<longrightarrow>
      full_path s (view s) inum' (file_blk_num (sb s) ffn')"
  shows "wp (do { (err, s) \<leftarrow> cidisk_frag ffn inum new s; ridisk_frag ffn' inum' s }) (\<lambda>r t.
    r = (if last (file_slots s (view s) inum' (file_blk_num (sb s) ffn')) =
            last (file_slots s (view s) inum (file_blk_num (sb s) ffn))
         then (if new = 0 then 0 else new + blk_frac (sb s) ffn')
         else file_frag_addr s (view s) inum' ffn'))"
proof -
  let ?ps = "file_slots s (view s) inum (file_blk_num (sb s) ffn)"
  define p where "p = last ?ps"
  have h: "cache.holds s s (view s)" by (rule cache.holds_refl [OF assms(1)])
  have "p \<in> set ?ps"
    using file_slots_hd [of s "view s" inum "file_blk_num (sb s) ffn"] by (auto simp: p_def)
  then have p: "slot_ok (frag_size s) p" "valid_frag s (fst p)"
    using file_slots_ok [OF assms(2,3), of "view s" inum] assms(5)
    by (auto simp: list_all_iff frags_valid_def)
  have len: "length (view s (fst p)) = frag_size s"
    using cache.length_from [OF h p(2)] by simp
  have set: "file_slots s (set_word p new (view s)) inum' (file_blk_num (sb s) ffn') =
      file_slots s (view s) inum' (file_blk_num (sb s) ffn')"
    by (rule file_slots_set [OF assms(2,6) _ p(1)]) (use len assms(8,9) in \<open>auto simp: p_def\<close>)
  have addr: "file_frag_addr s (set_word p new (view s)) inum' ffn' =
      (if last (file_slots s (view s) inum' (file_blk_num (sb s) ffn')) = p
       then (if new = 0 then 0 else new + blk_frac (sb s) ffn')
       else file_frag_addr s (view s) inum' ffn')"
    by (rule file_frag_addr_set [OF assms(2,6) _ p(1)]) (use len assms(8,9) in \<open>auto simp: p_def\<close>)
  have "wp (cidisk_frag ffn inum new s) (\<lambda>r t. r = 0 \<and> cache.holds s t (set_word p new (view s)))"
    unfolding p_def by (rule cidisk_frag_sets [OF h assms(3,5,4)]) (use p in \<open>simp add: p_def\<close>)
  then show ?thesis
    unfolding wp_bind
  proof (rule wp_mono)
    fix r t assume "r = 0 \<and> cache.holds s t (set_word p new (view s))"
    then have t: "cache.holds s t (set_word p new (view s))" ..
    show "wp (case (r, t) of (err, s) \<Rightarrow> ridisk_frag ffn' inum' s) (\<lambda>r t.
      r = (if last (file_slots s (view s) inum' (file_blk_num (sb s) ffn')) = last ?ps
         then (if new = 0 then 0 else new + blk_frac (sb s) ffn')
         else file_frag_addr s (view s) inum' ffn'))"
      using ridisk_frag_reads [OF t assms(6), of inum', unfolded set addr, OF assms(7)]
      unfolding p_def [symmetric] split by (rule wp_mono) blast
  qed
qed

lemma cidisk_frag_remaps_witness:
  "wp (do { (err, s) \<leftarrow> cidisk_frag 109 2 400 sample_file; ridisk_frag 107 2 s }) (\<lambda>r t. r = 403) \<and>
   wp (do { (err, s) \<leftarrow> cidisk_frag 109 2 400 sample_file; ridisk_frag 30 2 s }) (\<lambda>r t. r = 310)"
proof -
  note s = sample_file_slots [of "view sample_file", OF sample_file_view]
  note e = sample_file(1,3) sample_file_blocks in_reach_def sample_file_paths s
        frags_valid_def sample_file_valid full_path_def
  show ?thesis
    using cidisk_frag_remaps [of sample_file 109 2 107 2 400]
      cidisk_frag_remaps [of sample_file 109 2 30 2 400]
    by (simp add: e file_frag_addr_def)
qed

end
