(* ===== verification/Alloc_Correct.thy ===== *)
theory Alloc_Correct
  imports Alloc Sample
begin

text \<open>
  The allocator on the groups of a file system: while a group is open for writing, a change
  of its block and of the superblock are changes of a value, so that \<open>block_allocate\<close> and
  \<open>block_deallocate\<close> are functions on the block of one group and on the totals.
\<close>

section \<open>A group open for writing\<close>

text \<open>The fields of the superblock that place the groups.\<close>

definition same_geometry :: "superblock \<Rightarrow> superblock \<Rightarrow> bool" where
  "same_geometry fs fs' \<longleftrightarrow>
     fs_ncg fs' = fs_ncg fs \<and> fs_ronly fs' = fs_ronly fs \<and> cgtod fs' = cgtod fs \<and>
     cgbase fs' = cgbase fs \<and> fs_frag fs' = fs_frag fs"

lemma same_geometry_refl [simp]: "same_geometry fs fs"
  by (simp add: same_geometry_def)

lemma same_geometry_trans:
  "same_geometry fs fs' \<Longrightarrow> same_geometry fs' fs'' \<Longrightarrow> same_geometry fs fs''"
  by (simp add: same_geometry_def)

text \<open>Everything but the groups and the superblock.\<close>

definition alloc_frame :: "fsys \<Rightarrow> fsys \<Rightarrow> bool" where
  "alloc_frame s t \<longleftrightarrow> cg_frame s (t\<lparr>sb := sb s\<rparr>) \<and> same_geometry (sb s) (sb t)"

text \<open>From \<open>s\<close>, the superblock has become \<open>fs\<close> and the groups \<open>v\<close>.\<close>

definition groups :: "fsys \<Rightarrow> fsys \<Rightarrow> superblock \<Rightarrow> (u32 \<Rightarrow> cg) \<Rightarrow> (nat \<times> bool) list \<Rightarrow> bool" where
  "groups s t fs v E \<longleftrightarrow>
     cg_inv t E \<and> sb t = fs \<and> alloc_frame s t \<and> (\<forall>a < fs_ncg (sb s). cg_view t a = v a)"

text \<open>Group \<open>c\<close> is open at \<open>p\<close> with the block \<open>x\<close>.\<close>

definition open_group :: "fsys \<Rightarrow> u32 \<Rightarrow> fsys \<Rightarrow> nat \<Rightarrow> superblock \<Rightarrow> cg \<Rightarrow> bool" where
  "open_group s c t p fs x \<longleftrightarrow>
     (\<exists>E. groups s t fs ((cg_view s)(c := x)) E \<and> (p, True) \<in> set E \<and> cg_cgx x = c \<and> cg_at t p = x)"

lemma open_groupD:
  assumes "open_group s c t p fs x"
  shows "sb t = fs" "cg_at t p = x" "same_geometry (sb s) fs" "cg_cgx x = c"
  using assms by (auto simp: open_group_def groups_def alloc_frame_def)

lemma open_group_done:
  "open_group s c t p fs x \<Longrightarrow> \<exists>E. groups s t fs ((cg_view s)(c := x)) E"
  by (auto simp: open_group_def)

lemma cg_inv_sb:
  assumes "cg_inv t E" "same_geometry (sb t) fs"
  shows "cg_inv (t\<lparr>sb := fs\<rparr>) E" "cg_view (t\<lparr>sb := fs\<rparr>) = cg_view t"
proof -
  have at: "cg_at (t\<lparr>sb := fs\<rparr>) p = cg_at t p" for p by (simp add: cg_at_def)
  have cgx: "cgx_of (t\<lparr>sb := fs\<rparr>) = cgx_of t" by (simp add: fun_eq_iff cgx_of_def at)
  show "cg_inv (t\<lparr>sb := fs\<rparr>) E"
    using assms by (simp add: cg_inv_def same_geometry_def cg_layout_def cgx at dev_ok_def
        frag_ok_def sectoff_def)
  show "cg_view (t\<lparr>sb := fs\<rparr>) = cg_view t"
    using assms(2)
    by (simp add: fun_eq_iff cg_view_def at same_geometry_def cong: option.case_cong)
qed

lemma open_cg_write:
  assumes "cg_inv s E" "c < fs_ncg (sb s)"
  shows "wp (cache_cg_write c s) (\<lambda>r t. \<exists>p. r = Some p \<and> open_group s c t p (sb s) (cg_view s c))"
proof -
  obtain p t E' where t: "cache_cg_write c s = Some (Some p, t)" "cg_fetched s c t E' (p, True)"
    using cache_cg_write_correct [OF assms] by blast
  have sbt: "sb t = sb s" using t(2) by (simp add: cg_fetched_def cg_frame_def)
  then have tt: "t\<lparr>sb := sb s\<rparr> = t" by (metis fsys.surjective fsys.update_convs(2))
  have "open_group s c t p (sb s) (cg_view s c)"
    using t(2) sbt cg_view_cgx [OF assms]
    unfolding open_group_def groups_def alloc_frame_def tt
    by (intro exI [of _ E']) (simp add: cg_fetched_def cg_same_view_def cgx_of_def)
  then show ?thesis using t(1) by simp
qed

lemma open_upd_cg:
  assumes "open_group s c t p fs x" "cg_cgx (f x) = cg_cgx x"
  shows "open_group s c (upd_cg p f t) p fs (f x)"
proof -
  obtain E where E: "cg_inv t E" "sb t = fs" "alloc_frame s t" "(p, True) \<in> set E" "cg_cgx x = c"
    "cg_at t p = x" "\<forall>a < fs_ncg (sb s). cg_view t a = ((cg_view s)(c := x)) a"
    using assms(1) by (auto simp: open_group_def groups_def)
  let ?t = "set_cg p (f x) t"
  have u: "upd_cg p f t = ?t" using E(6) by (simp add: upd_cg_def)
  have cgx: "cg_cgx (f x) = cgx_of t (p, True)" using assms(2) E(6) by (simp add: cgx_of_def)
  note st = set_cg_correct [OF E(1,4) cgx]
  have ncg: "fs_ncg (sb t) = fs_ncg (sb s)"
    using E(3) by (simp add: alloc_frame_def same_geometry_def)
  have "cg_frame (t\<lparr>sb := sb s\<rparr>) (?t\<lparr>sb := sb s\<rparr>)"
    using st(2) by (simp add: cg_frame_def)
  then have fr: "alloc_frame s ?t"
    using E(3) cg_frame_trans [of s "t\<lparr>sb := sb s\<rparr>" "?t\<lparr>sb := sb s\<rparr>"] st(2)
    by (simp add: alloc_frame_def cg_frame_def)
  have "cg_view ?t a = ((cg_view s)(c := f x)) a" if "a < fs_ncg (sb s)" for a
    using st(3) [of a] that E(5,7) assms(2) ncg by simp
  moreover have "cg_at ?t p = f x" by (simp add: cg_at_def set_cg_def)
  moreover have "sb ?t = fs" using E(2) by (simp add: set_cg_def)
  ultimately show ?thesis
    unfolding u open_group_def groups_def using st(1) fr E(4,5) assms(2)
    by (intro exI [of _ E]) simp
qed

lemma open_upd_sb:
  assumes "open_group s c t p fs x" "same_geometry fs (g fs)"
  shows "open_group s c (upd_sb g t) p (g fs) x"
proof -
  obtain E where E: "cg_inv t E" "sb t = fs" "alloc_frame s t" "(p, True) \<in> set E" "cg_cgx x = c"
    "cg_at t p = x" "\<forall>a < fs_ncg (sb s). cg_view t a = ((cg_view s)(c := x)) a"
    using assms(1) by (auto simp: open_group_def groups_def)
  have u: "upd_sb g t = t\<lparr>sb := g fs\<rparr>" using E(2) by (simp add: upd_sb_def)
  have geo: "same_geometry (sb t) (g fs)" using assms(2) E(2) by simp
  note inv = cg_inv_sb [OF E(1) geo]
  have "alloc_frame s (t\<lparr>sb := g fs\<rparr>)"
    using E(2,3) same_geometry_trans [OF _ assms(2)] by (simp add: alloc_frame_def)
  then show ?thesis
    unfolding u open_group_def groups_def using inv E
    by (intro exI [of _ E]) (simp add: cg_at_def)
qed

section \<open>The counters of a block\<close>

definition count_block_cg :: "superblock \<Rightarrow> u32 \<Rightarrow> u32 \<Rightarrow> cg \<Rightarrow> cg" where
  "count_block_cg fs b a c =
     (let c = adjust_rotation fs b a c;
          c = c\<lparr>cg_cs := add_nbfree a (cg_cs c)\<rparr>
      in if fs_contigsumsize fs \<le>s 0 then c
         else clusteracct_cg fs (unat (fragstoblks fs b)) a c)"

definition count_block_sb :: "u32 \<Rightarrow> u32 \<Rightarrow> superblock \<Rightarrow> superblock" where
  "count_block_sb cgx a fs = add_totals (add_nbfree a) (upd_cs cgx (add_nbfree a) fs)"

text \<open>The group without and with the block.\<close>

definition cg_take_block :: "superblock \<Rightarrow> nat \<Rightarrow> cg \<Rightarrow> cg" where
  "cg_take_block fs b c =
     count_block_cg fs (of_nat b) (-1)
       (c\<lparr>cg_blksfree := block_alloc (fpb fs) (cg_blksfree c) b\<rparr>)"

definition cg_give_block :: "superblock \<Rightarrow> nat \<Rightarrow> cg \<Rightarrow> cg" where
  "cg_give_block fs b c =
     count_block_cg fs (of_nat b) 1
       (c\<lparr>cg_blksfree := block_dealloc (fpb fs) (cg_blksfree c) b\<rparr>)"

lemma clusteracct_fields [simp]:
  "cg_cgx (clusteracct_cg fs b a c) = cg_cgx c" "cg_blksfree (clusteracct_cg fs b a c) = cg_blksfree c"
  "cg_ndblk (clusteracct_cg fs b a c) = cg_ndblk c" "cg_cs (clusteracct_cg fs b a c) = cg_cs c"
  by (simp_all add: clusteracct_cg_def Let_def sum_add_def)

lemma count_block_fields [simp]:
  "cg_cgx (count_block_cg fs b a c) = cg_cgx c" "cg_blksfree (count_block_cg fs b a c) = cg_blksfree c"
  "cg_ndblk (count_block_cg fs b a c) = cg_ndblk c"
  "cg_cs (count_block_cg fs b a c) = add_nbfree a (cg_cs c)"
  by (simp_all add: count_block_cg_def Let_def adjust_rotation_def)

lemma clusteracct_cong:
  "fs_contigsumsize fs' = fs_contigsumsize fs \<Longrightarrow> clusteracct_cg fs' = clusteracct_cg fs"
  by (rule ext)+ (simp only: clusteracct_cg_def)

lemma upd_cs_fields [simp]:
  "fs_ncg (upd_cs cgx f fs) = fs_ncg fs" "fs_ronly (upd_cs cgx f fs) = fs_ronly fs"
  "fs_frag (upd_cs cgx f fs) = fs_frag fs" "cgtod (upd_cs cgx f fs) = cgtod fs"
  "cgbase (upd_cs cgx f fs) = cgbase fs" "adjust_rotation (upd_cs cgx f fs) = adjust_rotation fs"
  "fs_contigsumsize (upd_cs cgx f fs) = fs_contigsumsize fs"
  "fragstoblks (upd_cs cgx f fs) = fragstoblks fs"
  by (simp_all add: upd_cs_def fun_eq_iff cgtod_def cgstart_def cgbase_def adjust_rotation_def
      cbtocylno_def cbtorpos_def NSPF_def fragstoblks_def)

lemma upd_cs_cluster [simp]: "clusteracct_cg (upd_cs cgx f fs) = clusteracct_cg fs"
  by (rule clusteracct_cong) simp

lemma add_totals_fields [simp]:
  "fs_ncg (add_totals f fs) = fs_ncg fs" "fs_ronly (add_totals f fs) = fs_ronly fs"
  "fs_frag (add_totals f fs) = fs_frag fs" "cgtod (add_totals f fs) = cgtod fs"
  "cgbase (add_totals f fs) = cgbase fs" "fs_contigsumsize (add_totals f fs) = fs_contigsumsize fs"
  "fragstoblks (add_totals f fs) = fragstoblks fs"
  by (simp_all add: add_totals_def upd_totals_def Let_def fun_eq_iff cgtod_def cgstart_def
      cgbase_def fragstoblks_def)

lemma add_totals_cluster [simp]: "clusteracct_cg (add_totals f fs) = clusteracct_cg fs"
  by (rule clusteracct_cong) simp

lemma same_geometry_counts [simp]:
  "same_geometry fs (upd_cs cgx f fs)" "same_geometry fs (add_totals f fs)"
  by (simp_all add: same_geometry_def)

lemma count_block_sb_fields [simp]:
  "fs_ncg (count_block_sb cgx a fs) = fs_ncg fs" "cgbase (count_block_sb cgx a fs) = cgbase fs"
  "cgtod (count_block_sb cgx a fs) = cgtod fs" "fs_frag (count_block_sb cgx a fs) = fs_frag fs"
  "fs_contigsumsize (count_block_sb cgx a fs) = fs_contigsumsize fs"
  "clusteracct_cg (count_block_sb cgx a fs) = clusteracct_cg fs"
  "fragstoblks (count_block_sb cgx a fs) = fragstoblks fs"
  by (simp_all add: count_block_sb_def)

lemma open_adjust_blks_free:
  assumes "open_group s c t p fs x"
  shows "open_group s c (adjust_blks_free p cgx b a t) p (count_block_sb cgx a fs)
    ((adjust_rotation fs b a x)\<lparr>cg_cs := add_nbfree a (cg_cs x)\<rparr>)"
proof -
  have f: "cg_cgx (adjust_rotation fs b a y) = cg_cgx y" "cg_cs (adjust_rotation fs b a y) = cg_cs y" for y
    by (simp_all add: adjust_rotation_def Let_def)
  let ?t = "upd_sb (upd_cs cgx (add_nbfree a)) t"
  let ?h = "\<lambda>c. c\<lparr>cg_cs := add_nbfree a (cg_cs c)\<rparr>"
  have "sb ?t = upd_cs cgx (add_nbfree a) fs"
    using open_groupD(1) [OF assms] by (simp add: upd_sb_def)
  then have e: "adjust_blks_free p cgx b a t = upd_sb (add_totals (add_nbfree a))
      (upd_cg p ?h (upd_cg p (adjust_rotation fs b a) ?t))"
    by (simp add: adjust_blks_free_def)
  have "open_group s c ?t p (upd_cs cgx (add_nbfree a) fs) x"
    by (rule open_upd_sb [OF assms]) simp
  then have "open_group s c (upd_cg p (adjust_rotation fs b a) ?t) p
      (upd_cs cgx (add_nbfree a) fs) (adjust_rotation fs b a x)"
    by (rule open_upd_cg) (rule f)
  then have "open_group s c (upd_cg p ?h (upd_cg p (adjust_rotation fs b a) ?t)) p
      (upd_cs cgx (add_nbfree a) fs) (?h (adjust_rotation fs b a x))"
    by (rule open_upd_cg) simp
  then have "open_group s c (adjust_blks_free p cgx b a t) p (count_block_sb cgx a fs)
      (?h (adjust_rotation fs b a x))"
    unfolding e count_block_sb_def by (rule open_upd_sb) simp
  then show ?thesis by (simp add: f)
qed

lemma open_clusteracct:
  assumes "open_group s c t p fs x"
  shows "open_group s c (ffs_clusteracct p b a t) p fs
    (if fs_contigsumsize fs \<le>s 0 then x else clusteracct_cg fs (unat (fragstoblks fs b)) a x)"
  using assms open_upd_cg [OF assms, of "clusteracct_cg fs (unat (fragstoblks fs b)) a"]
    open_groupD(1) [OF assms] by (simp add: ffs_clusteracct_def)

lemma open_count_block:
  assumes "open_group s c t p fs x"
  shows "open_group s c (ffs_clusteracct p b a (adjust_blks_free p cgx b a t)) p
    (count_block_sb cgx a fs) (count_block_cg fs b a x)"
proof -
  have "cg_cs (adjust_rotation fs b a x) = cg_cs x" by (simp add: adjust_rotation_def Let_def)
  then show ?thesis
    using open_clusteracct [OF open_adjust_blks_free [OF assms, of cgx b a], of b a]
    by (simp add: count_block_cg_def Let_def cong: if_cong)
qed

section \<open>Taking and giving back a block\<close>

lemma take_block_groups:
  assumes "cg_inv s E" "cgx < fs_ncg (sb s)"
  shows "wp (take_block cgx (int b) s) (\<lambda>r t. r = of_nat b + cgbase (sb s) cgx \<and>
    (\<exists>E. groups s t (count_block_sb cgx (-1) (sb s))
      ((cg_view s)(cgx := cg_take_block (sb s) b (cg_view s cgx))) E))"
  unfolding take_block_def wp_bind
  apply (rule wp_mono [OF open_cg_write [OF assms]])
  subgoal premises prems for r t
  proof -
    obtain p where r: "r = Some p" and o: "open_group s cgx t p (sb s) (cg_view s cgx)"
      using prems by blast
    let ?f = "\<lambda>c. c\<lparr>cg_blksfree := block_alloc (fpb (sb s)) (cg_blksfree c) b\<rparr>"
    have "open_group s cgx (upd_cg p ?f t) p (sb s) (?f (cg_view s cgx))"
      by (rule open_upd_cg [OF o]) simp
    note o' = open_count_block [OF this, of "of_nat b" "-1" cgx]
    show ?thesis
      using open_group_done [OF o'] open_groupD(1) [OF o'] open_groupD(1) [OF o] r
      by (simp add: Let_def cg_take_block_def)
  qed
  done

lemma block_deallocate_groups:
  assumes "cg_inv s E" "dtog (sb s) block < fs_ncg (sb s)"
  shows "wp (block_deallocate block s) (\<lambda>_ t.
    \<exists>E. groups s t (count_block_sb (dtog (sb s) block) 1 (sb s))
      ((cg_view s)(dtog (sb s) block := cg_give_block (sb s) (unat (dtogd (sb s) block))
        (cg_view s (dtog (sb s) block)))) E)"
  unfolding block_deallocate_def Let_def wp_bind
  apply (rule wp_mono [OF open_cg_write [OF assms]])
  subgoal premises prems for r t
  proof -
    let ?c = "dtog (sb s) block" and ?b = "dtogd (sb s) block"
    obtain p where r: "r = Some p" and o: "open_group s ?c t p (sb s) (cg_view s ?c)"
      using prems by blast
    let ?f = "\<lambda>c. c\<lparr>cg_blksfree := block_dealloc (fpb (sb s)) (cg_blksfree c) (unat ?b)\<rparr>"
    have "open_group s ?c (upd_cg p ?f t) p (sb s) (?f (cg_view s ?c))"
      by (rule open_upd_cg [OF o]) simp
    note o' = open_count_block [OF this, of ?b 1 ?c]
    show ?thesis
      using open_group_done [OF o'] open_groupD(1) [OF o'] open_groupD(1) [OF o] r
      by (simp add: Let_def cg_give_block_def upd_cg_def [of _ _ t])
  qed
  done

lemma groups_refl: "cg_inv s E \<Longrightarrow> groups s s (sb s) (cg_view s) E"
  by (simp add: groups_def alloc_frame_def)

lemma groups_trans:
  assumes "groups s t fs v E" "groups t u fs' w E'" "\<And>a. a < fs_ncg (sb s) \<Longrightarrow> w a = w' a"
  shows "groups s u fs' w' E'"
proof -
  have fr: "alloc_frame s t" "alloc_frame t u" using assms(1,2) by (simp_all add: groups_def)
  have "cg_frame (t\<lparr>sb := sb s\<rparr>) (u\<lparr>sb := sb s\<rparr>)"
    using fr(2) by (simp add: alloc_frame_def cg_frame_def)
  then have "alloc_frame s u"
    using fr cg_frame_trans [of s "t\<lparr>sb := sb s\<rparr>" "u\<lparr>sb := sb s\<rparr>"] same_geometry_trans
    by (auto simp: alloc_frame_def)
  moreover have "fs_ncg (sb t) = fs_ncg (sb s)"
    using fr(1) by (simp add: alloc_frame_def same_geometry_def)
  ultimately show ?thesis using assms by (simp add: groups_def)
qed

lemma cache_cg_groups:
  assumes "cg_inv s E" "c < fs_ncg (sb s)"
  shows "wp (cache_cg c s) (\<lambda>r t. \<exists>p E. r = Some p \<and> cg_at t p = cg_view s c \<and>
    groups s t (sb s) (cg_view s) E)"
proof -
  obtain e t E' where t: "cache_cg c s = Some (Some (fst e), t)" "cg_fetched s c t E' e"
    using cache_cg_correct [OF assms] by blast
  have sbt: "sb t = sb s" using t(2) by (simp add: cg_fetched_def cg_frame_def)
  then have tt: "t\<lparr>sb := sb s\<rparr> = t" by (metis fsys.surjective fsys.update_convs(2))
  have "groups s t (sb s) (cg_view s) E'"
    using t(2) sbt unfolding groups_def alloc_frame_def tt
    by (simp add: cg_fetched_def cg_same_view_def)
  then show ?thesis using t by (auto simp: cg_fetched_def)
qed

section \<open>The choice of a block\<close>

definition choose_block :: "superblock \<Rightarrow> (u32 \<Rightarrow> cg) \<Rightarrow> u32 \<Rightarrow> (u32 \<times> nat) option" where
  "choose_block fs v near =
     (if no_blocks fs then None
      else
        let b = find_block fs (v (dtog fs near)) (dtogd fs near)
        in if b \<noteq> -1 then Some (dtog fs near, nat b)
           else
             let (c, bfree) = best_cg (fs_csp fs) (dtog fs near) 0 0 (unat (fs_ncg fs))
             in if bfree = 0 then None
                else let b = find_block fs (v c) 0
                     in if b = -1 then None else Some (c, nat b))"

text \<open>The maps of the groups have whole blocks.\<close>

definition map_ok :: "superblock \<Rightarrow> cg \<Rightarrow> bool" where
  "map_ok fs c \<longleftrightarrow>
     fpb fs \<in> {1, 2, 4, 8} \<and> fpb fs dvd unat (cg_ndblk c) \<and> 0 < unat (cg_ndblk c) \<and>
     unat (cg_ndblk c) \<le> 8 * length (cg_blksfree c) \<and>
     (fpb fs = 4 \<longrightarrow> \<not> 8 dvd unat (cg_ndblk c) \<longrightarrow> \<not> range_free (cg_blksfree c) (unat (cg_ndblk c)) 4)"

lemma find_block_sound:
  assumes "map_ok fs c" "unat preferred < unat (cg_ndblk c)"
  shows "find_block fs c preferred = -1 \<and>
      (\<forall>b. fpb fs dvd b \<longrightarrow> b < unat (cg_ndblk c) \<longrightarrow> \<not> block_avail (fpb fs) (cg_blksfree c) b) \<or>
    (\<exists>b. find_block fs c preferred = int b \<and> fpb fs dvd b \<and> b < unat (cg_ndblk c) \<and>
      block_avail (fpb fs) (cg_blksfree c) b)"
proof -
  let ?p = "unat preferred" and ?F = "fpb fs" and ?m = "cg_blksfree c"
  have F: "?F \<in> {1, 2, 4, 8}" "?F dvd unat (cg_ndblk c)"
    "?F = 4 \<Longrightarrow> \<not> 8 dvd unat (cg_ndblk c) \<Longrightarrow> \<not> range_free ?m (unat (cg_ndblk c)) 4"
    using assms(1) by (simp_all add: map_ok_def)
  have p: "?p - ?p mod ?F < unat (cg_ndblk c)" using assms(2) by linarith
  show ?thesis
    using block_free_find_nearest [OF F(1,2) p _ F(3) refl refl] block_avail_free [OF F(1)]
    by (fastforce simp: dvd_minus_mod find_block_def cong: conj_cong)
qed

lemma best_cg_bound:
  assumes "unat index + n < 2 ^ 32"
  shows "snd (best_cg cs cgx bfree index n) = bfree \<and> fst (best_cg cs cgx bfree index n) = cgx \<or>
    unat index \<le> unat (fst (best_cg cs cgx bfree index n)) \<and>
    unat (fst (best_cg cs cgx bfree index n)) < unat index + n"
  using assms
proof (induction n arbitrary: cgx bfree index)
  case 0
  then show ?case by simp
next
  case (Suc n)
  have "unat (index + 1) = unat index + 1"
    using Suc.prems by (simp add: unat_word_ariths)
  then show ?case
    using Suc.IH [of "index + 1" index "cs_nbfree (cs ! unat index)"]
      Suc.IH [of "index + 1" cgx bfree] Suc.prems
    by (auto simp del: fst_conv snd_conv)
qed

text \<open>The state after \<open>block_allocate\<close>.\<close>

definition allocated :: "fsys \<Rightarrow> (u32 \<times> nat) option \<Rightarrow> u32 \<Rightarrow> fsys \<Rightarrow> bool" where
  "allocated s choice r t \<longleftrightarrow>
     (case choice of
        None \<Rightarrow> r = 0 \<and> (\<exists>u E. groups s u (sb s) (cg_view s) E \<and> (t = u \<or> t = set_ronly u))
      | Some (c, b) \<Rightarrow> r = of_nat b + cgbase (sb s) c \<and>
          (\<exists>E. groups s t (count_block_sb c (-1) (sb s))
            ((cg_view s)(c := cg_take_block (sb s) b (cg_view s c))) E))"

text \<open>What holds for every group.\<close>

definition maps_ok :: "fsys \<Rightarrow> bool" where
  "maps_ok s \<longleftrightarrow> (\<forall>c < fs_ncg (sb s). map_ok (sb s) (cg_view s c))"

lemma take_block_allocated:
  assumes g: "groups s t (sb s) (cg_view s) E" and c: "c < fs_ncg (sb s)"
  shows "wp (take_block c (int b) t) (allocated s (Some (c, b)))"
proof -
  have inv: "cg_inv t E" and sbt: "sb t = sb s" and v: "\<And>a. a < fs_ncg (sb s) \<Longrightarrow> cg_view t a = cg_view s a"
    using g by (simp_all add: groups_def)
  have "c < fs_ncg (sb t)" using c sbt by simp
  from take_block_groups [OF inv this] show ?thesis
  proof (rule wp_mono)
    fix r u assume "r = of_nat b + cgbase (sb t) c \<and> (\<exists>E. groups t u (count_block_sb c (-1) (sb t))
      ((cg_view t)(c := cg_take_block (sb t) b (cg_view t c))) E)"
    then obtain E' where r: "r = of_nat b + cgbase (sb s) c" and E':
      "groups t u (count_block_sb c (-1) (sb s)) ((cg_view t)(c := cg_take_block (sb s) b (cg_view t c))) E'"
      using sbt by auto
    have "groups s u (count_block_sb c (-1) (sb s)) ((cg_view s)(c := cg_take_block (sb s) b (cg_view s c))) E'"
      by (rule groups_trans [OF g E']) (use v c in simp)
    then show "allocated s (Some (c, b)) r u" using r by (auto simp: allocated_def)
  qed
qed

lemma block_allocate_choice:
  assumes inv: "cg_inv s E" and c: "dtog (sb s) near < fs_ncg (sb s)" and ok: "maps_ok s"
    and pref: "unat (dtogd (sb s) near) < unat (cg_ndblk (cg_view s (dtog (sb s) near)))"
  shows "wp (block_allocate near s) (allocated s (choose_block (sb s) (cg_view s) near))"
proof -
  let ?c = "dtog (sb s) near"
  let ?find = "\<lambda>c p. find_block (sb s) (cg_view s c) p"
  have nonneg: "?find c p = -1 \<or> (\<exists>b. ?find c p = int b)"
    if "c < fs_ncg (sb s)" "unat p < unat (cg_ndblk (cg_view s c))" for c p
    using find_block_sound [of "sb s" "cg_view s c" p] ok that by (auto simp: maps_ok_def)
  show ?thesis
    unfolding block_allocate_def Let_def wp_bind
    apply (rule wp_mono [OF cache_cg_groups [OF inv c]])
    subgoal premises prems for r t
    proof -
      obtain p E' where r: "r = Some p" "cg_at t p = cg_view s ?c"
        and g: "groups s t (sb s) (cg_view s) E'" using prems by blast
      have sbt: "sb t = sb s" using g by (simp add: groups_def)
      have fail: "allocated s None 0 t" "allocated s None 0 (set_ronly t)"
        using g by (auto simp: allocated_def)
      obtain c' bfree where best: "best_cg (fs_csp (sb s)) ?c 0 0 (unat (fs_ncg (sb s))) = (c', bfree)"
        by fastforce
      have ncg: "unat (fs_ncg (sb s)) < 2 ^ 32" using unsigned_less [of "fs_ncg (sb s)"] by simp
      have c': "c' < fs_ncg (sb s)"
        using best_cg_bound [of 0 "unat (fs_ncg (sb s))" "fs_csp (sb s)" ?c 0] best c
          ncg
        by (auto simp: word_less_nat_alt)
      have second: "wp (cache_cg c' t) (\<lambda>r t'. wp (r \<bind> (\<lambda>mycg.
            if find_block (sb t') (cg_at t' mycg) 0 = - 1 then Some (0, set_ronly t')
            else take_block c' (find_block (sb t') (cg_at t' mycg) 0) t'))
          (allocated s (if ?find c' 0 = -1 then None else Some (c', nat (?find c' 0)))))"
      proof -
        have inv': "cg_inv t E'" "c' < fs_ncg (sb t)" using g c' sbt by (simp_all add: groups_def)
        have vt: "cg_view t c' = cg_view s c'" using g c' by (simp add: groups_def)
        show ?thesis
          apply (rule wp_mono [OF cache_cg_groups [OF inv']])
          subgoal premises prems for r t'
          proof -
            obtain q F where q: "r = Some q" "cg_at t' q = cg_view s c'"
              and g1: "groups t t' (sb s) (cg_view t) F" using prems vt sbt by auto
            have g': "groups s t' (sb s) (cg_view s) F"
              by (rule groups_trans [OF g g1]) (use g in \<open>simp add: groups_def\<close>)
            have sbt': "sb t' = sb s" using g' by (simp add: groups_def)
            have "0 < unat (cg_ndblk (cg_view s c'))" using ok c' by (simp add: maps_ok_def map_ok_def)
            then have "?find c' 0 = -1 \<or> (\<exists>b. ?find c' 0 = int b)" using nonneg [OF c', of 0] by simp
            then show ?thesis
              using q sbt' take_block_allocated [OF g' c'] g' by (auto simp: allocated_def)
          qed
          done
      qed
      show ?thesis
      proof (cases "no_blocks (sb s)")
        case True
        then show ?thesis using fail(1) sbt by (simp add: choose_block_def)
      next
        case False
        show ?thesis
          using nonneg [OF c pref]
        proof
          assume miss: "?find ?c (dtogd (sb s) near) = -1"
          then show ?thesis
            using False r sbt best second fail(2) by (simp add: choose_block_def Let_def)
        next
          assume "\<exists>b. ?find ?c (dtogd (sb s) near) = int b"
          then show ?thesis
            using False r sbt take_block_allocated [OF g c] by (auto simp: choose_block_def)
        qed
      qed
    qed
    done
qed

section \<open>Addresses\<close>

text \<open>The groups fit into the 32-bit addresses, and no group is larger than \<open>fs_fpg\<close>.\<close>

definition addr_ok :: "fsys \<Rightarrow> bool" where
  "addr_ok s \<longleftrightarrow>
     unat (fs_fpg (sb s)) * unat (fs_ncg (sb s)) \<le> 2 ^ 32 \<and>
     (\<forall>c < fs_ncg (sb s). cg_ndblk (cg_view s c) \<le> fs_fpg (sb s))"

lemma group_addr:
  assumes "unat (fs_fpg fs) * unat (fs_ncg fs) \<le> 2 ^ 32" "c < fs_ncg fs" "b < unat (fs_fpg fs)"
  shows "unat (of_nat b + cgbase fs c) = unat (fs_fpg fs) * unat c + b"
    "dtog fs (of_nat b + cgbase fs c) = c" "unat (dtogd fs (of_nat b + cgbase fs c)) = b"
proof -
  let ?f = "unat (fs_fpg fs)"
  have "Suc (unat c) \<le> unat (fs_ncg fs)" using assms(2) by (simp add: word_less_nat_alt)
  then have "?f * Suc (unat c) \<le> 2 ^ 32" using assms(1) by (meson le_trans mult_le_mono2)
  then have lt: "?f * unat c + b < 2 ^ 32" using assms(3) by simp
  have "(of_nat b :: u32) + cgbase fs c = of_nat (?f * unat c + b)"
    by (simp add: cgbase_def add.commute)
  then show u: "unat (of_nat b + cgbase fs c) = ?f * unat c + b"
    using unat_of_nat32 [OF lt] by metis
  have "unat (dtog fs (of_nat b + cgbase fs c)) = unat c"
    unfolding dtog_def unat_div u using assms(3) by simp
  then show "dtog fs (of_nat b + cgbase fs c) = c" by (simp add: unsigned_word_eqI)
  show "unat (dtogd fs (of_nat b + cgbase fs c)) = b"
    unfolding dtogd_def unat_mod u using assms(3) by simp
qed

section \<open>Giving back what was taken\<close>

lemma choose_block_sound:
  assumes ok: "maps_ok s" and c: "dtog (sb s) near < fs_ncg (sb s)"
    and pref: "unat (dtogd (sb s) near) < unat (cg_ndblk (cg_view s (dtog (sb s) near)))"
    and ch: "choose_block (sb s) (cg_view s) near = Some (g, b)"
  shows "g < fs_ncg (sb s)" "fpb (sb s) dvd b" "b < unat (cg_ndblk (cg_view s g))"
    "block_avail (fpb (sb s)) (cg_blksfree (cg_view s g)) b"
proof -
  have *: "g < fs_ncg (sb s) \<and> fpb (sb s) dvd b \<and> b < unat (cg_ndblk (cg_view s g)) \<and>
    block_avail (fpb (sb s)) (cg_blksfree (cg_view s g)) b"
    if "g < fs_ncg (sb s)" "unat p < unat (cg_ndblk (cg_view s g))"
      "find_block (sb s) (cg_view s g) p \<noteq> -1" "b = nat (find_block (sb s) (cg_view s g) p)" for p
    using find_block_sound [of "sb s" "cg_view s g" p] ok that by (auto simp: maps_ok_def)
  obtain c' bfree where best: "best_cg (fs_csp (sb s)) (dtog (sb s) near) 0 0 (unat (fs_ncg (sb s))) =
      (c', bfree)" by fastforce
  have "unat (fs_ncg (sb s)) < 2 ^ 32" using unsigned_less [of "fs_ncg (sb s)"] by simp
  then have c': "c' < fs_ncg (sb s)"
    using best_cg_bound [of 0 "unat (fs_ncg (sb s))" "fs_csp (sb s)" "dtog (sb s) near" 0] best c
    by (auto simp: word_less_nat_alt)
  then have "0 < unat (cg_ndblk (cg_view s c'))" using ok by (simp add: maps_ok_def map_ok_def)
  then show "g < fs_ncg (sb s)" "fpb (sb s) dvd b" "b < unat (cg_ndblk (cg_view s g))"
    "block_avail (fpb (sb s)) (cg_blksfree (cg_view s g)) b"
    using ch c c' pref best * [of "dtogd (sb s) near"] * [of 0]
    by (auto simp: choose_block_def Let_def split: if_splits)
qed

text \<open>The clusters of a group agree with the map: a free block has its bit set.\<close>

definition clusters_ok :: "superblock \<Rightarrow> cg \<Rightarrow> nat \<Rightarrow> bool" where
  "clusters_ok fs c b \<longleftrightarrow> fs_contigsumsize fs \<le>s 0 \<or>
     unat (fragstoblks fs (of_nat b)) < 8 * length (cg_clustersfree c) \<and>
     bit_val (cg_clustersfree c) (unat (fragstoblks fs (of_nat b)))"

lemma run_up_same:
  "(\<And>j. i \<le> j \<Longrightarrow> j < i + n \<Longrightarrow> bit_val m' j = bit_val m j) \<Longrightarrow> run_up m' i n = run_up m i n"
proof (induction n arbitrary: i)
  case (Suc n)
  then show ?case using Suc.prems [of i] Suc.IH [of "Suc i"] by simp
qed simp

lemma run_down_same:
  "(\<And>j. j < i \<Longrightarrow> bit_val m' j = bit_val m j) \<Longrightarrow> run_down m' i n = run_down m i n"
proof (induction n arbitrary: i)
  case (Suc n)
  then show ?case by (cases i) simp_all
qed simp

lemma sum_add_back: "sum_add i (- a) (sum_add i a c) = c"
  by (cases "i < length (cg_clustersum c)") (simp_all add: sum_add_def list_update_beyond)

lemma sum_add_commute: "sum_add i a (sum_add j b c) = sum_add j b (sum_add i a c)"
  by (cases "i = j"; cases "i < length (cg_clustersum c)"; cases "j < length (cg_clustersum c)")
    (simp_all add: sum_add_def list_update_beyond list_update_swap ac_simps)

lemma sum_add_map [simp]:
  "sum_add i a (c\<lparr>cg_clustersfree := m\<rparr>) = (sum_add i a c)\<lparr>cg_clustersfree := m\<rparr>"
  "cg_clustersfree (sum_add i a c) = cg_clustersfree c"
  "cg_nclusterblks (sum_add i a c) = cg_nclusterblks c"
  by (simp_all add: sum_add_def)

text \<open>The sums that \<open>ffs_clusteracct\<close> changes.\<close>

definition add_run :: "nat \<Rightarrow> u32 \<Rightarrow> cg \<Rightarrow> cg" where
  "add_run i a c = (if i > 0 then sum_add i a c else c)"

lemma add_run_simps:
  "add_run i (- a) (add_run i a c) = c" "add_run i a (add_run i (- a) c) = c"
  "sum_add i a (add_run j b c) = add_run j b (sum_add i a c)"
  using sum_add_back [of i a c] sum_add_back [of i "- a" c] sum_add_commute [of i a j b c]
  by (auto simp: add_run_def)

lemma add_run_commute: "add_run i a (add_run j b c) = add_run j b (add_run i a c)"
  using sum_add_commute [of i a j b c] by (simp add: add_run_def)

lemma add_run_fields [simp]:
  "cg_clustersfree (add_run i a c) = cg_clustersfree c"
  "cg_nclusterblks (add_run i a c) = cg_nclusterblks c"
  by (simp_all add: add_run_def)

definition cluster_sums :: "superblock \<Rightarrow> bytes \<Rightarrow> nat \<Rightarrow> u32 \<Rightarrow> cg \<Rightarrow> cg" where
  "cluster_sums fs m blkno a c =
     (let contig = unat (fs_contigsumsize fs);
          forw = run_up m (blkno + 1)
            (min (blkno + 1 + contig) (unat (cg_nclusterblks c)) - (blkno + 1));
          back = run_down m blkno contig
      in add_run forw (- a) (add_run back (- a) (sum_add (min (back + forw + 1) contig) a c)))"

definition set_cluster :: "nat \<Rightarrow> u32 \<Rightarrow> cg \<Rightarrow> cg" where
  "set_cluster b a c =
     (if 0 <s a then c\<lparr>cg_clustersfree := bit_set (cg_clustersfree c) b\<rparr>
      else c\<lparr>cg_clustersfree := bit_clr (cg_clustersfree c) b\<rparr>)"

lemma clusteracct_sums:
  "clusteracct_cg fs b a c =
     cluster_sums fs (cg_clustersfree (set_cluster b a c)) b a (set_cluster b a c)"
  unfolding clusteracct_cg_def cluster_sums_def set_cluster_def add_run_def Let_def ..

lemma cluster_sums_fields [simp]:
  "cg_clustersfree (cluster_sums fs m b a c) = cg_clustersfree c"
  "cg_nclusterblks (cluster_sums fs m b a c) = cg_nclusterblks c"
  by (simp_all add: cluster_sums_def Let_def)

lemma runs_back:
  "add_run f a (add_run b a (sum_add i (- a) (add_run f (- a) (add_run b (- a) (sum_add i a c))))) = c"
  by (simp add: add_run_simps sum_add_back add_run_commute [of f "- a" b])

lemma cluster_sums_back: "cluster_sums fs m b (- a) (cluster_sums fs m b a c) = c"
  unfolding cluster_sums_def [of fs m b "- a"] cluster_sums_fields
  unfolding cluster_sums_def Let_def by (simp add: runs_back)

text \<open>The runs do not include the block itself.\<close>

lemma cluster_sums_same:
  assumes "\<And>j. j \<noteq> b \<Longrightarrow> bit_val m' j = bit_val m j"
  shows "cluster_sums fs m' b a c = cluster_sums fs m b a c"
proof -
  have "run_up m' (b + 1) n = run_up m (b + 1) n" "run_down m' b n = run_down m b n" for n
    by (rule run_up_same run_down_same; use assms in simp)+
  then show ?thesis by (simp add: cluster_sums_def)
qed

lemma cluster_sums_map:
  "cluster_sums fs m b a (c\<lparr>cg_clustersfree := x\<rparr>) = (cluster_sums fs m b a c)\<lparr>cg_clustersfree := x\<rparr>"
proof -
  have "add_run i a (c\<lparr>cg_clustersfree := x\<rparr>) = (add_run i a c)\<lparr>cg_clustersfree := x\<rparr>" for i a c
    by (simp add: add_run_def)
  then show ?thesis by (simp add: cluster_sums_def Let_def)
qed

lemma signs [simp]: "0 <s (1 :: u32)" "\<not> 0 <s (- 1 :: u32)"
  by (simp_all add: word_sless_alt)

lemma clusteracct_back:
  assumes b: "b < 8 * length (cg_clustersfree c)" "bit_val (cg_clustersfree c) b"
  shows "clusteracct_cg fs b 1 (clusteracct_cg fs b (- 1) c) = c"
proof -
  let ?m = "cg_clustersfree c"
  let ?m1 = "bit_clr ?m b"
  have m: "bit_set ?m1 b = ?m"
    by (rule bytes_eq_bits) (use b in \<open>auto simp: bit_val_set bit_val_clr\<close>)
  have other: "bit_val ?m j = bit_val ?m1 j" if "j \<noteq> b" for j
    using b(1) that by (simp add: bit_val_clr)
  let ?c1 = "cluster_sums fs ?m1 b (- 1) (c\<lparr>cg_clustersfree := ?m1\<rparr>)"
  have "clusteracct_cg fs b (- 1) c = ?c1" by (simp add: clusteracct_sums set_cluster_def)
  then have "clusteracct_cg fs b 1 (clusteracct_cg fs b (- 1) c) =
      cluster_sums fs ?m b 1 (?c1\<lparr>cg_clustersfree := ?m\<rparr>)"
    by (simp add: clusteracct_sums set_cluster_def m)
  also have "\<dots> = (cluster_sums fs ?m1 b 1 ?c1)\<lparr>cg_clustersfree := ?m\<rparr>"
    using cluster_sums_same [OF other, where fs = fs and a = 1] by (simp add: cluster_sums_map)
  also have "\<dots> = c"
    using cluster_sums_back [of fs ?m1 b "- 1"] by simp
  finally show ?thesis .
qed

lemma add_nbfree_back [simp]: "add_nbfree 1 (add_nbfree (- 1) c) = c"
  by (simp add: add_nbfree_def)

lemma list_update_back:
  "f (g (xs ! i)) = xs ! i \<Longrightarrow> xs[i := f (xs[i := g (xs ! i)] ! i)] = xs"
  by (cases "i < length xs") (simp_all add: list_update_beyond)

lemma adjust_rotation_back: "adjust_rotation fs b 1 (adjust_rotation fs b (- 1) c) = c"
proof -
  have u: "ucast (- 1 :: u32) + 1 = (0 :: u16)" by code_simp
  have 1: "xs[i := xs[i := xs ! i - 1] ! i + 1] = xs" for xs :: "u32 list" and i
    by (rule list_update_back) simp
  have 2: "xs[i := xs[i := xs ! i + ucast (- 1 :: u32)] ! i + 1] = xs" for xs :: "u16 list" and i
    by (rule list_update_back) (simp add: add.assoc u)
  show ?thesis by (simp add: adjust_rotation_def Let_def 1 2)
qed

lemma adjust_rotation_updates:
  "adjust_rotation fs b a (c\<lparr>cg_cs := x\<rparr>) = (adjust_rotation fs b a c)\<lparr>cg_cs := x\<rparr>"
  "adjust_rotation fs b a (c\<lparr>cg_blksfree := m\<rparr>) = (adjust_rotation fs b a c)\<lparr>cg_blksfree := m\<rparr>"
  "cg_clustersfree (adjust_rotation fs b a c) = cg_clustersfree c"
  "cg_cs (adjust_rotation fs b a c) = cg_cs c"
  by (simp_all add: adjust_rotation_def Let_def)

lemma clusteracct_updates:
  "clusteracct_cg fs b a (c\<lparr>cg_cs := x\<rparr>) = (clusteracct_cg fs b a c)\<lparr>cg_cs := x\<rparr>"
  "clusteracct_cg fs b a (c\<lparr>cg_blksfree := m\<rparr>) = (clusteracct_cg fs b a c)\<lparr>cg_blksfree := m\<rparr>"
  "clusteracct_cg fs b a (adjust_rotation fs d e c) = adjust_rotation fs d e (clusteracct_cg fs b a c)"
proof -
  have r: "add_run i a (c\<lparr>cg_cs := x\<rparr>) = (add_run i a c)\<lparr>cg_cs := x\<rparr>"
    "add_run i a (c\<lparr>cg_blksfree := m\<rparr>) = (add_run i a c)\<lparr>cg_blksfree := m\<rparr>"
    "add_run i a (adjust_rotation fs d e c) = adjust_rotation fs d e (add_run i a c)" for i a c
    by (simp_all add: add_run_def sum_add_def adjust_rotation_def Let_def)
  have s: "sum_add i a (c\<lparr>cg_cs := x\<rparr>) = (sum_add i a c)\<lparr>cg_cs := x\<rparr>"
    "sum_add i a (c\<lparr>cg_blksfree := m\<rparr>) = (sum_add i a c)\<lparr>cg_blksfree := m\<rparr>"
    "sum_add i a (adjust_rotation fs d e c) = adjust_rotation fs d e (sum_add i a c)" for i a c
    by (simp_all add: sum_add_def adjust_rotation_def Let_def)
  have n: "cg_nclusterblks (adjust_rotation fs d e c) = cg_nclusterblks c" for c
    by (simp add: adjust_rotation_def Let_def)
  have l: "set_cluster b a (c\<lparr>cg_cs := x\<rparr>) = (set_cluster b a c)\<lparr>cg_cs := x\<rparr>"
    "set_cluster b a (c\<lparr>cg_blksfree := m\<rparr>) = (set_cluster b a c)\<lparr>cg_blksfree := m\<rparr>"
    "set_cluster b a (adjust_rotation fs d e c) = adjust_rotation fs d e (set_cluster b a c)"
    by (simp_all add: set_cluster_def adjust_rotation_def Let_def)
  show "clusteracct_cg fs b a (c\<lparr>cg_cs := x\<rparr>) = (clusteracct_cg fs b a c)\<lparr>cg_cs := x\<rparr>"
    "clusteracct_cg fs b a (c\<lparr>cg_blksfree := m\<rparr>) = (clusteracct_cg fs b a c)\<lparr>cg_blksfree := m\<rparr>"
    "clusteracct_cg fs b a (adjust_rotation fs d e c) = adjust_rotation fs d e (clusteracct_cg fs b a c)"
    by (simp_all add: clusteracct_sums l cluster_sums_def Let_def r s n adjust_rotation_updates)
qed

lemma count_block_back:
  assumes "clusters_ok fs c b"
  shows "count_block_cg fs (of_nat b) 1 (count_block_cg fs (of_nat b) (- 1) c) = c"
proof (cases "fs_contigsumsize fs \<le>s 0")
  case True
  then show ?thesis
    by (simp add: count_block_cg_def adjust_rotation_updates adjust_rotation_back)
next
  case False
  then have "clusteracct_cg fs (unat (fragstoblks fs (of_nat b))) 1
      (clusteracct_cg fs (unat (fragstoblks fs (of_nat b))) (- 1) c) = c"
    using assms by (intro clusteracct_back) (auto simp: clusters_ok_def)
  then show ?thesis
    using False
    by (simp add: count_block_cg_def adjust_rotation_updates clusteracct_updates adjust_rotation_back)
qed

lemma block_dealloc_alloc:
  assumes "F \<in> {1, 2, 4, 8}" "F dvd b" "b + F \<le> 8 * length m" "block_avail F m b"
  shows "block_dealloc F (block_alloc F m b) b = m"
proof -
  have free: "range_free m b F" using block_avail_free [OF assms(1,2)] assms(4) by simp
  have len: "b + F \<le> 8 * length (block_alloc F m b)" using assms(3) by simp
  show ?thesis
    by (rule bytes_eq_bits)
      (use free in \<open>auto simp: block_alloc_bits [OF assms(1-3)] block_dealloc_bits [OF assms(1,2) len]
        range_free_def\<close>)
qed

lemma block_in_map:
  assumes "map_ok fs c" "fpb fs dvd b" "b < unat (cg_ndblk c)"
  shows "b + fpb fs \<le> 8 * length (cg_blksfree c)" "b + fpb fs \<le> unat (cg_ndblk c)"
proof -
  obtain k m where "b = fpb fs * k" "unat (cg_ndblk c) = fpb fs * m"
    using assms by (auto simp: map_ok_def elim!: dvdE)
  moreover from this have "fpb fs * Suc k \<le> fpb fs * m"
    using assms(3) by (intro mult_le_mono2) auto
  ultimately show "b + fpb fs \<le> unat (cg_ndblk c)" by simp
  then show "b + fpb fs \<le> 8 * length (cg_blksfree c)" using assms(1) by (simp add: map_ok_def)
qed

lemma cg_give_take:
  assumes "map_ok fs c" "fpb fs dvd b" "b < unat (cg_ndblk c)" "block_avail (fpb fs) (cg_blksfree c) b"
    and "clusters_ok fs c b"
  shows "cg_give_block fs b (cg_take_block fs b c) = c"
proof -
  have F: "fpb fs \<in> {1, 2, 4, 8}" using assms(1) by (simp add: map_ok_def)
  let ?m = "block_alloc (fpb fs) (cg_blksfree c) b"
  have upd: "count_block_cg fs w a (c\<lparr>cg_blksfree := m\<rparr>) = (count_block_cg fs w a c)\<lparr>cg_blksfree := m\<rparr>"
    for w a c m
    by (simp add: count_block_cg_def adjust_rotation_updates clusteracct_updates Let_def)
  have "cg_give_block fs b (cg_take_block fs b c) =
      (count_block_cg fs (of_nat b) 1 (count_block_cg fs (of_nat b) (- 1) c))
        \<lparr>cg_blksfree := block_dealloc (fpb fs) ?m b\<rparr>"
    by (simp add: cg_give_block_def cg_take_block_def upd)
  then show ?thesis
    using block_dealloc_alloc [OF F assms(2) block_in_map(1) [OF assms(1-3)] assms(4)]
    by (simp add: count_block_back [OF assms(5)])
qed

lemma count_block_sb_back:
  "count_block_sb c 1 (count_block_sb c (- 1) fs) = fs\<lparr>fs_fmod := fs_fmod fs + 2\<rparr>"
proof -
  have tot: "upd_totals f (fs\<lparr>fs_fmod := x\<rparr>) = (upd_totals f fs)\<lparr>fs_fmod := x\<rparr>"
    "upd_totals f (upd_cs c g fs) = upd_cs c g (upd_totals f fs)"
    "upd_cs c g (fs\<lparr>fs_fmod := x\<rparr>) = (upd_cs c g fs)\<lparr>fs_fmod := x\<rparr>"
    "fs_fmod (upd_totals f fs) = fs_fmod fs" "fs_fmod (upd_cs c g fs) = fs_fmod fs" for f g fs x
    by (simp_all add: upd_totals_def upd_cs_def fs_updated_def Let_def)
  have "upd_totals (add_nbfree 1) (upd_totals (add_nbfree (- 1)) fs) = fs" for fs
    by (cases "fs_updated fs") (simp_all add: upd_totals_def fs_updated_def)
  moreover have "upd_cs c (add_nbfree 1) (upd_cs c (add_nbfree (- 1)) fs) = fs" for fs
    by (simp add: upd_cs_def list_update_back [where f = "add_nbfree 1" and g = "add_nbfree (- 1)"])
  ultimately show ?thesis
    unfolding count_block_sb_def add_totals_def tot by simp
qed

end
