(* ===== verification/Alloc_Properties.thy ===== *)
theory Alloc_Properties
  imports Alloc_Correct Map_Properties
begin

text \<open>
  What the allocator promises on a file system whose groups are cached: the block that
  \<open>block_allocate\<close> returns was free and is taken afterwards, two allocations never return the
  same block, and \<open>block_deallocate\<close> undoes an allocation in the maps and in all counters.
\<close>

section \<open>A group with free blocks\<close>

abbreviation sample_alloc :: fsys where
  "sample_alloc \<equiv> opened (\<lambda>a. replicate 512 0) sample_cg"

lemma sample_alloc_sb: "sb sample_alloc = sample_sb"
  by (simp add: opened_state)

lemma sample_alloc_groups:
  "c < fs_ncg (sb sample_alloc) \<longleftrightarrow> c = 0" "cg_view sample_alloc 0 = sample_cg" "cg_inv sample_alloc []"
  using sample_cg_opened by (auto simp: word_less_nat_alt unat_eq_0)

lemma sample_alloc_ok: "maps_ok sample_alloc" "addr_ok sample_alloc"
proof -
  have "cg_ndblk sample_cg = 256" "length (cg_blksfree sample_cg) = 32"
    by (simp_all add: sample_cg_def)
  then show "maps_ok sample_alloc" "addr_ok sample_alloc"
    by (simp_all add: maps_ok_def map_ok_def addr_ok_def sample_alloc_groups)
      (simp_all add: sample_alloc_sb sample_sb_def)
qed

lemma sample_alloc_dtog:
  "dtog (sb sample_alloc) 96 = 0" "dtogd (sb sample_alloc) 96 = 96" "fpb (sb sample_alloc) = 8"
  "cgbase (sb sample_alloc) 0 = 0"
  by (simp_all add: sample_alloc_sb sample_sb_def dtog_def dtogd_def cgbase_def)

lemma sample_alloc_near: "unat (96 :: u32) < unat (cg_ndblk sample_cg)"
  by (simp add: sample_cg_def)

lemma sample_alloc_choice: "choose_block (sb sample_alloc) (cg_view sample_alloc) 96 = Some (0, 96)"
proof -
  have "find_block sample_sb sample_cg 96 = 96" "\<not> no_blocks sample_sb" by code_simp+
  then show ?thesis
    using sample_alloc_dtog by (simp add: choose_block_def Let_def sample_alloc_groups sample_alloc_sb)
qed

section \<open>Taking a block\<close>

lemma view_sb: "view (t\<lparr>sb := fs\<rparr>) = view t"
  by (simp add: view_def [abs_def] frag_buf_def cong: option.case_cong)

lemma groups_view: "groups s t fs v E \<Longrightarrow> view t = view s"
  using cg_frame_view [of s "t\<lparr>sb := sb s\<rparr>"] by (simp add: groups_def alloc_frame_def view_sb)

lemma set_ronly_views: "view (set_ronly t) = view t" "cg_view (set_ronly t) = cg_view t"
  by (simp_all add: set_ronly_def view_def [abs_def] frag_buf_def cg_view_def [abs_def]
      cg_at_def [abs_def] cgtod_def cgstart_def cgbase_def cong: option.case_cong)

lemma cg_take_block_fields:
  "cg_ndblk (cg_take_block fs b c) = cg_ndblk c" "cg_cgx (cg_take_block fs b c) = cg_cgx c"
  "cg_blksfree (cg_take_block fs b c) = block_alloc (fpb fs) (cg_blksfree c) b"
  "cg_cs (cg_take_block fs b c) = add_nbfree (- 1) (cg_cs c)"
  by (simp_all add: cg_take_block_def)

lemma count_block_sb_total:
  "cs_nbfree (fs_cstotal (count_block_sb c a fs)) = cs_nbfree (fs_cstotal fs) + a"
  by (simp add: count_block_sb_def add_totals_def upd_totals_def upd_cs_def add_nbfree_def Let_def)

text \<open>C9: when \<open>block_allocate\<close> finds a block, it returns the address of a block that was
  completely free; afterwards exactly the frags of this block are taken, the counters of free
  blocks of its group and of the file system are one less, and neither another group nor the
  frag cache has changed. When it finds none it returns 0 and no group changes.\<close>

theorem block_allocate_takes:
  assumes "cg_inv s E" "maps_ok s" "dtog (sb s) near < fs_ncg (sb s)"
    and "unat (dtogd (sb s) near) < unat (cg_ndblk (cg_view s (dtog (sb s) near)))"
  shows "wp (block_allocate near s) (\<lambda>r t. view t = view s \<and>
    (case choose_block (sb s) (cg_view s) near of
       None \<Rightarrow> r = 0 \<and> (\<forall>a < fs_ncg (sb s). cg_view t a = cg_view s a)
     | Some (c, b) \<Rightarrow> r = of_nat b + cgbase (sb s) c \<and> c < fs_ncg (sb s) \<and>
         block_avail (fpb (sb s)) (cg_blksfree (cg_view s c)) b \<and>
         (\<exists>E'. cg_inv t E') \<and>
         (\<forall>i. bit_val (cg_blksfree (cg_view t c)) i \<longleftrightarrow>
            bit_val (cg_blksfree (cg_view s c)) i \<and> \<not> (b \<le> i \<and> i < b + fpb (sb s))) \<and>
         cs_nbfree (cg_cs (cg_view t c)) = cs_nbfree (cg_cs (cg_view s c)) - 1 \<and>
         cs_nbfree (fs_cstotal (sb t)) = cs_nbfree (fs_cstotal (sb s)) - 1 \<and>
         (\<forall>a < fs_ncg (sb s). a \<noteq> c \<longrightarrow> cg_view t a = cg_view s a)))"
proof (rule wp_mono [OF block_allocate_choice [OF assms(1,3,2,4)]])
  fix r t assume a: "allocated s (choose_block (sb s) (cg_view s) near) r t"
  show "view t = view s \<and>
    (case choose_block (sb s) (cg_view s) near of
       None \<Rightarrow> r = 0 \<and> (\<forall>a < fs_ncg (sb s). cg_view t a = cg_view s a)
     | Some (c, b) \<Rightarrow> r = of_nat b + cgbase (sb s) c \<and> c < fs_ncg (sb s) \<and>
         block_avail (fpb (sb s)) (cg_blksfree (cg_view s c)) b \<and>
         (\<exists>E'. cg_inv t E') \<and>
         (\<forall>i. bit_val (cg_blksfree (cg_view t c)) i \<longleftrightarrow>
            bit_val (cg_blksfree (cg_view s c)) i \<and> \<not> (b \<le> i \<and> i < b + fpb (sb s))) \<and>
         cs_nbfree (cg_cs (cg_view t c)) = cs_nbfree (cg_cs (cg_view s c)) - 1 \<and>
         cs_nbfree (fs_cstotal (sb t)) = cs_nbfree (fs_cstotal (sb s)) - 1 \<and>
         (\<forall>a < fs_ncg (sb s). a \<noteq> c \<longrightarrow> cg_view t a = cg_view s a))"
  proof (cases "choose_block (sb s) (cg_view s) near")
    case None
    then show ?thesis
      using a groups_view set_ronly_views by (auto simp: allocated_def groups_def)
  next
    case (Some cb)
    then obtain c b where ch: "choose_block (sb s) (cg_view s) near = Some (c, b)" by (cases cb) simp
    note sound = choose_block_sound [OF assms(2,3,4) ch]
    have ok: "map_ok (sb s) (cg_view s c)" using assms(2) sound(1) by (simp add: maps_ok_def)
    then have F: "fpb (sb s) \<in> {1, 2, 4, 8}" by (simp add: map_ok_def)
    note bits = block_alloc_bits [OF F sound(2) block_in_map(1) [OF ok sound(2,3)]]
    obtain E' where r: "r = of_nat b + cgbase (sb s) c" and g: "groups s t (count_block_sb c (- 1) (sb s))
        ((cg_view s)(c := cg_take_block (sb s) b (cg_view s c))) E'"
      using a by (auto simp: allocated_def ch)
    have "view t = view s" by (rule groups_view [OF g])
    then show ?thesis
      using r g sound(1,4)
      by (auto simp: ch groups_def cg_take_block_fields bits count_block_sb_total add_nbfree_def)
  qed
qed

lemma block_allocate_takes_witness:
  "wp (block_allocate 96 sample_alloc) (\<lambda>r t. r = 96 \<and> \<not> bit_val (cg_blksfree (cg_view t 0)) 100 \<and>
    cs_nbfree (cg_cs (cg_view t 0)) = 19)"
proof -
  have "cg_ndblk sample_cg = 256" "cs_nbfree (cg_cs sample_cg) = 20" by (simp_all add: sample_cg_def)
  then show ?thesis
    using block_allocate_takes [of sample_alloc "[]" 96]
    by (auto simp: sample_alloc_groups sample_alloc_ok sample_alloc_dtog sample_alloc_choice
        elim!: wp_mono)
qed

section \<open>Two operations\<close>

lemma dtog_counts: "dtog (count_block_sb c a fs) = dtog fs" "dtogd (count_block_sb c a fs) = dtogd fs"
  by (simp_all add: fun_eq_iff dtog_def dtogd_def count_block_sb_def add_totals_def upd_totals_def
      upd_cs_def Let_def)

lemma adjust_rotation_counted: "adjust_rotation (count_block_sb c a fs) = adjust_rotation fs"
proof -
  have "adjust_rotation (add_totals f fs) = adjust_rotation fs" for f fs
    by (simp add: fun_eq_iff add_totals_def upd_totals_def Let_def adjust_rotation_def
        cbtocylno_def cbtorpos_def NSPF_def)
  then show ?thesis by (simp add: count_block_sb_def)
qed

lemma cg_give_counted: "cg_give_block (count_block_sb c a fs) b x = cg_give_block fs b x"
proof -
  have "clusteracct_cg (count_block_sb c a fs) = clusteracct_cg fs"
    "fragstoblks (count_block_sb c a fs) = fragstoblks fs"
    "fs_contigsumsize (count_block_sb c a fs) = fs_contigsumsize fs"
    "fs_frag (count_block_sb c a fs) = fs_frag fs" by simp_all
  then show ?thesis
    unfolding cg_give_block_def count_block_cg_def adjust_rotation_counted Let_def by simp
qed

text \<open>C11: \<open>block_deallocate\<close> undoes \<open>block_allocate\<close>: every group is again as it was, in its map,
  its counters, its rotational tables and its clusters, and the superblock has changed in its
  modification count only.\<close>

theorem block_allocate_deallocate:
  assumes "cg_inv s E" "maps_ok s" "addr_ok s" "dtog (sb s) near < fs_ncg (sb s)"
    and "unat (dtogd (sb s) near) < unat (cg_ndblk (cg_view s (dtog (sb s) near)))"
    and "choose_block (sb s) (cg_view s) near = Some (c, b)"
    and "clusters_ok (sb s) (cg_view s c) b"
  shows "wp (do { (a, s) \<leftarrow> block_allocate near s; block_deallocate a s }) (\<lambda>_ t.
    (\<exists>E'. cg_inv t E') \<and> view t = view s \<and>
    sb t = (sb s)\<lparr>fs_fmod := fs_fmod (sb s) + 2\<rparr> \<and>
    (\<forall>a < fs_ncg (sb s). cg_view t a = cg_view s a))"
  unfolding wp_bind
proof (rule wp_mono [OF block_allocate_choice [OF assms(1,4,2,5)]])
  note sound = choose_block_sound [OF assms(2,4,5,6)]
  have ok: "map_ok (sb s) (cg_view s c)" using assms(2) sound(1) by (simp add: maps_ok_def)
  let ?g = "cg_take_block (sb s) b (cg_view s c)" and ?fs = "count_block_sb c (- 1) (sb s)"
  have restored: "cg_give_block (sb s) b ?g = cg_view s c"
    by (rule cg_give_take [OF ok sound(2-4) assms(7)])
  have lt: "b < unat (fs_fpg (sb s))"
    using assms(3) sound(1,3) by (auto simp: addr_ok_def word_le_nat_alt)
  have "unat (fs_fpg (sb s)) * unat (fs_ncg (sb s)) \<le> 2 ^ 32" using assms(3) by (simp add: addr_ok_def)
  note addr = group_addr [OF this sound(1) lt]
  fix r t assume "allocated s (choose_block (sb s) (cg_view s) near) r t"
  then obtain E' where r: "r = of_nat b + cgbase (sb s) c" and g: "groups s t ?fs ((cg_view s)(c := ?g)) E'"
    by (auto simp: allocated_def assms(6))
  have t: "cg_inv t E'" "sb t = ?fs" "cg_view t c = ?g" using g sound(1) by (simp_all add: groups_def)
  have c: "dtog (sb t) r = c" "unat (dtogd (sb t) r) = b" using addr(2,3) r t(2) by (simp_all add: dtog_counts)
  have valid: "dtog (sb t) r < fs_ncg (sb t)" using c(1) sound(1) t(2) by simp
  have run: "wp (block_deallocate r t) (\<lambda>_ w. \<exists>E. groups t w (count_block_sb c 1 ?fs)
      ((cg_view t)(c := cg_give_block ?fs b ?g)) E)"
    using block_deallocate_groups [OF t(1) valid] unfolding c unfolding t(2,3) .
  show "wp (case (r, t) of (a, s) \<Rightarrow> block_deallocate a s) (\<lambda>_ t.
    (\<exists>E'. cg_inv t E') \<and> view t = view s \<and> sb t = (sb s)\<lparr>fs_fmod := fs_fmod (sb s) + 2\<rparr> \<and>
    (\<forall>a < fs_ncg (sb s). cg_view t a = cg_view s a))"
    unfolding split
  proof (rule wp_mono [OF run])
    fix u w assume "\<exists>E. groups t w (count_block_sb c 1 ?fs)
      ((cg_view t)(c := cg_give_block ?fs b ?g)) E"
    then obtain E'' where h: "groups t w (count_block_sb c 1 ?fs)
      ((cg_view t)(c := cg_give_block ?fs b ?g)) E''" by blast
    have give: "cg_give_block ?fs b ?g = cg_give_block (sb s) b ?g" by (rule cg_give_counted)
    have "groups s w (count_block_sb c 1 ?fs) (cg_view s) E''"
      by (rule groups_trans [OF g h]) (use g restored give in \<open>auto simp: groups_def\<close>)
    then show "(\<exists>E'. cg_inv w E') \<and> view w = view s \<and> sb w = (sb s)\<lparr>fs_fmod := fs_fmod (sb s) + 2\<rparr> \<and>
        (\<forall>a < fs_ncg (sb s). cg_view w a = cg_view s a)"
      using groups_view [of s w] by (auto simp: groups_def count_block_sb_back)
  qed
qed

lemma block_allocate_deallocate_witness:
  "wp (do { (a, s) \<leftarrow> block_allocate 96 sample_alloc; block_deallocate a s }) (\<lambda>_ t.
    cg_view t 0 = sample_cg \<and> cs_nbfree (fs_cstotal (sb t)) = 20)"
proof -
  have "clusters_ok (sb sample_alloc) (cg_view sample_alloc 0) 96"
    unfolding sample_alloc_sb sample_alloc_groups by code_simp
  then have run: "wp (do { (a, s) \<leftarrow> block_allocate 96 sample_alloc; block_deallocate a s }) (\<lambda>_ t.
    (\<exists>E'. cg_inv t E') \<and> view t = view sample_alloc \<and>
    sb t = (sb sample_alloc)\<lparr>fs_fmod := fs_fmod (sb sample_alloc) + 2\<rparr> \<and>
    (\<forall>a < fs_ncg (sb sample_alloc). cg_view t a = cg_view sample_alloc a))"
    by (intro block_allocate_deallocate [of sample_alloc "[]" 96 0 96])
      (simp_all only: sample_alloc_groups sample_alloc_ok sample_alloc_dtog sample_alloc_choice
        sample_alloc_near)
  show ?thesis
  proof (rule wp_mono [OF run])
    fix r t
    assume a: "(\<exists>E'. cg_inv t E') \<and> view t = view sample_alloc \<and>
    sb t = (sb sample_alloc)\<lparr>fs_fmod := fs_fmod (sb sample_alloc) + 2\<rparr> \<and>
    (\<forall>a < fs_ncg (sb sample_alloc). cg_view t a = cg_view sample_alloc a)"
  have "cs_nbfree (fs_cstotal sample_sb) = 20" by (simp add: sample_sb_def)
  then show "cg_view t 0 = sample_cg \<and> cs_nbfree (fs_cstotal (sb t)) = 20"
    using a sample_alloc_groups(1) [of 0] sample_alloc_groups(2) by (auto simp: sample_alloc_sb)
  qed
qed

lemma map_ok_taken:
  assumes "map_ok fs c" "fpb fs dvd b" "b < unat (cg_ndblk c)"
  shows "map_ok (count_block_sb k a fs) (cg_take_block fs b c)"
proof -
  have F: "fpb fs \<in> {1, 2, 4, 8}" using assms(1) by (simp add: map_ok_def)
  note bits = block_alloc_bits [OF F assms(2) block_in_map(1) [OF assms]]
  have "range_free (cg_blksfree c) i n" if "range_free (cg_blksfree (cg_take_block fs b c)) i n" for i n
    using that by (auto simp: range_free_def cg_take_block_fields bits)
  then show ?thesis using assms(1) by (auto simp: map_ok_def cg_take_block_fields)
qed

lemma taken_differs:
  assumes "map_ok fs c" "fpb fs dvd b" "b < unat (cg_ndblk c)"
    and "fpb fs dvd b'" "block_avail (fpb fs) (cg_blksfree (cg_take_block fs b c)) b'"
  shows "b' + fpb fs \<le> b \<or> b + fpb fs \<le> b'"
proof -
  have F: "fpb fs \<in> {1, 2, 4, 8}" using assms(1) by (simp add: map_ok_def)
  then have pos: "0 < fpb fs" by auto
  have "\<not> bit_val (cg_blksfree (cg_take_block fs b c)) b"
    using block_alloc_bits [OF F assms(2) block_in_map(1) [OF assms(1-3)]] pos
    by (simp add: cg_take_block_fields)
  moreover have "bit_val (cg_blksfree (cg_take_block fs b c)) b'"
    using block_avail_free [OF F assms(4)] assms(5) pos by (simp add: range_free_def)
  ultimately have "b' \<noteq> b" by auto
  moreover obtain k k' where "b = fpb fs * k" "b' = fpb fs * k'" using assms(2,4) by (auto elim!: dvdE)
  moreover have "fpb fs * Suc k \<le> fpb fs * k' \<or> fpb fs * Suc k' \<le> fpb fs * k \<or> k = k'"
    by (metis mult_le_mono2 not_less_eq_eq le_antisym nat_le_linear)
  ultimately show ?thesis by auto
qed

lemma addrs_apart:
  assumes "unat (fs_fpg fs) * unat (fs_ncg fs) \<le> 2 ^ 32" "c < fs_ncg fs" "c' < fs_ncg fs"
    and "b + fpb fs \<le> unat (fs_fpg fs)" "b' + fpb fs \<le> unat (fs_fpg fs)"
    and "c' = c \<Longrightarrow> b' + fpb fs \<le> b \<or> b + fpb fs \<le> b'"
  shows "unat (of_nat b + cgbase fs c) + fpb fs \<le> unat (of_nat b' + cgbase fs c') \<or>
    unat (of_nat b' + cgbase fs c') + fpb fs \<le> unat (of_nat b + cgbase fs c)"
proof (cases "fpb fs = 0")
  case True
  then show ?thesis by (simp add: nat_le_linear)
next
  case False
  then have u: "unat (of_nat b + cgbase fs c) = unat (fs_fpg fs) * unat c + b"
    "unat (of_nat b' + cgbase fs c') = unat (fs_fpg fs) * unat c' + b'"
    using group_addr(1) [OF assms(1,2), of b] group_addr(1) [OF assms(1,3), of b'] assms(4,5) by simp_all
  consider "c' = c" | "Suc (unat c) \<le> unat c'" | "Suc (unat c') \<le> unat c"
    using not_less_eq_eq [of "unat c" "unat c'"] le_antisym [of "unat c'" "unat c"]
      unsigned_word_eqI [of c' c] by (meson Suc_leI nat_neq_iff)
  then show ?thesis
  proof cases
    case 1
    then show ?thesis using u assms(6) by auto
  next
    case 2
    then have "unat (fs_fpg fs) * Suc (unat c) \<le> unat (fs_fpg fs) * unat c'" by (rule mult_le_mono2)
    then show ?thesis using u assms(4) by simp
  next
    case 3
    then have "unat (fs_fpg fs) * Suc (unat c') \<le> unat (fs_fpg fs) * unat c" by (rule mult_le_mono2)
    then show ?thesis using u assms(5) by simp
  qed
qed

text \<open>C10: two blocks that \<open>block_allocate\<close> returns one after the other do not overlap: after a
  successful allocation, a second one (near any other address) either finds nothing and returns
  0, or returns the address of a block all of whose frags lie outside the first block.\<close>

theorem block_allocate_distinct:
  assumes "cg_inv s E" "maps_ok s" "addr_ok s"
    and "dtog (sb s) near < fs_ncg (sb s)"
    and "unat (dtogd (sb s) near) < unat (cg_ndblk (cg_view s (dtog (sb s) near)))"
    and "dtog (sb s) near' < fs_ncg (sb s)"
    and "unat (dtogd (sb s) near') < unat (cg_ndblk (cg_view s (dtog (sb s) near')))"
    and "choose_block (sb s) (cg_view s) near = Some (c, b)"
  shows "wp (do { (a, s) \<leftarrow> block_allocate near s; (a', s) \<leftarrow> block_allocate near' s; Some ((a, a'), s) })
    (\<lambda>(a, a') t. a = of_nat b + cgbase (sb s) c \<and>
      (a' = 0 \<or> unat a + fpb (sb s) \<le> unat a' \<or> unat a' + fpb (sb s) \<le> unat a))"
  unfolding wp_bind
proof (rule wp_mono [OF block_allocate_choice [OF assms(1,4,2,5)]])
  note sound = choose_block_sound [OF assms(2,4,5,8)]
  have ok: "map_ok (sb s) (cg_view s g)" if "g < fs_ncg (sb s)" for g
    using assms(2) that by (simp add: maps_ok_def)
  let ?g = "cg_take_block (sb s) b (cg_view s c)" and ?fs = "count_block_sb c (- 1) (sb s)"
  have fits: "unat (fs_fpg (sb s)) * unat (fs_ncg (sb s)) \<le> 2 ^ 32" using assms(3) by (simp add: addr_ok_def)
  have inside: "k + fpb (sb s) \<le> unat (fs_fpg (sb s))"
    if "g < fs_ncg (sb s)" "fpb (sb s) dvd k" "k < unat (cg_ndblk (cg_view s g))" for g k
    using block_in_map(2) [OF ok [OF that(1)] that(2,3)] that(1) assms(3)
    by (auto simp: addr_ok_def word_le_nat_alt)
  fix r t assume "allocated s (choose_block (sb s) (cg_view s) near) r t"
  then obtain E' where r: "r = of_nat b + cgbase (sb s) c" and g: "groups s t ?fs ((cg_view s)(c := ?g)) E'"
    by (auto simp: allocated_def assms(8))
  have t: "cg_inv t E'" "sb t = ?fs" "\<And>a. a < fs_ncg (sb s) \<Longrightarrow> cg_view t a = (if a = c then ?g else cg_view s a)"
    using g by (simp_all add: groups_def)
  have nd: "cg_ndblk (cg_view t a) = cg_ndblk (cg_view s a)" if "a < fs_ncg (sb s)" for a
    using t(3) [OF that] by (simp add: cg_take_block_fields)
  have okt: "maps_ok t"
    using t(2,3) ok map_ok_taken [OF ok [OF sound(1)] sound(2,3)]
    by (auto simp: maps_ok_def map_ok_def)
  have n: "dtog (sb t) near' < fs_ncg (sb t)"
    "unat (dtogd (sb t) near') < unat (cg_ndblk (cg_view t (dtog (sb t) near')))"
    using assms(6,7) t(2) nd by (simp_all add: dtog_counts)
  have "wp (block_allocate near' t) (\<lambda>r' u. r = of_nat b + cgbase (sb s) c \<and>
      (r' = 0 \<or> unat r + fpb (sb s) \<le> unat r' \<or> unat r' + fpb (sb s) \<le> unat r))"
  proof (rule wp_mono [OF block_allocate_choice [OF t(1) n(1) okt n(2)]])
    fix r' u assume a: "allocated t (choose_block (sb t) (cg_view t) near') r' u"
    show "r = of_nat b + cgbase (sb s) c \<and>
      (r' = 0 \<or> unat r + fpb (sb s) \<le> unat r' \<or> unat r' + fpb (sb s) \<le> unat r)"
    proof (cases "choose_block (sb t) (cg_view t) near'")
      case None
      then show ?thesis using a r by (simp add: allocated_def)
    next
      case (Some p)
      then obtain c' b' where ch: "choose_block (sb t) (cg_view t) near' = Some (c', b')" by (cases p) simp
      note s' = choose_block_sound [OF okt n ch, unfolded t(2) count_block_sb_fields]
      have r': "r' = of_nat b' + cgbase (sb s) c'" using a unfolding allocated_def ch by (simp add: t(2))
      have b': "b' < unat (cg_ndblk (cg_view s c'))" using s'(1,3) nd by simp
      have "b' + fpb (sb s) \<le> b \<or> b + fpb (sb s) \<le> b'" if "c' = c"
        using taken_differs [OF ok [OF sound(1)] sound(2,3) s'(2)] s'(4) t(3) [OF sound(1)] that by simp
      then show ?thesis
        using addrs_apart [OF fits sound(1) s'(1) inside [OF sound(1-3)] inside [OF s'(1,2) b']] r r'
        by auto
    qed
  qed
  then show "wp (case (r, t) of (a, s') \<Rightarrow> block_allocate near' s' \<bind> (\<lambda>(a', s'). Some ((a, a'), s')))
    (\<lambda>(a, a') t. a = of_nat b + cgbase (sb s) c \<and>
      (a' = 0 \<or> unat a + fpb (sb s) \<le> unat a' \<or> unat a' + fpb (sb s) \<le> unat a))"
    by (simp add: wp_bind)
qed

lemma block_allocate_distinct_witness:
  "wp (do { (a, s) \<leftarrow> block_allocate 96 sample_alloc; (a', s) \<leftarrow> block_allocate 96 s; Some ((a, a'), s) })
    (\<lambda>(a, a') t. a = 96 \<and> (a' = 0 \<or> 104 \<le> unat a' \<or> unat a' + 8 \<le> 96))"
proof -
  have "wp (do { (a, s) \<leftarrow> block_allocate 96 sample_alloc; (a', s) \<leftarrow> block_allocate 96 s; Some ((a, a'), s) })
    (\<lambda>(a, a') t. a = of_nat 96 + cgbase (sb sample_alloc) 0 \<and>
      (a' = 0 \<or> unat a + fpb (sb sample_alloc) \<le> unat a' \<or>
        unat a' + fpb (sb sample_alloc) \<le> unat a))"
    by (intro block_allocate_distinct [of sample_alloc "[]" 96 96 0 96])
      (simp_all only: sample_alloc_groups sample_alloc_ok sample_alloc_dtog sample_alloc_choice
        sample_alloc_near)
  then show ?thesis by (rule wp_mono) (auto simp: sample_alloc_dtog)
qed

end
