(* ===== verification/Inum.thy ===== *)
theory Inum
  imports Inode
begin

text \<open>
  The second half of fs/inode.c: the allocation of inode numbers in the maps of the cylinder
  groups (\<open>inum_new\<close>, \<open>inum_free\<close>), the initialisation of a new inode (\<open>inum_sane\<close>), and the
  permission tests. The type of a file is \<open>I_DIR\<close> or not.
\<close>

section \<open>Counters\<close>

definition add_nifree :: "u32 \<Rightarrow> csum \<Rightarrow> csum" where
  "add_nifree a c = c\<lparr>cs_nifree := cs_nifree c + a\<rparr>"

definition add_ndir :: "u32 \<Rightarrow> csum \<Rightarrow> csum" where
  "add_ndir a c = c\<lparr>cs_ndir := cs_ndir c + a\<rparr>"

definition adjust_nifree :: "nat \<Rightarrow> u32 \<Rightarrow> u32 \<Rightarrow> fsys \<Rightarrow> fsys" where
  "adjust_nifree mycg cgx adjust s =
     (let s = upd_cg mycg (\<lambda>c. c\<lparr>cg_cs := add_nifree adjust (cg_cs c)\<rparr>) s;
          s = upd_sb (upd_cs cgx (add_nifree adjust)) s
      in upd_sb (add_totals (add_nifree adjust)) s)"

definition adjust_ndir :: "nat \<Rightarrow> u32 \<Rightarrow> u32 \<Rightarrow> fsys \<Rightarrow> fsys" where
  "adjust_ndir mycg cgx adjust s =
     (let s = upd_cg mycg (\<lambda>c. c\<lparr>cg_cs := add_ndir adjust (cg_cs c)\<rparr>) s;
          s = upd_sb (upd_cs cgx (add_ndir adjust)) s
      in upd_sb (upd_totals (add_ndir adjust)) s)"

section \<open>Choosing the cylinder group and the inode\<close>

definition no_inodes :: "superblock \<Rightarrow> bool" where
  "no_inodes fs \<longleftrightarrow>
     fs_updated fs \<and> cs_nifree (fs_new_cstotal fs) = 0 \<or>
     \<not> fs_updated fs \<and> cs_nifree (fs_cstotal fs) = 0"

text \<open>For a directory: the group with the most free inodes that also has free space.\<close>

fun dir_cg :: "csum list \<Rightarrow> u32 \<Rightarrow> u32 \<Rightarrow> nat \<Rightarrow> nat \<Rightarrow> u32 \<times> u32" where
  "dir_cg cs cgx ifree index 0 = (cgx, ifree)"
| "dir_cg cs cgx ifree index (Suc n) =
     (if ifree < cs_nifree (cs ! index) \<and>
         (cs_nbfree (cs ! index) \<noteq> 0 \<or> cs_nffree (cs ! index) \<noteq> 0)
      then dir_cg cs (of_nat index) (cs_nifree (cs ! index)) (Suc index) n
      else dir_cg cs cgx ifree (Suc index) n)"

text \<open>For a file whose group is full: the next group upward with a free inode, otherwise the
  next one downward. The search upward ends at \<open>ncg\<close> only when it starts below.\<close>

definition file_cg :: "csum list \<Rightarrow> nat \<Rightarrow> nat \<Rightarrow> nat option" where
  "file_cg cs cgx ncg =
     (let avail = (\<lambda>i. cs_nifree (cs ! i) \<noteq> 0)
      in case List.find avail [cgx..<ncg] of Some i \<Rightarrow> Some i
         | None \<Rightarrow> if ncg < cgx then Some cgx else List.find avail (rev [0..<cgx]))"

text \<open>The search in the inode map: from the rotor to the end, then from the first inode
  (the fourth in group 0) to the rotor.\<close>

definition inum_base :: "u32 \<Rightarrow> nat" where
  "inum_base cgx = (if cgx \<noteq> 0 then 0 else 3)"

definition inum_start :: "cg \<Rightarrow> u32 \<Rightarrow> nat" where
  "inum_start c cgx =
     (let inum = (if cg_irotor c < cg_niblk c then unat (cg_irotor c) else 0)
      in if inum = 0 then inum_base cgx else inum)"

definition inum_find :: "cg \<Rightarrow> u32 \<Rightarrow> nat option" where
  "inum_find c cgx =
     List.find (\<lambda>i. \<not> bit_val (cg_inosused c) i)
       ([inum_start c cgx..<unat (cg_niblk c)] @ [inum_base cgx..<inum_start c cgx])"

text \<open>The part behind the label \<open>found_clear\<close>.\<close>

definition take_inum :: "bool \<Rightarrow> u32 \<Rightarrow> nat \<Rightarrow> fsys \<Rightarrow> (u32 \<times> fsys) option" where
  "take_inum is_dir cgx inum s =
     do {
       (r, s) \<leftarrow> cache_cg_write cgx s;
       case r of None \<Rightarrow> Some (0, s)
       | Some mycg \<Rightarrow>
           (let s = upd_cg mycg (\<lambda>c. c\<lparr>cg_irotor := of_nat inum,
                      cg_inosused := bit_set (cg_inosused c) inum\<rparr>) s;
                s = adjust_nifree mycg cgx (-1) s;
                s = (if is_dir then adjust_ndir mycg cgx 1 s else s)
            in Some (of_nat inum + cgx * fs_ipg (sb s), s))
     }"

definition take_inum_in :: "bool \<Rightarrow> u32 \<Rightarrow> nat \<Rightarrow> fsys \<Rightarrow> (u32 \<times> fsys) option" where
  "take_inum_in is_dir cgx mycg s =
     (case inum_find (cg_at s mycg) cgx of
        Some inum \<Rightarrow> take_inum is_dir cgx inum s
      | None \<Rightarrow> Some (0, set_ronly s))"

text \<open>\<open>cg_chkmagic\<close> and the loops read through the result of \<open>cache_cg\<close>; NULL is undefined
  behaviour.\<close>

definition inum_new :: "u32 \<Rightarrow> bool \<Rightarrow> fsys \<Rightarrow> (u32 \<times> fsys) option" where
  "inum_new parent is_dir s =
     (if no_inodes (sb s) then Some (0, s)
      else if parent > fs_ipg (sb s) * fs_ncg (sb s) then Some (0, s)
      else
        do {
          let cgx = itog (sb s) parent;
          (r, s) \<leftarrow> cache_cg cgx s;
          mycg \<leftarrow> r;
          if \<not> cg_magic_ok (cg_at s mycg) then Some (0, s)
          else if is_dir then
            (let (cgx, ifree) = dir_cg (fs_csp (sb s)) cgx 0 0 (unat (fs_ncg (sb s)))
             in if ifree = 0 then Some (0, set_ronly s)
                else do {
                  (r, s) \<leftarrow> cache_cg cgx s;
                  mycg \<leftarrow> r;
                  take_inum_in is_dir cgx mycg s
                })
          else if cs_nifree (cg_cs (cg_at s mycg)) = 0 then
            (case file_cg (fs_csp (sb s)) (unat cgx) (unat (fs_ncg (sb s))) of
               None \<Rightarrow> Some (0, set_ronly s)
             | Some index \<Rightarrow>
                 do {
                   let cgx = of_nat index;
                   (r, s) \<leftarrow> cache_cg cgx s;
                   mycg \<leftarrow> r;
                   take_inum_in is_dir cgx mycg s
                 })
          else take_inum_in is_dir cgx mycg s
        })"

section \<open>Setting up and releasing an inode\<close>

definition inum_sane :: "u32 \<Rightarrow> bool \<Rightarrow> fsys \<Rightarrow> (unit \<times> fsys) option" where
  "inum_sane inum is_dir s =
     do {
       (inode, s) \<leftarrow> inode_modify inum s;
       case inode of None \<Rightarrow> Some ((), s)
       | Some p \<Rightarrow>
           (let gen = get32 s p ic_gen;
                s = wipe_inode p s;
                s = (if is_dir then put16 p ic_nlink 2 (put16 p ic_mode (IFDIR OR 0x1ED) s)
                     else put16 p ic_nlink 1 (put16 p ic_mode (IFREG OR 0x1ED) s));
                s = put32 p ic_gen (gen + 1) s;
                s = put32 p ic_mtime (now (hnd s)) s;
                s = put32 p ic_atime (now (hnd s)) s
            in Some ((), put32 p ic_ctime (now (hnd s)) s))
     }"

definition inum_free :: "u32 \<Rightarrow> fsys \<Rightarrow> (unit \<times> fsys) option" where
  "inum_free inum s =
     do {
       (inode, s) \<leftarrow> inode_modify inum s;
       case inode of None \<Rightarrow> Some ((), s)
       | Some p \<Rightarrow>
           do {
             let cgx = itog (sb s) inum;
             (r, s) \<leftarrow> cache_cg_write cgx s;
             case r of None \<Rightarrow> Some ((), s)
             | Some mycg \<Rightarrow>
                 (let rotor = inum mod fs_ipg (sb s);
                      s = upd_cg mycg (\<lambda>c. c\<lparr>cg_irotor := rotor,
                            cg_inosused := bit_clr (cg_inosused c) (unat rotor)\<rparr>) s;
                      s = adjust_nifree mycg cgx 1 s;
                      s = (if get16 s p ic_mode AND IFMT = IFDIR
                           then adjust_ndir mycg cgx (-1) s else s);
                      gen = get32 s p ic_gen;
                      s = wipe_inode p s
                  in Some ((), put32 p ic_gen gen s))
           }
     }"

definition is_writable :: "u32 \<Rightarrow> fsys \<Rightarrow> (bool \<times> fsys) option" where
  "is_writable inum s =
     do {
       (inode, s) \<leftarrow> inode_read inum s;
       Some (case inode of None \<Rightarrow> False | Some p \<Rightarrow> get16 s p ic_mode AND IWRITE \<noteq> 0, s)
     }"

definition is_readable :: "u32 \<Rightarrow> fsys \<Rightarrow> (bool \<times> fsys) option" where
  "is_readable inum s =
     do {
       (inode, s) \<leftarrow> inode_read inum s;
       Some (case inode of None \<Rightarrow> False | Some p \<Rightarrow> get16 s p ic_mode AND IREAD \<noteq> 0, s)
     }"

end
