(* ===== verification/File_Blocks.thy ===== *)
theory File_Blocks
  imports Inum
begin

text \<open>
  The block-level half of fs/file.c: giving up the blocks of a file (\<open>file_deallocate\<close>,
  \<open>file_blocks_deallocate\<close>), adding blocks (\<open>file_blocks_add\<close>), and the treatment of the
  partial last block (\<open>file_block_extend\<close>, \<open>file_block_retract\<close>, \<open>file_frag_expand\<close>). A
  pointer that the code uses without a check, when it is NULL, is undefined behaviour.
\<close>

section \<open>Sizes\<close>

definition IC_SIZE :: "fsys \<Rightarrow> iptr \<Rightarrow> u32" where
  "IC_SIZE s p = get32 s p ic_size"

definition fragroundup :: "fsys \<Rightarrow> u32 \<Rightarrow> u32" where
  "fragroundup s sz = (sz + fs_fsize (sb s) - 1) AND NOT (fs_lfmask (hnd s))"

definition numfrags :: "superblock \<Rightarrow> u32 \<Rightarrow> u32" where
  "numfrags fs loc = drop_bit (unat (fs_fshift fs)) loc"

text \<open>\<open>FBSIZE\<close> in frags, the size of a transfer of a whole block.\<close>

definition block_frags :: "fsys \<Rightarrow> nat" where
  "block_frags s = unat (bsize (hnd s)) div unat (fsize (hnd s))"

section \<open>Giving up index blocks\<close>

fun invalidate_frags :: "nat \<Rightarrow> u32 \<Rightarrow> fsys \<Rightarrow> (unit \<times> fsys) option" where
  "invalidate_frags 0 a s = Some ((), s)"
| "invalidate_frags (Suc n) a s =
     do { (u, s) \<leftarrow> cache_invalidate a s; invalidate_frags n (a + 1) s }"

text \<open>The pointers of an index block that was read to \<open>level_buffer\<close>; \<open>sub\<close> releases what
  hangs below a pointer and counts it.\<close>

fun free_pointers :: "(u32 \<Rightarrow> fsys \<Rightarrow> (u32 \<times> fsys) option) \<Rightarrow> u32 list \<Rightarrow> u32 \<Rightarrow> fsys \<Rightarrow>
    (u32 \<times> fsys) option" where
  "free_pointers sub [] deallocated s = Some (deallocated, s)"
| "free_pointers sub (iblock # ws) deallocated s =
     (if iblock \<noteq> 0 then
        do {
          (k, s) \<leftarrow> sub iblock s;
          (u, s) \<leftarrow> block_deallocate iblock s;
          free_pointers sub ws (deallocated + k + 1) s
        }
      else free_pointers sub ws deallocated s)"

definition index_words :: "superblock \<Rightarrow> bytes \<Rightarrow> u32 list" where
  "index_words fs b = map (\<lambda>i. peek32 b (4 * i)) [0..<unat (fs_nindir fs)]"

definition free_index :: "(u32 \<Rightarrow> fsys \<Rightarrow> (u32 \<times> fsys) option) \<Rightarrow> u32 \<Rightarrow> fsys \<Rightarrow>
    (u32 \<times> fsys) option" where
  "free_index sub fragaddr s =
     do {
       (u, s) \<leftarrow> invalidate_frags (fpb (sb s)) fragaddr s;
       let (d, s) = data_read fragaddr (block_frags s) s;
       case d of None \<Rightarrow> Some (0, set_ronly s)
       | Some b \<Rightarrow> free_pointers sub (index_words (sb s) b) 0 s
     }"

text \<open>At level 0 nothing hangs below the pointers.\<close>

primrec iblock_deallocate :: "nat \<Rightarrow> u32 \<Rightarrow> fsys \<Rightarrow> (u32 \<times> fsys) option" where
  "iblock_deallocate 0 = free_index (\<lambda>_ s. Some (0, s))"
| "iblock_deallocate (Suc level) = free_index (iblock_deallocate level)"

section \<open>Giving up all blocks of a file\<close>

fun free_direct :: "nat list \<Rightarrow> u32 \<Rightarrow> iptr \<Rightarrow> fsys \<Rightarrow> (iptr \<times> fsys) option" where
  "free_direct [] inum p s = Some (p, s)"
| "free_direct (i # is) inum p s =
     (if get32 s p (ic_db i) \<noteq> 0 then
        do {
          (u, s) \<leftarrow> block_deallocate (get32 s p (ic_db i)) s;
          (inode, s) \<leftarrow> inode_modify inum s;
          p \<leftarrow> inode;
          free_direct is inum p (put32 p (ic_db i) 0 s)
        }
      else free_direct is inum p s)"

text \<open>The result is 1 when the memory for a level buffer is missing.\<close>

fun free_trees :: "(nat \<times> u32) list \<Rightarrow> fsys \<Rightarrow> (int \<times> fsys) option" where
  "free_trees [] s = Some (0, s)"
| "free_trees ((level, ib) # ibs) s =
     (let (ok, s) = alloc_mem s
      in if \<not> ok then Some (1, s)
         else if ib \<noteq> 0 then
           do {
             (k, s) \<leftarrow> iblock_deallocate level ib s;
             (u, s) \<leftarrow> block_deallocate ib s;
             free_trees ibs s
           }
         else free_trees ibs s)"

definition file_deallocate :: "u32 \<Rightarrow> fsys \<Rightarrow> (int \<times> fsys) option" where
  "file_deallocate inum s =
     do {
       (inode, s) \<leftarrow> inode_modify inum s;
       case inode of None \<Rightarrow> Some (1, s)
       | Some p \<Rightarrow>
           do {
             let totfrags = numfrags (sb s) (fragroundup s (IC_SIZE s p));
             let last = totfrags div fs_frag (sb s);
             (u, s) \<leftarrow>
               (if last < 12 then
                  do {
                    let ffrags = fragnum (sb s) totfrags;
                    (block, s) \<leftarrow> ridisk_frag (totfrags - ffrags) inum s;
                    (inode, s) \<leftarrow> inode_modify inum s;
                    if ffrags \<noteq> 0 \<and> block \<noteq> 0 then
                      do {
                        p \<leftarrow> inode;
                        frags_deallocate block ffrags (put32 p (ic_db (unat last)) 0 s)
                      }
                    else Some ((), s)
                  }
                else Some ((), s));
             (inode, s) \<leftarrow> inode_modify inum s;
             p \<leftarrow> inode;
             (p, s) \<leftarrow> free_direct [0..<NDADDR] inum p s;
             let ibs = map (\<lambda>i. (i, get32 s p (ic_ib i))) [0..<NIADDR];
             free_trees ibs (fold (\<lambda>i. put32 p (ic_ib i) 0) [0..<NIADDR] s)
           }
     }"

section \<open>Adding blocks\<close>

text \<open>The loop of \<open>file_blocks_add\<close>; \<open>index\<close> counts the blocks, those that were there
  already too.\<close>

fun add_blocks :: "nat \<Rightarrow> u32 \<Rightarrow> u32 \<Rightarrow> u32 \<Rightarrow> u32 \<Rightarrow> fsys \<Rightarrow> (u32 \<times> fsys) option" where
  "add_blocks 0 inum startfrag prev_frag index s = Some (index, s)"
| "add_blocks (Suc n) inum startfrag prev_frag index s =
     do {
       (d, s) \<leftarrow> ridisk_frag startfrag inum s;
       if d \<noteq> 0 then add_blocks n inum startfrag prev_frag (index + 1) s
       else do {
         (blockgot, s) \<leftarrow> block_allocate prev_frag s;
         if blockgot = 0 then Some (index, s)
         else do {
           (inode, s) \<leftarrow> inode_modify inum s;
           p \<leftarrow> inode;
           (r, s) \<leftarrow> cidisk_frag startfrag inum blockgot (ADJUST_IC_BLKS p (NDSPB s) s);
           add_blocks n inum (startfrag + fs_frag (sb s)) blockgot (index + 1) s
         }
       }
     }"

definition file_blocks_add :: "u32 \<Rightarrow> u32 \<Rightarrow> u32 \<Rightarrow> fsys \<Rightarrow> (u32 \<times> fsys) option" where
  "file_blocks_add inum startfrag blocks s =
     do {
       (prev_frag, s) \<leftarrow> prev_scan (unat startfrag) inum 0 s;
       let prev_frag = (if prev_frag = 0 then itod (sb s) inum else prev_frag);
       (r, s) \<leftarrow> cache_cg_write (dtog (sb s) prev_frag) s;
       case r of None \<Rightarrow> Some (0, s)
       | Some mycg \<Rightarrow> add_blocks (unat blocks) inum startfrag prev_frag 0 s
     }"

section \<open>The last block\<close>

fun move_frags :: "nat \<Rightarrow> u32 \<Rightarrow> u32 \<Rightarrow> fsys \<Rightarrow> (unit \<times> fsys) option" where
  "move_frags 0 to_frag from_frag s = Some ((), s)"
| "move_frags (Suc n) to_frag from_frag s =
     do {
       (u, s) \<leftarrow> cache_frag_move to_frag from_frag s;
       move_frags n (to_frag + 1) (from_frag + 1) s
     }"

text \<open>The blocks of an inode in frags: \<open>ic_blocks\<close> counts 512-byte units.\<close>

definition inode_frags :: "fsys \<Rightarrow> iptr \<Rightarrow> u32" where
  "inode_frags s p = get32 s p ic_blocks div NDSPF s"

text \<open>The first alternative: the rest of the block that holds the last frags is free. The
  pointer of \<open>cache_cg\<close> is used only when the frags start at a block boundary.\<close>

definition rest_is_free :: "nat option \<Rightarrow> u32 \<Rightarrow> u32 \<Rightarrow> fsys \<Rightarrow> bool option" where
  "rest_is_free r dblk fspill s =
     (if dblk mod fs_frag (sb s) = 0 then
        do {
          mycg \<leftarrow> r;
          Some (frags_left_are_free (fpb (sb s)) (cg_blksfree (cg_at s mycg))
                  (unat (dtogd (sb s) (dblk + fspill))))
        }
      else Some False)"

definition file_block_extend :: "u32 \<Rightarrow> fsys \<Rightarrow> (int \<times> fsys) option" where
  "file_block_extend inum s =
     do {
       (inode, s) \<leftarrow> inode_read inum s;
       case inode of None \<Rightarrow> Some (1, s)
       | Some p \<Rightarrow>
           (let frags = inode_frags s p;
                F = fs_frag (sb s);
                fspill = frags mod F
            in if fspill = 0 then Some (0, s)
               else
                 do {
                   let fblk = frags - fspill;
                   (dblk, s) \<leftarrow> ridisk_frag fblk inum s;
                   (r, s) \<leftarrow> cache_cg (dtog (sb s) dblk) s;
                   free \<leftarrow> rest_is_free r dblk fspill s;
                   (err, s) \<leftarrow>
                     (if free then frags_allocate (dblk + fspill) (F - fspill) s
                      else
                        do {
                          (near, s) \<leftarrow> (if fblk \<noteq> 0 then ridisk_frag (fblk - 1) inum s
                                       else Some (itod (sb s) inum, s));
                          (newblk, s) \<leftarrow> block_allocate near s;
                          if newblk = 0 then Some (1, s)
                          else do {
                            (u, s) \<leftarrow> move_frags (unat fspill) newblk dblk s;
                            (e, s) \<leftarrow> cidisk_frag fblk inum newblk s;
                            (u, s) \<leftarrow> frags_deallocate dblk fspill s;
                            Some (0, s)
                          }
                        });
                   if err \<noteq> 0 then Some (1, s)
                   else do {
                     (inode, s) \<leftarrow> inode_modify inum s;
                     p \<leftarrow> inode;
                     Some (0, ADJUST_IC_BLKS p ((F - fspill) * NDSPF s) s)
                   }
                 })
     }"

section \<open>Giving up the blocks behind the end of a file\<close>

text \<open>The direct blocks; the pointer to the inode is not renewed.\<close>

fun free_direct_tail :: "nat list \<Rightarrow> iptr \<Rightarrow> u32 \<Rightarrow> fsys \<Rightarrow> (u32 \<times> fsys) option" where
  "free_direct_tail [] p deallocated s = Some (deallocated, s)"
| "free_direct_tail (i # is) p deallocated s =
     (if get32 s p (ic_db i) \<noteq> 0 then
        do {
          (u, s) \<leftarrow> block_deallocate (get32 s p (ic_db i)) s;
          free_direct_tail is p (deallocated + 1) (put32 p (ic_db i) 0 s)
        }
      else free_direct_tail is p deallocated s)"

text \<open>The pointers from \<open>ptrcur\<close> on in the frag of an index block at node \<open>temp\<close>.\<close>

fun prune_words :: "(u32 \<Rightarrow> fsys \<Rightarrow> (u32 \<times> fsys) option) \<Rightarrow> nat \<Rightarrow> nat list \<Rightarrow> u32 \<Rightarrow> fsys \<Rightarrow>
    (u32 \<times> fsys) option" where
  "prune_words sub temp [] deallocated s = Some (deallocated, s)"
| "prune_words sub temp (ptrcur # ptrs) deallocated s =
     (let curdelblk = peek32 (frag_buf s temp) (4 * ptrcur)
      in if curdelblk \<noteq> 0 then
           do {
             (k, s) \<leftarrow> sub curdelblk s;
             (u, s) \<leftarrow> block_deallocate curdelblk s;
             prune_words sub temp ptrs (deallocated + k + 1)
               (set_frag_buf temp (poke32 (frag_buf s temp) (4 * ptrcur) 0) s)
           }
         else prune_words sub temp ptrs deallocated s)"

text \<open>The frags from \<open>fragcur\<close> on of an index block. A result of \<open>None\<close> is a return from
  \<open>file_blocks_deallocate\<close>.\<close>

fun prune_frags :: "(u32 \<Rightarrow> fsys \<Rightarrow> (u32 \<times> fsys) option) \<Rightarrow> nat \<Rightarrow> u32 \<Rightarrow> nat \<Rightarrow> u32 \<Rightarrow> fsys \<Rightarrow>
    (u32 option \<times> fsys) option" where
  "prune_frags sub 0 fragaddr ptrcur deallocated s = Some (Some deallocated, s)"
| "prune_frags sub (Suc n) fragaddr ptrcur deallocated s =
     do {
       (temp, s) \<leftarrow> cache_frag_write fragaddr True s;
       case temp of None \<Rightarrow> Some (None, s)
       | Some t \<Rightarrow>
           do {
             let ptrs = [ptrcur..<unat (fs_nindir (sb s) div fs_frag (sb s))];
             (deallocated, s) \<leftarrow> prune_words sub t ptrs deallocated s;
             prune_frags sub n (fragaddr + 1) 0 deallocated s
           }
     }"

text \<open>The walk down to the last block; the digits come highest level first.\<close>

fun prune_walk :: "(nat \<times> nat) list \<Rightarrow> u32 \<Rightarrow> u32 \<Rightarrow> fsys \<Rightarrow> (u32 option \<times> fsys) option" where
  "prune_walk [] curblk deallocated s = Some (Some deallocated, s)"
| "prune_walk ((ptr, frg) # ds) curblk deallocated s =
     do {
       let sub = (case ds of [] \<Rightarrow> (\<lambda>_ s. Some (0, s))
                  | _ \<Rightarrow> iblock_deallocate (length ds - 1));
       (r, s) \<leftarrow> prune_frags sub (fpb (sb s) - frg) (curblk + of_nat frg) (ptr + 1) deallocated s;
       case r of None \<Rightarrow> Some (None, s)
       | Some deallocated \<Rightarrow>
           do {
             (temp, s) \<leftarrow> cache_frag_write (curblk + of_nat frg) True s;
             case temp of None \<Rightarrow> Some (None, s)
             | Some t \<Rightarrow>
                 (let curblk = peek32 (frag_buf s t) (4 * ptr)
                  in if curblk = 0 then Some (Some deallocated, s)
                     else if ds \<noteq> [] then prune_walk ds curblk deallocated s
                     else do {
                       (u, s) \<leftarrow> block_deallocate curblk s;
                       Some (Some (deallocated + 1),
                             set_frag_buf t (poke32 (frag_buf s t) (4 * ptr) 0) s)
                     })
           }
     }"

text \<open>The part behind the label \<open>deallocate_trees\<close>: the trees from a level on.\<close>

fun prune_trees :: "nat list \<Rightarrow> iptr \<Rightarrow> u32 \<Rightarrow> fsys \<Rightarrow> (u32 \<times> fsys) option" where
  "prune_trees [] p deallocated s = Some (deallocated, s)"
| "prune_trees (i # is) p deallocated s =
     (let iblock = get32 s p (ic_ib i)
      in if iblock \<noteq> 0 then
           do {
             (k, s) \<leftarrow> iblock_deallocate i iblock s;
             (u, s) \<leftarrow> block_deallocate iblock s;
             prune_trees is p (deallocated + k + 1) (put32 p (ic_ib i) 0 s)
           }
         else prune_trees is p deallocated s)"

text \<open>The three level buffers; true when all of them were granted.\<close>

fun alloc_levels :: "nat \<Rightarrow> fsys \<Rightarrow> bool \<times> fsys" where
  "alloc_levels 0 s = (True, s)"
| "alloc_levels (Suc n) s =
     (let (ok, s) = alloc_mem s in if ok then alloc_levels n s else (False, s))"

definition file_blocks_deallocate :: "u32 \<Rightarrow> fsys \<Rightarrow> (unit \<times> fsys) option" where
  "file_blocks_deallocate inum s =
     do {
       (inode, s) \<leftarrow> inode_modify inum s;
       p \<leftarrow> inode;
       let startblk = unat ((IC_SIZE s p + bsize (hnd s) - 1) div bsize (hnd s));
       (deallocated, s) \<leftarrow> free_direct_tail [startblk..<NDADDR] p 0 s;
       let digits = index_digits (pfragshift (hnd s)) (fblkshift (hnd s))
                      (max startblk NDADDR - NDADDR);
       if length digits > NIADDR then None
       else
         (let (ok, s) = alloc_levels NIADDR s
          in if \<not> ok then Some ((), s)
             else
               do {
                 let level = (if startblk < NDADDR then 0 else length digits);
                 let curblk = get32 s p (ic_ib (level - 1));
                 (r, s) \<leftarrow> (if level = 0 \<or> curblk = 0 then Some (Some deallocated, s)
                           else prune_walk (rev digits) curblk deallocated s);
                 case r of None \<Rightarrow> Some ((), s)
                 | Some deallocated \<Rightarrow>
                     do {
                       (deallocated, s) \<leftarrow> prune_trees [level..<NIADDR] p deallocated s;
                       (inode, s) \<leftarrow> inode_modify inum s;
                       p \<leftarrow> inode;
                       Some ((), ADJUST_IC_BLKS p (- NDSPB s * deallocated) s)
                     }
               })
     }"

section \<open>Cutting and growing the last block\<close>

definition fragblock_find :: "nat \<Rightarrow> u32 \<Rightarrow> u32 \<Rightarrow> fsys \<Rightarrow> int" where
  "fragblock_find mycg preferred min_frags s =
     block_fragblock_find (opt_space (hnd s)) (fpb (sb s)) (cg_at s mycg) (unat preferred)
       (unat min_frags)"

text \<open>The part of \<open>file_block_retract\<close> behind the search: \<open>newblk\<close> is the place found for
  the \<open>reqfrags\<close> frags at \<open>fdblk\<close>, or -1.\<close>

definition retract_to :: "nat \<Rightarrow> int \<Rightarrow> u32 \<Rightarrow> u32 \<Rightarrow> u32 \<Rightarrow> u32 \<Rightarrow> fsys \<Rightarrow> (int \<times> fsys) option" where
  "retract_to mycg found fdblk reqfrags totfrags inum s =
     (let F = fs_frag (sb s);
          newblk = of_int found :: u32;
          newblkfrags = newblk mod F;
          newdblk = newblk + cgbase (sb s) (dtog (sb s) fdblk)
      in if found = -1 \<or>
            newblkfrags = 0 \<and> block_avail (fpb (sb s)) (cg_blksfree (cg_at s mycg)) (unat newblk)
         then do {
           (u, s) \<leftarrow> frags_deallocate (fdblk + reqfrags) (F - reqfrags) s;
           Some (0, s)
         }
         else if newdblk - newblkfrags = fdblk - fdblk mod F then Some (0, set_ronly s)
         else do {
           (err, s) \<leftarrow> frags_allocate newdblk reqfrags s;
           if err \<noteq> 0 then Some (1, s)
           else do {
             (u, s) \<leftarrow> move_frags (unat reqfrags) newdblk fdblk s;
             (u, s) \<leftarrow> block_deallocate fdblk s;
             (e, s) \<leftarrow> cidisk_frag (totfrags - reqfrags) inum newdblk s;
             Some (0, s)
           }
         })"

definition file_block_retract :: "u32 \<Rightarrow> fsys \<Rightarrow> (int \<times> fsys) option" where
  "file_block_retract inum s =
     do {
       (inode, s) \<leftarrow> inode_modify inum s;
       p \<leftarrow> inode;
       let F = fs_frag (sb s);
       let totfrags = numfrags (sb s) (fragroundup s (IC_SIZE s p));
       let reqfrags = fragnum (sb s) totfrags;
       let curfrags = fragnum (sb s) (inode_frags s p);
       if reqfrags = 0 \<or> totfrags > F * 12 then Some (0, s)
       else if totfrags > get32 s p ic_blocks * NDSPF s then Some (1, s)
       else if reqfrags = curfrags then Some (1, s)
       else do {
         (fdblk, s) \<leftarrow> ridisk_frag (blknum (sb s) totfrags) inum s;
         if fdblk = 0 then Some (0, s)
         else do {
           (inode, s) \<leftarrow> inode_modify inum s;
           p \<leftarrow> inode;
           let s = ADJUST_IC_BLKS p (- NDSPF s * (F - reqfrags)) s;
           (r, s) \<leftarrow> cache_cg_write (dtog (sb s) fdblk) s;
           case r of None \<Rightarrow> Some (1, s)
           | Some mycg \<Rightarrow>
               do {
                 (near, s) \<leftarrow> (if totfrags < F then Some (itod (sb s) inum, s)
                              else ridisk_frag (fdblk - F) inum s);
                 let pblk = dtogd (sb s) near;
                 retract_to mycg (fragblock_find mycg pblk reqfrags s) fdblk reqfrags totfrags
                   inum s
               }
         }
       }
     }"

text \<open>A place for \<open>n\<close> frags: the one found in the group (\<open>count\<close>), or the start of a whole
  block whose other frags are freed; 0 when there is none.\<close>

definition new_frags :: "u32 \<Rightarrow> int \<Rightarrow> u32 \<Rightarrow> u32 \<Rightarrow> fsys \<Rightarrow> (u32 \<times> fsys) option" where
  "new_frags cgx cnt near n s =
     (if cnt \<noteq> -1 then
        do {
          let newblk = of_int cnt + cgbase (sb s) cgx;
          (err, s) \<leftarrow> frags_allocate newblk n s;
          Some (if err \<noteq> 0 then 0 else newblk, s)
        }
      else
        do {
          (newblk, s) \<leftarrow> block_allocate near s;
          if newblk \<noteq> 0 then
            do {
              (u, s) \<leftarrow> frags_deallocate (newblk + n) (fs_frag (sb s) - n) s;
              Some (newblk, s)
            }
          else Some (0, s)
        })"

text \<open>One more frag in the inode's counters.\<close>

definition count_frag :: "u32 \<Rightarrow> fsys \<Rightarrow> (unit \<times> fsys) option" where
  "count_frag inum s =
     do {
       (inode, s) \<leftarrow> inode_modify inum s;
       p \<leftarrow> inode;
       let s = ADJUST_IC_BLKS p (NDSPF s) s;
       Some ((), ADJUST_IC_SIZE p (fsize (hnd s)) s)
     }"

text \<open>The three cases of \<open>file_frag_expand\<close>: a frag in a new block, the next frag of the
  block, and moving all frags of the last block together with the new one.\<close>

definition expand_new :: "nat \<Rightarrow> u32 \<Rightarrow> u32 \<Rightarrow> u32 \<Rightarrow> u32 \<Rightarrow> fsys \<Rightarrow> (u32 \<times> fsys) option" where
  "expand_new mycg cgx inum fblk dblk s =
     do {
       let inoblk = itod (sb s) inum;
       let near = (if fblk \<noteq> 0 then dblk else inoblk) - cgbase (sb s) cgx;
       (newblk, s) \<leftarrow> new_frags cgx (fragblock_find mycg near 1 s)
                       (if dblk \<noteq> 0 then dblk else inoblk) 1 s;
       if newblk \<noteq> 0 then
         do {
           (u, s) \<leftarrow> count_frag inum s;
           (e, s) \<leftarrow> cidisk_frag fblk inum newblk s;
           Some (newblk, s)
         }
       else Some (0, s)
     }"

definition expand_next :: "u32 \<Rightarrow> u32 \<Rightarrow> fsys \<Rightarrow> (u32 \<times> fsys) option" where
  "expand_next inum next s =
     do {
       (err, s) \<leftarrow> frags_allocate next 1 s;
       if err \<noteq> 0 then Some (0, s)
       else do { (u, s) \<leftarrow> count_frag inum s; Some (next, s) }
     }"

definition expand_move :: "nat \<Rightarrow> u32 \<Rightarrow> u32 \<Rightarrow> u32 \<Rightarrow> u32 \<Rightarrow> u32 \<Rightarrow> fsys \<Rightarrow> (u32 \<times> fsys) option" where
  "expand_move mycg cgx inum fblk dblk fspill s =
     (if dblk = 0 then Some (0, s)
      else
        do {
          let cgblk = dblk - cgbase (sb s) cgx;
          let cnt = (if fspill + 1 = fs_frag (sb s) then -1
                       else fragblock_find mycg cgblk (fspill + 1) s);
          (newblk, s) \<leftarrow> new_frags cgx cnt dblk (fspill + 1) s;
          if newblk \<noteq> 0 then
            do {
              (u, s) \<leftarrow> count_frag inum s;
              (u, s) \<leftarrow> move_frags (unat fspill) newblk dblk s;
              (u, s) \<leftarrow> frags_deallocate dblk fspill s;
              (e, s) \<leftarrow> cidisk_frag fblk inum newblk s;
              Some (newblk + fspill, s)
            }
          else Some (0, s)
        })"

definition file_frag_expand :: "u32 \<Rightarrow> fsys \<Rightarrow> (u32 \<times> fsys) option" where
  "file_frag_expand inum s =
     do {
       (inode, s) \<leftarrow> inode_modify inum s;
       p \<leftarrow> inode;
       let frags = inode_frags s p;
       let fspill = frags mod fs_frag (sb s);
       let fblk = frags - fspill;
       (dblk, s) \<leftarrow> ridisk_frag fblk inum s;
       let cgx = dtog (sb s) dblk;
       (r, s) \<leftarrow> cache_cg_write cgx s;
       case r of None \<Rightarrow> Some (0, s)
       | Some mycg \<Rightarrow>
           (if fspill = 0 then expand_new mycg cgx inum fblk dblk s
            else if dblk mod fs_frag (sb s) + fspill < fs_frag (sb s) \<and>
                    bit_val (cg_blksfree (cg_at s mycg))
                      (unat (dblk - cgbase (sb s) cgx + fspill))
            then expand_next inum (dblk + fspill) s
            else expand_move mycg cgx inum fblk dblk fspill s)
     }"

end
