(* ===== verification/File_IO.thy ===== *)
theory File_IO
  imports File_Blocks
begin

text \<open>
  Reading and writing the contents of a file: fs/fread.c and fs/fwrite.c. The buffer of the
  caller is a byte list that the read functions take and return; a position in it is an
  offset. The address of the buffer matters only for the mask of the addresses that the
  device can reach (\<open>tranmask\<close>).
\<close>

definition ERROR_DISK_FULL :: int where "ERROR_DISK_FULL = 221"

definition set_Res2 :: "int \<Rightarrow> fsys \<Rightarrow> fsys" where
  "set_Res2 e s = s\<lparr>hnd := (hnd s)\<lparr>Res2 := e\<rparr>\<rparr>"

definition FSIZE :: "fsys \<Rightarrow> nat" where
  "FSIZE s = unat (fsize (hnd s))"

definition fragoff :: "fsys \<Rightarrow> u32 \<Rightarrow> u32" where
  "fragoff s x = x AND fs_lfmask (hnd s)"

definition lfragno :: "superblock \<Rightarrow> u32 \<Rightarrow> u32" where
  "lfragno fs x = drop_bit (unat (fs_fshift fs)) x"

section \<open>Reading\<close>

text \<open>The loop over \<open>n\<close> frags through the cache, a hole being zeros; false is a failure.\<close>

fun ua_frags_read :: "nat \<Rightarrow> u32 \<Rightarrow> u32 \<Rightarrow> bytes \<Rightarrow> nat \<Rightarrow> fsys \<Rightarrow> ((bool \<times> bytes) \<times> fsys) option"
where
  "ua_frags_read 0 frag inum out pos s = Some ((True, out), s)"
| "ua_frags_read (Suc n) frag inum out pos s =
     do {
       (lfrag, s) \<leftarrow> ridisk_frag frag inum s;
       if lfrag = 0 then
         ua_frags_read n (frag + 1) inum (poke out pos (replicate (FSIZE s) 0)) (pos + FSIZE s) s
       else do {
         (fragbuf, s) \<leftarrow> cache_frag lfrag s;
         case fragbuf of None \<Rightarrow> Some ((False, out), s)
         | Some b \<Rightarrow>
             ua_frags_read n (frag + 1) inum (poke out pos (slice (frag_buf s b) 0 (FSIZE s)))
               (pos + FSIZE s) s
       }
     }"

definition file_ua_frags_read :: "u32 \<Rightarrow> u32 \<Rightarrow> bytes \<Rightarrow> nat \<Rightarrow> u32 \<Rightarrow> fsys \<Rightarrow>
    ((u32 \<times> bytes) \<times> fsys) option" where
  "file_ua_frags_read sfrag nfrags out pos inum s =
     do {
       ((ok, out), s) \<leftarrow> ua_frags_read (unat nfrags) sfrag inum out pos s;
       Some ((if ok then nfrags * fsize (hnd s) else 0, out), s)
     }"

text \<open>The read of the frags \<open>csfrag\<close> to \<open>cefrag\<close> that \<open>file_frags_read\<close> has gathered, to
  the position \<open>bstart\<close>; nothing is gathered when \<open>csfrag\<close> is 0.\<close>

definition read_run :: "u32 \<Rightarrow> u32 \<Rightarrow> nat \<Rightarrow> bytes \<Rightarrow> fsys \<Rightarrow> (bool \<times> bytes) \<times> fsys" where
  "read_run csfrag cefrag bstart out s =
     (if csfrag = 0 then ((True, out), s)
      else (let (d, s) = data_read csfrag (unat (cefrag - csfrag + 1)) s
            in case d of None \<Rightarrow> ((False, out), s)
               | Some bs \<Rightarrow> ((True, poke out bstart bs), s)))"

fun frags_read :: "nat \<Rightarrow> u32 \<Rightarrow> u32 \<Rightarrow> u32 \<Rightarrow> u32 \<Rightarrow> nat \<Rightarrow> bytes \<Rightarrow> nat \<Rightarrow> fsys \<Rightarrow>
    ((bool \<times> bytes) \<times> fsys) option" where
  "frags_read 0 frag inum csfrag cefrag bstart out pos s =
     Some (read_run csfrag cefrag bstart out s)"
| "frags_read (Suc n) frag inum csfrag cefrag bstart out pos s =
     do {
       (lfrag, s) \<leftarrow> ridisk_frag frag inum s;
       if lfrag = 0 then
         (let ((ok, out), s) = read_run csfrag cefrag bstart out s
          in if \<not> ok then Some ((False, out), s)
             else frags_read n (frag + 1) inum 0 0 bstart
                    (poke out pos (replicate (FSIZE s) 0)) (pos + FSIZE s) s)
       else do {
         (caddr, s) \<leftarrow> cache_available lfrag s;
         case caddr of
           Some b \<Rightarrow>
             (let ((ok, out), s) = read_run csfrag cefrag bstart out s
              in if \<not> ok then Some ((False, out), s)
                 else frags_read n (frag + 1) inum 0 0 bstart
                        (poke out pos (slice (frag_buf s b) 0 (FSIZE s))) (pos + FSIZE s) s)
         | None \<Rightarrow>
             if lfrag = cefrag + 1 then
               frags_read n (frag + 1) inum csfrag lfrag bstart out (pos + FSIZE s) s
             else
               (let ((ok, out), s) = read_run csfrag cefrag bstart out s
                in if \<not> ok then Some ((False, out), s)
                   else frags_read n (frag + 1) inum lfrag lfrag pos out (pos + FSIZE s) s)
       }
     }"

definition file_frags_read :: "u32 \<Rightarrow> u32 \<Rightarrow> u32 \<Rightarrow> bytes \<Rightarrow> nat \<Rightarrow> u32 \<Rightarrow> fsys \<Rightarrow>
    ((u32 \<times> bytes) \<times> fsys) option" where
  "file_frags_read sfrag nfrags addr out pos inum s =
     (if nfrags = 0 then Some ((0, out), s)
      else if nfrags < 4 \<or> (addr + of_nat pos) AND tranmask (hnd s) \<noteq> 0
      then file_ua_frags_read sfrag nfrags out pos inum s
      else
        do {
          ((ok, out), s) \<leftarrow> frags_read (unat nfrags) sfrag inum 0 0 pos out pos s;
          Some ((if ok then nfrags * fsize (hnd s) else 0, out), s)
        })"

definition partial_frag_read :: "u32 \<Rightarrow> u32 \<Rightarrow> u32 \<Rightarrow> bytes \<Rightarrow> nat \<Rightarrow> fsys \<Rightarrow>
    ((u32 \<times> bytes) \<times> fsys) option" where
  "partial_frag_read frag offset n out pos s =
     do {
       (fragbuf, s) \<leftarrow> cache_frag frag s;
       Some (case fragbuf of None \<Rightarrow> (0, out)
             | Some b \<Rightarrow> (n, poke out pos (slice (frag_buf s b) (unat offset) (unat n))), s)
     }"

text \<open>The result -1 is an error; the buffer is at the address \<open>addr\<close>.\<close>

definition file_read :: "u32 \<Rightarrow> u32 \<Rightarrow> u32 \<Rightarrow> u32 \<Rightarrow> bytes \<Rightarrow> fsys \<Rightarrow>
    ((u32 \<times> bytes) \<times> fsys) option" where
  "file_read inum sbyte nbytes addr out s =
     do {
       (inode, s) \<leftarrow> inode_read inum s;
       case inode of None \<Rightarrow> Some ((-1, out), s)
       | Some p \<Rightarrow>
           (let filesize = IC_SIZE s p
            in if sbyte > filesize then Some ((-1, out), s)
               else
                 do {
                   let nbytes = (if nbytes + sbyte > filesize then filesize - sbyte else nbytes);
                   let spos = fragoff s sbyte;
                   let epos = fragoff s (sbyte + nbytes);
                   let sfrag = lfragno (sb s) sbyte;
                   let efrag = lfragno (sb s) (sbyte + nbytes);
                   let nffrags = efrag - sfrag;
                   if sfrag = efrag then
                     do {
                       (a, s) \<leftarrow> ridisk_frag sfrag inum s;
                       partial_frag_read a spos nbytes out 0 s
                     }
                   else do {
                     ((got, out), s) \<leftarrow>
                       (if spos \<noteq> 0 then
                          do {
                            (a, s) \<leftarrow> ridisk_frag sfrag inum s;
                            partial_frag_read a spos (fsize (hnd s) - spos) out 0 s
                          }
                        else Some ((1, out), s));
                     if got = 0 then Some ((0, out), s)
                     else do {
                       let pos = (if spos \<noteq> 0 then unat (fsize (hnd s) - spos) else 0);
                       let sfrag = (if spos \<noteq> 0 then sfrag + 1 else sfrag);
                       let nffrags = (if spos \<noteq> 0 then nffrags - 1 else nffrags);
                       ((got, out), s) \<leftarrow>
                         (if nffrags > 0 then file_frags_read sfrag nffrags addr out pos inum s
                          else Some ((1, out), s));
                       if got = 0 then Some ((0, out), s)
                       else if epos \<noteq> 0 then
                         do {
                           let pos = pos + unat nffrags * FSIZE s;
                           (a, s) \<leftarrow> ridisk_frag efrag inum s;
                           ((got, out), s) \<leftarrow> partial_frag_read a 0 epos out pos s;
                           Some ((nbytes - epos + got, out), s)
                         }
                       else Some ((nbytes, out), s)
                     }
                   }
                 })
     }"

section \<open>Writing\<close>

text \<open>The loop over \<open>n\<close> frags through the cache; the result is the number of frags written,
  0 when the cache has no node.\<close>

fun cached_write :: "nat \<Rightarrow> u32 \<Rightarrow> u32 \<Rightarrow> u32 \<Rightarrow> bytes \<Rightarrow> nat \<Rightarrow> fsys \<Rightarrow> (u32 \<times> fsys) option" where
  "cached_write 0 sfrag frag inum b pos s = Some (frag, s)"
| "cached_write (Suc n) sfrag frag inum b pos s =
     do {
       (lfrag, s) \<leftarrow> widisk_frag (sfrag + frag) inum s;
       if lfrag = 0 then Some (frag, s)
       else do {
         (ptr, s) \<leftarrow> cache_frag_write lfrag False s;
         case ptr of None \<Rightarrow> Some (0, s)
         | Some p \<Rightarrow>
             cached_write n sfrag (frag + 1) inum b (pos + FSIZE s)
               (set_frag_buf p (poke (frag_buf s p) 0 (slice b pos (FSIZE s))) s)
       }
     }"

definition file_ua_frags_write :: "u32 \<Rightarrow> u32 \<Rightarrow> bytes \<Rightarrow> nat \<Rightarrow> u32 \<Rightarrow> fsys \<Rightarrow>
    (u32 \<times> fsys) option" where
  "file_ua_frags_write sfrag nfrags b pos inum s =
     cached_write (unat nfrags) sfrag 0 inum b pos s"

text \<open>\<open>widisk_frag\<close> with the old contents of the frag taken out of the cache.\<close>

definition fresh_frag :: "u32 \<Rightarrow> u32 \<Rightarrow> fsys \<Rightarrow> (u32 \<times> fsys) option" where
  "fresh_frag file_frag inum s =
     do {
       (lfrag, s) \<leftarrow> widisk_frag file_frag inum s;
       (u, s) \<leftarrow> (if lfrag \<noteq> 0 then cache_invalidate lfrag s else Some ((), s));
       Some (lfrag, s)
     }"

text \<open>The write of the frags \<open>csfrag\<close> to \<open>cefrag\<close>, the last of which is number \<open>frag - 1\<close>
  of the request. A fault is only reported.\<close>

definition write_run :: "u32 \<Rightarrow> u32 \<Rightarrow> u32 \<Rightarrow> bytes \<Rightarrow> nat \<Rightarrow> fsys \<Rightarrow> fsys" where
  "write_run csfrag cefrag frag b pos s =
     (let bfrags = cefrag - csfrag + 1
      in snd (data_write (drop (pos + unat (frag - bfrags) * FSIZE s) b) csfrag (unat bfrags) s))"

text \<open>Both loops of the gathering write: \<open>frag\<close> is the number of the frag in hand, \<open>lfrag\<close>
  its address, \<open>csfrag\<close> the start of its run, and \<open>n\<close> more frags follow.\<close>

fun gather_write :: "nat \<Rightarrow> u32 \<Rightarrow> u32 \<Rightarrow> u32 \<Rightarrow> u32 \<Rightarrow> u32 \<Rightarrow> bytes \<Rightarrow> nat \<Rightarrow> fsys \<Rightarrow>
    (u32 \<times> fsys) option" where
  "gather_write 0 sfrag frag csfrag lfrag inum b pos s =
     Some (frag + 1, write_run csfrag lfrag (frag + 1) b pos s)"
| "gather_write (Suc n) sfrag frag csfrag lfrag inum b pos s =
     do {
       (l, s) \<leftarrow> fresh_frag (sfrag + (frag + 1)) inum s;
       if l = lfrag + 1 then gather_write n sfrag (frag + 1) csfrag l inum b pos s
       else
         (let s = write_run csfrag lfrag (frag + 1) b pos s
          in if l = 0 then Some (frag + 1, s)
             else gather_write n sfrag (frag + 1) l l inum b pos s)
     }"

definition file_frags_write :: "u32 \<Rightarrow> u32 \<Rightarrow> u32 \<Rightarrow> bytes \<Rightarrow> nat \<Rightarrow> u32 \<Rightarrow> fsys \<Rightarrow>
    (u32 \<times> fsys) option" where
  "file_frags_write sfrag nfrags addr b pos inum s =
     (if nfrags < 4 then cached_write (unat nfrags) sfrag 0 inum b pos s
      else if (addr + of_nat pos) AND tranmask (hnd s) \<noteq> 0
      then file_ua_frags_write sfrag nfrags b pos inum s
      else
        do {
          (lfrag, s) \<leftarrow> fresh_frag sfrag inum s;
          if lfrag = 0 then Some (0, s)
          else gather_write (unat nfrags - 1) sfrag 0 lfrag lfrag inum b pos s
        })"

definition partial_frag_write :: "u32 \<Rightarrow> u32 \<Rightarrow> u32 \<Rightarrow> bytes \<Rightarrow> nat \<Rightarrow> bool \<Rightarrow> fsys \<Rightarrow>
    (u32 \<times> fsys) option" where
  "partial_frag_write frag offset n b pos readcache s =
     do {
       (ptr, s) \<leftarrow> cache_frag_write frag readcache s;
       case ptr of None \<Rightarrow> Some (0, s)
       | Some p \<Rightarrow>
           Some (n, set_frag_buf p (poke (frag_buf s p) (unat offset) (slice b pos (unat n))) s)
     }"

text \<open>The expansion of the file before a write beyond its end. The result is an error, or the
  number of bytes to write, the size of the file, and whether its last frag has old contents.
  The size of the inode is compared through the pointer \<open>p\<close> from before the expansion.\<close>

definition write_expand :: "iptr \<Rightarrow> u32 \<Rightarrow> u32 \<Rightarrow> u32 \<Rightarrow> fsys \<Rightarrow>
    ((u32 \<times> u32 \<times> bool) option \<times> fsys) option" where
  "write_expand p inum sbyte nbytes s =
     (let filesize = IC_SIZE s p
      in if \<not> sbyte + nbytes > filesize then Some (Some (nbytes, filesize, True), s)
         else
           do {
             let start = filesize div fsize (hnd s);
             let blocks = (sbyte + nbytes + bsize (hnd s) - 1 - filesize) div bsize (hnd s);
             (ablocks, s) \<leftarrow> file_blocks_add inum start blocks s;
             if ablocks = 0 then Some (None, set_Res2 ERROR_DISK_FULL s)
             else do {
               let nbytes = (if ablocks < blocks
                             then ablocks * bsize (hnd s) + filesize - sbyte else nbytes);
               let filesize = sbyte + nbytes;
               if filesize > IC_SIZE s p then
                 do {
                   (inode, s) \<leftarrow> inode_modify inum s;
                   case inode of None \<Rightarrow> Some (None, s)
                   | Some p \<Rightarrow>
                       Some (Some (nbytes, filesize, False), put32 p ic_size filesize s)
                 }
               else Some (Some (nbytes, filesize, True), s)
             }
           })"

definition file_write :: "u32 \<Rightarrow> u32 \<Rightarrow> u32 \<Rightarrow> u32 \<Rightarrow> bytes \<Rightarrow> fsys \<Rightarrow> (u32 \<times> fsys) option" where
  "file_write inum sbyte nbytes addr b s =
     do {
       (inode, s) \<leftarrow> inode_read inum s;
       case inode of None \<Rightarrow> Some (-1, s)
       | Some p \<Rightarrow>
           do {
             (r, s) \<leftarrow> write_expand p inum sbyte nbytes s;
             case r of None \<Rightarrow> Some (-1, s)
             | Some (nbytes, filesize, read_last_frag) \<Rightarrow>
                 do {
                   let spos = sbyte mod fsize (hnd s);
                   let epos = (sbyte + nbytes) mod fsize (hnd s);
                   let sfrag = sbyte div fsize (hnd s);
                   let efrag = (sbyte + nbytes) div fsize (hnd s);
                   let nffrags = efrag - sfrag;
                   (faddr, s) \<leftarrow> (if sfrag = efrag \<or> spos \<noteq> 0 then widisk_frag sfrag inum s
                                 else Some (1, s));
                   if faddr = 0 then Some (-1, set_Res2 ERROR_DISK_FULL s)
                   else if sfrag = efrag then
                     do {
                       (n, s) \<leftarrow> partial_frag_write faddr spos (epos - spos) b 0
                                  (nbytes \<noteq> filesize) s;
                       Some (nbytes, s)
                     }
                   else do {
                     (n, s) \<leftarrow> (if spos \<noteq> 0 then
                                  partial_frag_write faddr spos (fsize (hnd s) - spos) b 0 True s
                                else Some (0, s));
                     let pos = (if spos \<noteq> 0 then unat (fsize (hnd s) - spos) else 0);
                     let sfrag = (if spos \<noteq> 0 then sfrag + 1 else sfrag);
                     let nffrags = (if spos \<noteq> 0 then nffrags - 1 else nffrags);
                     (faddr, s) \<leftarrow>
                       (if nffrags > 0 then file_frags_write sfrag nffrags addr b pos inum s
                        else Some (nffrags, s));
                     if faddr \<noteq> nffrags then
                       Some (fsize (hnd s) - spos + faddr * fsize (hnd s), s)
                     else if epos \<noteq> 0 then
                       do {
                         let pos = pos + unat nffrags * FSIZE s;
                         (faddr, s) \<leftarrow> widisk_frag efrag inum s;
                         if faddr = 0 then
                           Some (fsize (hnd s) - spos + nffrags * fsize (hnd s), s)
                         else do {
                           (n, s) \<leftarrow> partial_frag_write faddr 0 epos b pos read_last_frag s;
                           Some (nbytes, s)
                         }
                       }
                     else Some (nbytes, s)
                   }
                 }
           }
     }"

end
