(* ===== verification/Dir.thy ===== *)
theory Dir
  imports File_IO
begin

text \<open>
  fs/dir.c: directories. A directory is a file whose frags hold records of variable length
  (\<open>direct_t\<close>) in blocks of \<open>DIRBLKSIZ\<close> bytes. A name is the list of its bytes without the
  terminating zero, and a pointer to a record is the node of its frag with the offset in the
  buffer, like a pointer to an inode. A walk over records that stand still (a record length
  of 0 that the code does not check) never ends: \<open>None\<close>.
\<close>

section \<open>Records\<close>

definition DIRBLKSIZ :: nat where "DIRBLKSIZ = 512"
definition DIRNAMELEN :: nat where "DIRNAMELEN = 107"
definition ERROR_OBJECT_NOT_FOUND :: int where "ERROR_OBJECT_NOT_FOUND = 205"
definition ERROR_DIRECTORY_NOT_EMPTY :: int where "ERROR_DIRECTORY_NOT_EMPTY = 216"

definition d_ino :: "bytes \<Rightarrow> nat \<Rightarrow> u32" where "d_ino b off = peek32 b off"
definition d_reclen :: "bytes \<Rightarrow> nat \<Rightarrow> nat" where "d_reclen b off = unat (peek16 b (off + 4))"
definition d_type :: "bytes \<Rightarrow> nat \<Rightarrow> u8" where "d_type b off = b ! (off + 6)"
definition d_namlen :: "bytes \<Rightarrow> nat \<Rightarrow> u8" where "d_namlen b off = b ! (off + 7)"
definition d_name :: "bytes \<Rightarrow> nat \<Rightarrow> bytes" where "d_name b off = cstring b (off + 8)"

text \<open>\<open>UFS_DIRECTSIZ\<close> and \<open>UFS_DIRSIZ\<close>: the bytes that a record needs.\<close>

definition UFS_DIRECTSIZ :: "nat \<Rightarrow> nat" where
  "UFS_DIRECTSIZ namlen = 8 + (namlen + 1 + 3) div 4 * 4"

definition UFS_DIRSIZ :: "bytes \<Rightarrow> nat \<Rightarrow> nat" where
  "UFS_DIRSIZ b off = UFS_DIRECTSIZ (unat (d_namlen b off))"

text \<open>\<open>strnicmp\<close> folds the ASCII letters.\<close>

definition to_lower :: "u8 \<Rightarrow> u8" where
  "to_lower c = (if 65 \<le> c \<and> c \<le> 90 then c + 32 else c)"

definition streqv :: "bytes \<Rightarrow> bytes \<Rightarrow> bool" where
  "streqv str1 str2 \<longleftrightarrow>
     take DIRNAMELEN (map to_lower str1) = take DIRNAMELEN (map to_lower str2)"

text \<open>The writes to a record.\<close>

definition put_ino :: "nat \<Rightarrow> u32 \<Rightarrow> bytes \<Rightarrow> bytes" where
  "put_ino off v b = poke32 b off v"

definition put_reclen :: "nat \<Rightarrow> nat \<Rightarrow> bytes \<Rightarrow> bytes" where
  "put_reclen off n b = poke16 b (off + 4) (of_nat n)"

definition upd_buf :: "nat \<Rightarrow> (bytes \<Rightarrow> bytes) \<Rightarrow> fsys \<Rightarrow> fsys" where
  "upd_buf n f s = set_frag_buf n (f (frag_buf s n)) s"

text \<open>\<open>dir_fragfill\<close>: an empty record at every block of a frag from \<open>spill\<close> on.\<close>

definition blank_record :: "nat \<Rightarrow> bytes \<Rightarrow> bytes" where
  "blank_record off b =
     (let b = put_ino off 0 b;
          b = b[off + 7 := 0];
          b = b[off + 6 := 0];
          b = put_reclen off DIRBLKSIZ b
      in b[off + 8 := 0])"

definition dir_fragfill :: "nat \<Rightarrow> nat \<Rightarrow> bytes \<Rightarrow> bytes" where
  "dir_fragfill fs spill b =
     fold (\<lambda>k. blank_record (spill + DIRBLKSIZ * k))
       [0..<(fs - spill + DIRBLKSIZ - 1) div DIRBLKSIZ] b"

section \<open>Walking over the records\<close>

datatype scan = Found nat | End | Bad

text \<open>The walk over the records of a frag: from \<open>off\<close> to the first record with \<open>hit\<close>, unless
  one with a length for which \<open>bad\<close> holds comes first.\<close>

function dir_scan :: "(nat \<Rightarrow> bool) \<Rightarrow> (nat \<Rightarrow> bool) \<Rightarrow> bytes \<Rightarrow> nat \<Rightarrow> nat \<Rightarrow> scan option" where
  "dir_scan hit bad b bend off =
     (if bend \<le> off then Some End
      else if hit off then Some (Found off)
      else if bad (d_reclen b off) then Some Bad
      else if d_reclen b off = 0 then None
      else dir_scan hit bad b bend (off + d_reclen b off))"
  by pat_completeness auto
termination
  by (relation "measure (\<lambda>(hit, bad, b, bend, off). bend - off)") auto

declare dir_scan.simps [simp del]

definition too_long :: "nat \<Rightarrow> bool" where
  "too_long reclen \<longleftrightarrow> reclen > DIRBLKSIZ"

text \<open>The loop over the frags of a directory. \<open>Hit\<close> has the frag number, the node and the
  offset of the record.\<close>

datatype search = Hit nat nat nat | Miss | Unread | Corrupt

definition dir_fblks :: "fsys \<Rightarrow> iptr \<Rightarrow> nat" where
  "dir_fblks s p = unat ((IC_SIZE s p + fsize (hnd s) - 1) div fsize (hnd s))"

definition dir_spill :: "fsys \<Rightarrow> iptr \<Rightarrow> nat" where
  "dir_spill s p = unat (IC_SIZE s p mod fsize (hnd s))"

definition dir_bend :: "fsys \<Rightarrow> nat \<Rightarrow> nat \<Rightarrow> nat \<Rightarrow> nat" where
  "dir_bend s fblks spill k = (if spill \<noteq> 0 \<and> k = fblks - 1 then spill else FSIZE s)"

fun dir_search :: "(bytes \<Rightarrow> nat \<Rightarrow> scan option) \<Rightarrow> nat list \<Rightarrow> u32 \<Rightarrow> nat \<Rightarrow> nat \<Rightarrow> fsys \<Rightarrow>
    (search \<times> fsys) option" where
  "dir_search scan [] pinum fblks spill s = Some (Miss, s)"
| "dir_search scan (k # ks) pinum fblks spill s =
     do {
       (a, s) \<leftarrow> ridisk_frag (of_nat k) pinum s;
       (r, s) \<leftarrow> cache_frag a s;
       case r of None \<Rightarrow> Some (Unread, s)
       | Some n \<Rightarrow>
           do {
             w \<leftarrow> scan (frag_buf s n) (dir_bend s fblks spill k);
             case w of Found off \<Rightarrow> Some (Hit k n off, s)
             | Bad \<Rightarrow> Some (Corrupt, s)
             | End \<Rightarrow> dir_search scan ks pinum fblks spill s
           }
     }"

definition is_dir_inode :: "fsys \<Rightarrow> iptr \<Rightarrow> bool" where
  "is_dir_inode s p \<longleftrightarrow> get16 s p ic_mode AND IFMT = IFDIR"

section \<open>Looking up\<close>

definition set_Poffset :: "u32 \<Rightarrow> fsys \<Rightarrow> fsys" where
  "set_Poffset x s = s\<lparr>hnd := (hnd s)\<lparr>Poffset := x\<rparr>\<rparr>"

definition has_name :: "bytes \<Rightarrow> bytes \<Rightarrow> nat \<Rightarrow> bool" where
  "has_name name b off \<longleftrightarrow> d_ino b off \<noteq> 0 \<and> d_name b off = name"

text \<open>The end of \<open>dir_name_search\<close>, behind the label \<open>breakloop\<close>.\<close>

definition name_found :: "nat \<Rightarrow> nat \<Rightarrow> nat \<Rightarrow> fsys \<Rightarrow> u32 \<times> fsys" where
  "name_found k n off s =
     (let inum = d_ino (frag_buf s n) off
      in (inum, if inum \<noteq> 0 then set_Poffset (of_nat (k * FSIZE s + off)) s else s))"

text \<open>The second pass, which ignores case, goes from the last frag to the first. It does not
  check the result of \<open>cache_frag\<close>.\<close>

definition dir_name_search :: "u32 \<Rightarrow> bytes \<Rightarrow> fsys \<Rightarrow> (u32 \<times> fsys) option" where
  "dir_name_search pinum name s =
     do {
       (inode, s) \<leftarrow> inode_read pinum s;
       p \<leftarrow> inode;
       if \<not> is_dir_inode s p then Some (0, set_ronly s)
       else
         do {
           let fblks = dir_fblks s p;
           let spill = dir_spill s p;
           (r, s) \<leftarrow> dir_search
                      (\<lambda>b bend. dir_scan (has_name name b) (\<lambda>n. too_long n \<or> n = 0) b bend 0)
                      [0..<fblks] pinum fblks spill s;
           case r of Hit k n off \<Rightarrow> Some (name_found k n off s)
           | Unread \<Rightarrow> Some (0, s)
           | Corrupt \<Rightarrow> Some (0, s)
           | Miss \<Rightarrow>
               if case_dependent (hnd s) then Some (0, s)
               else
                 do {
                   (r, s) \<leftarrow> dir_search
                              (\<lambda>b bend. dir_scan (\<lambda>off. streqv (d_name b off) name)
                                         (\<lambda>n. False) b bend 0)
                              (rev [0..<fblks]) pinum fblks spill s;
                   case r of Hit k n off \<Rightarrow> Some (name_found k n off s)
                   | Miss \<Rightarrow> Some (0, s)
                   | _ \<Rightarrow> None
                 }
         }
     }"

definition dir_inum_search :: "u32 \<Rightarrow> u32 \<Rightarrow> fsys \<Rightarrow> (u32 \<times> fsys) option" where
  "dir_inum_search pinum inum s =
     do {
       (inode, s) \<leftarrow> inode_read pinum s;
       p \<leftarrow> inode;
       if \<not> is_dir_inode s p then Some (0, s)
       else
         do {
           let fblks = dir_fblks s p;
           (r, s) \<leftarrow> dir_search
                      (\<lambda>b bend. dir_scan (\<lambda>off. d_ino b off = inum) too_long b bend 0)
                      [0..<fblks] pinum fblks (dir_spill s p) s;
           Some (case r of Hit k n off \<Rightarrow> of_nat (k * DIRBLKSIZ + off) | _ \<Rightarrow> 0, s)
         }
     }"

definition dir_next :: "u32 \<Rightarrow> u32 \<Rightarrow> fsys \<Rightarrow> (iptr option \<times> fsys) option" where
  "dir_next inum offset s =
     do {
       (frag, s) \<leftarrow> ridisk_frag (offset div fsize (hnd s)) inum s;
       if frag = 0 then Some (None, s)
       else do {
         (ptr, s) \<leftarrow> cache_frag frag s;
         Some (map_option (\<lambda>n. (n, unat (offset mod fsize (hnd s)))) ptr, s)
       }
     }"

section \<open>Adding a name\<close>

text \<open>The part behind the label \<open>finish_success\<close>.\<close>

definition fill_record :: "bool \<Rightarrow> bytes \<Rightarrow> u32 \<Rightarrow> u8 \<Rightarrow> nat \<Rightarrow> nat \<Rightarrow> bytes \<Rightarrow> bytes" where
  "fill_record new_format name inum type reclen off b =
     (let b = strcpy b (off + 8) name;
          b = put_ino off inum b;
          b = put_reclen off reclen b;
          b = b[off + 7 := of_nat (length name)]
      in b[off + 6 := (if new_format then type else 0)])"

definition record_needed :: "bytes \<Rightarrow> nat" where
  "record_needed name = (length name + 8 + 3) div 4 * 4"

definition has_room :: "bytes \<Rightarrow> bytes \<Rightarrow> nat \<Rightarrow> bool" where
  "has_room name b off \<longleftrightarrow>
     int (d_reclen b off) - int (UFS_DIRSIZ b off) > int (record_needed name)"

text \<open>The record that has room is cut to its size, the rest of it becomes the new record.\<close>

definition split_record :: "bool \<Rightarrow> bytes \<Rightarrow> u32 \<Rightarrow> u8 \<Rightarrow> nat \<Rightarrow> bytes \<Rightarrow> bytes" where
  "split_record new_format name inum type off b =
     (let dirsize = UFS_DIRSIZ b off;
          oldsize = d_reclen b off
      in fill_record new_format name inum type (oldsize - dirsize) (off + dirsize)
           (put_reclen off dirsize b))"

text \<open>A new block of records: in the last frag when its end is not used, or in a new frag.\<close>

definition dir_grow :: "u32 \<Rightarrow> nat \<Rightarrow> nat \<Rightarrow> fsys \<Rightarrow> ((nat \<times> nat option) option \<times> fsys) option" where
  "dir_grow pinum fblks spill s =
     (if spill \<noteq> 0 then
        do {
          (inode, s) \<leftarrow> inode_modify pinum s;
          p \<leftarrow> inode;
          let s = ADJUST_IC_SIZE p (fsize (hnd s) - of_nat spill) s;
          (newfrag, s) \<leftarrow> ridisk_frag (of_nat (fblks - 1)) pinum s;
          (b, s) \<leftarrow> cache_frag_write newfrag True s;
          Some (Some (fblks - 1, b), s)
        }
      else
        do {
          (newfrag, s) \<leftarrow> file_frag_expand pinum s;
          if newfrag = 0 then Some (None, s)
          else do {
            (b, s) \<leftarrow> cache_frag_write newfrag False s;
            Some (Some (fblks, b), s)
          }
        })"

text \<open>When the frag was found in the cache at node \<open>n\<close> and is made writable at another node,
  the code subtracts pointers to different buffers: undefined behaviour.\<close>

definition dir_create :: "u32 \<Rightarrow> bytes \<Rightarrow> u32 \<Rightarrow> u8 \<Rightarrow> fsys \<Rightarrow> (u32 \<times> fsys) option" where
  "dir_create pinum name inum type s =
     (if pinum < 2 then Some (0, s)
      else
        do {
          (inode, s) \<leftarrow> inode_read pinum s;
          p \<leftarrow> inode;
          if \<not> is_dir_inode s p then Some (0, s)
          else
            do {
              let fblks = dir_fblks s p;
              let spill = dir_spill s p;
              (r, s) \<leftarrow> dir_search
                         (\<lambda>b bend. dir_scan (has_room name b) too_long b bend 0)
                         [0..<fblks] pinum fblks spill s;
              case r of Unread \<Rightarrow> Some (0, s)
              | Corrupt \<Rightarrow> Some (0, set_ronly s)
              | Hit k n off \<Rightarrow>
                  do {
                    (a, s) \<leftarrow> ridisk_frag (of_nat k) pinum s;
                    (r, s) \<leftarrow> cache_frag_write a True s;
                    case r of None \<Rightarrow> Some (0, s)
                    | Some m \<Rightarrow>
                        if m \<noteq> n then None
                        else Some (of_nat (FSIZE s * k + off + UFS_DIRSIZ (frag_buf s n) off),
                               upd_buf n (split_record (bsd44fs (hnd s)) name inum type off) s)
                  }
              | Miss \<Rightarrow>
                  do {
                    (r, s) \<leftarrow> dir_grow pinum fblks spill s;
                    case r of None \<Rightarrow> Some (0, s)
                    | Some (k, None) \<Rightarrow> Some (0, s)
                    | Some (k, Some n) \<Rightarrow>
                        Some (of_nat (FSIZE s * k + spill),
                          upd_buf n (\<lambda>b. fill_record (bsd44fs (hnd s)) name inum type DIRBLKSIZ
                                       spill (dir_fragfill (FSIZE s) spill b)) s)
                  }
            }
        })"

section \<open>Removing a name\<close>

text \<open>\<open>count_scan\<close> counts the records in use; more than two end the walk.\<close>

datatype tally = Full | Tally nat | Broken

function count_scan :: "bytes \<Rightarrow> nat \<Rightarrow> nat \<Rightarrow> nat \<Rightarrow> tally" where
  "count_scan b bend off cnt =
     (if bend \<le> off then Tally cnt
      else
        let cnt = (if d_ino b off \<noteq> 0 then Suc cnt else cnt)
        in if d_ino b off \<noteq> 0 \<and> cnt > 2 then Full
           else if too_long (d_reclen b off) \<or> d_reclen b off = 0 then Broken
           else count_scan b bend (off + d_reclen b off) cnt)"
  by pat_completeness auto
termination
  by (relation "measure (\<lambda>(b, bend, off, cnt). bend - off)") auto

declare count_scan.simps [simp del]

fun not_empty_loop :: "nat list \<Rightarrow> u32 \<Rightarrow> nat \<Rightarrow> nat \<Rightarrow> nat \<Rightarrow> fsys \<Rightarrow> (bool \<times> fsys) option" where
  "not_empty_loop [] pinum fblks spill cnt s = Some (False, s)"
| "not_empty_loop (k # ks) pinum fblks spill cnt s =
     do {
       (a, s) \<leftarrow> ridisk_frag (of_nat k) pinum s;
       (r, s) \<leftarrow> cache_frag a s;
       case r of None \<Rightarrow> Some (True, s)
       | Some n \<Rightarrow>
           (case count_scan (frag_buf s n) (dir_bend s fblks spill k) 0 cnt of
              Full \<Rightarrow> Some (True, s)
            | Broken \<Rightarrow> Some (False, s)
            | Tally cnt \<Rightarrow> not_empty_loop ks pinum fblks spill cnt s)
     }"

definition dir_is_not_empty :: "u32 \<Rightarrow> fsys \<Rightarrow> (bool \<times> fsys) option" where
  "dir_is_not_empty pinum s =
     do {
       (inode, s) \<leftarrow> inode_read pinum s;
       case inode of None \<Rightarrow> Some (True, s)
       | Some p \<Rightarrow>
           if \<not> is_dir_inode s p then Some (False, s)
           else not_empty_loop [0..<dir_fblks s p] pinum (dir_fblks s p) (dir_spill s p) 0 s
     }"

text \<open>The walk of \<open>dir_offset_delete\<close> to the record at \<open>offset\<close>: \<open>pos\<close> is the position in the
  directory block, \<open>prv\<close> (\<open>last\<close> in the code) the record before in the same block and
  \<open>roffset\<close> the offset of the record in the directory.\<close>

datatype del_scan = At nat "nat option" | Past u32 | Too_Long

function delete_scan :: "u32 \<Rightarrow> bytes \<Rightarrow> nat \<Rightarrow> nat \<Rightarrow> nat \<Rightarrow> nat option \<Rightarrow> u32 \<Rightarrow> del_scan option"
where
  "delete_scan offset b bend off pos prv roffset =
     (if bend \<le> off then Some (Past roffset)
      else
        let prv = (if pos = DIRBLKSIZ then None else prv);
            pos = (if pos = DIRBLKSIZ then 0 else pos);
            reclen = d_reclen b off
        in if offset = roffset then Some (At off prv)
           else if too_long reclen then Some Too_Long
           else if reclen = 0 then None
           else delete_scan offset b bend (off + reclen) (pos + reclen) (Some off)
                  (roffset + of_nat reclen))"
  by pat_completeness auto
termination
  by (relation "measure (\<lambda>(offset, b, bend, off, pos, prv, roffset). bend - off)") auto

declare delete_scan.simps [simp del]

datatype del_search = Del u32 nat nat "nat option" | Absent | No_Buffer | Long_Record

fun delete_search :: "nat list \<Rightarrow> u32 \<Rightarrow> u32 \<Rightarrow> u32 \<Rightarrow> nat \<Rightarrow> nat \<Rightarrow> fsys \<Rightarrow>
    (del_search \<times> fsys) option" where
  "delete_search [] pinum offset roffset fblks spill s = Some (Absent, s)"
| "delete_search (k # ks) pinum offset roffset fblks spill s =
     do {
       (dirblk, s) \<leftarrow> ridisk_frag (of_nat k) pinum s;
       (r, s) \<leftarrow> cache_frag dirblk s;
       case r of None \<Rightarrow> Some (No_Buffer, s)
       | Some n \<Rightarrow>
           do {
             w \<leftarrow> delete_scan offset (frag_buf s n) (dir_bend s fblks spill k) 0 0 None roffset;
             case w of At off prv \<Rightarrow> Some (Del dirblk n off prv, s)
             | Too_Long \<Rightarrow> Some (Long_Record, s)
             | Past roffset \<Rightarrow> delete_search ks pinum offset roffset fblks spill s
           }
     }"

text \<open>The change of the buffer: the record before takes over the space, and the first record of
  a block is only marked free. \<open>None\<close> is the return without a change.\<close>

definition remove_record :: "nat \<Rightarrow> nat option \<Rightarrow> bytes \<Rightarrow> bytes option" where
  "remove_record off prv b =
     (case prv of None \<Rightarrow> Some (put_ino off 0 b)
      | Some l \<Rightarrow>
          if too_long (d_reclen b off) then None
          else Some (put_reclen l (d_reclen b l + d_reclen b off) b))"

definition dir_offset_delete :: "u32 \<Rightarrow> u32 \<Rightarrow> bool \<Rightarrow> fsys \<Rightarrow> (u32 \<times> fsys) option" where
  "dir_offset_delete pinum offset check s =
     do {
       (inode, s) \<leftarrow> inode_read pinum s;
       case inode of None \<Rightarrow> Some (0, s)
       | Some p \<Rightarrow>
           if offset = 0 \<or> offset > IC_SIZE s p then Some (0, set_ronly s)
           else
             do {
               let fblks = dir_fblks s p;
               let first = offset div fsize (hnd s);
               (r, s) \<leftarrow> delete_search [unat first..<fblks] pinum offset (first * fsize (hnd s))
                          fblks (dir_spill s p) s;
               case r of No_Buffer \<Rightarrow> Some (0, s)
               | Long_Record \<Rightarrow> Some (0, set_ronly s)
               | Absent \<Rightarrow> Some (0, set_Res2 ERROR_OBJECT_NOT_FOUND s)
               | Del dirblk n off prv \<Rightarrow>
                   do {
                     let inum = d_ino (frag_buf s n) off;
                     (full, s) \<leftarrow> (if check then dir_is_not_empty inum s else Some (False, s));
                     if full then Some (0, set_Res2 ERROR_DIRECTORY_NOT_EMPTY s)
                     else do {
                       (r, s) \<leftarrow> cache_frag_write dirblk True s;
                       case r of None \<Rightarrow> Some (0, s)
                       | Some m \<Rightarrow>
                           (case remove_record off prv (frag_buf s m) of
                              None \<Rightarrow> Some (0, s)
                            | Some b \<Rightarrow> Some (inum, set_frag_buf m b s))
                     }
                   }
             }
     }"

section \<open>Changing and renaming\<close>

definition dir_inum_change :: "u32 \<Rightarrow> u32 \<Rightarrow> u32 \<Rightarrow> fsys \<Rightarrow> (bool \<times> fsys) option" where
  "dir_inum_change pinum finum tinum s =
     (if pinum < 2 then Some (False, s)
      else
        do {
          (inode, s) \<leftarrow> inode_read pinum s;
          p \<leftarrow> inode;
          let fblks = dir_fblks s p;
          (r, s) \<leftarrow> dir_search
                     (\<lambda>b bend. dir_scan (\<lambda>off. d_ino b off = finum) too_long b bend 0)
                     [0..<fblks] pinum fblks (dir_spill s p) s;
          case r of Miss \<Rightarrow> Some (False, s)
          | Unread \<Rightarrow> Some (False, s)
          | Corrupt \<Rightarrow> Some (False, set_ronly s)
          | Hit k n off \<Rightarrow>
              do {
                (a, s) \<leftarrow> ridisk_frag (of_nat k) pinum s;
                (m, s) \<leftarrow> cache_frag_write a True s;
                Some (True, upd_buf n (put_ino off tinum) s)
              }
        })"

definition dir_name_is_illegal :: "bytes \<Rightarrow> bool" where
  "dir_name_is_illegal name \<longleftrightarrow>
     name = [] \<or> name = [46] \<or> name = [46, 46] \<or> list_ex (\<lambda>c. c = 47 \<or> c = 58 \<or> c = 34) name"

text \<open>The walk from the new parent up to the root (inode 2): true when it meets the directory
  that is to be moved.\<close>

partial_function (option) meets_child :: "u32 \<Rightarrow> u32 \<Rightarrow> fsys \<Rightarrow> (bool \<times> fsys) option" where
  "meets_child inumfrom inum s =
     (if inum = 2 then Some (False, s)
      else Option.bind (dir_name_search inum [46, 46] s)
             (\<lambda>(inum, s). if inum = inumfrom then Some (True, s)
                          else meets_child inumfrom inum s))"

definition dir_rename :: "u32 \<Rightarrow> bytes \<Rightarrow> u32 \<Rightarrow> bytes \<Rightarrow> bool \<Rightarrow> u8 \<Rightarrow> fsys \<Rightarrow>
    (u32 \<times> fsys) option" where
  "dir_rename frominum fromname toinum toname isdir type s =
     do {
       (inumfrom, s) \<leftarrow> dir_name_search frominum fromname s;
       let offsetfrom = Poffset (hnd s);
       if inumfrom = 0 then Some (0, s)
       else do {
         (inode, s) \<leftarrow> inode_read frominum s;
         p \<leftarrow> inode;
         if \<not> is_dir_inode s p then Some (0, s)
         else do {
           (inode, s) \<leftarrow> inode_read toinum s;
           p \<leftarrow> inode;
           if \<not> is_dir_inode s p then Some (0, s)
           else if toinum = inumfrom then Some (0, s)
           else do {
             (child, s) \<leftarrow> (if isdir then meets_child inumfrom toinum s else Some (False, s));
             if child then Some (0, s)
             else do {
               (offsetto, s) \<leftarrow> dir_create toinum toname inumfrom type s;
               if offsetto = 0 then Some (0, s)
               else do {
                 (inum, s) \<leftarrow> dir_offset_delete frominum offsetfrom False s;
                 if inum = 0 then
                   do { (u, s) \<leftarrow> dir_offset_delete toinum offsetto True s; Some (0, s) }
                 else Some (inum, s)
               }
             }
           }
         }
       }
     }"

end
