(* ===== verification/Dir_Correct.thy ===== *)
theory Dir_Correct
  imports Dir Sample
begin

text \<open>
  Directory frags as lists of records: \<open>dir_records b bend off rs\<close> says that the bytes of
  \<open>b\<close> from \<open>off\<close> to \<open>bend\<close> are records at the offsets \<open>rs\<close>, none of them across a boundary
  of a directory block, and \<open>dir_entries b rs\<close> is the list of names, offsets and inode
  numbers in them. The searches of fs/dir.c are searches in that list, and its changes keep the records
  well formed and insert or delete one entry.
\<close>

section \<open>Bytes\<close>

definition same_bytes :: "nat \<Rightarrow> nat \<Rightarrow> bytes \<Rightarrow> bytes \<Rightarrow> bool" where
  "same_bytes lo hi b b' \<longleftrightarrow> length b' = length b \<and> (\<forall>i. lo \<le> i \<and> i < hi \<longrightarrow> b' ! i = b ! i)"

lemma same_bytes_mono: "same_bytes lo hi b b' \<Longrightarrow> lo \<le> lo' \<Longrightarrow> hi' \<le> hi \<Longrightarrow> same_bytes lo' hi' b b'"
  by (simp add: same_bytes_def)

lemma slice_same:
  assumes "same_bytes off (off + n) b b'" "off + n \<le> length b"
  shows "slice b' off n = slice b off n"
  using assms by (auto intro!: nth_equalityI simp: same_bytes_def slice_def)

lemma cstring_at:
  assumes "off + k < length b" "\<forall>i<k. b ! (off + i) \<noteq> 0" "b ! (off + k) = 0"
  shows "cstring b off = take k (drop off b)"
proof -
  have "takeWhile (\<lambda>c. c \<noteq> 0) (drop off b) = take k (drop off b)"
    by (rule takeWhile_eq_take_P_nth) (use assms in auto)
  then show ?thesis by (simp add: cstring_def)
qed

lemma cstring_end:
  assumes "off + length (cstring b off) < length b"
  shows "b ! (off + length (cstring b off)) = 0"
    and "\<forall>i<length (cstring b off). b ! (off + i) \<noteq> 0"
proof -
  let ?t = "takeWhile (\<lambda>c. c \<noteq> 0) (drop off b)"
  have "\<not> drop off b ! length ?t \<noteq> 0"
    by (rule nth_length_takeWhile) (use assms in \<open>simp add: cstring_def\<close>)
  then show "b ! (off + length (cstring b off)) = 0" using assms by (simp add: cstring_def)
  show "\<forall>i<length (cstring b off). b ! (off + i) \<noteq> 0"
  proof (intro allI impI)
    fix i assume i: "i < length (cstring b off)"
    then have l: "i < length ?t" by (simp add: cstring_def)
    have "?t ! i \<noteq> 0" using set_takeWhileD [OF nth_mem [OF l]] by simp
    moreover have "?t ! i = drop off b ! i" by (rule takeWhile_nth [OF l])
    ultimately show "b ! (off + i) \<noteq> 0" using i assms by simp
  qed
qed

lemma cstring_same:
  assumes "off + length (cstring b off) < length b"
    and "same_bytes off (off + length (cstring b off) + 1) b b'"
  shows "cstring b' off = cstring b off"
proof -
  let ?k = "length (cstring b off)"
  have eq: "b' ! (off + i) = b ! (off + i)" if "i \<le> ?k" for i
    using assms(2) that by (simp add: same_bytes_def)
  have len: "length b' = length b" using assms(2) by (simp add: same_bytes_def)
  have "cstring b' off = take ?k (drop off b')"
    by (rule cstring_at) (use cstring_end [OF assms(1)] eq assms(1) len in auto)
  moreover have "cstring b off = take ?k (drop off b)"
    by (rule cstring_at) (use cstring_end [OF assms(1)] assms(1) in auto)
  moreover have "take ?k (drop off b') = take ?k (drop off b)"
    using slice_same [of off ?k b b'] assms same_bytes_mono [OF assms(2), of off "off + ?k"]
    by (simp add: slice_def)
  ultimately show ?thesis by metis
qed

section \<open>Well-formed records\<close>

definition record_ok :: "bytes \<Rightarrow> nat \<Rightarrow> bool" where
  "record_ok b off \<longleftrightarrow>
     UFS_DIRSIZ b off \<le> d_reclen b off \<and> d_reclen b off mod 4 = 0 \<and>
     off mod DIRBLKSIZ + d_reclen b off \<le> DIRBLKSIZ \<and>
     (d_ino b off \<noteq> 0 \<longrightarrow> length (d_name b off) = unat (d_namlen b off))"

inductive dir_records :: "bytes \<Rightarrow> nat \<Rightarrow> nat \<Rightarrow> nat list \<Rightarrow> bool" for b bend where
  no_records: "dir_records b bend bend []"
| next_record: "record_ok b off \<Longrightarrow> off + d_reclen b off \<le> bend \<Longrightarrow>
    dir_records b bend (off + d_reclen b off) rs \<Longrightarrow> dir_records b bend off (off # rs)"

inductive_cases no_recordsE: "dir_records b bend off []"
inductive_cases next_recordE: "dir_records b bend off (r # rs)"
inductive_simps dir_records_Nil [simp]: "dir_records b bend off []"
inductive_simps dir_records_Cons: "dir_records b bend off (r # rs)"

definition dir_entries :: "bytes \<Rightarrow> nat list \<Rightarrow> (bytes \<times> nat \<times> u32) list" where
  "dir_entries b rs = [(d_name b r, r, d_ino b r). r \<leftarrow> rs, d_ino b r \<noteq> 0]"

lemma dir_entries_simps [simp]:
  "dir_entries b [] = []"
  "dir_entries b (r # rs) =
     (if d_ino b r \<noteq> 0 then [(d_name b r, r, d_ino b r)] else []) @ dir_entries b rs"
  "dir_entries b (xs @ ys) = dir_entries b xs @ dir_entries b ys"
  by (simp_all add: dir_entries_def)

lemma UFS_DIRECTSIZ_bounds:
  "n + 9 \<le> UFS_DIRECTSIZ n" "12 \<le> UFS_DIRECTSIZ n" "UFS_DIRECTSIZ n mod 4 = 0"
  "UFS_DIRECTSIZ n \<le> n + 12"
  unfolding UFS_DIRECTSIZ_def by presburger+

lemma record_ok_len:
  assumes "record_ok b off"
  shows "12 \<le> d_reclen b off" "unat (d_namlen b off) + 9 \<le> d_reclen b off" "d_reclen b off \<le> 512"
  using assms UFS_DIRECTSIZ_bounds(1,2) [of "unat (d_namlen b off)"]
  by (simp_all add: record_ok_def UFS_DIRSIZ_def DIRBLKSIZ_def)

lemma dir_records_le: "dir_records b bend off rs \<Longrightarrow> off \<le> bend"
  by (induction rule: dir_records.induct) simp_all

lemma dir_records_append:
  "dir_records b m off xs \<Longrightarrow> dir_records b bend m ys \<Longrightarrow> dir_records b bend off (xs @ ys)"
proof (induction rule: dir_records.induct)
  case no_records
  then show ?case by simp
next
  case (next_record off rs)
  then show ?case using dir_records_le [of b bend m ys]
    by (simp add: dir_records_Cons)
qed

lemma dir_records_split:
  assumes "dir_records b bend off (xs @ r # ys)"
  shows "dir_records b r off xs \<and> dir_records b bend r (r # ys)"
  using assms
proof (induction xs arbitrary: off)
  case Nil
  then show ?case by (auto simp: dir_records_Cons)
next
  case (Cons x xs)
  then have "dir_records b r (off + d_reclen b off) xs" "dir_records b bend r (r # ys)" "x = off"
    "record_ok b off" by (auto simp: dir_records_Cons)
  then show ?case using dir_records_le by (auto simp: dir_records_Cons)
qed

text \<open>A record depends on its own bytes only.\<close>

lemma record_same:
  assumes "record_ok b off" "off + d_reclen b off \<le> length b"
    and "same_bytes off (off + d_reclen b off) b b'"
  shows "d_reclen b' off = d_reclen b off" "d_ino b' off = d_ino b off"
    "d_namlen b' off = d_namlen b off" "record_ok b' off"
    "d_ino b off \<noteq> 0 \<Longrightarrow> d_name b' off = d_name b off"
proof -
  note len = record_ok_len [OF assms(1)]
  have sl: "slice b' (off + k) n = slice b (off + k) n" if "k + n \<le> 12" for k n
    by (rule slice_same) (use that len assms(2) same_bytes_mono [OF assms(3)] in auto)
  show r: "d_reclen b' off = d_reclen b off" using sl [of 4 2] by (simp add: d_reclen_def peek16_def)
  show i: "d_ino b' off = d_ino b off" using sl [of 0 4] by (simp add: d_ino_def peek32_def)
  show n: "d_namlen b' off = d_namlen b off"
    using assms(3) len by (simp add: d_namlen_def same_bytes_def)
  show nm: "d_name b' off = d_name b off" if "d_ino b off \<noteq> 0"
  proof -
    have "length (d_name b off) = unat (d_namlen b off)"
      using assms(1) that by (simp add: record_ok_def)
    then show ?thesis unfolding d_name_def
      by (intro cstring_same) (use len assms(2) same_bytes_mono [OF assms(3)] in auto)
  qed
  show "record_ok b' off" using assms(1) r i n nm by (simp add: record_ok_def UFS_DIRSIZ_def)
qed

lemma dir_records_same:
  assumes "dir_records b bend off rs" "bend \<le> length b" "same_bytes off bend b b'"
  shows "dir_records b' bend off rs \<and> dir_entries b' rs = dir_entries b rs"
  using assms
proof (induction rule: dir_records.induct)
  case no_records
  then show ?case by simp
next
  case (next_record off rs)
  have s: "same_bytes off (off + d_reclen b off) b b'"
    "same_bytes (off + d_reclen b off) bend b b'"
    using same_bytes_mono [OF next_record.prems(2)] next_record.hyps(2) by auto
  have l: "off + d_reclen b off \<le> length b" using next_record.hyps(2) next_record.prems(1) by simp
  note rec = record_same [OF next_record.hyps(1) l s(1)]
  show ?case using rec next_record.IH [OF next_record.prems(1) s(2)] next_record.hyps(2)
    by (simp add: dir_records_Cons)
qed

section \<open>Searches\<close>

lemma dir_records_ok: "dir_records b bend off rs \<Longrightarrow> r \<in> set rs \<Longrightarrow> record_ok b r"
  by (induction rule: dir_records.induct) auto

lemma record_not_bad:
  "record_ok b r \<Longrightarrow> \<not> too_long (d_reclen b r)" "record_ok b r \<Longrightarrow> d_reclen b r \<noteq> 0"
  using record_ok_len [of b r] by (simp_all add: too_long_def DIRBLKSIZ_def)

lemma dir_scan_find:
  assumes "dir_records b bend off rs" "\<And>r. r \<in> set rs \<Longrightarrow> \<not> bad (d_reclen b r)"
  shows "dir_scan hit bad b bend off =
    Some (case find hit rs of None \<Rightarrow> End | Some r \<Rightarrow> Found r)"
  using assms
proof (induction rule: dir_records.induct)
  case no_records
  then show ?case by (subst dir_scan.simps) simp
next
  case (next_record off rs)
  have "off < bend" "d_reclen b off \<noteq> 0"
    using next_record.hyps(2) record_ok_len [OF next_record.hyps(1)] by simp_all
  then show ?case using next_record.IH next_record.prems
    by (subst dir_scan.simps) auto
qed

lemma find_has_name:
  "map_of (dir_entries b rs) name =
    map_option (\<lambda>r. (r, d_ino b r)) (find (has_name name b) rs)"
  by (induction rs) (auto simp: has_name_def)

lemma dir_scan_name:
  assumes "dir_records b bend off rs"
  shows "dir_scan (has_name name b) (\<lambda>n. too_long n \<or> n = 0) b bend off =
    Some (case find (has_name name b) rs of None \<Rightarrow> End | Some r \<Rightarrow> Found r)"
  by (rule dir_scan_find [OF assms]) (use record_not_bad dir_records_ok [OF assms] in auto)

lemma dir_scan_room:
  assumes "dir_records b bend off rs"
  shows "dir_scan (has_room name b) too_long b bend off =
    Some (case find (has_room name b) rs of None \<Rightarrow> End | Some r \<Rightarrow> Found r)"
  by (rule dir_scan_find [OF assms]) (use record_not_bad(1) dir_records_ok [OF assms] in auto)

lemma count_scan_tally:
  assumes "dir_records b bend off rs"
  shows "count_scan b bend off cnt =
    (if length (dir_entries b rs) + cnt > 2 \<and> dir_entries b rs \<noteq> [] then Full
     else Tally (length (dir_entries b rs) + cnt))"
  using assms
proof (induction arbitrary: cnt rule: dir_records.induct)
  case no_records
  then show ?case by (subst count_scan.simps) simp
next
  case (next_record off rs)
  have "off < bend" "d_reclen b off \<noteq> 0" "\<not> too_long (d_reclen b off)"
    using next_record.hyps(2) record_ok_len [OF next_record.hyps(1)]
      record_not_bad(1) [OF next_record.hyps(1)] by simp_all
  then have step: "count_scan b bend off cnt =
      (let cnt = (if d_ino b off \<noteq> 0 then Suc cnt else cnt)
       in if d_ino b off \<noteq> 0 \<and> cnt > 2 then Full
          else count_scan b bend (off + d_reclen b off) cnt)"
    by (subst count_scan.simps) (simp add: Let_def)
  show ?case unfolding step Let_def next_record.IH by auto
qed

section \<open>Adding an entry\<close>

lemma of_nat_reclen:
  assumes "off + 6 \<le> length b" "n < 2 ^ 16"
  shows "d_reclen (put_reclen off n b) off = n"
  using assms by (simp add: d_reclen_def put_reclen_def unat_of_nat)

lemma nth_poke_other:
  "off + length xs \<le> length b \<Longrightarrow> i < off \<or> off + length xs \<le> i \<Longrightarrow>
   poke b off xs ! i = b ! i"
  by (auto simp: poke_def nth_append)

lemma put_reclen_same:
  assumes "off + 6 \<le> length b" "hi \<le> off + 4 \<or> off + 6 \<le> lo"
  shows "same_bytes lo hi b (put_reclen off n b)"
  using assms by (auto simp: same_bytes_def put_reclen_def poke16_def nth_poke_other)

lemma put_ino_same:
  assumes "off + 4 \<le> length b" "hi \<le> off \<or> off + 4 \<le> lo"
  shows "same_bytes lo hi b (put_ino off n b)"
  using assms by (auto simp: same_bytes_def put_ino_def poke32_def nth_poke_other)

lemma list_update_same:
  assumes "hi \<le> i \<or> i < lo"
  shows "same_bytes lo hi b (b[i := x])"
  using assms by (auto simp: same_bytes_def nth_list_update)

lemma strcpy_same:
  assumes "off + length name + 1 \<le> length b" "hi \<le> off \<or> off + length name + 1 \<le> lo"
  shows "same_bytes lo hi b (strcpy b off name)"
  using assms by (auto simp: same_bytes_def strcpy_def nth_poke_other)

lemma same_bytes_trans:
  "same_bytes lo hi b c \<Longrightarrow> same_bytes lo hi c d \<Longrightarrow> same_bytes lo hi b d"
  by (simp add: same_bytes_def)

lemma same_bytes_length: "same_bytes lo hi b c \<Longrightarrow> length c = length b"
  by (simp add: same_bytes_def)

text \<open>A name of at most 255 bytes without zeros.\<close>

definition name_ok :: "bytes \<Rightarrow> bool" where
  "name_ok name \<longleftrightarrow> 0 \<notin> set name \<and> length name < 256"

lemma fill_record_same:
  assumes "off + length name + 9 \<le> length b" "hi \<le> off \<or> off + length name + 9 \<le> lo"
  shows "same_bytes lo hi b (fill_record nf name inum ty n off b)"
proof -
  let ?b1 = "strcpy b (off + 8) name"
  let ?b2 = "put_ino off inum ?b1"
  let ?b3 = "put_reclen off n ?b2"
  have l: "length ?b1 = length b" "length ?b2 = length b" "length ?b3 = length b"
    using assms(1) by (simp_all add: put_ino_def put_reclen_def)
  have "same_bytes lo hi b ?b1" "same_bytes lo hi ?b1 ?b2" "same_bytes lo hi ?b2 ?b3"
    using assms l by (intro strcpy_same put_ino_same put_reclen_same; fastforce)+
  moreover have "same_bytes lo hi ?b3 (?b3[off + 7 := of_nat (length name)])"
    "same_bytes lo hi (?b3[off + 7 := of_nat (length name)])
       (fill_record nf name inum ty n off b)"
    unfolding fill_record_def Let_def using assms(2) by (intro list_update_same; fastforce)+
  ultimately show ?thesis by (blast intro: same_bytes_trans)
qed

lemma fill_record_fields:
  fixes inum :: u32 and ty :: u8 and nf :: bool
  assumes "off + length name + 9 \<le> length b" "name_ok name" "n < 2 ^ 16"
  defines "b' \<equiv> fill_record nf name inum ty n off b"
  shows "d_ino b' off = inum" "d_reclen b' off = n" "d_namlen b' off = of_nat (length name)"
    "d_name b' off = name"
proof -
  let ?b1 = "strcpy b (off + 8) name"
  let ?b2 = "put_ino off inum ?b1"
  let ?b3 = "put_reclen off n ?b2"
  let ?b4 = "?b3[off + 7 := of_nat (length name)]"
  have b': "b' = ?b4[off + 6 := (if nf then ty else 0)]" by (simp add: b'_def fill_record_def Let_def)
  have l: "length ?b1 = length b" "length ?b2 = length b" "length ?b3 = length b"
    using assms(1) by (simp_all add: put_ino_def put_reclen_def)
  have tail: "same_bytes lo hi ?b3 b'" if "hi \<le> off + 6 \<or> off + 8 \<le> lo" for lo hi
    unfolding b' using that by (intro same_bytes_trans [OF list_update_same list_update_same]) auto
  have "slice b' off 4 = slice ?b2 off 4"
    by (rule slice_same [OF same_bytes_trans [OF put_reclen_same tail]])
      (use l assms(1) in auto)
  then show "d_ino b' off = inum" using l assms(1) by (simp add: d_ino_def peek32_def put_ino_def poke32_def)
  have "slice b' (off + 4) 2 = slice ?b3 (off + 4) 2"
    by (rule slice_same [OF tail]) (use l assms(1) in auto)
  then have "d_reclen b' off = d_reclen ?b3 off" by (simp add: d_reclen_def peek16_def)
  then show "d_reclen b' off = n" using of_nat_reclen [of off ?b2 n] l assms(1,3) by simp
  show "d_namlen b' off = of_nat (length name)"
    using l assms(1) by (simp add: d_namlen_def b')
  have c: "cstring ?b1 (off + 8) = name"
    by (rule cstring_strcpy) (use assms(1,2) in \<open>auto simp: name_ok_def\<close>)
  have "cstring b' (off + 8) = cstring ?b1 (off + 8)"
    by (rule cstring_same)
      (use c l assms(1) in \<open>auto intro!: same_bytes_trans [OF same_bytes_trans
        [OF put_ino_same put_reclen_same] tail]\<close>)
  then show "d_name b' off = name" using c by (simp add: d_name_def)
qed

lemma has_room_fits:
  assumes "record_ok b off" "has_room name b off"
  shows "UFS_DIRSIZ b off + UFS_DIRECTSIZ (length name) \<le> d_reclen b off"
    "(d_reclen b off - UFS_DIRSIZ b off) mod 4 = 0"
proof -
  have m: "UFS_DIRSIZ b off mod 4 = 0" "d_reclen b off mod 4 = 0"
    using assms(1) UFS_DIRECTSIZ_bounds(3) by (simp_all add: record_ok_def UFS_DIRSIZ_def)
  then show "(d_reclen b off - UFS_DIRSIZ b off) mod 4 = 0" by presburger
  have "UFS_DIRECTSIZ (length name) \<le> record_needed name + 4" "record_needed name mod 4 = 0"
    unfolding UFS_DIRECTSIZ_def record_needed_def by presburger+
  moreover have "record_needed name + UFS_DIRSIZ b off < d_reclen b off"
    using assms(2) by (simp add: has_room_def)
  ultimately show "UFS_DIRSIZ b off + UFS_DIRECTSIZ (length name) \<le> d_reclen b off"
    using m by presburger
qed

lemma put_reclen_record:
  assumes "off + 8 \<le> length b" "n < 2 ^ 16"
    and "d_ino b off \<noteq> 0 \<Longrightarrow> off + 8 + length (d_name b off) < length b"
  shows "d_ino (put_reclen off n b) off = d_ino b off"
    "d_namlen (put_reclen off n b) off = d_namlen b off"
    "d_reclen (put_reclen off n b) off = n"
    "d_ino b off \<noteq> 0 \<Longrightarrow> d_name (put_reclen off n b) off = d_name b off"
proof -
  let ?b = "put_reclen off n b"
  show "d_reclen ?b off = n" using of_nat_reclen assms by simp
  have s: "same_bytes lo hi b ?b" if "hi \<le> off + 4 \<or> off + 6 \<le> lo" for lo hi
    by (rule put_reclen_same) (use assms that in auto)
  show "d_ino ?b off = d_ino b off"
    using slice_same [OF s, of off 4] assms by (simp add: d_ino_def peek32_def)
  show "d_namlen ?b off = d_namlen b off"
    using s [of "off + 8" "off + 7"] by (simp add: d_namlen_def same_bytes_def)
  show "d_name ?b off = d_name b off" if "d_ino b off \<noteq> 0"
    unfolding d_name_def by (rule cstring_same) (use assms(3) [OF that] s in \<open>auto simp: d_name_def\<close>)
qed

lemma record_name_end:
  assumes "record_ok b off" "off + d_reclen b off \<le> length b" "d_ino b off \<noteq> 0"
  shows "off + 8 + length (d_name b off) < length b"
  using record_ok_len(2) [OF assms(1)] assms by (simp add: record_ok_def)

lemma split_record_records:
  fixes ty :: u8 and nf :: bool
  assumes recs: "dir_records b bend start (xs @ off # ys)" and bend: "bend \<le> length b"
    and room: "has_room name b off" and name: "name_ok name" and inum: "inum \<noteq> 0"
  defines "b' \<equiv> split_record nf name inum ty off b" and "n \<equiv> off + UFS_DIRSIZ b off"
  shows "dir_records b' bend start (xs @ off # n # ys) \<and>
    dir_entries b' (xs @ off # n # ys) =
      dir_entries b (xs @ [off]) @ (name, n, inum) # dir_entries b ys \<and> length b' = length b"
proof -
  let ?d = "UFS_DIRSIZ b off" and ?old = "d_reclen b off"
  have sp: "dir_records b off start xs" "dir_records b bend off (off # ys)"
    using dir_records_split [OF recs] by simp_all
  have ok: "record_ok b off" and le: "off + ?old \<le> bend" and ys: "dir_records b bend (off + ?old) ys"
    using sp(2) by (simp_all add: dir_records_Cons)
  note fits = has_room_fits [OF ok room]
  note lens = record_ok_len [OF ok]
  have d12: "12 \<le> ?d" "?d < 2 ^ 16" "?old - ?d < 2 ^ 16"
    using UFS_DIRECTSIZ_bounds(2) lens(3) fits(1) by (simp_all add: UFS_DIRSIZ_def) 
  have nm: "length name + 9 \<le> ?old - ?d"
    using fits(1) UFS_DIRECTSIZ_bounds(1) [of "length name"] by simp
  let ?c = "put_reclen off ?d b"
  have b': "b' = fill_record nf name inum ty (?old - ?d) n ?c"
    by (simp add: b'_def split_record_def Let_def n_def)
  have lc: "length ?c = length b" using le bend lens by (simp add: put_reclen_def)
  have fl: "n + length name + 9 \<le> length ?c" using nm fits(1) le bend lc by (simp add: n_def)
  have lb: "length b' = length b"
    using same_bytes_length [OF fill_record_same [OF fl, of 0 0]] lc b' by simp
  have out: "same_bytes lo hi b b'" if "hi \<le> off \<or> off + ?old \<le> lo" for lo hi
    unfolding b'
    by (rule same_bytes_trans [OF put_reclen_same fill_record_same [OF fl]])
      (use that lens le bend nm fits(1) in \<open>auto simp: n_def\<close>)
  have front: "same_bytes lo hi ?c b'" if "hi \<le> n" for lo hi
    unfolding b' by (rule fill_record_same [OF fl]) (use that in simp)
  have pre: "dir_records b' off start xs" "dir_entries b' xs = dir_entries b xs"
    using dir_records_same [OF sp(1)] out [of off start] dir_records_le [OF sp(1)] le bend by auto
  have post: "dir_records b' bend (off + ?old) ys" "dir_entries b' ys = dir_entries b ys"
    using dir_records_same [OF ys bend out] by simp_all
  note cf = put_reclen_record [OF _ d12(2) record_name_end [OF ok]]
  have cf: "d_ino ?c off = d_ino b off" "d_namlen ?c off = d_namlen b off" "d_reclen ?c off = ?d"
    "d_ino b off \<noteq> 0 \<Longrightarrow> d_name ?c off = d_name b off"
    using cf le bend lens by simp_all
  have okc: "record_ok ?c off"
    using ok cf fits(1) UFS_DIRECTSIZ_bounds(3) by (auto simp: record_ok_def UFS_DIRSIZ_def)
  note cs = record_same [OF okc, of b', unfolded cf]
  have cs: "d_reclen b' off = ?d" "d_ino b' off = d_ino b off" "record_ok b' off"
    "d_ino b off \<noteq> 0 \<Longrightarrow> d_name b' off = d_name b off"
    using cs cf(4) front [of "off + ?d" off] lc le bend fits(1) by (simp_all add: n_def)
  note new = fill_record_fields [OF fl name d12(3), of nf inum ty, folded b']
  have modn: "n mod DIRBLKSIZ = off mod DIRBLKSIZ + ?d"
  proof -
    have "off mod DIRBLKSIZ + ?d < DIRBLKSIZ"
      using ok nm unfolding record_ok_def by linarith
    then have "(off mod DIRBLKSIZ + ?d) mod DIRBLKSIZ = off mod DIRBLKSIZ + ?d" by (rule mod_less)
    then show ?thesis by (simp add: n_def mod_add_left_eq)
  qed
  have nl: "unat (of_nat (length name) :: u8) = length name"
    using name by (simp add: name_ok_def unat_of_nat)
  have okn: "record_ok b' n"
    using new nl fits ok modn by (simp add: record_ok_def UFS_DIRSIZ_def)
  have tail: "dir_records b' bend off (off # n # ys)"
    using cs okn new post(1) le fits(1) by (simp add: dir_records_Cons n_def)
  have ents: "dir_entries b' (off # n # ys) = dir_entries b [off] @ (name, n, inum) # dir_entries b ys"
    using cs new inum post(2) by auto
  show ?thesis
    using dir_records_append [OF pre(1) tail] ents pre(2) lb by simp
qed

section \<open>Removing an entry\<close>

lemma put_ino_record:
  assumes ok: "record_ok b off" and le: "off + d_reclen b off \<le> length b"
  shows "record_ok (put_ino off 0 b) off" "d_reclen (put_ino off 0 b) off = d_reclen b off"
    "d_ino (put_ino off 0 b) off = 0"
proof -
  let ?b = "put_ino off 0 b"
  note lens = record_ok_len [OF ok]
  have s: "same_bytes lo hi b ?b" if "hi \<le> off \<or> off + 4 \<le> lo" for lo hi
    by (rule put_ino_same) (use le lens that in auto)
  show r: "d_reclen ?b off = d_reclen b off"
    using slice_same [OF s, of "off + 4" 2] le lens by (simp add: d_reclen_def peek16_def)
  have n: "d_namlen ?b off = d_namlen b off"
    using s [of "off + 8" "off + 7"] by (simp add: d_namlen_def same_bytes_def)
  show i: "d_ino ?b off = 0" using le lens by (simp add: d_ino_def put_ino_def)
  show "record_ok ?b off" using ok r n i by (simp add: record_ok_def UFS_DIRSIZ_def)
qed

lemma remove_first_records:
  assumes recs: "dir_records b bend start (xs @ off # ys)" and bend: "bend \<le> length b"
  defines "b' \<equiv> put_ino off 0 b"
  shows "dir_records b' bend start (xs @ off # ys) \<and>
    dir_entries b' (xs @ off # ys) = dir_entries b (xs @ ys) \<and> length b' = length b"
proof -
  have sp: "dir_records b off start xs" "dir_records b bend off (off # ys)"
    using dir_records_split [OF recs] by simp_all
  have ok: "record_ok b off" and le: "off + d_reclen b off \<le> bend"
    and ys: "dir_records b bend (off + d_reclen b off) ys"
    using sp(2) by (simp_all add: dir_records_Cons)
  note new = put_ino_record [OF ok, folded b'_def]
  have out: "same_bytes lo hi b b'" if "hi \<le> off \<or> off + d_reclen b off \<le> lo" for lo hi
    unfolding b'_def by (rule put_ino_same) (use le bend record_ok_len [OF ok] that in auto)
  have pre: "dir_records b' off start xs" "dir_entries b' xs = dir_entries b xs"
    using dir_records_same [OF sp(1)] out [of off start] le bend by auto
  have post: "dir_records b' bend (off + d_reclen b off) ys" "dir_entries b' ys = dir_entries b ys"
    using dir_records_same [OF ys bend out] by simp_all
  have "dir_records b' bend off (off # ys)"
    using new le bend post(1) by (simp add: dir_records_Cons)
  from dir_records_append [OF pre(1) this] show ?thesis
    using new le bend pre(2) post(2) same_bytes_length [OF out [of 0 0]] by simp
qed

lemma merge_record_records:
  assumes recs: "dir_records b bend start (xs @ l # off # ys)" and bend: "bend \<le> length b"
    and inner: "off mod DIRBLKSIZ \<noteq> 0"
  defines "b' \<equiv> put_reclen l (d_reclen b l + d_reclen b off) b"
  shows "dir_records b' bend start (xs @ l # ys) \<and>
    dir_entries b' (xs @ l # ys) = dir_entries b (xs @ l # ys) \<and> length b' = length b"
proof -
  let ?sum = "d_reclen b l + d_reclen b off"
  have sp: "dir_records b l start xs" "dir_records b bend l (l # off # ys)"
    using dir_records_split [OF recs] by simp_all
  have okl: "record_ok b l" and ok: "record_ok b off" and off: "off = l + d_reclen b l"
    and le: "l + ?sum \<le> bend" and ys: "dir_records b bend (l + ?sum) ys"
    using sp(2) by (auto simp: dir_records_Cons add.assoc)
  note lens = record_ok_len [OF okl] record_ok_len [OF ok]
  have modl: "off mod DIRBLKSIZ = l mod DIRBLKSIZ + d_reclen b l"
  proof -
    have "l mod DIRBLKSIZ + d_reclen b l \<noteq> DIRBLKSIZ"
      using inner off by (metis mod_add_left_eq mod_self)
    then have "l mod DIRBLKSIZ + d_reclen b l < DIRBLKSIZ"
      using okl unfolding record_ok_def by linarith
    then show ?thesis using off by (metis mod_add_left_eq mod_less)
  qed
  have small: "?sum \<le> DIRBLKSIZ" "l mod DIRBLKSIZ + ?sum \<le> DIRBLKSIZ"
    using ok modl unfolding record_ok_def by linarith+
  have out: "same_bytes lo hi b b'" if "hi \<le> l \<or> l + ?sum \<le> lo" for lo hi
    unfolding b'_def by (rule put_reclen_same) (use le bend lens that in auto)
  note new = put_reclen_record [OF _ _ record_name_end [OF okl], of ?sum, folded b'_def]
  have new: "d_ino b' l = d_ino b l" "d_namlen b' l = d_namlen b l" "d_reclen b' l = ?sum"
    "d_ino b l \<noteq> 0 \<Longrightarrow> d_name b' l = d_name b l"
    using new le bend lens small by (simp_all add: DIRBLKSIZ_def)
  have okl': "record_ok b' l"
    using okl ok new small(2) by (auto simp: record_ok_def UFS_DIRSIZ_def mod_add_eq [symmetric])
  have pre: "dir_records b' l start xs" "dir_entries b' xs = dir_entries b xs"
    using dir_records_same [OF sp(1)] out [of l start] le bend by auto
  have post: "dir_records b' bend (l + ?sum) ys" "dir_entries b' ys = dir_entries b ys"
    using dir_records_same [OF ys bend out] by simp_all
  have "dir_records b' bend l (l # ys)"
    using okl' new(3) le post(1) by (simp add: dir_records_Cons)
  from dir_records_append [OF pre(1) this] show ?thesis
    using new pre(2) post(2) same_bytes_length [OF out [of 0 0]] by simp
qed

section \<open>Finding the record at an offset\<close>

lemma dir_records_range: "dir_records b bend off rs \<Longrightarrow> r \<in> set rs \<Longrightarrow> off \<le> r \<and> r < bend"
proof (induction rule: dir_records.induct)
  case (next_record off rs)
  then show ?case using record_ok_len(1) [OF next_record.hyps(1)] by auto
qed simp

text \<open>The record before in the same directory block.\<close>

definition record_before :: "nat \<Rightarrow> nat list \<Rightarrow> nat option" where
  "record_before off xs = (if off mod DIRBLKSIZ = 0 \<or> xs = [] then None else Some (last xs))"

lemma delete_scan_at:
  assumes "dir_records b bend off (xs @ r # ys)" "bend < 2 ^ 32"
    and "pos mod DIRBLKSIZ = off mod DIRBLKSIZ" "pos \<le> DIRBLKSIZ"
    and "pos = 0 \<Longrightarrow> prv = None" "pos \<noteq> 0 \<Longrightarrow> prv = Some l"
    and "offset = base + of_nat r" "roffset = base + of_nat off"
  shows "delete_scan offset b bend off pos prv roffset =
    Some (At r (if r mod DIRBLKSIZ = 0 then None
                else if xs = [] then prv else Some (last xs)))"
  using assms
proof (induction xs arbitrary: off pos prv l roffset)
  case Nil
  then have "off = r" "off < bend" using dir_records_range [OF Nil.prems(1), of r]
    by (auto simp: dir_records_Cons)
  then show ?case using Nil.prems(3-8)
    by (subst delete_scan.simps) (auto simp: Let_def DIRBLKSIZ_def)
next
  case (Cons x xs)
  have x: "x = off" "record_ok b off" "dir_records b bend (off + d_reclen b off) (xs @ r # ys)"
    using Cons.prems(1) by (auto simp: dir_records_Cons)
  have lt: "off < bend" "off < r" "r < bend"
    using dir_records_range [OF Cons.prems(1), of off] dir_records_range [OF x(3), of r]
      dir_records_range [OF Cons.prems(1), of r] record_ok_len(1) [OF x(2)] x(1) by auto
  have neq: "offset \<noteq> roffset"
  proof
    assume "offset = roffset"
    then have "(of_nat r :: u32) = of_nat off" using Cons.prems(7,8) by simp
    then have "unat (of_nat r :: u32) = unat (of_nat off :: u32)" by simp
    then have "r = off" using lt Cons.prems(2) by (simp add: unat_of_nat)
    then show False using lt by simp
  qed
  let ?pos = "(if pos = DIRBLKSIZ then 0 else pos) + d_reclen b off"
  have pos: "?pos mod DIRBLKSIZ = (off + d_reclen b off) mod DIRBLKSIZ" "?pos \<le> DIRBLKSIZ" "?pos \<noteq> 0"
  proof -
    have "(if pos = DIRBLKSIZ then 0 else pos) < DIRBLKSIZ"
      using Cons.prems(4) by (simp add: DIRBLKSIZ_def)
    moreover have "(if pos = DIRBLKSIZ then 0 else pos) mod DIRBLKSIZ = off mod DIRBLKSIZ"
      using Cons.prems(3) by (cases "pos = DIRBLKSIZ") simp_all
    ultimately have q: "(if pos = DIRBLKSIZ then 0 else pos) = off mod DIRBLKSIZ" by simp
    show "?pos mod DIRBLKSIZ = (off + d_reclen b off) mod DIRBLKSIZ"
      unfolding q by (simp add: mod_add_left_eq)
    show "?pos \<le> DIRBLKSIZ" unfolding q using x(2) by (simp add: record_ok_def)
    show "?pos \<noteq> 0" using record_ok_len(1) [OF x(2)] by simp
  qed
  have "delete_scan offset b bend off pos prv roffset =
      delete_scan offset b bend (off + d_reclen b off) ?pos (Some off) (roffset + of_nat (d_reclen b off))"
    using lt neq record_not_bad [OF x(2)] by (subst delete_scan.simps) (simp add: Let_def)
  also have "\<dots> = Some (At r (if r mod DIRBLKSIZ = 0 then None
      else if xs = [] then Some off else Some (last xs)))"
    by (rule Cons.IH [OF x(3) Cons.prems(2) pos(1,2)]) (use pos(3) Cons.prems(7,8) in auto)
  finally show ?case using x(1) by simp
qed

text \<open>The walk of \<open>dir_offset_delete\<close> and its change together delete the record.\<close>

lemma delete_record:
  assumes recs: "dir_records b bend 0 (xs @ r # ys)" and bend: "bend \<le> length b" "bend < 2 ^ 32"
  shows "\<exists>prv b' rs. delete_scan (base + of_nat r) b bend 0 0 None base = Some (At r prv) \<and>
    remove_record r prv b = Some b' \<and> dir_records b' bend 0 rs \<and>
    dir_entries b' rs = dir_entries b (xs @ ys) \<and> length b' = length b"
proof -
  define prv where "prv = (if r mod DIRBLKSIZ = 0 then None else if xs = [] then None else Some (last xs))"
  have scan: "delete_scan (base + of_nat r) b bend 0 0 None base = Some (At r prv)"
    unfolding prv_def by (rule delete_scan_at [OF recs bend(2)]) simp_all
  show ?thesis
  proof (cases prv)
    case None
    note rm = remove_first_records [OF recs bend(1)]
    have "remove_record r prv b = Some (put_ino r 0 b)" by (simp add: None remove_record_def)
    then show ?thesis using scan rm by blast
  next
    case (Some l)
    then have xs: "xs = butlast xs @ [l]" "r mod DIRBLKSIZ \<noteq> 0"
      by (auto simp: prv_def split: if_splits)
    have "dir_records b bend 0 (butlast xs @ l # r # ys)" using recs xs(1) by (metis append.assoc append_Cons append_Nil)
    note rm = merge_record_records [OF this bend(1) xs(2)]
    have "\<not> too_long (d_reclen b r)" by (rule record_not_bad(1) [OF dir_records_ok [OF recs]]) simp
    then have "remove_record r prv b = Some (put_reclen l (d_reclen b l + d_reclen b r) b)"
      by (simp add: Some remove_record_def)
    moreover have "dir_entries b (butlast xs @ l # ys) = dir_entries b (xs @ ys)"
      using xs(1) by (metis append.assoc append_Cons append_Nil)
    ultimately show ?thesis using scan rm by auto
  qed
qed

section \<open>A new block\<close>

lemma blank_record_same:
  assumes "off + 9 \<le> length b" "hi \<le> off \<or> off + 9 \<le> lo"
  shows "same_bytes lo hi b (blank_record off b)"
proof -
  have l: "length (put_ino off 0 b) = length b" using assms(1) by (simp add: put_ino_def)
  show ?thesis
    unfolding blank_record_def Let_def
    by (rule same_bytes_trans [OF same_bytes_trans [OF same_bytes_trans [OF same_bytes_trans
        [OF put_ino_same list_update_same] list_update_same] put_reclen_same] list_update_same])
      (use assms l in auto)
qed

lemma blank_record_fields:
  assumes "off + 9 \<le> length b"
  shows "d_ino (blank_record off b) off = 0" "d_reclen (blank_record off b) off = DIRBLKSIZ"
    "d_namlen (blank_record off b) off = 0"
proof -
  let ?b1 = "put_ino off 0 b"
  let ?b3 = "?b1[off + 7 := 0, off + 6 := 0]"
  have l: "length ?b1 = length b" using assms(1) by (simp add: put_ino_def)
  have b: "blank_record off b = (put_reclen off DIRBLKSIZ ?b3)[off + 8 := 0]"
    by (simp add: blank_record_def Let_def)
  have tail: "same_bytes lo hi (put_reclen off DIRBLKSIZ ?b3) (blank_record off b)"
    if "hi \<le> off + 8" for lo hi
    unfolding b by (rule list_update_same) (use that in auto)
  have "slice (blank_record off b) off 4 = slice ?b1 off 4"
    by (rule slice_same [OF same_bytes_trans [OF same_bytes_trans [OF same_bytes_trans
      [OF list_update_same list_update_same] put_reclen_same] tail]]) (use assms l in auto)
  then show "d_ino (blank_record off b) off = 0"
    using assms by (simp add: d_ino_def peek32_def put_ino_def poke32_def)
  have "slice (blank_record off b) (off + 4) 2 = slice (put_reclen off DIRBLKSIZ ?b3) (off + 4) 2"
    by (rule slice_same [OF tail]) (use assms l in \<open>auto simp: put_reclen_def\<close>)
  then have "d_reclen (blank_record off b) off = d_reclen (put_reclen off DIRBLKSIZ ?b3) off"
    by (simp add: d_reclen_def peek16_def)
  then show "d_reclen (blank_record off b) off = DIRBLKSIZ"
    using of_nat_reclen [of off ?b3 DIRBLKSIZ] assms l by (simp add: DIRBLKSIZ_def)
  have "blank_record off b ! (off + 7) = put_reclen off DIRBLKSIZ ?b3 ! (off + 7)"
    using tail [of "off + 8" "off + 7"] by (simp add: same_bytes_def)
  also have "\<dots> = ?b3 ! (off + 7)"
    using put_reclen_same [of off ?b3 "off + 8" "off + 7" DIRBLKSIZ] assms l
    by (simp add: same_bytes_def)
  also have "\<dots> = 0" using assms l by simp
  finally show "d_namlen (blank_record off b) off = 0" by (simp add: d_namlen_def)
qed

lemma blank_records:
  assumes "spill mod DIRBLKSIZ = 0" "spill + DIRBLKSIZ * m \<le> length b"
  defines "b' \<equiv> fold (\<lambda>k. blank_record (spill + DIRBLKSIZ * k)) [0..<m] b"
  shows "dir_records b' (spill + DIRBLKSIZ * m) spill (map (\<lambda>k. spill + DIRBLKSIZ * k) [0..<m]) \<and>
    dir_entries b' (map (\<lambda>k. spill + DIRBLKSIZ * k) [0..<m]) = [] \<and>
    same_bytes 0 spill b b' \<and> length b' = length b"
  using assms(2) unfolding b'_def
proof (induction m)
  case 0
  then show ?case by (simp add: same_bytes_def)
next
  case (Suc m)
  let ?c = "fold (\<lambda>k. blank_record (spill + DIRBLKSIZ * k)) [0..<m] b"
  let ?off = "spill + DIRBLKSIZ * m"
  let ?b = "blank_record ?off ?c"
  have IH: "dir_records ?c ?off spill (map (\<lambda>k. spill + DIRBLKSIZ * k) [0..<m])"
    "dir_entries ?c (map (\<lambda>k. spill + DIRBLKSIZ * k) [0..<m]) = []"
    "same_bytes 0 spill b ?c" "length ?c = length b"
    using Suc by simp_all
  have l: "?off + 9 \<le> length ?c" using Suc.prems IH(4) by (simp add: DIRBLKSIZ_def)
  note fields = blank_record_fields [OF l]
  have low: "same_bytes 0 ?off ?c ?b" by (rule blank_record_same [OF l]) simp
  have "?off mod DIRBLKSIZ = 0" using assms(1) by simp
  then have ok: "record_ok ?b ?off"
    using fields by (simp add: record_ok_def UFS_DIRSIZ_def UFS_DIRECTSIZ_def DIRBLKSIZ_def)
  have "dir_records ?b (?off + DIRBLKSIZ) ?off [?off]"
    using ok fields by (simp add: dir_records_Cons)
  moreover have "dir_records ?b ?off spill (map (\<lambda>k. spill + DIRBLKSIZ * k) [0..<m]) \<and>
      dir_entries ?b (map (\<lambda>k. spill + DIRBLKSIZ * k) [0..<m]) = []"
    using dir_records_same [OF IH(1) _ same_bytes_mono [OF low]] IH(2) l by auto
  moreover have "same_bytes 0 spill b ?b"
    by (rule same_bytes_trans [OF IH(3) same_bytes_mono [OF low]]) simp_all
  ultimately show ?case
    using dir_records_append [of ?b ?off spill _ "?off + DIRBLKSIZ" "[?off]"]
      fields(1) IH(4) same_bytes_length [OF low]
    by (simp add: algebra_simps)
qed

lemma new_block_records:
  fixes nf :: bool and ty :: u8
  assumes "spill mod DIRBLKSIZ = 0" "fs mod DIRBLKSIZ = 0" "spill < fs" "length b = fs"
    and name: "name_ok name" and inum: "inum \<noteq> 0"
  defines "b' \<equiv> fill_record nf name inum ty DIRBLKSIZ spill (dir_fragfill fs spill b)"
  shows "\<exists>rs. dir_records b' fs spill rs \<and> dir_entries b' rs = [(name, spill, inum)] \<and>
    same_bytes 0 spill b b' \<and> length b' = length b"
proof -
  define m where "m = (fs - spill) div DIRBLKSIZ"
  have "(fs - spill) mod DIRBLKSIZ = 0" using assms(1-3) by (simp add: mod_eq_0_iff_dvd)
  then have fs: "fs = spill + DIRBLKSIZ * m" using assms(3) mult_div_mod_eq [of DIRBLKSIZ "fs - spill"] by (simp add: m_def)
  then have m: "0 < m" "(fs - spill + DIRBLKSIZ - 1) div DIRBLKSIZ = m"
    using assms(3) by (auto simp: DIRBLKSIZ_def)
  let ?c = "dir_fragfill fs spill b"
  let ?rs = "\<lambda>j. map (\<lambda>k. spill + DIRBLKSIZ * k) [j..<m]"
  have c: "dir_records ?c fs spill (?rs 0)" "dir_entries ?c (?rs 0) = []" "same_bytes 0 spill b ?c"
    "length ?c = length b"
    using blank_records [OF assms(1), of m b] assms(4) m(2) fs by (simp_all add: dir_fragfill_def)
  have rs: "?rs 0 = spill # ?rs 1" using m(1) by (simp add: upt_conv_Cons)
  have ok: "record_ok ?c spill" "spill + d_reclen ?c spill \<le> fs"
    "dir_records ?c fs (spill + d_reclen ?c spill) (?rs 1)"
    using c(1) unfolding rs by (simp_all add: dir_records_Cons)
  have ne: "dir_entries ?c (?rs 1) = []" using c(2) unfolding rs by simp
  have len: "d_reclen ?c spill = DIRBLKSIZ" and two: "spill + DIRBLKSIZ \<le> fs"
  proof -
    show two: "spill + DIRBLKSIZ \<le> fs" using fs m(1) by (cases m) simp_all
    show "d_reclen ?c spill = DIRBLKSIZ"
    proof (cases "m = 1")
      case True
      then show ?thesis using ok(3) fs by simp
    next
      case False
      then have "?rs 1 = (spill + DIRBLKSIZ) # ?rs (Suc 1)" using m(1) by (simp add: upt_conv_Cons)
      then show ?thesis using ok(3) by (simp add: dir_records_Cons)
    qed
  qed
  have fl: "spill + length name + 9 \<le> length ?c"
    using two c(4) assms(4) name by (simp add: name_ok_def DIRBLKSIZ_def)
  have out: "same_bytes lo hi ?c b'" if "hi \<le> spill \<or> spill + DIRBLKSIZ \<le> lo" for lo hi
    unfolding b'_def
    by (rule fill_record_same [OF fl]) (use that name in \<open>auto simp: name_ok_def DIRBLKSIZ_def\<close>)
  note new = fill_record_fields [OF fl name, of DIRBLKSIZ nf inum ty, folded b'_def]
  have nl: "unat (of_nat (length name) :: u8) = length name"
    using name by (simp add: name_ok_def unat_of_nat)
  have "record_ok b' spill"
    using new nl name UFS_DIRECTSIZ_bounds(4) [of "length name"] assms(1)
    by (simp add: record_ok_def UFS_DIRSIZ_def DIRBLKSIZ_def name_ok_def)
  moreover have "dir_records b' fs (spill + DIRBLKSIZ) (?rs 1) \<and> dir_entries b' (?rs 1) = []"
    using dir_records_same [OF ok(3)] out [of fs "spill + DIRBLKSIZ"] c(4) assms(4) ne len by simp
  ultimately have "dir_records b' fs spill (spill # ?rs 1) \<and>
      dir_entries b' (spill # ?rs 1) = [(name, spill, inum)]"
    using new two inum by (simp add: dir_records_Cons DIRBLKSIZ_def)
  moreover have "same_bytes 0 spill b b' \<and> length b' = length b"
    using same_bytes_trans [OF c(3) out] same_bytes_length [OF out [of 0 0]] c(4) by simp
  ultimately show ?thesis by blast
qed

end
