(* ===== verification/Dir_State.thy ===== *)
theory Dir_State
  imports Dir_Correct Tree_Correct
begin

text \<open>
  The directory operations on a mounted file system: a directory is the list of the records of
  its frags, and the loops of fs/dir.c over the frags search the concatenation of their
  entries.
\<close>

section \<open>The node of a pointer\<close>

text \<open>Node \<open>n\<close> holds block \<open>a\<close>, and is the most recently used node.\<close>

definition in_node :: "fsys \<Rightarrow> nat \<Rightarrow> u32 \<Rightarrow> bool" where
  "in_node s n a \<longleftrightarrow> (\<exists>S. cache_inv s S \<and> n \<in> set S \<and> blk (nodes (fc s) n) = a)"

definition in_newest :: "fsys \<Rightarrow> nat \<Rightarrow> u32 \<Rightarrow> bool" where
  "in_newest s n a \<longleftrightarrow> (\<exists>S. cache_inv s S \<and> cache_size (fc s) = int (length S) \<and> 8 \<le> length S \<and>
     last S = n \<and> blk (nodes (fc s) n) = a)"

lemma in_node_unique:
  assumes "cache_inv s S" "n \<in> set S" "m \<in> set S" "blk (nodes (fc s) n) = b"
    "blk (nodes (fc s) m) = b" "b \<noteq> 0"
  shows "n = m"
  using cache_ok_same_disk [OF assms(1)] assms(2-6)
  unfolding cache_ok_def uniq_blks_def by metis

lemma cache_frag_newest:
  assumes "mounted s" "valid_frag s a"
  shows "wp (cache_frag a s) (\<lambda>r t. \<exists>n. r = Some n \<and> in_newest t n a)"
proof -
  obtain S where S: "cache_inv s S" "cache_size (fc s) = int (length S)" "8 \<le> length S" "S \<noteq> []"
    using mountedE [OF assms(1)] .
  obtain n t T where t: "cache_frag a s = Some (Some n, t)" "fetched s S t T n"
    "blk (nodes (fc t) n) = a"
    using cache_frag_fetched [OF S(1,4), of a] assms(2) by (auto simp: valid_frag_def)
  have "length T = length S" 
    using t(2) unfolding fetched_def by (metis same_set_length [OF S(1)])
  then have "in_newest t n a"
    using t(2,3) S unfolding in_newest_def fetched_def by (intro exI [of _ T]) simp
  then show ?thesis using t(1) by simp
qed

text \<open>One access to another block leaves the most recently used node where it is.\<close>

lemma cache_frag_keeps:
  assumes "in_newest s n a" "valid_frag s b"
  shows "wp (cache_frag b s) (\<lambda>r t. in_node t n a)"
proof -
  obtain S where S: "cache_inv s S" "cache_size (fc s) = int (length S)" "8 \<le> length S"
    "last S = n" "blk (nodes (fc s) n) = a"
    using assms(1) unfolding in_newest_def by blast
  have ne: "S \<noteq> []" using S(3) by auto
  obtain q t T where t: "cache_frag b s = Some (Some q, t)" "fetched s S t T q"
    using cache_frag_fetched [OF S(1) ne, of b] assms(2) by (auto simp: valid_frag_def)
  have n: "n \<in> set S" using ne S(4) by auto
  have "blk (nodes (fc t) n) = a"
  proof (cases "q = n")
    case True
    have "victim (fc s) S \<noteq> n"
      using victim_not_last [OF cache_ok_same_disk [OF S(1)] S(2)] S(3,4) by simp
    then show ?thesis using t(2) True S(5) by (auto simp: fetched_def)
  next
    case False
    then show ?thesis using t(2) n S(5) by (auto simp: fetched_def)
  qed
  moreover have "n \<in> set T" using n t(2) by (simp add: fetched_def)
  moreover have "cache_inv t T" using t(2) by (simp add: fetched_def)
  ultimately show ?thesis using t(1) by (auto simp: in_node_def)
qed

lemma cache_frag_write_node:
  assumes "mounted s" "valid_frag s a" "in_node s n a"
  shows "wp (cache_frag_write a readflag s) (\<lambda>r t. r = Some n)"
proof -
  obtain S where S: "cache_inv s S" "n \<in> set S" "blk (nodes (fc s) n) = a"
    using assms(3) unfolding in_node_def by blast
  have a: "a \<noteq> 0" "frag_ok s a" using assms(2) by (simp_all add: valid_frag_def)
  obtain m where m: "cache_node a (fc s) = Some (Some m)" "m \<in> set S" "blk (nodes (fc s) m) = a"
    using cache_ok_same_disk [OF S(1)] a(1)
  proof (cases rule: cache_node_cases)
    case (hit n)
    then show ?thesis using that by blast
  next
    case miss
    then show ?thesis using S by blast
  qed
  obtain c where "cache_refresh m (fc s) = Some c" using cache_refresh_fetched [OF S(1) m(2)] by blast
  then show ?thesis
    using m(1) in_node_unique [OF S(1,2) m(2) S(3) m(3) a(1)] by (simp add: cache_frag_write_def)
qed

section \<open>Searching the frags of a directory\<close>

definition readable_frag :: "fsys \<Rightarrow> (u32 \<Rightarrow> bytes) \<Rightarrow> u32 \<Rightarrow> nat \<Rightarrow> bool" where
  "readable_frag s f inum k \<longleftrightarrow>
     in_reach s (file_blk_num (sb s) (of_nat k)) \<and>
     frags_valid s (file_slots s f inum (file_blk_num (sb s) (of_nat k))) \<and>
     valid_frag s (file_frag_addr s f inum (of_nat k))"

text \<open>The bytes of frag \<open>k\<close> of a file.\<close>

definition file_frag :: "fsys \<Rightarrow> (u32 \<Rightarrow> bytes) \<Rightarrow> u32 \<Rightarrow> nat \<Rightarrow> bytes" where
  "file_frag s f inum k = f (file_frag_addr s f inum (of_nat k))"

lemma wp_read_file_frag:
  assumes "cache.holds s0 s f" "readable_frag s0 f inum k"
    and "\<And>n t. cache.holds s0 t f \<Longrightarrow> frag_buf t n = file_frag s0 f inum k \<Longrightarrow>
      in_newest t n (file_frag_addr s0 f inum (of_nat k)) \<Longrightarrow>
      Q (file_frag_addr s0 f inum (of_nat k)) (Some n) t"
  shows "wp (ridisk_frag (of_nat k) inum s) (\<lambda>a t. wp (cache_frag a t) (Q a))"
proof (rule wp_mono)
  show "wp (ridisk_frag (of_nat k) inum s) (\<lambda>r t. cache.holds s0 t f \<and>
      r = file_frag_addr s0 f inum (of_nat k))"
    using assms(2) by (intro ridisk_frag_reads [OF assms(1)]) (simp_all add: readable_frag_def)
  fix a t assume "cache.holds s0 t f \<and> a = file_frag_addr s0 f inum (of_nat k)"
  then have t: "cache.holds s0 t f" and a: "a = file_frag_addr s0 f inum (of_nat k)" by simp_all
  have v: "valid_frag s0 a" using assms(2) a by (simp add: readable_frag_def)
  have "wp (cache_frag a t) (\<lambda>r u. (\<exists>n. r = Some n \<and> in_newest u n a) \<and>
      cache.holds s0 u f \<and> (\<exists>n. r = Some n \<and> frag_buf u n = f a))"
  proof (rule wp_conj)
    show "wp (cache_frag a t) (\<lambda>r u. \<exists>n. r = Some n \<and> in_newest u n a)"
      by (rule cache_frag_newest) (use t v in \<open>simp_all add: cache.holds_def\<close>)
  qed (rule cache.wp_get_from [OF t v], simp)
  then show "wp (cache_frag a t) (Q a)"
    by (rule wp_mono) (auto simp: a file_frag_def intro: assms(3))
qed

lemma dir_bend_holds: "cache.holds s0 t f \<Longrightarrow> dir_bend t = dir_bend s0"
  by (simp add: dir_bend_def FSIZE_def holds_fields fun_eq_iff)

lemma dir_search_finds:
  assumes "cache.holds s0 s f" "\<forall>k \<in> set ks. readable_frag s0 f inum k"
    and "\<And>k. k \<in> set ks \<Longrightarrow> scan (file_frag s0 f inum k) (dir_bend s0 fblks spill k) =
      Some (case g k of None \<Rightarrow> End | Some off \<Rightarrow> Found off)"
  shows "wp (dir_search scan ks inum fblks spill s) (\<lambda>r t. cache.holds s0 t f \<and>
    (case find (\<lambda>k. g k \<noteq> None) ks of None \<Rightarrow> r = Miss
     | Some k \<Rightarrow> \<exists>n. r = Hit k n (the (g k)) \<and> frag_buf t n = file_frag s0 f inum k \<and>
         in_newest t n (file_frag_addr s0 f inum (of_nat k))))"
  using assms
proof (induction ks arbitrary: s)
  case Nil
  then show ?case by simp
next
  case (Cons k ks)
  show ?case
    unfolding dir_search.simps wp_bind split
  proof (rule wp_read_file_frag [OF Cons.prems(1)])
    show "readable_frag s0 f inum k" using Cons.prems(2) by simp
    fix n t assume t: "cache.holds s0 t f" "frag_buf t n = file_frag s0 f inum k"
      "in_newest t n (file_frag_addr s0 f inum (of_nat k))"
    have sc: "scan (frag_buf t n) (dir_bend t fblks spill k) =
        Some (case g k of None \<Rightarrow> End | Some off \<Rightarrow> Found off)"
      using Cons.prems(3) [of k] t(2) dir_bend_holds [OF t(1)] by simp
    show "wp (case Some n of None \<Rightarrow> Some (Unread, t)
       | Some n \<Rightarrow> scan (frag_buf t n) (dir_bend t fblks spill k) \<bind> (\<lambda>w.
             case w of Found off \<Rightarrow> Some (Hit k n off, t)
             | Bad \<Rightarrow> Some (Corrupt, t)
             | End \<Rightarrow> dir_search scan ks inum fblks spill t))
       (\<lambda>r t. cache.holds s0 t f \<and> (case find (\<lambda>k. g k \<noteq> None) (k # ks) of None \<Rightarrow> r = Miss
     | Some k \<Rightarrow> \<exists>n. r = Hit k n (the (g k)) \<and> frag_buf t n = file_frag s0 f inum k \<and>
         in_newest t n (file_frag_addr s0 f inum (of_nat k))))"
    proof (cases "g k")
      case None
      then show ?thesis using Cons.IH [OF t(1)] Cons.prems(2,3) sc by simp
    next
      case (Some off)
      then show ?thesis using t sc by simp
    qed
  qed
qed

section \<open>A directory\<close>

lemma wp_inode_frag:
  assumes "cache.holds s0 s f" "valid_frag s0 (fst (inode_slot (sb s0) inum 0))"
    and "\<And>n t. cache.holds s0 t f \<Longrightarrow> frag_buf t n = f (fst (inode_slot (sb s0) inum 0)) \<Longrightarrow>
      Q (Some (n, snd (inode_slot (sb s0) inum 0))) t"
  shows "wp (inode_read inum s) Q"
proof -
  define i where "i = (if inum = 0 then 2 else inum)"
  have sb: "sb s = sb s0" by (rule holds_fields [OF assms(1)])
  have sl: "inode_slot (sb s0) inum 0 = (inode_frag (sb s) i, inode_offset (sb s0) i)"
    by (simp add: inode_slot_def Let_def i_def sb)
  show ?thesis
    unfolding inode_read_def Let_def i_def [symmetric] wp_bind
    by (rule cache.wp_get_from [OF assms(1)])
      (use assms(2,3) in \<open>simp_all add: sl holds_fields\<close>)
qed

text \<open>\<open>rss\<close> are the offsets of the records in the frags of the directory.\<close>

definition inode_word :: "fsys \<Rightarrow> (u32 \<Rightarrow> bytes) \<Rightarrow> u32 \<Rightarrow> nat \<Rightarrow> u32" where
  "inode_word s f inum field = frag_word f (inode_slot (sb s) inum field)"

definition dir_frags :: "fsys \<Rightarrow> (u32 \<Rightarrow> bytes) \<Rightarrow> u32 \<Rightarrow> nat" where
  "dir_frags s f inum = unat ((inode_word s f inum ic_size + fsize (hnd s) - 1) div fsize (hnd s))"

definition dir_rest :: "fsys \<Rightarrow> (u32 \<Rightarrow> bytes) \<Rightarrow> u32 \<Rightarrow> nat" where
  "dir_rest s f inum = unat (inode_word s f inum ic_size mod fsize (hnd s))"

definition is_dir :: "fsys \<Rightarrow> (u32 \<Rightarrow> bytes) \<Rightarrow> u32 \<Rightarrow> bool" where
  "is_dir s f inum \<longleftrightarrow> (case inode_slot (sb s) inum 0 of
     (a, off) \<Rightarrow> peek16 (f a) (off + ic_mode) AND IFMT = IFDIR)"

definition dir_ok :: "fsys \<Rightarrow> (u32 \<Rightarrow> bytes) \<Rightarrow> u32 \<Rightarrow> nat list list \<Rightarrow> bool" where
  "dir_ok s f inum rss \<longleftrightarrow> fsize (hnd s) \<noteq> 0 \<and>
     valid_frag s (fst (inode_slot (sb s) inum 0)) \<and> is_dir s f inum \<and>
     dir_frags s f inum = length rss \<and>
     (\<forall>k < length rss. readable_frag s f inum k \<and>
        dir_records (file_frag s f inum k) (dir_bend s (length rss) (dir_rest s f inum) k) 0 (rss ! k))"

lemma dir_okD:
  assumes "dir_ok s f inum rss" "k < length rss"
  shows "readable_frag s f inum k"
    "dir_records (file_frag s f inum k) (dir_bend s (length rss) (dir_rest s f inum) k) 0 (rss ! k)"
  using assms by (simp_all add: dir_ok_def)

text \<open>The names of a directory with their offset and inode number.\<close>

definition frag_list :: "nat \<Rightarrow> nat \<Rightarrow> bytes \<Rightarrow> nat list \<Rightarrow> (bytes \<times> nat \<times> u32) list" where
  "frag_list fs k b rs = map (\<lambda>(name, r, i). (name, k * fs + r, i)) (dir_entries b rs)"

definition dir_list :: "fsys \<Rightarrow> (u32 \<Rightarrow> bytes) \<Rightarrow> u32 \<Rightarrow> nat list list \<Rightarrow> (bytes \<times> nat \<times> u32) list" where
  "dir_list s f inum rss = 
     concat (map (\<lambda>k. frag_list (FSIZE s) k (file_frag s f inum k) (rss ! k)) [0..<length rss])"

lemma map_of_concat:
  "map_of (concat (map e ks)) x =
   (case find (\<lambda>k. map_of (e k) x \<noteq> None) ks of None \<Rightarrow> None | Some k \<Rightarrow> map_of (e k) x)"
  by (induction ks) (auto simp: map_add_def split: option.splits)

lemma map_of_frag_list:
  "map_of (frag_list fs k b rs) name =
   map_option (\<lambda>r. (k * fs + r, d_ino b r)) (find (has_name name b) rs)"
proof -
  have "map_of (map (\<lambda>(name, r, i). (name, k * fs + r, i)) es) name =
      map_option (\<lambda>(r, i). (k * fs + r, i)) (map_of es name)" for es :: "(bytes \<times> nat \<times> u32) list"
    by (induction es) auto
  then show ?thesis by (simp add: frag_list_def find_has_name option.map_comp comp_def)
qed

lemma FSIZE_holds: "cache.holds s0 t f \<Longrightarrow> FSIZE t = FSIZE s0"
  by (simp add: FSIZE_def holds_fields)

text \<open>What the code reads of the inode of the directory.\<close>

lemma inode_ptr:
  assumes "cache.holds s0 t f" "frag_buf t n = f (fst (inode_slot (sb s0) inum 0))"
  defines "p \<equiv> (n, snd (inode_slot (sb s0) inum 0))"
  shows "is_dir_inode t p = is_dir s0 f inum" "dir_fblks t p = dir_frags s0 f inum"
    "dir_spill t p = dir_rest s0 f inum" "get32 t p field = inode_word s0 f inum field"
proof -
  have sl: "fst (inode_slot (sb s0) inum field) = fst (inode_slot (sb s0) inum 0)"
    "snd (inode_slot (sb s0) inum field) = snd (inode_slot (sb s0) inum 0) + field" for field
    by (simp_all add: inode_slot_def Let_def)
  show g: "get32 t p field = inode_word s0 f inum field" for field
    using assms(2) sl [of field] by (simp add: get32_def inode_word_def frag_word_def p_def)
  show "is_dir_inode t p = is_dir s0 f inum"
    using assms(2) by (simp add: is_dir_inode_def is_dir_def get16_def p_def split: prod.splits)
  show "dir_fblks t p = dir_frags s0 f inum" "dir_spill t p = dir_rest s0 f inum"
    by (simp_all add: dir_fblks_def dir_spill_def dir_frags_def dir_rest_def IC_SIZE_def g
        holds_fields [OF assms(1)])
qed

lemma find_upt_bound: "find P [0..<n] = Some k \<Longrightarrow> k < n \<and> P k"
  by (auto simp: find_Some_iff)

lemma map_of_dir_list:
  "map_of (dir_list s f inum rss) name =
   (case find (\<lambda>k. find (has_name name (file_frag s f inum k)) (rss ! k) \<noteq> None) [0..<length rss] of
      None \<Rightarrow> None
    | Some k \<Rightarrow> (case find (has_name name (file_frag s f inum k)) (rss ! k) of
        None \<Rightarrow> None | Some r \<Rightarrow> Some (k * FSIZE s + r, d_ino (file_frag s f inum k) r)))"
  unfolding dir_list_def map_of_concat map_of_frag_list
  by (auto split: option.splits)

text \<open>The second pass, which ignores case, goes from the last frag to the first and does not
  skip free records.\<close>

definition record_equiv :: "bytes \<Rightarrow> bytes \<Rightarrow> nat \<Rightarrow> bool" where
  "record_equiv name b off \<longleftrightarrow> streqv (d_name b off) name"

definition equiv_in :: "fsys \<Rightarrow> (u32 \<Rightarrow> bytes) \<Rightarrow> u32 \<Rightarrow> nat list list \<Rightarrow> bytes \<Rightarrow> nat \<Rightarrow> nat option" where
  "equiv_in s f inum rss name k = find (record_equiv name (file_frag s f inum k)) (rss ! k)"

definition equiv_lookup :: "fsys \<Rightarrow> (u32 \<Rightarrow> bytes) \<Rightarrow> u32 \<Rightarrow> nat list list \<Rightarrow> bytes \<Rightarrow> u32" where
  "equiv_lookup s f inum rss name =
     (case find (\<lambda>k. equiv_in s f inum rss name k \<noteq> None) (rev [0..<length rss]) of
        None \<Rightarrow> 0
      | Some k \<Rightarrow> d_ino (file_frag s f inum k) (the (equiv_in s f inum rss name k)))"

text \<open>\<open>dir_name_search\<close> finds the first entry with a name, and else, unless case counts, one
  with an equivalent name.\<close>

definition name_result :: "fsys \<Rightarrow> (u32 \<Rightarrow> bytes) \<Rightarrow> u32 \<Rightarrow> nat list list \<Rightarrow> bytes \<Rightarrow> u32 \<Rightarrow> fsys \<Rightarrow> bool"
where
  "name_result s f pinum rss name r t \<longleftrightarrow>
     (case map_of (dir_list s f pinum rss) name of
        Some (pos, inum) \<Rightarrow>
          r = inum \<and> (\<exists>u. cache.holds s u f \<and> t = set_Poffset (of_nat pos) u)
      | None \<Rightarrow>
          r = (if case_dependent (hnd s) then 0 else equiv_lookup s f pinum rss name) \<and>
          (\<exists>u pos. cache.holds s u f \<and> (t = u \<or> t = set_Poffset pos u)))"

lemma name_found_wp:
  "wp (Some (name_found k m off t)) Q = (let i = d_ino (frag_buf t m) off in
     Q i (if i \<noteq> 0 then set_Poffset (of_nat (k * FSIZE t + off)) t else t))"
  by (simp add: name_found_def Let_def)

lemma dir_scan_equiv:
  "dir_records b bend off rs \<Longrightarrow> dir_scan (record_equiv name b) (\<lambda>n. False) b bend off =
    Some (case find (record_equiv name b) rs of None \<Rightarrow> End | Some r \<Rightarrow> Found r)"
  by (rule dir_scan_find) simp_all

lemma dir_name_search_list:
  assumes h: "cache.holds s0 s f" and d: "dir_ok s0 f pinum rss"
  shows "wp (dir_name_search pinum name s) (name_result s0 f pinum rss name)"
proof -
  define g where "g = (\<lambda>k. find (has_name name (file_frag s0 f pinum k)) (rss ! k))"
  define n where "n = length rss"
  define e where "e = equiv_in s0 f pinum rss name"
  have search: "wp (dir_search (\<lambda>b bend. dir_scan (has_name name b) (\<lambda>n. too_long n \<or> n = 0) b bend 0)
        [0..<n] pinum n (dir_rest s0 f pinum) t)
      (\<lambda>r t. cache.holds s0 t f \<and>
        (case find (\<lambda>k. g k \<noteq> None) [0..<n] of None \<Rightarrow> r = Miss
         | Some k \<Rightarrow> \<exists>m. r = Hit k m (the (g k)) \<and> frag_buf t m = file_frag s0 f pinum k \<and>
             in_newest t m (file_frag_addr s0 f pinum (of_nat k))))"
    if "cache.holds s0 t f" for t
    by (rule dir_search_finds [OF that])
      (use d in \<open>auto simp: dir_ok_def n_def g_def intro!: dir_scan_name\<close>)
  have equiv: "wp (dir_search (\<lambda>b bend. dir_scan (record_equiv name b) (\<lambda>n. False) b bend 0)
        (rev [0..<n]) pinum n (dir_rest s0 f pinum) t)
      (\<lambda>r t. cache.holds s0 t f \<and>
        (case find (\<lambda>k. e k \<noteq> None) (rev [0..<n]) of None \<Rightarrow> r = Miss
         | Some k \<Rightarrow> \<exists>m. r = Hit k m (the (e k)) \<and> frag_buf t m = file_frag s0 f pinum k \<and>
             in_newest t m (file_frag_addr s0 f pinum (of_nat k))))"
    if "cache.holds s0 t f" for t
    by (rule dir_search_finds [OF that])
      (use d in \<open>auto simp: dir_ok_def n_def e_def equiv_in_def intro!: dir_scan_equiv\<close>)
  have lookup: "map_of (dir_list s0 f pinum rss) name =
      (case find (\<lambda>k. g k \<noteq> None) [0..<n] of None \<Rightarrow> None
       | Some k \<Rightarrow> (case g k of None \<Rightarrow> None
           | Some r \<Rightarrow> Some (k * FSIZE s0 + r, d_ino (file_frag s0 f pinum k) r)))"
    unfolding map_of_dir_list g_def n_def ..
  have nz: "d_ino (file_frag s0 f pinum k) r \<noteq> 0" if "g k = Some r" for k r
    using that by (auto simp: g_def find_Some_iff has_name_def)
  have dir: "valid_frag s0 (fst (inode_slot (sb s0) pinum 0))" "is_dir s0 f pinum"
    "dir_frags s0 f pinum = n" using d by (simp_all add: dir_ok_def n_def)
  show ?thesis
    unfolding dir_name_search_def wp_bind record_equiv_def [symmetric]
    apply (rule wp_inode_frag [OF h dir(1)])
    subgoal premises prems for m t
      unfolding split Option.bind.simps inode_ptr [OF prems] Let_def wp_bind
      apply (simp add: dir)
      apply (rule wp_mono [OF search [OF prems(1)]])
      subgoal premises res for r u
      proof (cases "find (\<lambda>k. g k \<noteq> None) [0..<n]")
        case None
        then have u: "r = Miss" "cache.holds s0 u f" using res by simp_all
        have none: "map_of (dir_list s0 f pinum rss) name = None" using None lookup by simp
        have eq: "name_result s0 f pinum rss name i v"
          if "i = equiv_lookup s0 f pinum rss name" "cache.holds s0 w f"
            "v = w \<or> v = set_Poffset pos w" "\<not> case_dependent (hnd s0)" for i v w pos
          using that none by (auto simp: name_result_def)
        show ?thesis
        proof (cases "case_dependent (hnd s0)")
          case True
          then show ?thesis
            using u none holds_fields(2) [OF u(2)] by (auto simp: name_result_def)
        next
          case cf: False
          have "wp (dir_search (\<lambda>b bend. dir_scan (record_equiv name b) (\<lambda>n. False) b bend 0)
              (rev [0..<n]) pinum n (dir_rest s0 f pinum) u) (\<lambda>r u. wp (case r of
                Hit k n off \<Rightarrow> Some (name_found k n off u) | Miss \<Rightarrow> Some (0, u) | _ \<Rightarrow> None)
              (name_result s0 f pinum rss name))"
            apply (rule wp_mono [OF equiv [OF u(2)]])
            subgoal premises res for r v
            proof (cases "find (\<lambda>k. e k \<noteq> None) (rev [0..<n])")
              case None
              then show ?thesis
                using res eq [of 0 v v] cf by (simp add: equiv_lookup_def e_def n_def)
            next
              case (Some k)
              then obtain m where m: "r = Hit k m (the (e k))" "frag_buf v m = file_frag s0 f pinum k"
                "cache.holds s0 v f" using res by auto
              have "equiv_lookup s0 f pinum rss name = d_ino (file_frag s0 f pinum k) (the (e k))"
                using Some by (simp add: equiv_lookup_def e_def n_def)
              then have "name_result s0 f pinum rss name (d_ino (frag_buf v m) (the (e k))) w"
                if "w = v \<or> w = set_Poffset pos v" for w pos
                using eq [OF _ m(3) that cf] m(2) by simp
              then show ?thesis unfolding m(1) search.case name_found_wp Let_def
                by (split if_split) blast
            qed
            done
          then show ?thesis using u(1) cf holds_fields(2) [OF u(2)]
            by (simp add: dir cong: search.case_cong)
        qed
      next
        case (Some k)
        then obtain m where m: "r = Hit k m (the (g k))" "frag_buf u m = file_frag s0 f pinum k"
          "cache.holds s0 u f" using res by auto
        obtain off where "g k = Some off" using find_upt_bound [OF Some] by auto
        then show ?thesis
          using Some m nz FSIZE_holds [OF m(3)]
          by (auto simp: name_found_wp name_result_def lookup Let_def)
      qed
      done
    done
qed

lemma file_frag_bend:
  assumes "cache.holds s0 s f" "dir_ok s0 f inum rss" "k < length rss"
  shows "dir_bend s0 (length rss) (dir_rest s0 f inum) k \<le> length (file_frag s0 f inum k)"
    "length (file_frag s0 f inum k) = FSIZE s0"
proof -
  have "valid_frag s0 (file_frag_addr s0 f inum (of_nat k))"
    using assms(2,3) by (simp add: dir_ok_def readable_frag_def)
  from cache.length_from [OF assms(1) this]
  show len: "length (file_frag s0 f inum k) = FSIZE s0" by (simp add: file_frag_def FSIZE_def)
  have "fsize (hnd s0) \<noteq> 0" using assms(2) by (simp add: dir_ok_def)
  then have "dir_rest s0 f inum \<le> FSIZE s0"
    by (simp add: dir_rest_def FSIZE_def unat_mod unat_gt_0 less_imp_le)
  then show "dir_bend s0 (length rss) (dir_rest s0 f inum) k \<le> length (file_frag s0 f inum k)"
    by (simp add: dir_bend_def len)
qed

section \<open>Adding a name\<close>

text \<open>The pointer to a directory frag survives the walk to a direct block.\<close>

lemma ridisk_frag_keeps:
  assumes h: "cache.holds s0 s f" and r: "readable_frag s0 f inum k"
    and direct: "file_blk_num (sb s0) (of_nat k) < 12" and n: "in_newest s n a"
  shows "wp (ridisk_frag (of_nat k) inum s) (\<lambda>r t. in_node t n a)"
proof -
  define i where "i = (if inum = 0 then 2 else inum)"
  have sb: "sb s = sb s0" by (rule holds_fields [OF h])
  have "valid_frag s0 (fst (inode_slot (sb s0) inum 0))"
    using r frags_valid_inode by (auto simp: readable_frag_def)
  then have v: "valid_frag s (inode_frag (sb s) i)"
    using h by (simp add: inode_slot_def Let_def i_def sb cache.holds_def)
  have "wp (cache_frag (inode_frag (sb s) i) s) (\<lambda>r t. (in_node t n a \<and> r \<noteq> None) \<and> sb t = sb s)"
  proof (intro wp_conj)
    show "wp (cache_frag (inode_frag (sb s) i) s) (\<lambda>r t. in_node t n a)"
      by (rule cache_frag_keeps [OF n v])
    have m: "mounted s" using h by (simp add: cache.holds_def)
    show "wp (cache_frag (inode_frag (sb s) i) s) (\<lambda>r t. r \<noteq> None)"
      "wp (cache_frag (inode_frag (sb s) i) s) (\<lambda>r t. sb t = sb s)"
      by (rule cache.wp_get [OF m v]; simp add: holds_fields)+
  qed
  then have "wp (inode_read inum s) (\<lambda>r t. (in_node t n a \<and> r \<noteq> None) \<and> sb t = sb s)"
    unfolding inode_read_def Let_def i_def [symmetric] wp_bind by (rule wp_mono) auto
  then show ?thesis
    unfolding ridisk_frag_def wp_bind
    by (rule wp_mono) (use direct sb in \<open>auto simp: Let_def split: option.splits\<close>)
qed

definition room_in :: "fsys \<Rightarrow> (u32 \<Rightarrow> bytes) \<Rightarrow> u32 \<Rightarrow> nat list list \<Rightarrow> bytes \<Rightarrow> nat \<Rightarrow> nat option" where
  "room_in s f inum rss name k = find (has_room name (file_frag s f inum k)) (rss ! k)"

lemma dir_create_room:
  assumes h: "cache.holds s0 s f" and d: "dir_ok s0 f pinum rss" and "2 \<le> pinum"
    and k: "find (\<lambda>k. room_in s0 f pinum rss name k \<noteq> None) [0..<length rss] = Some k"
      "room_in s0 f pinum rss name k = Some off"
    and direct: "file_blk_num (sb s0) (of_nat k) < 12" and name: "name_ok name" "inum \<noteq> 0"
  shows "wp (dir_create pinum name inum ty s) (\<lambda>r t.
    r = of_nat (FSIZE s0 * k + off + UFS_DIRSIZ (file_frag s0 f pinum k) off) \<and>
    cache.holds s0 t (f(file_frag_addr s0 f pinum (of_nat k) :=
      split_record (bsd44fs (hnd s0)) name inum ty off (file_frag s0 f pinum k))))"
    (is "wp _ ?Q")
proof -
  define n where "n = length rss"
  define g where "g = room_in s0 f pinum rss name"
  define a where "a = file_frag_addr s0 f pinum (of_nat k)"
  let ?b = "file_frag s0 f pinum k"
  have kn: "k < n" using find_upt_bound [OF k(1)] by (simp add: n_def)
  have rk: "readable_frag s0 f pinum k" using d kn by (simp add: dir_ok_def n_def)
  then have va: "valid_frag s0 a" by (simp add: readable_frag_def a_def)
  have search: "wp (dir_search (\<lambda>b bend. dir_scan (has_room name b) too_long b bend 0)
        [0..<n] pinum n (dir_rest s0 f pinum) t)
      (\<lambda>r t. cache.holds s0 t f \<and>
        (case find (\<lambda>k. g k \<noteq> None) [0..<n] of None \<Rightarrow> r = Miss
         | Some k \<Rightarrow> \<exists>m. r = Hit k m (the (g k)) \<and> frag_buf t m = file_frag s0 f pinum k \<and>
             in_newest t m (file_frag_addr s0 f pinum (of_nat k))))"
    if "cache.holds s0 t f" for t
    by (rule dir_search_finds [OF that])
      (use d in \<open>auto simp: dir_ok_def n_def g_def room_in_def intro!: dir_scan_room\<close>)
  have walk: "wp (ridisk_frag (of_nat k) pinum t) (\<lambda>r u. r = a \<and> cache.holds s0 u f \<and> in_node u m a)"
    if "cache.holds s0 t f" "in_newest t m a" for t m
  proof -
    have "wp (ridisk_frag (of_nat k) pinum t) (\<lambda>r u. (cache.holds s0 u f \<and> r = a) \<and> in_node u m a)"
      unfolding a_def
      by (intro wp_conj ridisk_frag_reads ridisk_frag_keeps [OF that(1) rk direct])
        (use that rk in \<open>simp_all add: readable_frag_def a_def\<close>)
    then show ?thesis by (rule wp_mono) simp
  qed
  have wr: "wp (cache_frag_write a True t) (\<lambda>r u. r = Some m \<and> frag_buf u m = ?b \<and>
      (\<forall>bs. length bs = length ?b \<longrightarrow> cache.holds s0 (set_frag_buf m bs u) (f(a := bs))))"
    if t: "cache.holds s0 t f" "in_node t m a" for t m
  proof -
    have "mounted t" "valid_frag t a" using t(1) va by (simp_all add: cache.holds_def)
    note node = cache_frag_write_node [OF this t(2), of True]
    have len: "length ?b = rest_fsize (fs_rest s0)"
      using cache.length_from [OF t(1) va] by (simp add: file_frag_def a_def)
    have "wp (cache_frag_write a True t) (\<lambda>r u. r = Some m \<and> (\<exists>n. r = Some n \<and> frag_buf u n = ?b \<and>
        (\<forall>bs. length bs = length ?b \<longrightarrow> cache.holds s0 (set_frag_buf n bs u) (f(a := bs)))))"
      by (rule wp_conj [OF node], rule cache.wp_get_write_from [OF t(1) va])
        (use len in \<open>auto simp: file_frag_def a_def\<close>)
    then show ?thesis by (rule wp_mono) auto
  qed
  have dir: "valid_frag s0 (fst (inode_slot (sb s0) pinum 0))" "is_dir s0 f pinum"
    "dir_frags s0 f pinum = n" using d by (simp_all add: dir_ok_def n_def)
  have np: "\<not> pinum < 2" using assms(3) by simp
  have len: "length (split_record (bsd44fs (hnd s0)) name inum ty off ?b) = length ?b"
  proof -
    have off: "off \<in> set (rss ! k)" "has_room name ?b off"
      using k(2) by (auto simp: room_in_def find_Some_iff)
    then obtain xs ys where rs: "rss ! k = xs @ off # ys" by (meson split_list)
    have "dir_records ?b (dir_bend s0 n (dir_rest s0 f pinum) k) 0 (xs @ off # ys)"
      using dir_okD(2) [OF d] kn unfolding n_def rs [symmetric] by blast
    from split_record_records [OF this _ off(2) name] show ?thesis
      using file_frag_bend [OF h d] kn by (simp add: n_def)
  qed
  show ?thesis
    unfolding dir_create_def if_not_P [OF np] wp_bind
    apply (rule wp_inode_frag [OF h dir(1)])
    subgoal premises prems for m t
      unfolding split Option.bind.simps inode_ptr [OF prems] Let_def wp_bind
      apply (simp add: dir)
      apply (rule wp_mono [OF search [OF prems(1)]])
      subgoal premises res for r u
      proof -
        obtain m where r: "r = Hit k m off" and u: "cache.holds s0 u f" "in_newest u m a"
          using res k by (auto simp: g_def n_def a_def)
        show ?thesis
          unfolding r search.case wp_bind
          apply (rule wp_mono [OF walk [OF u]])
          apply (clarsimp simp: FSIZE_holds)
          apply (rule wp_mono [OF wr])
            apply assumption+
          apply (clarsimp simp: upd_buf_def len a_def [symmetric] holds_fields)
          subgoal premises prems for u v
          proof -
            have "cache.holds s0 (set_frag_buf m ?b v) (f(a := ?b))" using prems by blast
            then have "hnd v = hnd s0" using holds_fields(2) by (fastforce simp: set_frag_buf_def)
            then show ?thesis using prems len by (simp add: FSIZE_def)
          qed
          done
      qed
      done
    done
qed

section \<open>A directory after a change of one frag\<close>

text \<open>The frags of a directory are different from each other, and none of them holds a pointer
  of its tree.\<close>

definition dir_separate :: "fsys \<Rightarrow> (u32 \<Rightarrow> bytes) \<Rightarrow> u32 \<Rightarrow> nat \<Rightarrow> bool" where
  "dir_separate s f inum n \<longleftrightarrow>
     (\<forall>k < n. \<forall>j < n.
        (\<forall>p \<in> set (file_slots s f inum (file_blk_num (sb s) (of_nat j))).
           fst p \<noteq> file_frag_addr s f inum (of_nat k)) \<and>
        (j \<noteq> k \<longrightarrow> file_frag_addr s f inum (of_nat j) \<noteq> file_frag_addr s f inum (of_nat k)))"

lemma slots_other:
  assumes "\<forall>p \<in> set (file_slots s f inum b). fst p \<noteq> a"
  shows "file_slots s (f(a := bs)) inum b = file_slots s f inum b"
    "file_blk_num (sb s) ffn = b \<Longrightarrow>
      file_frag_addr s (f(a := bs)) inum ffn = file_frag_addr s f inum ffn"
    "frag_word (f(a := bs)) (inode_slot (sb s) inum field) = frag_word f (inode_slot (sb s) inum field)"
proof -
  have w: "frag_word (f(a := bs)) p = frag_word f p" if "fst p \<noteq> a" for p
    using that by (simp add: frag_word_def)
  show sl: "file_slots s (f(a := bs)) inum b = file_slots s f inum b"
    by (rule file_slots_cong) (use assms w in blast)
  have "last (file_slots s f inum b) \<in> set (file_slots s f inum b)"
    using file_slots_hd [of s f inum b] by auto
  then show "file_frag_addr s (f(a := bs)) inum ffn = file_frag_addr s f inum ffn"
    if "file_blk_num (sb s) ffn = b"
    using w assms that by (simp add: file_frag_addr_def sl)
  obtain fld ps where "file_slots s f inum b = inode_slot (sb s) inum fld # ps"
    using file_slots_hd by blast
  then have "fst (inode_slot (sb s) inum field) \<noteq> a"
    using assms inode_slot_frag [of "sb s" inum fld] inode_slot_frag [of "sb s" inum field] by auto
  then show "frag_word (f(a := bs)) (inode_slot (sb s) inum field) =
      frag_word f (inode_slot (sb s) inum field)" by (rule w)
qed

lemma dir_changed:
  assumes d: "dir_ok s f inum rss" and sep: "dir_separate s f inum (length rss)"
    and k: "k < length rss"
    and recs: "dir_records bs (dir_bend s (length rss) (dir_rest s f inum) k) 0 rs"
  defines "f' \<equiv> f(file_frag_addr s f inum (of_nat k) := bs)"
  shows "\<And>j. j < length rss \<Longrightarrow>
      file_frag s f' inum j = (if j = k then bs else file_frag s f inum j)"
    and "dir_ok s f' inum (rss[k := rs])" "dir_separate s f' inum (length rss)"
proof -
  let ?a = "file_frag_addr s f inum (of_nat k)"
  have slots: "\<forall>p \<in> set (file_slots s f inum (file_blk_num (sb s) (of_nat j))). fst p \<noteq> ?a"
    if "j < length rss" for j
    using sep that k unfolding dir_separate_def by blast
  have sl: "file_slots s f' inum (file_blk_num (sb s) (of_nat j)) =
      file_slots s f inum (file_blk_num (sb s) (of_nat j))"
    and addr: "file_frag_addr s f' inum (of_nat j) = file_frag_addr s f inum (of_nat j)"
    if "j < length rss" for j
    unfolding f'_def using slots_other(1,2) [OF slots [OF that]] by blast+
  have word: "inode_word s f' inum field = inode_word s f inum field" for field
    unfolding inode_word_def f'_def using slots_other(3) [OF slots [OF k]] by blast
  show frag: "file_frag s f' inum j = (if j = k then bs else file_frag s f inum j)"
    if "j < length rss" for j
  proof -
    have "j \<noteq> k \<Longrightarrow> file_frag_addr s f inum (of_nat j) \<noteq> ?a"
      using sep that k unfolding dir_separate_def by blast
    then show ?thesis unfolding file_frag_def addr [OF that] by (auto simp: f'_def)
  qed
  obtain fld ps where hd: "file_slots s f inum (file_blk_num (sb s) (of_nat k)) =
      inode_slot (sb s) inum fld # ps" using file_slots_hd by blast
  have "fst (inode_slot (sb s) inum 0) \<noteq> ?a"
    using slots [OF k] unfolding hd by (simp add: inode_slot_frag [of _ _ fld])
  then have "is_dir s f' inum = is_dir s f inum"
    by (cases "inode_slot (sb s) inum 0") (simp add: is_dir_def f'_def)
  moreover have "dir_frags s f' inum = dir_frags s f inum" "dir_rest s f' inum = dir_rest s f inum"
    by (simp_all add: dir_frags_def dir_rest_def word)
  moreover have "readable_frag s f' inum j" if "j < length rss" for j
    using dir_okD(1) [OF d that] unfolding readable_frag_def sl [OF that] addr [OF that] .
  moreover have "dir_records (file_frag s f' inum j)
      (dir_bend s (length rss) (dir_rest s f inum) j) 0 (rss[k := rs] ! j)" if "j < length rss" for j
    using dir_okD(2) [OF d that] recs frag [OF that] k by (cases "j = k") simp_all
  ultimately show "dir_ok s f' inum (rss[k := rs])"
    using d unfolding dir_ok_def by simp
  show "dir_separate s f' inum (length rss)"
    using sep unfolding dir_separate_def by (simp add: sl addr)
qed

text \<open>The list of the directory changes at the place of the frag.\<close>

lemma dir_list_changed:
  assumes "dir_ok s f inum rss" "dir_separate s f inum (length rss)" "k < length rss"
    and "dir_records bs (dir_bend s (length rss) (dir_rest s f inum) k) 0 rs"
  shows "\<exists>before after.
    dir_list s f inum rss =
      before @ frag_list (FSIZE s) k (file_frag s f inum k) (rss ! k) @ after \<and>
    dir_list s (f(file_frag_addr s f inum (of_nat k) := bs)) inum (rss[k := rs]) =
      before @ frag_list (FSIZE s) k bs rs @ after"
proof -
  let ?f = "f(file_frag_addr s f inum (of_nat k) := bs)"
  define e where "e = (\<lambda>g rs j. frag_list (FSIZE s) j (file_frag s g inum j) (rs ! j))"
  have sp: "[0..<length rss] = [0..<k] @ k # [Suc k..<length rss]"
    using assms(3) upt_add_eq_append [of 0 k "length rss - k"] by (simp add: upt_conv_Cons)
  have same: "e ?f (rss[k := rs]) j = e f rss j" if "j < length rss" "j \<noteq> k" for j
    unfolding e_def dir_changed(1) [OF assms that(1)] using that by simp
  have at: "e ?f (rss[k := rs]) k = frag_list (FSIZE s) k bs rs"
    unfolding e_def dir_changed(1) [OF assms assms(3)] using assms(3) by simp
  have "map (e ?f (rss[k := rs])) [0..<length rss] =
      map (e f rss) [0..<k] @ frag_list (FSIZE s) k bs rs # map (e f rss) [Suc k..<length rss]"
    unfolding sp using same at assms(3) by auto
  moreover have "map (e f rss) [0..<length rss] =
      map (e f rss) [0..<k] @ e f rss k # map (e f rss) [Suc k..<length rss]"
    unfolding sp by simp
  ultimately show ?thesis
    unfolding dir_list_def by (simp add: e_def [symmetric]) (simp add: e_def, blast)
qed

section \<open>Counting the entries\<close>

lemma not_empty_loop_counts:
  assumes "cache.holds s0 s f" "dir_ok s0 f inum rss" "set ks \<subseteq> {..<length rss}" "cnt \<le> 2"
  shows "wp (not_empty_loop ks inum (length rss) (dir_rest s0 f inum) cnt s) (\<lambda>r t.
    cache.holds s0 t f \<and>
    r = (2 < cnt + length (concat (map (\<lambda>k. dir_entries (file_frag s0 f inum k) (rss ! k)) ks))))"
  using assms
proof (induction ks arbitrary: s cnt)
  case Nil
  then show ?case by simp
next
  case (Cons k ks)
  have k: "k < length rss" using Cons.prems(3) by simp
  let ?es = "dir_entries (file_frag s0 f inum k) (rss ! k)"
  note count = count_scan_tally [OF dir_okD(2) [OF Cons.prems(2) k], of cnt]
  show ?case
    unfolding not_empty_loop.simps wp_bind split
    apply (rule wp_read_file_frag [OF Cons.prems(1) dir_okD(1) [OF Cons.prems(2) k]])
    subgoal premises prems for n t
    proof (cases "2 < length ?es + cnt \<and> ?es \<noteq> []")
      case True
      then show ?thesis using prems(1,2) count by (simp add: dir_bend_holds)
    next
      case False
      then have "length ?es + cnt \<le> 2" using Cons.prems(4) by (cases ?es) auto
      then show ?thesis
        using Cons.IH [OF prems(1) Cons.prems(2), of "length ?es + cnt"] Cons.prems(3) prems(1,2)
          count False
        by (auto simp: dir_bend_holds algebra_simps cong: conj_cong)
    qed
    done
qed

lemma dir_is_not_empty_counts:
  assumes h: "cache.holds s0 s f" and d: "dir_ok s0 f inum rss"
  shows "wp (dir_is_not_empty inum s) (\<lambda>r t. cache.holds s0 t f \<and>
    r = (2 < length (dir_list s0 f inum rss)))"
proof -
  have dir: "valid_frag s0 (fst (inode_slot (sb s0) inum 0))" "is_dir s0 f inum"
    "dir_frags s0 f inum = length rss" using d by (simp_all add: dir_ok_def)
  have len: "length (dir_list s0 f inum rss) =
      length (concat (map (\<lambda>k. dir_entries (file_frag s0 f inum k) (rss ! k)) [0..<length rss]))"
    by (simp add: dir_list_def frag_list_def length_concat comp_def)
  show ?thesis
    unfolding dir_is_not_empty_def wp_bind
    apply (rule wp_inode_frag [OF h dir(1)])
    subgoal premises prems for m t
      using not_empty_loop_counts [OF prems(1) d, of "[0..<length rss]" 0]
      by (simp add: inode_ptr [OF prems] dir len atLeast0LessThan)
    done
qed

text \<open>The directory \<open>inum\<close> has more entries than its own name and that of its parent; a file of
  another kind has none.\<close>

definition occupied :: "fsys \<Rightarrow> (u32 \<Rightarrow> bytes) \<Rightarrow> u32 \<Rightarrow> nat list list \<Rightarrow> bool" where
  "occupied s f inum rss \<longleftrightarrow> is_dir s f inum \<and> 2 < length (dir_list s f inum rss)"

text \<open>What \<open>dir_offset_delete\<close> may rely on when it looks whether the entry is an empty directory:
  the inode is inside of the partition, and a directory is well formed.\<close>

definition checkable :: "fsys \<Rightarrow> (u32 \<Rightarrow> bytes) \<Rightarrow> u32 \<Rightarrow> nat list list \<Rightarrow> bool" where
  "checkable s f inum rss \<longleftrightarrow> valid_frag s (fst (inode_slot (sb s) inum 0)) \<and>
     (is_dir s f inum \<longrightarrow> dir_ok s f inum rss)"

lemma dir_is_not_empty_occupied:
  assumes h: "cache.holds s0 s f" and c: "checkable s0 f inum rss"
  shows "wp (dir_is_not_empty inum s) (\<lambda>r t. cache.holds s0 t f \<and> r = occupied s0 f inum rss)"
proof (cases "is_dir s0 f inum")
  case True
  then show ?thesis
    using dir_is_not_empty_counts [OF h] c by (simp add: checkable_def occupied_def)
next
  case False
  then show ?thesis
    unfolding dir_is_not_empty_def wp_bind
    apply (intro wp_inode_frag [OF h])
    subgoal using c by (simp add: checkable_def)
    subgoal premises prems for m t
      using prems(1,2,3) by (simp add: inode_ptr [OF prems(2,3)] occupied_def)
    done
qed

section \<open>Removing a name\<close>

lemma dir_offset_delete_at:
  assumes h: "cache.holds s0 s f" and d: "dir_ok s0 f pinum rss" and k: "k < length rss"
    and rs: "rss ! k = xs @ r # ys" and off: "unat offset = k * FSIZE s0 + r" "offset \<noteq> 0"
      "offset \<le> inode_word s0 f pinum ic_size"
    and check: "check \<Longrightarrow> checkable s0 f (d_ino (file_frag s0 f pinum k) r) rss'"
    and refuse: "refuse = (check \<and> occupied s0 f (d_ino (file_frag s0 f pinum k) r) rss')"
  shows "\<exists>b' rs'. dir_records b' (dir_bend s0 (length rss) (dir_rest s0 f pinum) k) 0 rs' \<and>
    dir_entries b' rs' = dir_entries (file_frag s0 f pinum k) (xs @ ys) \<and>
    wp (dir_offset_delete pinum offset check s) (\<lambda>i t. if refuse
        then i = 0 \<and> (\<exists>u. cache.holds s0 u f \<and> t = set_Res2 ERROR_DIRECTORY_NOT_EMPTY u)
        else i = d_ino (file_frag s0 f pinum k) r \<and>
          cache.holds s0 t (f(file_frag_addr s0 f pinum (of_nat k) := b')))"
proof -
  define n where "n = length rss"
  define a where "a = file_frag_addr s0 f pinum (of_nat k)"
  let ?b = "file_frag s0 f pinum k" and ?bend = "dir_bend s0 n (dir_rest s0 f pinum) k"
  have bend: "?bend \<le> length ?b" "length ?b = FSIZE s0"
    using file_frag_bend [OF h d k] by (simp_all add: n_def)
  have FS: "0 < FSIZE s0" "FSIZE s0 < 2 ^ 32"
    using d unsigned_less [of "fsize (hnd s0)"] by (simp_all add: dir_ok_def FSIZE_def unat_gt_0)
  have recs: "dir_records ?b ?bend 0 (xs @ r # ys)"
    using dir_okD(2) [OF d k] unfolding rs n_def .
  have r: "r < FSIZE s0" using dir_records_range [OF recs, of r] bend by simp
  have first: "unat (offset div fsize (hnd s0)) = k"
    using off(1) r FS(1) by (simp add: unat_div FSIZE_def)
  have base: "offset = offset div fsize (hnd s0) * fsize (hnd s0) + of_nat r"
  proof -
    have "offset div fsize (hnd s0) * fsize (hnd s0) + offset mod fsize (hnd s0) = offset"
      by (rule word_mod_div_equality)
    moreover have "r = unat (offset mod fsize (hnd s0))"
      using off(1) r by (simp add: unat_mod FSIZE_def)
    ultimately show ?thesis by simp
  qed
  have bl: "?bend < 2 ^ 32" using bend FS by simp
  obtain prv b' rs' where del: "delete_scan offset ?b ?bend 0 0 None
      (offset div fsize (hnd s0) * fsize (hnd s0)) = Some (At r prv)"
    "remove_record r prv ?b = Some b'" "dir_records b' ?bend 0 rs'"
    "dir_entries b' rs' = dir_entries ?b (xs @ ys)" "length b' = length ?b"
    using delete_record [OF recs bend(1) bl,
        of "offset div fsize (hnd s0) * fsize (hnd s0)", unfolded base [symmetric]] by blast
  have rk: "readable_frag s0 f pinum k" by (rule dir_okD(1) [OF d k])
  then have va: "valid_frag s0 a" by (simp add: readable_frag_def a_def)
  have dir: "valid_frag s0 (fst (inode_slot (sb s0) pinum 0))" "dir_frags s0 f pinum = n"
    using d by (simp_all add: dir_ok_def n_def)
  have len: "length ?b = rest_fsize (fs_rest s0)"
    using cache.length_from [OF h va] by (simp add: file_frag_def a_def)
  have upt: "[k..<n] = k # [Suc k..<n]" using k by (simp add: n_def upt_conv_Cons)
  have full: "wp (if check then dir_is_not_empty (d_ino ?b r) t else Some (False, t))
      (\<lambda>full t. cache.holds s0 t f \<and> full = refuse)" if "cache.holds s0 t f" for t
    using dir_is_not_empty_occupied [OF that check] that refuse by simp
  have "wp (dir_offset_delete pinum offset check s) (\<lambda>i t. if refuse
        then i = 0 \<and> (\<exists>u. cache.holds s0 u f \<and> t = set_Res2 ERROR_DIRECTORY_NOT_EMPTY u)
        else i = d_ino ?b r \<and> cache.holds s0 t (f(a := b')))"
    unfolding dir_offset_delete_def wp_bind
    apply (rule wp_inode_frag [OF h dir(1)])
    subgoal premises prems for m t
    proof -
      note ptr = inode_ptr [OF prems] holds_fields [OF prems(1)] IC_SIZE_def
      have o: "\<not> (offset = 0 \<or> inode_word s0 f pinum ic_size < offset)" using off by auto
      have scan: "delete_scan offset (frag_buf u m) (dir_bend u n (dir_rest s0 f pinum) k) 0 0 None
          (offset div fsize (hnd s0) * fsize (hnd s0)) = Some (At r prv)"
        if "cache.holds s0 u f" "frag_buf u m = ?b" for u m
        using del(1) that dir_bend_holds [OF that(1)] by simp
      show ?thesis
        unfolding split option.case Let_def ptr dir(2) if_not_P [OF o] first upt delete_search.simps
          wp_bind
        apply (rule wp_read_file_frag [OF prems(1) rk])
        apply (simp only: scan dir_bend_holds del(1) a_def [symmetric] wp_bind wp_Some split
            Option.bind.simps option.case del_scan.case del_search.case Let_def)
        apply (rule wp_mono [OF full], assumption)
        apply (case_tac refuse)
        subgoal by auto
        apply (simp add: a_def [symmetric])
        apply (erule conjE, erule cache.wp_get_write_from [OF _ va])
        apply (simp add: file_frag_def a_def [symmetric] del(2) [unfolded file_frag_def, folded a_def])
        using del(5) len by (simp add: file_frag_def a_def [symmetric])
    qed
    done
  then show ?thesis using del(3,4) unfolding n_def a_def by blast
qed

section \<open>The changes of the map\<close>

lemma map_of_insert:
  "x \<notin> fst ` set (u @ v) \<Longrightarrow> map_of (u @ (x, y) # v) = (map_of (u @ v))(x \<mapsto> y)"
proof (induction u)
  case (Cons a u)
  then have "fst a \<noteq> x" by auto
  then show ?case using Cons by (auto simp: fun_eq_iff)
qed simp

lemma map_of_delete:
  "distinct (map fst (u @ (x, y) # v)) \<Longrightarrow> map_of (u @ v) = (map_of (u @ (x, y) # v))(x := None)"
proof (induction u)
  case Nil
  then have "map_of v x = None" by (simp add: map_of_eq_None_iff)
  then show ?case by (auto simp: fun_eq_iff)
next
  case (Cons a u)
  then have "fst a \<noteq> x" by auto
  then show ?case using Cons by (auto simp: fun_eq_iff)
qed

lemma dir_create_map:
  assumes "mounted s" "dir_ok s (view s) pinum rss" "dir_separate s (view s) pinum (length rss)"
    and "2 \<le> pinum" "name_ok name" "inum \<noteq> 0"
    and "name \<notin> fst ` set (dir_list s (view s) pinum rss)"
    and "find (\<lambda>k. room_in s (view s) pinum rss name k \<noteq> None) [0..<length rss] = Some k"
    and "file_blk_num (sb s) (of_nat k) < 12"
  shows "\<exists>f rss' pos. dir_ok s f pinum rss' \<and> dir_separate s f pinum (length rss') \<and>
    map_of (dir_list s f pinum rss') = (map_of (dir_list s (view s) pinum rss))(name \<mapsto> (pos, inum)) \<and>
    (\<forall>a. a \<noteq> file_frag_addr s (view s) pinum (of_nat k) \<longrightarrow> f a = view s a) \<and>
    wp (dir_create pinum name inum ty s) (\<lambda>r t. r = of_nat pos \<and> cache.holds s t f)"
proof -
  have h: "cache.holds s s (view s)" by (rule cache.holds_refl [OF assms(1)])
  let ?b = "file_frag s (view s) pinum k" and ?a = "file_frag_addr s (view s) pinum (of_nat k)"
  obtain off where off: "room_in s (view s) pinum rss name k = Some off" and k: "k < length rss"
    using find_upt_bound [OF assms(8)] by auto
  then have room: "off \<in> set (rss ! k)" "has_room name ?b off"
    by (auto simp: room_in_def find_Some_iff)
  obtain xs ys where rs: "rss ! k = xs @ off # ys" using room(1) by (meson split_list)
  let ?bend = "dir_bend s (length rss) (dir_rest s (view s) pinum) k"
  let ?b' = "split_record (bsd44fs (hnd s)) name inum ty off ?b"
  let ?rs = "xs @ off # (off + UFS_DIRSIZ ?b off) # ys"
  have "dir_records ?b ?bend 0 (xs @ off # ys)" using dir_okD(2) [OF assms(2) k] unfolding rs .
  from split_record_records [OF this file_frag_bend(1) [OF h assms(2) k] room(2) assms(5,6)]
  have recs: "dir_records ?b' ?bend 0 ?rs"
    and ents: "dir_entries ?b' ?rs = dir_entries ?b (xs @ [off]) @
      (name, off + UFS_DIRSIZ ?b off, inum) # dir_entries ?b ys" by blast+
  note new = dir_changed(2,3) [OF assms(2,3) k recs]
  obtain u v where uv: "dir_list s (view s) pinum rss =
      u @ frag_list (FSIZE s) k ?b (rss ! k) @ v"
    "dir_list s ((view s)(?a := ?b')) pinum (rss[k := ?rs]) = u @ frag_list (FSIZE s) k ?b' ?rs @ v"
    using dir_list_changed [OF assms(2,3) k recs] by blast
  let ?pos = "FSIZE s * k + off + UFS_DIRSIZ ?b off"
  let ?u = "u @ frag_list (FSIZE s) k ?b (xs @ [off])" and ?v = "frag_list (FSIZE s) k ?b ys @ v"
  have "dir_list s (view s) pinum rss = ?u @ ?v"
    unfolding uv(1) rs by (simp add: frag_list_def)
  moreover have "dir_list s ((view s)(?a := ?b')) pinum (rss[k := ?rs]) = ?u @ (name, ?pos, inum) # ?v"
    unfolding uv(2) by (simp add: frag_list_def ents algebra_simps del: dir_entries_simps)
  ultimately have "map_of (dir_list s ((view s)(?a := ?b')) pinum (rss[k := ?rs])) =
      (map_of (dir_list s (view s) pinum rss))(name \<mapsto> (?pos, inum))"
    using map_of_insert [of name ?u ?v "(?pos, inum)"] assms(7) by simp
  moreover have "wp (dir_create pinum name inum ty s) (\<lambda>r t. r = of_nat ?pos \<and>
      cache.holds s t ((view s)(?a := ?b')))"
    by (rule dir_create_room [OF h assms(2,4,8) off assms(9,5,6)])
  ultimately show ?thesis using new
    by (intro exI [of _ "(view s)(?a := ?b')"] exI [of _ "rss[k := ?rs]"] exI [of _ ?pos]) simp
qed

lemma dir_offset_delete_map:
  assumes "mounted s" "dir_ok s (view s) pinum rss" "dir_separate s (view s) pinum (length rss)"
    and "distinct (map fst (dir_list s (view s) pinum rss))"
    and "map_of (dir_list s (view s) pinum rss) name = Some (unat offset, inum)"
    and "offset \<noteq> 0" "offset \<le> inode_word s (view s) pinum ic_size"
    and "check \<Longrightarrow> checkable s (view s) inum rss2"
  shows "\<exists>f rss'. dir_ok s f pinum rss' \<and> dir_separate s f pinum (length rss') \<and>
    map_of (dir_list s f pinum rss') = (map_of (dir_list s (view s) pinum rss))(name := None) \<and>
    wp (dir_offset_delete pinum offset check s) (\<lambda>r t.
      if check \<and> occupied s (view s) inum rss2
      then r = 0 \<and> (\<exists>u. cache.holds s u (view s) \<and> t = set_Res2 ERROR_DIRECTORY_NOT_EMPTY u)
      else r = inum \<and> cache.holds s t f)"
proof -
  have h: "cache.holds s s (view s)" by (rule cache.holds_refl [OF assms(1)])
  have "(name, unat offset, inum) \<in> set (dir_list s (view s) pinum rss)"
    using assms(5) by (rule map_of_SomeD)
  then obtain k r where k: "k < length rss" and r: "r \<in> set (rss ! k)"
    "d_ino (file_frag s (view s) pinum k) r = inum" "inum \<noteq> 0"
    "d_name (file_frag s (view s) pinum k) r = name" "unat offset = k * FSIZE s + r"
    by (auto simp: dir_list_def frag_list_def dir_entries_def split: if_splits)
  obtain xs ys where rs: "rss ! k = xs @ r # ys" using r(1) by (meson split_list)
  let ?b = "file_frag s (view s) pinum k" and ?a = "file_frag_addr s (view s) pinum (of_nat k)"
  obtain b' rs' where b': "dir_records b' (dir_bend s (length rss) (dir_rest s (view s) pinum) k) 0 rs'"
    "dir_entries b' rs' = dir_entries ?b (xs @ ys)"
    "wp (dir_offset_delete pinum offset check s) (\<lambda>i t. if check \<and> occupied s (view s) inum rss2
      then i = 0 \<and> (\<exists>u. cache.holds s u (view s) \<and> t = set_Res2 ERROR_DIRECTORY_NOT_EMPTY u)
      else i = d_ino ?b r \<and> cache.holds s t ((view s)(?a := b')))"
    using dir_offset_delete_at [OF h assms(2) k rs r(5) assms(6,7), of check rss2, OF _ refl] assms(8)
    unfolding r(2) by blast
  note new = dir_changed(2,3) [OF assms(2,3) k b'(1)]
  obtain u v where uv: "dir_list s (view s) pinum rss =
      u @ frag_list (FSIZE s) k ?b (rss ! k) @ v"
    "dir_list s ((view s)(?a := b')) pinum (rss[k := rs']) = u @ frag_list (FSIZE s) k b' rs' @ v"
    using dir_list_changed [OF assms(2,3) k b'(1)] by blast
  let ?u = "u @ frag_list (FSIZE s) k ?b xs" and ?v = "frag_list (FSIZE s) k ?b ys @ v"
  have old: "dir_list s (view s) pinum rss = ?u @ (name, unat offset, inum) # ?v"
    unfolding uv(1) rs using r(2-5) by (simp add: frag_list_def)
  have "dir_list s ((view s)(?a := b')) pinum (rss[k := rs']) = ?u @ ?v"
    unfolding uv(2) by (simp add: frag_list_def b'(2))
  then have "map_of (dir_list s ((view s)(?a := b')) pinum (rss[k := rs'])) =
      (map_of (dir_list s (view s) pinum rss))(name := None)"
    using map_of_delete [of ?u name "(unat offset, inum)" ?v] assms(4) unfolding old by simp
  then show ?thesis using new b'(3) [unfolded r(2)]
    by (intro exI [of _ "(view s)(?a := b')"] exI [of _ "rss[k := rs']"]) (simp only: length_list_update simp_thms)
qed

end
