(* ===== verification/Dir_Properties.thy ===== *)
theory Dir_Properties
  imports Dir_State Tree_Properties
begin

text \<open>
  What the directory layer promises: a directory is a map from names to offsets and inode
  numbers; \<open>dir_name_search\<close> looks a name up, \<open>dir_create\<close> adds one and \<open>dir_offset_delete\<close>
  removes one, on the frags of a mounted file system.
\<close>

section \<open>A directory with two entries\<close>

definition sample_dir :: "u32 \<Rightarrow> bytes" where
  "sample_dir b =
     (if b = 32 then
        poke32 (poke32 (poke16 (replicate 512 0) 256 0x4000) 268 512) 296 304
      else if b = 304 then
        be32 2 @ be16 12 @ [4, 1, 46, 0, 0, 0] @ be32 2 @ be16 500 @ [4, 2, 46, 46, 0, 0] @
        replicate 488 0
      else replicate 512 0)"

lemma sample_dir_length: "length (sample_dir b) = 512"
  by (simp add: sample_dir_def)

abbreviation sample_root :: fsys where
  "sample_root \<equiv> opened sample_dir sample_cg"

lemmas sample_root = opened_state [of sample_dir, OF sample_dir_length, where g = sample_cg]

lemma sample_root_hnd:
  "fsize (hnd sample_root) = 512" "FSIZE sample_root = 512" "case_dependent (hnd sample_root) = False"
  "valid_frag sample_root b \<longleftrightarrow> b \<noteq> 0 \<and> b < 1024"
proof -
  obtain m where "hnd sample_root = sample_hnd\<lparr>mem_count := m\<rparr>" using sample_root(6) by blast
  then show "fsize (hnd sample_root) = 512" "FSIZE sample_root = 512"
    "case_dependent (hnd sample_root) = False"
    by (simp_all add: sample_hnd_def FSIZE_def)
  show "valid_frag sample_root b \<longleftrightarrow> b \<noteq> 0 \<and> b < 1024"
    by (rule opened_valid [of sample_dir, OF sample_dir_length])
qed

lemma sample_root_tree:
  assumes "\<And>b. b \<noteq> 0 \<Longrightarrow> f b = sample_dir b"
  shows "file_slots sample_root f 2 0 = [(32, 296)]" "file_frag_addr sample_root f 2 0 = 304"
    "inode_slot sample_sb 2 0 = (32, 256)" "inode_word sample_root f 2 ic_size = 512"
    "is_dir sample_root f 2" "file_blk_num sample_sb 0 = 0"
proof -
  have sl: "inode_slot sample_sb 2 (ic_db 0) = (32, 296)" "inode_slot sample_sb 2 0 = (32, 256)"
    "inode_slot sample_sb 2 ic_size = (32, 268)" "file_blk_num sample_sb 0 = 0" "blk_frac sample_sb 0 = 0"
    by code_simp+
  have w: "peek32 (sample_dir 32) 296 = 304" "peek32 (sample_dir 32) 268 = 512"
    "peek16 (sample_dir 32) (256 + ic_mode) AND IFMT = IFDIR" by code_simp+
  show "file_slots sample_root f 2 0 = [(32, 296)]"
    by (simp add: file_slots_def sample_root(3) sl)
  then show "file_frag_addr sample_root f 2 0 = 304"
    by (simp add: file_frag_addr_def sample_root(3) sl frag_word_def assms w)
  show "inode_slot sample_sb 2 0 = (32, 256)" "file_blk_num sample_sb 0 = 0" by (fact sl)+
  show "inode_word sample_root f 2 ic_size = 512"
    by (simp add: inode_word_def sample_root(3) sl frag_word_def assms w)
  show "is_dir sample_root f 2" by (simp add: is_dir_def sample_root(3) sl assms w)
qed

lemma sample_root_records:
  "dir_records (sample_dir 304) 512 0 [0, 12]"
  "dir_entries (sample_dir 304) [0, 12] = [([46], 0, 2), ([46, 46], 12, 2)]"
proof -
  have "record_ok (sample_dir 304) 0" "record_ok (sample_dir 304) 12"
    "d_reclen (sample_dir 304) 0 = 12" "d_reclen (sample_dir 304) 12 = 500" by code_simp+
  then show "dir_records (sample_dir 304) 512 0 [0, 12]" by (simp add: dir_records_Cons)
  have "d_ino (sample_dir 304) 0 = 2" "d_ino (sample_dir 304) 12 = 2"
    "d_name (sample_dir 304) 0 = [46]" "d_name (sample_dir 304) 12 = [46, 46]" by code_simp+
  then show "dir_entries (sample_dir 304) [0, 12] = [([46], 0, 2), ([46, 46], 12, 2)]" by simp
qed

lemma sample_root_dir:
  assumes "\<And>b. b \<noteq> 0 \<Longrightarrow> f b = sample_dir b"
  shows "dir_ok sample_root f 2 [[0, 12]]" "dir_separate sample_root f 2 1"
    "dir_list sample_root f 2 [[0, 12]] = [([46], 0, 2), ([46, 46], 12, 2)]"
proof -
  note t = sample_root_tree [of f, OF assms]
  have b: "file_frag sample_root f 2 0 = sample_dir 304" by (simp add: file_frag_def t assms)
  show "dir_ok sample_root f 2 [[0, 12]]"
    by (simp add: dir_ok_def dir_frags_def dir_rest_def dir_bend_def readable_frag_def in_reach_def
        frags_valid_def sample_root(3) sample_root_hnd t b sample_root_records)
  show "dir_separate sample_root f 2 1"
    by (simp add: dir_separate_def sample_root(3) t)
  show "dir_list sample_root f 2 [[0, 12]] = [([46], 0, 2), ([46, 46], 12, 2)]"
    by (simp add: dir_list_def frag_list_def b sample_root_records del: dir_entries_simps)
qed

lemma sample_root_room: "room_in sample_root (view sample_root) 2 [[0, 12]] [97] 0 = Some 12"
proof -
  note t = sample_root_tree [of "view sample_root", OF sample_root(2)]
  have b: "file_frag sample_root (view sample_root) 2 0 = sample_dir 304"
    by (simp add: file_frag_def t sample_root(2))
  have "\<not> has_room [97] (sample_dir 304) 0" "has_room [97] (sample_dir 304) 12"
    by code_simp+
  then show ?thesis by (simp add: room_in_def b)
qed

section \<open>Looking up\<close>

text \<open>C12: \<open>dir_name_search\<close> returns the inode number of the first record with the name, over all
  frags of the directory, and leaves its offset in the directory; without such a record it
  returns 0, or, unless case counts, what the pass that ignores case finds. The file system does
  not change.\<close>

theorem dir_name_search_finds:
  assumes "mounted s" "dir_ok s (view s) pinum rss"
  shows "wp (dir_name_search pinum name s) (name_result s (view s) pinum rss name)"
  by (rule dir_name_search_list [OF cache.holds_refl [OF assms(1)] assms(2)])

lemma dir_name_search_finds_witness:
  "wp (dir_name_search 2 [46, 46] sample_root)
     (name_result sample_root (view sample_root) 2 [[0, 12]] [46, 46]) \<and>
   map_of (dir_list sample_root (view sample_root) 2 [[0, 12]]) [46, 46] = Some (12, 2)"
  using dir_name_search_finds [OF sample_root(1) sample_root_dir(1) [of "view sample_root"], of "[46, 46]"]
    sample_root_dir(3) [of "view sample_root"] sample_root(2) by simp

section \<open>Adding\<close>

text \<open>C13: when an existing frag among the first 12 blocks of the directory has room for a new
  name, \<open>dir_create\<close> binds the name: afterwards the directory is again well formed, and its map is
  the old one with the name bound to the returned offset and the inode number. No other frag of
  the file system changes. (A directory that has to grow is not covered here; what is written
  into its new block is the theorem \<open>dir_create_new_block\<close>.)\<close>

theorem dir_create_binds:
  assumes "mounted s" "dir_ok s (view s) pinum rss" "dir_separate s (view s) pinum (length rss)"
    and "2 \<le> pinum" "name_ok name" "inum \<noteq> 0"
    and "name \<notin> fst ` set (dir_list s (view s) pinum rss)"
    and "find (\<lambda>k. room_in s (view s) pinum rss name k \<noteq> None) [0..<length rss] = Some k"
    and "file_blk_num (sb s) (of_nat k) < 12"
  shows "\<exists>f rss' pos. dir_ok s f pinum rss' \<and> dir_separate s f pinum (length rss') \<and>
    map_of (dir_list s f pinum rss') = (map_of (dir_list s (view s) pinum rss))(name \<mapsto> (pos, inum)) \<and>
    (\<forall>a. a \<noteq> file_frag_addr s (view s) pinum (of_nat k) \<longrightarrow> f a = view s a) \<and>
    wp (dir_create pinum name inum ty s) (\<lambda>r t. r = of_nat pos \<and> cache.holds s t f)"
  by (rule dir_create_map [OF assms])

lemma dir_create_binds_witness:
  "\<exists>f rss' pos. dir_ok sample_root f 2 rss' \<and> dir_separate sample_root f 2 (length rss') \<and>
    map_of (dir_list sample_root f 2 rss') =
      (map_of [([46], 0, 2), ([46, 46], 12, 2)])([97] \<mapsto> (pos, 7)) \<and>
    (\<forall>a. a \<noteq> 304 \<longrightarrow> f a = view sample_root a) \<and>
    wp (dir_create 2 [97] 7 8 sample_root) (\<lambda>r t. r = of_nat pos \<and> cache.holds sample_root t f)"
proof -
  note d = sample_root_dir [of "view sample_root", OF sample_root(2)]
  note t = sample_root_tree [of "view sample_root", OF sample_root(2)]
  show ?thesis
    using sample_root_room dir_create_binds [of sample_root 2 "[[0, 12]]" "[97]" 7 0 8] d
    by (simp add: sample_root(1,3) name_ok_def t del: map_of.simps)
qed

text \<open>C14: a search after such a \<open>dir_create\<close>, where an existing frag among the first 12 blocks has
  room, finds the new inode number under the new name and every other name of the directory as
  before. A name that the directory did not have is not found where case counts; where it does
  not, the search finds what differs in case in the new contents \<open>f\<close>, whose map is the old one with
  the new name added.\<close>

theorem dir_create_search:
  assumes "mounted s" "dir_ok s (view s) pinum rss" "dir_separate s (view s) pinum (length rss)"
    and "2 \<le> pinum" "name_ok name" "inum \<noteq> 0"
    and "name \<notin> fst ` set (dir_list s (view s) pinum rss)"
    and "find (\<lambda>k. room_in s (view s) pinum rss name k \<noteq> None) [0..<length rss] = Some k"
    and "file_blk_num (sb s) (of_nat k) < 12"
  shows "\<exists>f rss' pos. dir_ok s f pinum rss' \<and>
    map_of (dir_list s f pinum rss') = (map_of (dir_list s (view s) pinum rss))(name \<mapsto> (pos, inum)) \<and>
    wp (do { (pos, s) \<leftarrow> dir_create pinum name inum ty s; dir_name_search pinum name' s })
      (\<lambda>r t. r = (if name' = name then inum
        else case map_of (dir_list s (view s) pinum rss) name' of
            Some (pos, i) \<Rightarrow> i
          | None \<Rightarrow> if case_dependent (hnd s) then 0 else equiv_lookup s f pinum rss' name'))"
proof -
  obtain f rss' pos where new: "dir_ok s f pinum rss'" "map_of (dir_list s f pinum rss') =
      (map_of (dir_list s (view s) pinum rss))(name \<mapsto> (pos, inum))"
    and w: "wp (dir_create pinum name inum ty s) (\<lambda>r t. r = of_nat pos \<and> cache.holds s t f)"
    using dir_create_map [OF assms, of ty] by blast
  let ?r = "if name' = name then inum else case map_of (dir_list s (view s) pinum rss) name' of
      Some (pos, i) \<Rightarrow> i
    | None \<Rightarrow> if case_dependent (hnd s) then 0 else equiv_lookup s f pinum rss' name'"
  have "wp (dir_name_search pinum name' t) (\<lambda>r t. r = ?r)" if "cache.holds s t f" for t
    by (rule wp_mono [OF dir_name_search_list [OF that new(1)]])
      (auto simp: name_result_def new(2) split: option.splits if_splits)
  then have "wp (do { (pos, s) \<leftarrow> dir_create pinum name inum ty s; dir_name_search pinum name' s })
      (\<lambda>r t. r = ?r)"
    unfolding wp_bind by (intro wp_mono [OF w]) simp
  then show ?thesis using new by blast
qed

lemma dir_create_search_witness:
  "wp (do { (pos, s) \<leftarrow> dir_create 2 [97] 7 8 sample_root; dir_name_search 2 [97] s }) (\<lambda>r t. r = 7) \<and>
   wp (do { (pos, s) \<leftarrow> dir_create 2 [97] 7 8 sample_root; dir_name_search 2 [46] s }) (\<lambda>r t. r = 2)"
proof -
  note d = sample_root_dir [of "view sample_root", OF sample_root(2)]
  note t = sample_root_tree [of "view sample_root", OF sample_root(2)]
  show ?thesis
    using sample_root_room dir_create_search [of sample_root 2 "[[0, 12]]" "[97]" 7 0 8 "[97]"]
      dir_create_search [of sample_root 2 "[[0, 12]]" "[97]" 7 0 8 "[46]"] d
    by (simp add: sample_root(1,3) name_ok_def t) blast
qed

section \<open>Removing\<close>

text \<open>C15: \<open>dir_offset_delete\<close> at the offset of an entry behind the first record, in a directory
  that has every name once. With \<open>check\<close>, and an entry that is a directory with more than its own
  name and that of its parent, it fails with the error of a directory that is not empty and
  changes no contents. Else it returns the inode number of the entry and removes the name: the
  directory is again well formed, and its map is the old one without the name.\<close>

theorem dir_offset_delete_unbinds:
  assumes "mounted s" "dir_ok s (view s) pinum rss" "dir_separate s (view s) pinum (length rss)"
    and "distinct (map fst (dir_list s (view s) pinum rss))"
    and "map_of (dir_list s (view s) pinum rss) name = Some (unat offset, inum)"
    and "offset \<noteq> 0" "offset \<le> inode_word s (view s) pinum ic_size"
    and "check \<Longrightarrow> checkable s (view s) inum rss2"
  shows "\<exists>f rss'. dir_ok s f pinum rss' \<and> dir_separate s f pinum (length rss') \<and>
    map_of (dir_list s f pinum rss') = (map_of (dir_list s (view s) pinum rss))(name := None) \<and>
    wp (dir_offset_delete pinum offset check s) (\<lambda>r t.
      if check \<and> occupied s (view s) inum rss2
      then r = 0 \<and> (\<exists>u. cache.holds s u (view s) \<and> t = set_Res2 ERROR_DIRECTORY_NOT_EMPTY u)
      else r = inum \<and> cache.holds s t f)"
  by (rule dir_offset_delete_map [OF assms])

lemma dir_offset_delete_unbinds_witness:
  "\<exists>f rss'. dir_ok sample_root f 2 rss' \<and> dir_separate sample_root f 2 (length rss') \<and>
    map_of (dir_list sample_root f 2 rss') =
      (map_of [([46], 0, 2), ([46, 46], 12, 2)])([46, 46] := None) \<and>
    wp (dir_offset_delete 2 12 True sample_root) (\<lambda>r t. r = 2 \<and> cache.holds sample_root t f)"
proof -
  note d = sample_root_dir [of "view sample_root", OF sample_root(2)]
  note t = sample_root_tree [of "view sample_root", OF sample_root(2)]
  have "map_of [([46 :: u8], 0 :: nat, 2 :: u32), ([46, 46], 12, 2)] [46, 46] = Some (unat (12 :: u32), 2)"
    by simp
  moreover have "checkable sample_root (view sample_root) 2 [[0, 12]]"
    "\<not> occupied sample_root (view sample_root) 2 [[0, 12]]"
    using d by (simp_all add: checkable_def occupied_def dir_ok_def)
  ultimately show ?thesis
    using dir_offset_delete_unbinds [of sample_root 2 "[[0, 12]]" "[46, 46]" 12 2 True "[[0, 12]]"] d
    by (simp add: sample_root(1) t del: map_of.simps)
qed

text \<open>C18: \<open>dir_is_not_empty\<close> is true exactly when the directory has more than two entries, and
  changes nothing.\<close>

theorem dir_is_not_empty_iff:
  assumes "mounted s" "dir_ok s (view s) inum rss"
  shows "wp (dir_is_not_empty inum s) (\<lambda>r t. cache.holds s t (view s) \<and>
    r = (2 < length (dir_list s (view s) inum rss)))"
  by (rule dir_is_not_empty_counts [OF cache.holds_refl [OF assms(1)] assms(2)])

lemma dir_is_not_empty_iff_witness:
  "wp (dir_is_not_empty 2 sample_root) (\<lambda>r t. cache.holds sample_root t (view sample_root) \<and> \<not> r)"
  using dir_is_not_empty_iff [OF sample_root(1) sample_root_dir(1) [of "view sample_root"]]
    sample_root_dir(3) [of "view sample_root"] sample_root(2) by simp

section \<open>A new block\<close>

text \<open>C19: the frag that \<open>dir_create\<close> prepares when no record has room, the blank records from the
  end of the directory on with the new name in the first of them, consists of well-formed
  records whose only entry is the new name, and keeps the bytes in front.\<close>

theorem dir_create_new_block:
  assumes "spill mod DIRBLKSIZ = 0" "length b mod DIRBLKSIZ = 0" "spill < length b"
    and "name_ok name" "inum \<noteq> 0"
  shows "\<exists>rs. dir_records (fill_record nf name inum ty DIRBLKSIZ spill (dir_fragfill (length b) spill b))
      (length b) spill rs \<and>
    dir_entries (fill_record nf name inum ty DIRBLKSIZ spill (dir_fragfill (length b) spill b)) rs =
      [(name, spill, inum)] \<and>
    take spill (fill_record nf name inum ty DIRBLKSIZ spill (dir_fragfill (length b) spill b)) =
      take spill b"
proof -
  obtain rs where rs: "dir_records (fill_record nf name inum ty DIRBLKSIZ spill
      (dir_fragfill (length b) spill b)) (length b) spill rs"
    "dir_entries (fill_record nf name inum ty DIRBLKSIZ spill (dir_fragfill (length b) spill b)) rs =
      [(name, spill, inum)]"
    "same_bytes 0 spill b (fill_record nf name inum ty DIRBLKSIZ spill (dir_fragfill (length b) spill b))"
    using new_block_records [OF assms(1,2,3) refl assms(4,5)] by blast
  have "take spill (fill_record nf name inum ty DIRBLKSIZ spill (dir_fragfill (length b) spill b)) =
      take spill b"
    using rs(3) assms(3) by (intro nth_equalityI) (simp_all add: same_bytes_def)
  then show ?thesis using rs(1,2) by blast
qed

lemma dir_create_new_block_witness:
  "\<exists>rs. dir_entries (fill_record True [97] 7 8 512 512
      (dir_fragfill 1024 512 (replicate 1024 1))) rs = [([97], 512, 7)]"
  using dir_create_new_block [of 512 "replicate 1024 1" "[97]" 7 True 8]
  by (simp add: DIRBLKSIZ_def name_ok_def) blast

end
