(* ===== verification/Read_Correct.thy ===== *)
theory Read_Correct
  imports Tree_Correct File_IO
begin

text \<open>
  Reading files, fs/fread.c: a read returns the bytes that the tree of index blocks gives for a
  range of the file, whether they come through the cache or, for many frags at once, straight
  from the medium.
\<close>

section \<open>What a look into the cache does to the medium\<close>

text \<open>A frag whose bytes on the medium are its contents stays so.\<close>

definition calm :: "fsys \<Rightarrow> fsys \<Rightarrow> bool" where
  "calm s t \<longleftrightarrow> (\<forall>a. a \<noteq> 0 \<longrightarrow> disk (dev t) a = disk (dev s) a \<or> disk (dev t) a = view s a)"

lemma calm_dev: "disk (dev t) = disk (dev s) \<Longrightarrow> calm s t"
  by (simp add: calm_def)

lemma do_cache_flush_calm:
  assumes "cache_inv s S" "do_cache_flush node s = Some t"
  shows "calm s t"
proof -
  obtain r u where u: "cache_flush s = Some (r, u)" "\<forall>b. b \<noteq> 0 \<longrightarrow> disk (dev u) b = view s b"
    using cache_flush_correct [OF assms(1)] by blast
  then have "dev t = dev u"
    using assms(2) by (auto simp: do_cache_flush_def stop_packets_def bind_eq_Some_conv Let_def
        split: if_splits)
  then show ?thesis using u(2) by (simp add: calm_def)
qed

lemma cache_cycle_dirty_calm:
  assumes inv: "cache_inv s S" and "S \<noteq> []" "cache_cycle_dirty s = Some t"
  shows "calm s t"
proof -
  obtain H where rep: "cache_rep (fc s) S H"
    using cache_ok_rep [OF cache_ok_same_disk [OF inv]] by auto
  obtain x where x: "cache_stack (fc s) = Some x"
    using cache_rep_stack(2) [OF rep] assms(2) by (cases S) auto
  obtain c S' where c: "rotate_dirty (Some x) (fc s) = Some c" "cache_rep c S' H"
    "same_data (fc s) c" "set S' = set S"
    using rotate_dirty_loop [OF rep assms(2)] x by auto
  note inv' = cache_inv_same_data [OF inv c(3,2,4)]
  have "calm s t" if "do_cache_flush (Some x) (s\<lparr>fc := c\<rparr>) = Some t"
    using do_cache_flush_calm [OF inv'(1) that] inv'(2) by (simp add: calm_def same_view_def)
  then show ?thesis
    using assms(3) x c(1) do_cache_flush_calm [OF inv]
    by (auto simp: cache_cycle_dirty_def calm_dev Let_def split: if_splits)
qed

lemma cache_getnode_calm:
  assumes "cache_inv s S" "S \<noteq> []" "cache_getnode b s = Some (r, t)"
  shows "calm s t"
proof -
  obtain H where rep: "cache_rep (fc s) S H"
    using cache_ok_rep [OF cache_ok_same_disk [OF assms(1)]] by auto
  obtain h where h: "cache_stack (fc s) = Some h"
    using cache_rep_stack(2) [OF rep] assms(2) by (cases S) auto
  define m where "m = (if flags (nodes (fc s) h) \<noteq> CACHE_CLEAN then cache_cycle_dirty s else Some s)"
  have run: "cache_getnode b s = m \<bind> (\<lambda>s. case cache_stack (fc s) of None \<Rightarrow> None
      | Some n \<Rightarrow> if is_dirty (nodes (fc s) n) then Some (None, s)
        else Some (Some n, s\<lparr>fc := upd_node n (\<lambda>x. x\<lparr>blk := b, flags := CACHE_CLEAN\<rparr>)
                               (cache_remove n (fc s))\<rparr>))"
    using h by (simp add: cache_getnode_def m_def)
  obtain u where u: "m = Some u" using assms(3) run by (cases m) simp_all
  have "dev t = dev u"
    using assms(3) unfolding run u by (auto split: option.splits if_split_asm)
  moreover have "calm s u"
    using u cache_cycle_dirty_calm [OF assms(1,2), of u] by (auto simp: m_def calm_dev split: if_splits)
  ultimately show ?thesis by (simp add: calm_def)
qed

lemma disk_do_io [simp]: "disk (snd (do_io d)) = disk d"
  by (simp add: do_io_def)

lemma disk_retry_io [simp]: "disk (snd (retry_io n d)) = disk d"
  by (induction n arbitrary: d) (simp_all add: split_beta Let_def)

lemma disk_ask_retry [simp]: "disk (snd (ask_retry as d)) = disk d"
  by (induction as arbitrary: d) (simp_all add: split_beta Let_def)

lemma disk_read_io [simp]: "disk (snd (read_io d)) = disk d"
proof -
  have once: "disk (snd (read_io d)) = disk d" if "use_td64 d \<noteq> -1" for d
    by (subst read_io.simps) (use that in \<open>simp add: split_beta Let_def use_td64_do_io\<close>)
  show ?thesis
    by (subst read_io.simps) (simp add: split_beta Let_def once)
qed

lemma disk_data_read: "disk (dev (snd (data_read b n t))) = disk (dev t)"
  by (simp add: data_read_def read_request_def split_beta Let_def)

lemma cache_frag_calm:
  assumes "cache_inv s S" "S \<noteq> []" "cache_frag b s = Some (r, t)"
  shows "calm s t"
proof (cases "cache_node b (fc s)")
  case None
  then show ?thesis using assms(3) by (simp add: cache_frag_def)
next
  case (Some hit)
  show ?thesis
  proof (cases hit)
    case None
    obtain n u where u: "cache_getnode b s = Some (Some n, u)"
      using cache_getnode_correct [OF assms(1,2), of b] by blast
    have "disk (dev t) = disk (dev u)"
      using assms(3) Some None u disk_data_read [of "blk (nodes (fc u) n)" 1 u]
      by (auto simp: cache_frag_def split_beta Let_def split: option.splits)
    then show ?thesis using cache_getnode_calm [OF assms(1,2) u] by (simp add: calm_def)
  next
    case (Some n)
    then show ?thesis using assms(3) \<open>cache_node b (fc s) = Some hit\<close>
      by (auto simp: cache_frag_def bind_eq_Some_conv calm_def)
  qed
qed

definition on_medium :: "u32 set \<Rightarrow> (u32 \<Rightarrow> bytes) \<Rightarrow> fsys \<Rightarrow> bool" where
  "on_medium A f s \<longleftrightarrow> (\<forall>a \<in> A. disk (dev s) a = f a)"

lemma stable_on_medium:
  assumes "\<And>a. a \<in> A \<Longrightarrow> valid_frag s0 a"
  shows "stable UNIV (on_medium A f) s0 f"
  unfolding stable_def
proof (intro allI impI)
  fix s b r t
  assume h: "cache.holds s0 s f" and R: "on_medium A f s" and t: "cache_frag b s = Some (r, t)"
  obtain S where S: "cache_inv s S" "S \<noteq> []" using mountedE [OF cache.holdsD(1) [OF h]] by metis
  show "on_medium A f t"
    unfolding on_medium_def
  proof
    fix a assume a: "a \<in> A"
    then have "a \<noteq> 0" using assms by (simp add: valid_frag_def)
    then have "disk (dev t) a = disk (dev s) a \<or> disk (dev t) a = view s a"
      using cache_frag_calm [OF S t] by (simp add: calm_def)
    then show "disk (dev t) a = f a"
      using R a cache.holdsD(4) [OF h assms [OF a]] by (auto simp: on_medium_def)
  qed
qed

text \<open>\<open>cache_available\<close> leaves the medium alone.\<close>

lemma cache_available_dev:
  assumes "cache_available b s = Some (r, t)"
  shows "dev t = dev s"
proof (cases "cache_node b (fc s)")
  case None
  then show ?thesis using assms by (simp add: cache_available_def)
next
  case (Some hit)
  show ?thesis
  proof (cases hit)
    case None
    then show ?thesis using assms Some by (simp add: cache_available_def)
  next
    case (Some n)
    then show ?thesis using assms \<open>cache_node b (fc s) = Some hit\<close>
      by (cases "cache_refresh n (fc s)") (auto simp: cache_available_def)
  qed
qed

lemma cache_available_from:
  assumes h: "keeping (on_medium A f) s0 s f" and b: "valid_frag s0 b"
    and hit: "\<And>n t. keeping (on_medium A f) s0 t f \<Longrightarrow> frag_buf t n = f b \<Longrightarrow> Q (Some n) t"
    and miss: "disk (dev s) b = f b \<Longrightarrow> Q None s"
  shows "wp (cache_available b s) Q"
proof -
  note h' = keeping_holds [OF h]
  obtain S where S: "cache_inv s S" "cache_size (fc s) = int (length S)" "8 \<le> length S" "S \<noteq> []"
    using mountedE [OF cache.holdsD(1) [OF h']] .
  have b0: "b \<noteq> 0" and vb: "view s b = f b"
    using b cache.holdsD(4) [OF h' b] by (simp_all add: valid_frag_def)
  from cache_available_fetched [OF S(1) b0] show ?thesis
  proof (elim disjE exE conjE)
    fix n t S'
    assume t: "cache_available b s = Some (Some n, t)" "fetched s S t S' n" "frag_buf t n = view s b"
      "same_view s t"
    have fr: "cache_frame s t" using t(2) by (simp add: fetched_def)
    have "dev t = dev s"
      by (rule cache_available_dev [OF t(1)])
    then have "on_medium A f t" using h by (simp add: keeping_def on_medium_def)
    moreover have "cache.holds s t (view s)"
      using mounted_fetched [OF S(1-3) t(2)] cache_frame_valid [OF fr] cache_frame_rest [OF fr] t(4)
      by (simp add: cache.holds_def same_view_def valid_frag_def)
    then have "cache.holds s0 t (view s)" by (rule cache.holds_trans [OF h'])
    then have "cache.holds s0 t f" by (rule cache.holds_cong) (rule cache.holdsD(4) [OF h'])
    ultimately show ?thesis using t(1,3) vb hit by (simp add: keeping_def)
  next
    assume "cache_available b s = Some (None, s)" "view s b = disk (dev s) b"
    then show ?thesis using vb miss by simp
  qed
qed

section \<open>The contents of a file\<close>

definition file_frag :: "fsys \<Rightarrow> (u32 \<Rightarrow> bytes) \<Rightarrow> u32 \<Rightarrow> u32 \<Rightarrow> bytes" where
  "file_frag s f inum k =
     (let a = file_frag_addr s f inum k in if a = 0 then replicate (frag_size s) 0 else f a)"

text \<open>The tree can be walked to frag \<open>k\<close>, and leads to a hole or to a frag of the partition
  behind its second one.\<close>

definition reachable :: "fsys \<Rightarrow> (u32 \<Rightarrow> bytes) \<Rightarrow> u32 \<Rightarrow> u32 \<Rightarrow> bool" where
  "reachable s f inum k \<longleftrightarrow>
     in_reach s (file_blk_num (sb s) k) \<and> frags_valid s (file_slots s f inum (file_blk_num (sb s) k)) \<and>
     (file_frag_addr s f inum k = 0 \<or>
      valid_frag s (file_frag_addr s f inum k) \<and> file_frag_addr s f inum k \<noteq> 1)"

lemma length_file_frag:
  assumes "cache.holds s0 s f" "reachable s0 f inum k"
  shows "length (file_frag s0 f inum k) = frag_size s0"
  using assms cache.length_from [OF assms(1)] by (auto simp: file_frag_def Let_def reachable_def)

text \<open>The positions from \<open>lo\<close> up to \<open>hi\<close> of the buffer have got the bytes \<open>g\<close>, the others have
  what they had.\<close>

definition filled :: "bytes \<Rightarrow> bytes \<Rightarrow> nat \<Rightarrow> (nat \<Rightarrow> u8) \<Rightarrow> bool" where
  "filled out0 out hi g \<longleftrightarrow> length out = length out0 \<and>
     (\<forall>i < length out0. out ! i = (if i < hi then g i else out0 ! i))"

lemma filled_0: "filled out out 0 g"
  by (simp add: filled_def)

lemma filled_poke:
  assumes "filled out0 out hi g" "hi + length xs \<le> length out0" "\<And>i. i < length xs \<Longrightarrow> xs ! i = g (hi + i)"
  shows "filled out0 (poke out hi xs) (hi + length xs) g"
  using assms by (auto simp: filled_def nth_poke)

lemma holds_fsize: "cache.holds s0 s f \<Longrightarrow> FSIZE s = frag_size s0"
  by (simp add: FSIZE_def holds_fields(2))

section \<open>Through the cache\<close>

lemma partial_frag_read_reads:
  assumes h: "cache.holds s0 s f" and v: "valid_frag s0 b"
  shows "wp (partial_frag_read b offset n out pos s) (\<lambda>(r, out') t. cache.holds s0 t f \<and> r = n \<and>
    out' = poke out pos (slice (f b) (unat offset) (unat n)))"
  unfolding partial_frag_read_def wp_bind
  by (rule cache.wp_get_from [OF h v]) simp

text \<open>\<open>covers\<close>: the frags of the file from \<open>k\<close> on are the bytes \<open>g\<close> from \<open>pos\<close> on.\<close>

definition covers :: "fsys \<Rightarrow> (u32 \<Rightarrow> bytes) \<Rightarrow> u32 \<Rightarrow> u32 \<Rightarrow> nat \<Rightarrow> nat \<Rightarrow> (nat \<Rightarrow> u8) \<Rightarrow> bool" where
  "covers s f inum k n pos g \<longleftrightarrow>
     (\<forall>i < n. reachable s f inum (k + of_nat i) \<and>
        (\<forall>j < frag_size s. file_frag s f inum (k + of_nat i) ! j = g (pos + i * frag_size s + j)))"

lemma covers_Suc:
  assumes "covers s f inum k (Suc n) pos g"
  shows "reachable s f inum k" "\<And>j. j < frag_size s \<Longrightarrow> file_frag s f inum k ! j = g (pos + j)"
    "covers s f inum (k + 1) n (pos + frag_size s) g"
proof -
  from assms [unfolded covers_def, rule_format, of 0]
  show "reachable s f inum k" "\<And>j. j < frag_size s \<Longrightarrow> file_frag s f inum k ! j = g (pos + j)"
    by simp_all
  show "covers s f inum (k + 1) n (pos + frag_size s) g"
    unfolding covers_def
  proof (intro allI impI)
    fix i assume "i < n"
    then show "reachable s f inum (k + 1 + of_nat i) \<and> (\<forall>j < frag_size s.
        file_frag s f inum (k + 1 + of_nat i) ! j = g (pos + frag_size s + i * frag_size s + j))"
      using assms [unfolded covers_def, rule_format, of "Suc i"] by (simp add: algebra_simps)
  qed
qed

lemma filled_frag:
  assumes "cache.holds s0 s f" "covers s0 f inum k (Suc n) pos g"
    and "filled out0 out pos g" "pos + Suc n * frag_size s0 \<le> length out0"
    and "xs = file_frag s0 f inum k"
  shows "filled out0 (poke out pos xs) (pos + frag_size s0) g"
proof -
  have "length xs = frag_size s0" using length_file_frag [OF assms(1) covers_Suc(1) [OF assms(2)]] assms(5) by simp
  then show ?thesis
    using filled_poke [OF assms(3), of xs] covers_Suc(2) [OF assms(2)] assms(4,5) by simp
qed

lemma ua_frags_read_reads:
  assumes "cache.holds s0 s f" "covers s0 f inum frag n pos g" "filled out0 out pos g"
    and "pos + n * frag_size s0 \<le> length out0"
  shows "wp (ua_frags_read n frag inum out pos s) (\<lambda>(ok, out') t. ok \<and> cache.holds s0 t f \<and>
    filled out0 out' (pos + n * frag_size s0) g)"
  using assms
proof (induction n arbitrary: frag out pos s)
  case 0
  then show ?case by simp
next
  case (Suc n)
  note c = covers_Suc [OF Suc.prems(2)]
  define a where "a = file_frag_addr s0 f inum frag"
  have read: "wp (ridisk_frag frag inum s) (\<lambda>r t. cache.holds s0 t f \<and> r = a)"
    unfolding a_def
    by (rule ridisk_frag_reads [OF Suc.prems(1)]) (use c(1) in \<open>simp_all add: reachable_def\<close>)
  have next_frag: "wp (ua_frags_read n (frag + 1) inum (poke out pos xs) (pos + FSIZE t) t)
      (\<lambda>(ok, out') u. ok \<and> cache.holds s0 u f \<and> filled out0 out' (pos + Suc n * frag_size s0) g)"
    if "cache.holds s0 t f" "xs = file_frag s0 f inum frag" for t xs
    using Suc.IH [OF that(1) c(3) filled_frag [OF Suc.prems that(2)]] Suc.prems(4)
    by (simp add: holds_fsize [OF that(1)] algebra_simps)
  show ?case
    unfolding ua_frags_read.simps wp_bind
  proof (rule wp_mono [OF read])
    fix r t assume r: "cache.holds s0 t f \<and> r = a"
    show "wp (case (r, t) of (lfrag, s) \<Rightarrow> if lfrag = 0
        then ua_frags_read n (frag + 1) inum (poke out pos (replicate (FSIZE s) 0)) (pos + FSIZE s) s
        else cache_frag lfrag s \<bind> (\<lambda>(fragbuf, s). case fragbuf of None \<Rightarrow> Some ((False, out), s)
          | Some b \<Rightarrow> ua_frags_read n (frag + 1) inum (poke out pos (slice (frag_buf s b) 0 (FSIZE s)))
              (pos + FSIZE s) s))
      (\<lambda>(ok, out') u. ok \<and> cache.holds s0 u f \<and> filled out0 out' (pos + Suc n * frag_size s0) g)"
    proof (cases "a = 0")
      case True
      then have "replicate (FSIZE t) 0 = file_frag s0 f inum frag"
        using r holds_fsize [of s0 t f] by (simp add: file_frag_def a_def)
      then show ?thesis using r True next_frag [of t] by simp
    next
      case False
      then have v: "valid_frag s0 a" using c(1) by (simp add: reachable_def a_def)
      have h: "cache.holds s0 t f" using r by simp
      have "wp (cache_frag a t) (\<lambda>x u. wp (case x of None \<Rightarrow> Some ((False, out), u)
          | Some b \<Rightarrow> ua_frags_read n (frag + 1) inum (poke out pos (slice (frag_buf u b) 0 (FSIZE u)))
              (pos + FSIZE u) u)
        (\<lambda>(ok, out') u. ok \<and> cache.holds s0 u f \<and> filled out0 out' (pos + Suc n * frag_size s0) g))"
      proof (rule cache.wp_get_from [OF h v])
        fix m u assume u: "cache.holds s0 u f" "frag_buf u m = f a"
        have "length (f a) = frag_size s0" using cache.length_from [OF h v] by simp
        then have "slice (frag_buf u m) 0 (FSIZE u) = file_frag s0 f inum frag"
          using u False by (simp add: file_frag_def a_def holds_fsize slice_def)
        then show "wp (case Some m of None \<Rightarrow> Some ((False, out), u)
          | Some b \<Rightarrow> ua_frags_read n (frag + 1) inum (poke out pos (slice (frag_buf u b) 0 (FSIZE u)))
              (pos + FSIZE u) u)
          (\<lambda>(ok, out') u. ok \<and> cache.holds s0 u f \<and> filled out0 out' (pos + Suc n * frag_size s0) g)"
          using next_frag [OF u(1)] by simp
      qed
      then show ?thesis using r False by simp
    qed
  qed
qed


section \<open>Straight from the medium\<close>

lemma nth_concat_map:
  assumes "\<And>i. i < n \<Longrightarrow> length (h i) = m" "k < n * m"
  shows "concat (map h [0..<n]) ! k = h (k div m) ! (k mod m)"
  using assms
proof (induction n)
  case 0
  then show ?case by simp
next
  case (Suc n)
  have "map length (map h [0..<n]) = replicate n m"
    using Suc.prems(1) by (auto simp: list_eq_iff_nth_eq)
  then have len: "length (concat (map h [0..<n])) = n * m"
    by (simp add: length_concat sum_list_replicate del: map_map)
  show ?case
  proof (cases "k < n * m")
    case True
    then show ?thesis using Suc len by (simp add: nth_append)
  next
    case False
    then have "k - n * m < m" using Suc.prems(2) by simp
    moreover from this have "0 < m" by simp
    moreover from calculation False have "k div m = n" "k mod m = k - n * m"
      using div_mult_self3 [of m n "k - n * m"] mod_mult_self3 [of n m "k - n * m"] by simp_all
    ultimately show ?thesis using False len by (simp add: nth_append)
  qed
qed

definition run_addrs :: "u32 \<Rightarrow> nat \<Rightarrow> u32 set" where
  "run_addrs c n = (\<lambda>i. c + of_nat i) ` {..<n}"

text \<open>The frags from \<open>cs\<close> to \<open>ce\<close>, \<open>n\<close> of them, are still to be read to \<open>bstart\<close>, and all
  that comes before them in the buffer is there. No frag is pending when \<open>cs\<close> is 0.\<close>

definition gathered :: "fsys \<Rightarrow> (u32 \<Rightarrow> bytes) \<Rightarrow> (nat \<Rightarrow> u8) \<Rightarrow> bytes \<Rightarrow> u32 \<Rightarrow> u32 \<Rightarrow> nat \<Rightarrow> nat \<Rightarrow>
    nat \<Rightarrow> bytes \<Rightarrow> fsys \<Rightarrow> bool" where
  "gathered s0 f g out0 cs ce bstart n pos out s \<longleftrightarrow>
     n < 2 ^ 32 \<and>
     (if cs = 0 then ce = 0 \<and> n = 0
      else 0 < n \<and> ce = cs + of_nat (n - 1) \<and> pos = bstart + n * frag_size s0) \<and>
     keeping (on_medium (run_addrs cs n) f) s0 s f \<and>
     filled out0 out (pos - n * frag_size s0) g \<and>
     (\<forall>i < n. valid_frag s0 (cs + of_nat i) \<and>
        (\<forall>j < frag_size s0. f (cs + of_nat i) ! j = g (bstart + i * frag_size s0 + j)))"

lemma gathered_none:
  "cache.holds s0 s f \<Longrightarrow> filled out0 out pos g \<Longrightarrow> gathered s0 f g out0 0 0 bstart 0 pos out s"
  by (simp add: gathered_def keeping_def on_medium_def run_addrs_def)

lemma gathered_one:
  assumes "cache.holds s0 s f" "filled out0 out pos g" "valid_frag s0 a" "disk (dev s) a = f a"
    and "\<And>j. j < frag_size s0 \<Longrightarrow> f a ! j = g (pos + j)"
  shows "gathered s0 f g out0 a a pos 1 (pos + frag_size s0) out s"
  using assms by (simp add: gathered_def keeping_def on_medium_def run_addrs_def valid_frag_def)

lemma gathered_more:
  assumes g: "gathered s0 f g out0 cs ce bstart n pos out s" and a: "a = ce + 1" "a \<noteq> 1" "Suc n < 2 ^ 32"
    and "valid_frag s0 a" "disk (dev s) a = f a" "\<And>j. j < frag_size s0 \<Longrightarrow> f a ! j = g (pos + j)"
  shows "gathered s0 f g out0 cs a bstart (Suc n) (pos + frag_size s0) out s"
proof -
  have cs: "cs \<noteq> 0" using g a by (auto simp: gathered_def)
  then have n: "0 < n" "ce = cs + of_nat (n - 1)" "pos = bstart + n * frag_size s0"
    using g by (simp_all add: gathered_def)
  have an: "a = cs + of_nat n" using n(1,2) a(1) by (cases n) (simp_all add: algebra_simps)
  have "on_medium (run_addrs cs (Suc n)) f s"
    using g assms(6) an by (auto simp: gathered_def keeping_def on_medium_def run_addrs_def less_Suc_eq)
  then show ?thesis
    using g cs n(3) a(3) an assms(5,7)
    by (auto simp: gathered_def keeping_def less_Suc_eq algebra_simps)
qed

lemma gathered_stable:
  assumes "gathered s0 f g out0 cs ce bstart n pos out s"
  shows "stable UNIV (on_medium (run_addrs cs n) f) s0 f"
  using assms by (intro stable_on_medium) (auto simp: gathered_def run_addrs_def)

lemma gathered_keeping:
  "gathered s0 f g out0 cs ce bstart n pos out s \<Longrightarrow> keeping (on_medium (run_addrs cs n) f) s0 s f"
  by (simp add: gathered_def)

lemma gathered_cong:
  "gathered s0 f g out0 cs ce bstart n pos out s \<Longrightarrow> keeping (on_medium (run_addrs cs n) f) s0 t f \<Longrightarrow>
   gathered s0 f g out0 cs ce bstart n pos out t"
  by (simp add: gathered_def)

lemma holds_same_dev:
  assumes h: "cache.holds s0 s f" and d: "same_dev (dev s) d"
  shows "cache.holds s0 (s\<lparr>dev := d\<rparr>) f"
proof -
  have "mounted (s\<lparr>dev := d\<rparr>)"
    using cache.holdsD(1) [OF h] cache_inv_dev [OF d] by (simp add: mounted_def)
  moreover have "valid_frag (s\<lparr>dev := d\<rparr>) = valid_frag s"
    using d by (simp add: valid_frag_def frag_ok_def sectoff_def same_dev_def fun_eq_iff)
  moreover have "view (s\<lparr>dev := d\<rparr>) = view s"
    using view_dev [of d s "fc s"] d by (simp add: same_dev_def)
  ultimately show ?thesis
    using h d by (simp add: cache.holds_def fs_rest_def same_dev_def)
qed

lemma data_read_holds:
  assumes "cache.holds s0 s f" "valid_frag s0 b"
  shows "\<exists>d. data_read b n s = (Some (disk_frags (disk (dev s)) b n), s\<lparr>dev := d\<rparr>) \<and> same_dev (dev s) d"
proof -
  obtain S where S: "cache_inv s S" "S \<noteq> []" using mountedE [OF cache.holdsD(1) [OF assms(1)]] by metis
  then have good: "dev_ok s" by (simp add: cache_inv_def dev_good_def)
  have "frag_ok s b" using assms(2) cache.holdsD(2) [OF assms(1)] by (auto simp: valid_frag_def fun_eq_iff)
  from read_request_ok [OF good this] obtain d where "read_request b s = (False, s\<lparr>dev := d\<rparr>)" "same_dev (dev s) d"
    by blast
  then show ?thesis by (auto simp: data_read_def same_dev_def)
qed

lemma read_run_reads:
  assumes g: "gathered s0 f g out0 cs ce bstart n pos out s" and pos: "pos \<le> length out0"
  shows "\<exists>d out'. read_run cs ce bstart out s = ((True, out'), s\<lparr>dev := d\<rparr>) \<and> same_dev (dev s) d \<and>
    filled out0 out' pos g"
proof (cases "cs = 0")
  case True
  then show ?thesis using g by (intro exI [of _ "dev s"]) (auto simp: gathered_def read_run_def)
next
  case False
  let ?m = "frag_size s0"
  let ?h = "\<lambda>i. f (cs + of_nat i)"
  have n: "0 < n" "ce = cs + of_nat (n - 1)" "pos = bstart + n * ?m" "n < 2 ^ 32"
    and h: "cache.holds s0 s f" and om: "on_medium (run_addrs cs n) f s"
    and fl: "filled out0 out bstart g"
    and v: "\<And>i. i < n \<Longrightarrow> valid_frag s0 (cs + of_nat i)"
    and b: "\<And>i j. i < n \<Longrightarrow> j < ?m \<Longrightarrow> ?h i ! j = g (bstart + i * ?m + j)"
    using g False by (auto simp: gathered_def keeping_def)
  have cnt: "unat (ce - cs + 1) = n"
    using n unat_of_nat32 [of n] by (cases n) (simp_all add: algebra_simps)
  obtain d where d: "data_read cs n s = (Some (disk_frags (disk (dev s)) cs n), s\<lparr>dev := d\<rparr>)" "same_dev (dev s) d"
    using data_read_holds [OF h, of cs n] v [of 0] n(1) by auto
  have "map (\<lambda>i. disk (dev s) (cs + of_nat i)) [0..<n] = map ?h [0..<n]"
    using om by (auto simp: on_medium_def run_addrs_def)
  then have bs: "disk_frags (disk (dev s)) cs n = concat (map ?h [0..<n])"
    unfolding disk_frags_def by (rule arg_cong)
  have len: "length (?h i) = ?m" if "i < n" for i using cache.length_from [OF h v [OF that]] by simp
  have "map length (map ?h [0..<n]) = replicate n ?m" using len by (auto simp: list_eq_iff_nth_eq)
  then have lc: "length (concat (map ?h [0..<n])) = n * ?m"
    by (simp add: length_concat sum_list_replicate del: map_map)
  have "filled out0 (poke out bstart (concat (map ?h [0..<n]))) (bstart + n * ?m) g"
  proof -
    have "concat (map ?h [0..<n]) ! i = g (bstart + i)" if i: "i < n * ?m" for i
    proof -
      have "0 < ?m" using i by (cases ?m) auto
      moreover from this have "i div ?m < n" using i by (simp add: div_less_iff_less_mult)
      ultimately have "concat (map ?h [0..<n]) ! i = g (bstart + i div ?m * ?m + i mod ?m)"
        using nth_concat_map [of n ?h ?m i] len i b [of "i div ?m" "i mod ?m"] by simp
      then show ?thesis by (simp add: add.assoc)
    qed
    then show ?thesis using filled_poke [OF fl, of "concat (map ?h [0..<n])"] lc pos n(3) by simp
  qed
  then show ?thesis using False d cnt bs n(3) by (auto simp: read_run_def)
qed


lemma frags_read_reads:
  assumes "gathered s0 f g out0 cs ce bstart m pos out s" "covers s0 f inum frag n pos g"
    and "pos + n * frag_size s0 \<le> length out0" "m + n < 2 ^ 32"
  shows "wp (frags_read n frag inum cs ce bstart out pos s) (\<lambda>(ok, out') t. ok \<and> cache.holds s0 t f \<and>
    filled out0 out' (pos + n * frag_size s0) g)"
  using assms
proof (induction n arbitrary: frag cs ce bstart m out pos s)
  case 0
  then obtain d out' where r: "read_run cs ce bstart out s = ((True, out'), s\<lparr>dev := d\<rparr>)"
      "same_dev (dev s) d" "filled out0 out' pos g"
    using read_run_reads [OF 0(1)] by auto
  then show ?case
    using holds_same_dev [OF keeping_holds [OF gathered_keeping [OF 0(1)]] r(2)] by simp
next
  case (Suc n)
  let ?P = "\<lambda>(ok, out') t. ok \<and> cache.holds s0 t f \<and> filled out0 out' (pos + Suc n * frag_size s0) g"
  note c = covers_Suc [OF Suc.prems(2)]
  have pos: "pos \<le> length out0" using Suc.prems(3) by simp
  define a where "a = file_frag_addr s0 f inum frag"
  have read: "wp (ridisk_frag frag inum s) (\<lambda>r t. keeping (on_medium (run_addrs cs m) f) s0 t f \<and> r = a)"
    unfolding a_def
    by (rule ridisk_frag_reads_keeping [OF gathered_stable [OF Suc.prems(1)] gathered_keeping [OF Suc.prems(1)]])
      (use c(1) in \<open>simp_all add: reachable_def\<close>)
  text \<open>The rest of the loop, after the frag in hand was copied or was added to the pending ones.\<close>
  have copied: "wp (frags_read n (frag + 1) inum 0 0 bstart (poke out' pos xs) (pos + FSIZE t) t) ?P"
    if "cache.holds s0 t f" "xs = file_frag s0 f inum frag" "filled out0 out' pos g" for t xs out'
    using Suc.IH [OF gathered_none [OF that(1) filled_frag [OF that(1) Suc.prems(2) that(3) Suc.prems(3) that(2)]] c(3)]
      Suc.prems(3,4) by (simp add: holds_fsize [OF that(1)] algebra_simps)
  have pending: "wp (frags_read n (frag + 1) inum cs' ce' bstart' out' (pos + FSIZE t) t) ?P"
    if "gathered s0 f g out0 cs' ce' bstart' m' (pos + frag_size s0) out' t" "m' \<le> Suc m" for t cs' ce' bstart' m' out'
    using Suc.IH [OF that(1) c(3)] Suc.prems(3,4) that(2)
      holds_fsize [OF keeping_holds [OF gathered_keeping [OF that(1)]]] by (simp add: algebra_simps)
  have hit: "wp (let ((ok, out), s) = read_run cs ce bstart out u
        in if \<not> ok then Some ((False, out), s)
           else frags_read n (frag + 1) inum 0 0 bstart (poke out pos (xs s)) (pos + FSIZE s) s) ?P"
    if u: "keeping (on_medium (run_addrs cs m) f) s0 u f"
      and xs: "\<And>d. cache.holds s0 (u\<lparr>dev := d\<rparr>) f \<Longrightarrow> xs (u\<lparr>dev := d\<rparr>) = file_frag s0 f inum frag"
    for u xs
  proof -
    note gu = gathered_cong [OF Suc.prems(1) u]
    obtain d out' where d: "read_run cs ce bstart out u = ((True, out'), u\<lparr>dev := d\<rparr>)" "same_dev (dev u) d"
      "filled out0 out' pos g"
      using read_run_reads [OF gu pos] by blast
    have "cache.holds s0 (u\<lparr>dev := d\<rparr>) f"
      by (rule holds_same_dev [OF keeping_holds [OF u] d(2)])
    then show ?thesis using d copied xs by simp
  qed
  have zeros: "replicate (FSIZE u) 0 = file_frag s0 f inum frag" if "a = 0" "cache.holds s0 u f" for u
    using that(1) holds_fsize [OF that(2)] by (simp add: file_frag_def a_def)
  show ?case
    unfolding frags_read.simps wp_bind
    apply (rule wp_mono [OF read])
    subgoal premises r for r t
    proof (cases "a = 0")
      case True
      then show ?thesis using r hit [of t "\<lambda>s. replicate (FSIZE s) 0"] zeros by simp
    next
      case False
      note t = conjunct1 [OF r]
      note h = keeping_holds [OF t] and gt = gathered_cong [OF Suc.prems(1) t]
      have v: "valid_frag s0 a" "a \<noteq> 1" and fa: "f a = file_frag s0 f inum frag"
        using c(1) False by (simp_all add: reachable_def a_def file_frag_def)
      have ga: "f a ! j = g (pos + j)" if "j < frag_size s0" for j using c(2) [OF that] fa by simp
      have copy: "slice (frag_buf (u\<lparr>dev := d\<rparr>) b) 0 (FSIZE (u\<lparr>dev := d\<rparr>)) = file_frag s0 f inum frag"
        if "frag_buf u b = f a" "cache.holds s0 (u\<lparr>dev := d\<rparr>) f" for u b d
        using that(1) holds_fsize [OF that(2)] cache.length_from [OF h v(1)] fa
        by (simp add: frag_buf_def slice_def)
      obtain d out' where d: "read_run cs ce bstart out t = ((True, out'), t\<lparr>dev := d\<rparr>)"
        "same_dev (dev t) d" "filled out0 out' pos g"
        using read_run_reads [OF gt pos] by blast
      have new: "gathered s0 f g out0 a a pos 1 (pos + frag_size s0) out' (t\<lparr>dev := d\<rparr>)"
        if "disk (dev t) a = f a"
        using gathered_one [OF holds_same_dev [OF h d(2)] d(3) v(1) _ ga] that d(2)
        by (simp add: same_dev_def)
      have more: "gathered s0 f g out0 cs a bstart (Suc m) (pos + frag_size s0) out t"
        if "disk (dev t) a = f a" "a = ce + 1"
        using gathered_more [OF gt that(2) v(2) _ v(1) that(1) ga] Suc.prems(4) by simp
      show ?thesis
        unfolding conjunct2 [OF r] prod.case if_not_P [OF False] wp_bind
        apply (rule cache_available_from [OF t v(1)])
        subgoal for b u using hit [of u "\<lambda>s. slice (frag_buf s b) 0 (FSIZE s)"] copy by simp
        subgoal using d(1) pending [OF new] pending [OF more] by (cases "a = ce + 1") simp_all
        done
    qed
    done
qed


lemma file_frags_read_reads:
  assumes h: "cache.holds s0 s f" and c: "covers s0 f inum sfrag (unat nfrags) pos g"
    and fl: "filled out0 out pos g" and len: "pos + unat nfrags * frag_size s0 \<le> length out0"
  shows "wp (file_frags_read sfrag nfrags addr out pos inum s) (\<lambda>(r, out') t.
    r = nfrags * fsize (hnd s0) \<and> cache.holds s0 t f \<and> filled out0 out' (pos + unat nfrags * frag_size s0) g)"
proof -
  have ua: "wp (ua_frags_read (unat nfrags) sfrag inum out pos s) (\<lambda>(ok, out') t. ok \<and>
      cache.holds s0 t f \<and> filled out0 out' (pos + unat nfrags * frag_size s0) g)"
    by (rule ua_frags_read_reads [OF h c fl len])
  have gather: "wp (frags_read (unat nfrags) sfrag inum 0 0 pos out pos s) (\<lambda>(ok, out') t. ok \<and>
      cache.holds s0 t f \<and> filled out0 out' (pos + unat nfrags * frag_size s0) g)"
    by (rule frags_read_reads [OF gathered_none [OF h fl] c len])
      (use unsigned_less [of nfrags] in simp)
  have ua': "wp (file_ua_frags_read sfrag nfrags out pos inum s) (\<lambda>(r, out') t.
      r = nfrags * fsize (hnd s0) \<and> cache.holds s0 t f \<and>
      filled out0 out' (pos + unat nfrags * frag_size s0) g)"
    unfolding file_ua_frags_read_def wp_bind
    by (rule wp_mono [OF ua]) (auto simp: holds_fields(2) split: if_splits)
  have gather': "wp (do { ((ok, out), s) \<leftarrow> frags_read (unat nfrags) sfrag inum 0 0 pos out pos s;
      Some ((if ok then nfrags * fsize (hnd s) else 0, out), s) }) (\<lambda>(r, out') t.
      r = nfrags * fsize (hnd s0) \<and> cache.holds s0 t f \<and>
      filled out0 out' (pos + unat nfrags * frag_size s0) g)"
    unfolding wp_bind
    by (rule wp_mono [OF gather]) (auto simp: holds_fields(2) split: if_splits)
  show ?thesis
    using ua' gather' h fl by (simp add: file_frags_read_def)
qed

section \<open>Reading a file\<close>

text \<open>The shift and the mask of the handler belong to the size of a frag.\<close>

definition frag_shifts :: "fsys \<Rightarrow> bool" where
  "frag_shifts s \<longleftrightarrow> unat (fs_fshift (sb s)) < 32 \<and> fsize (hnd s) = 2 ^ unat (fs_fshift (sb s)) \<and>
     fs_lfmask (hnd s) = fsize (hnd s) - 1"

lemma frag_shifts_numbers:
  assumes "frag_shifts s"
  shows "unat (lfragno (sb s) x) = unat x div frag_size s" "unat (fragoff s x) = unat x mod frag_size s"
    "0 < frag_size s"
proof -
  define k where "k = unat (fs_fshift (sb s))"
  have k: "k < 32" "fsize (hnd s) = 2 ^ k" "fs_lfmask (hnd s) = 2 ^ k - 1"
    using assms by (simp_all add: frag_shifts_def k_def)
  have F: "frag_size s = 2 ^ k"
    using k(1,2) unat_of_nat32 [of "2 ^ k"] power_strict_increasing [of k 32 "2 :: nat"] by simp
  show "unat (lfragno (sb s) x) = unat x div frag_size s"
    by (simp add: lfragno_def k_def [symmetric] F unat_drop_bit)
  show "unat (fragoff s x) = unat x mod frag_size s"
    unfolding fragoff_def k(3) F mask_eq_exp_minus_1 [symmetric] take_bit_eq_mask [symmetric]
      unsigned_take_bit_eq
    by (rule take_bit_eq_mod)
  show "0 < frag_size s" using F by simp
qed

definition file_byte :: "fsys \<Rightarrow> (u32 \<Rightarrow> bytes) \<Rightarrow> u32 \<Rightarrow> nat \<Rightarrow> u8" where
  "file_byte s f inum i = file_frag s f inum (of_nat (i div frag_size s)) ! (i mod frag_size s)"

definition file_size :: "fsys \<Rightarrow> (u32 \<Rightarrow> bytes) \<Rightarrow> u32 \<Rightarrow> u32" where
  "file_size s f inum = frag_word f (inode_slot (sb s) inum ic_size)"

text \<open>Every frag of the range can be reached, and those that are only read in part are not
  holes.\<close>

definition readable :: "fsys \<Rightarrow> (u32 \<Rightarrow> bytes) \<Rightarrow> u32 \<Rightarrow> nat \<Rightarrow> nat \<Rightarrow> bool" where
  "readable s f inum lo hi \<longleftrightarrow>
     (let m = frag_size s in
      list_all (\<lambda>k. (k * m < hi \<or> k = lo div m) \<longrightarrow>
          reachable s f inum (of_nat k) \<and>
          (lo \<le> k * m \<and> Suc k * m \<le> hi \<or> file_frag_addr s f inum (of_nat k) \<noteq> 0))
        [lo div m..<Suc (hi div m)])"


lemma partial_reads:
  assumes h: "cache.holds s0 s f" and r: "reachable s0 f inum k" "file_frag_addr s0 f inum k \<noteq> 0"
    and n: "unat offset + unat n \<le> frag_size s0" "pos + unat n \<le> length out0"
    and fl: "filled out0 out pos g"
    and b: "\<And>i. i < unat n \<Longrightarrow> file_frag s0 f inum k ! (unat offset + i) = g (pos + i)"
    and m: "\<And>t. cache.holds s0 t f \<Longrightarrow> m t = n"
  shows "wp (do { (a, s) \<leftarrow> ridisk_frag k inum s; partial_frag_read a offset (m s) out pos s })
    (\<lambda>(r, out') t. r = n \<and> cache.holds s0 t f \<and> filled out0 out' (pos + unat n) g)"
proof -
  define a where "a = file_frag_addr s0 f inum k"
  have v: "valid_frag s0 a" and fa: "file_frag s0 f inum k = f a"
    using r by (simp_all add: reachable_def file_frag_def a_def)
  have read: "wp (ridisk_frag k inum s) (\<lambda>r t. cache.holds s0 t f \<and> r = a)"
    unfolding a_def by (rule ridisk_frag_reads [OF h]) (use r(1) in \<open>simp_all add: reachable_def\<close>)
  have "length (f a) = frag_size s0" using cache.length_from [OF h v] by simp
  then have "filled out0 (poke out pos (slice (f a) (unat offset) (unat n))) (pos + unat n) g"
    using filled_poke [OF fl, of "slice (f a) (unat offset) (unat n)"] n b
    by (simp add: fa slice_def)
  then have part: "wp (partial_frag_read a offset n out pos t)
      (\<lambda>(r, out') u. r = n \<and> cache.holds s0 u f \<and> filled out0 out' (pos + unat n) g)"
    if "cache.holds s0 t f" for t
    by (intro wp_mono [OF partial_frag_read_reads [OF that v]]) auto
  show ?thesis
    unfolding wp_bind by (rule wp_mono [OF read]) (use part m in auto)
qed

text \<open>The frags of the range, for a file of whose bytes \<open>lo\<close> to \<open>hi\<close> are wanted.\<close>

lemma readableD:
  assumes "readable s f inum lo hi" "0 < frag_size s" "lo \<le> hi"
    and "lo div frag_size s \<le> k" "k * frag_size s < hi \<or> k = lo div frag_size s"
  shows "reachable s f inum (of_nat k)"
    "\<not> (lo \<le> k * frag_size s \<and> Suc k * frag_size s \<le> hi) \<Longrightarrow> file_frag_addr s f inum (of_nat k) \<noteq> 0"
proof -
  have "k \<le> hi div frag_size s"
    using assms(2,5) div_le_mono [OF assms(3), of "frag_size s"]
    by (auto simp: less_eq_div_iff_mult_less_eq)
  then have "k \<in> set [lo div frag_size s..<Suc (hi div frag_size s)]"
    using assms(4) by (simp del: upt_Suc)
  then have "reachable s f inum (of_nat k) \<and> (lo \<le> k * frag_size s \<and> Suc k * frag_size s \<le> hi \<or>
      file_frag_addr s f inum (of_nat k) \<noteq> 0)"
    using assms(1,5) unfolding readable_def Let_def list_all_iff by blast
  then show "reachable s f inum (of_nat k)"
    "\<not> (lo \<le> k * frag_size s \<and> Suc k * frag_size s \<le> hi) \<Longrightarrow> file_frag_addr s f inum (of_nat k) \<noteq> 0"
    by blast+
qed

lemma readable_covers:
  assumes "readable s f inum lo hi" "0 < frag_size s" "lo \<le> k * frag_size s" "(k + n) * frag_size s \<le> hi"
  shows "covers s f inum (of_nat k) n (k * frag_size s - lo) (\<lambda>i. file_byte s f inum (lo + i))"
  unfolding covers_def
proof (intro allI impI conjI)
  fix i assume i: "i < n"
  let ?m = "frag_size s"
  have le: "(k + i) * ?m + ?m \<le> hi" using i assms(4) mult_le_mono1 [of "Suc (k + i)" "k + n" ?m] by simp
  have lo: "lo \<le> (k + i) * ?m" using assms(3) by (simp add: algebra_simps)
  have "lo div ?m \<le> k + i" using div_le_mono [OF lo, of ?m] assms(2) by simp
  moreover have "(k + i) * ?m < hi" using le assms(2) by linarith
  ultimately have "reachable s f inum (of_nat (k + i))"
    using readableD(1) [OF assms(1,2), of "k + i"] lo by linarith
  then show "reachable s f inum (of_nat k + of_nat i)" by simp
  fix j assume j: "j < ?m"
  have e: "lo + (k * ?m - lo + i * ?m + j) = (k + i) * ?m + j" using assms(3) by (simp add: algebra_simps)
  have d: "((k + i) * ?m + j) div ?m = k + i" "((k + i) * ?m + j) mod ?m = j"
    using j assms(2) by (simp_all only: div_mult_self3 mod_mult_self3) simp_all
  show "file_frag s f inum (of_nat k + of_nat i) ! j =
      file_byte s f inum (lo + (k * ?m - lo + i * ?m + j))"
    unfolding e file_byte_def d by simp
qed


lemma file_byte_at:
  "j < frag_size s \<Longrightarrow> file_byte s f inum (k * frag_size s + j) = file_frag s f inum (of_nat k) ! j"
  by (simp add: file_byte_def)

theorem file_read_correct:
  fixes s :: fsys
  defines "f \<equiv> view s"
  assumes m: "mounted s" and sh: "frag_shifts s" and le: "sbyte \<le> file_size s f inum"
    and inode: "valid_frag s (fst (inode_slot (sb s) inum 0))"
    and nov: "unat sbyte + unat nbytes < 2 ^ 32"
    and n: "n = min nbytes (file_size s f inum - sbyte)"
    and rd: "readable s f inum (unat sbyte) (unat sbyte + unat n)"
    and len: "unat n \<le> length out"
  shows "wp (file_read inum sbyte nbytes addr out s) (\<lambda>(r, out') t. r = n \<and> cache.holds s t f \<and>
    filled out out' (unat n) (\<lambda>i. file_byte s f inum (unat sbyte + i)))"
proof -
  let ?F = "frag_size s" and ?S = "unat sbyte" and ?g = "\<lambda>i. file_byte s f inum (unat sbyte + i)"
  let ?size = "file_size s f inum"
  note F = frag_shifts_numbers [OF sh]
  have h: "cache.holds s s f" unfolding f_def by (rule cache.holds_refl [OF m])
  have diff: "unat (?size - sbyte) = unat ?size - ?S" by (rule unat_sub [OF le])
  have nb: "unat n \<le> unat nbytes" using n by (simp flip: word_le_nat_alt)
  then have sn: "unat (sbyte + n) = ?S + unat n" using nov by (simp add: unat_word_ariths)
  have n': "(if nbytes + sbyte > ?size then ?size - sbyte else nbytes) = n"
    using n nov le diff by (auto simp: min_def word_le_nat_alt word_less_nat_alt unat_word_ariths)
  define spos epos sfrag efrag where d: "spos = fragoff s sbyte" "epos = fragoff s (sbyte + n)"
    "sfrag = lfragno (sb s) sbyte" "efrag = lfragno (sb s) (sbyte + n)"
  define K E where ke: "K = ?S div ?F" "E = (?S + unat n) div ?F"
  have u: "unat spos = ?S mod ?F" "unat epos = (?S + unat n) mod ?F" "unat sfrag = K" "unat efrag = E"
    by (simp_all only: d F sn ke)
  have sK: "sfrag = of_nat K" and eE: "efrag = of_nat E"
    by (simp_all flip: u(3,4))
  have split: "K * ?F + unat spos = ?S" "E * ?F + unat epos = ?S + unat n" "unat spos < ?F" "unat epos < ?F"
    using F(3) by (simp_all add: u ke)
  have KE: "K \<le> E" unfolding ke by (rule div_le_mono) simp
  have neq: "K < E" if "sfrag \<noteq> efrag" using KE that sK eE by (cases "K = E") auto
  have mono: "Suc K * ?F \<le> E * ?F" if "sfrag \<noteq> efrag"
    using neq [OF that] by (intro mult_le_mono1) simp
  note rK = readableD [OF rd F(3) _ _ disjI2, of K, unfolded ke(1) [symmetric], simplified]
  have byteK: "file_frag s f inum sfrag ! (unat spos + i) = ?g (0 + i)" if "unat spos + i < ?F" for i
  proof -
    have "K * ?F + (unat spos + i) = ?S + i" using split(1) by simp
    then show ?thesis using file_byte_at [OF that, of f inum K] by (simp only: sK add_0)
  qed
  have one: "wp (do { (a, s) \<leftarrow> ridisk_frag sfrag inum t; partial_frag_read a spos n out 0 s })
      (\<lambda>(r, out') t. r = n \<and> cache.holds s t f \<and> filled out out' (0 + unat n) ?g)"
    if eq: "sfrag = efrag" and t: "cache.holds s t f" for t
  proof -
    have "K = E" using eq u by simp
    then have b: "unat spos + unat n < ?F" using split by simp
    show ?thesis
    proof (rule partial_reads [OF t])
      show "reachable s f inum sfrag" "file_frag_addr s f inum sfrag \<noteq> 0"
        unfolding sK using rK b split by simp_all
    qed (use b len filled_0 byteK in simp_all)
  qed
  have first: "wp (do { (a, s) \<leftarrow> ridisk_frag sfrag inum t; partial_frag_read a spos (fsize (hnd s) - spos) out 0 s })
      (\<lambda>(r, out') t. r = m \<and> cache.holds s t f \<and>
        filled out out' (0 + unat m) ?g)"
    if ne: "sfrag \<noteq> efrag" and t: "cache.holds s t f" and pos: "spos \<noteq> 0" and m: "m = fsize (hnd s) - spos" for t m
  proof -
    have sz: "unat m = ?F - unat spos"
      using split(3) unfolding m by (intro unat_sub) (simp add: word_le_nat_alt)
    have sp: "0 < unat spos" using pos by (simp add: unat_gt_0)
    show ?thesis
    proof (rule partial_reads [OF t])
      show "reachable s f inum sfrag" "file_frag_addr s f inum sfrag \<noteq> 0"
        unfolding sK using rK sp split by simp_all
    qed (use mono [OF ne] split len filled_0 byteK sz holds_fields(2) m in simp_all)
  qed
  define A pos where A: "A = (if spos \<noteq> 0 then Suc K else K)"
    and pos: "pos = (if spos \<noteq> 0 then unat (fsize (hnd s) - spos) else 0)"
  define sfrag' N where p: "sfrag' = (if spos \<noteq> 0 then sfrag + 1 else sfrag)"
    "N = (if spos \<noteq> 0 then efrag - sfrag - 1 else efrag - sfrag)"
  have sz: "unat (fsize (hnd s) - spos) = ?F - unat spos"
    using split(3) by (intro unat_sub) (simp add: word_le_nat_alt)
  have sA: "sfrag' = of_nat A" by (simp add: p A sK)
  have Apos: "A * ?F = ?S + pos"
    using split(1,3) by (cases "spos = 0") (simp_all add: A pos sz)
  have NA: "unat N = E - A" if "sfrag \<noteq> efrag"
  proof -
    have "A \<le> E" "N = of_nat E - of_nat A" using neq [OF that] by (simp_all add: A p sK eE)
    moreover have "unat efrag < 2 ^ 32" using unsigned_less [of efrag] by simp
    ultimately show ?thesis by (simp add: u(4) unat_of_nat32 flip: of_nat_diff)
  qed
  have AE: "A * ?F + (E - A) * ?F = E * ?F" if "sfrag \<noteq> efrag"
    using neq [OF that] by (simp add: A flip: add_mult_distrib)
  have middle: "wp (if N > 0 then file_frags_read sfrag' N addr out1 pos inum t else Some ((1, out1), t))
      (\<lambda>(r, out') t. r \<noteq> 0 \<and> cache.holds s t f \<and> filled out out' (pos + unat N * ?F) ?g)"
    if ne: "sfrag \<noteq> efrag" and t: "cache.holds s t f" and fl: "filled out out1 pos ?g" for t out1
  proof (cases "N > 0")
    case True
    note N = NA [OF ne] and sum = AE [OF ne]
    have "covers s f inum sfrag' (unat N) (A * ?F - ?S) ?g"
      unfolding sA N
      by (rule readable_covers [OF rd F(3)]) (use Apos sum split(2) in \<open>simp_all add: add_mult_distrib\<close>)
    then have c: "covers s f inum sfrag' (unat N) pos ?g" using Apos by simp
    have "pos + unat N * ?F \<le> unat n" using sum Apos split(2) N by simp
    moreover have "unat n < 2 ^ 32" using unsigned_less [of n] by simp
    ultimately have b: "pos + unat N * ?F \<le> length out" "unat N * ?F < 2 ^ 32"
      using len by simp_all
    have "unat (N * fsize (hnd s)) = unat N * ?F" using b(2) by (simp add: unat_word_ariths)
    moreover have "0 < unat N * ?F" using True F(3) by (simp add: word_less_nat_alt)
    ultimately have "N * fsize (hnd s) \<noteq> 0" by (metis less_irrefl unat_0)
    then show ?thesis
      using True by (simp, intro wp_mono [OF file_frags_read_reads [OF t c fl b(1)]]) auto
  next
    case False
    then have "N = 0" using word_neq_0_conv [of N] by simp
    then show ?thesis using t fl by simp
  qed
  have last: "wp (do { (a, s) \<leftarrow> ridisk_frag efrag inum t; partial_frag_read a 0 epos out1 (pos + unat N * ?F) s })
      (\<lambda>(r, out') t. r = epos \<and> cache.holds s t f \<and> filled out out' (pos + unat N * ?F + unat epos) ?g)"
    if ne: "sfrag \<noteq> efrag" and t: "cache.holds s t f"
      and fl: "filled out out1 (pos + unat N * ?F) ?g" and ep: "epos \<noteq> 0" for t out1
  proof -
    note N = NA [OF ne] and sum = AE [OF ne]
    have ep': "0 < unat epos" using ep by (simp add: unat_gt_0)
    have e: "E * ?F = ?S + (pos + unat N * ?F)" using sum Apos N by simp
    have r: "reachable s f inum (of_nat E)" "file_frag_addr s f inum (of_nat E) \<noteq> 0"
      using readableD [OF rd F(3) _ _ disjI1, of E] KE split(2,4) ep' by (simp_all add: ke)
    show ?thesis
    proof (rule partial_reads [OF t])
      show "reachable s f inum efrag" "file_frag_addr s f inum efrag \<noteq> 0"
        unfolding eE by (rule r)+
      fix i assume "i < unat epos"
      then have "i < ?F" using split(4) by simp
      from file_byte_at [OF this, of f inum E]
      show "file_frag s f inum efrag ! (unat 0 + i) = ?g (pos + unat N * ?F + i)"
        by (simp add: eE e add.assoc)
    qed (use len split(2,4) e fl in simp_all)
  qed
  have total: "pos + unat N * ?F + unat epos = unat n" if "sfrag \<noteq> efrag"
    using AE [OF that] Apos NA [OF that] split(2) by simp
  let ?P = "\<lambda>(r, out') t. r = n \<and> cache.holds s t f \<and> filled out out' (unat n) ?g"
  have tail: "wp (if epos \<noteq> 0 then do { (a, s) \<leftarrow> ridisk_frag efrag inum t;
        ((got, out), s) \<leftarrow> partial_frag_read a 0 epos out1 (pos + unat N * ?F) s;
        Some ((n - epos + got, out), s) } else Some ((n, out1), t)) ?P"
    if ne: "sfrag \<noteq> efrag" and t: "cache.holds s t f" and fl: "filled out out1 (pos + unat N * ?F) ?g"
    for t out1
  proof (cases "epos = 0")
    case True
    then show ?thesis using t fl total [OF ne] by simp
  next
    case False
    have "wp (do { (a, s) \<leftarrow> ridisk_frag efrag inum t; partial_frag_read a 0 epos out1 (pos + unat N * ?F) s })
      (\<lambda>(r, out') t. r = epos \<and> ?P (n, out') t)"
      using last [OF ne t fl False] by (simp add: total [OF ne])
    then show ?thesis
      using False by (auto elim!: wp_mono simp: split_beta)
  qed
  have head: "wp (if spos \<noteq> 0 then do { (a, s) \<leftarrow> ridisk_frag sfrag inum t;
        partial_frag_read a spos (fsize (hnd s) - spos) out 0 s } else Some ((1, out), t))
      (\<lambda>(r, out') t. r \<noteq> 0 \<and> cache.holds s t f \<and> filled out out' pos ?g)"
    if ne: "sfrag \<noteq> efrag" and t: "cache.holds s t f" for t
  proof (cases "spos = 0")
    case True
    then show ?thesis using t filled_0 by (simp add: pos)
  next
    case False
    have "0 < unat (fsize (hnd s) - spos)" using sz split(3) by simp
    then have "fsize (hnd s) - spos \<noteq> 0" by (simp add: unat_gt_0)
    then show ?thesis
      using False by (simp only: if_True simp_thms, intro wp_mono [OF first [OF ne t False refl]])
        (auto simp: pos)
  qed
  show ?thesis
    unfolding file_read_def wp_bind
    apply (rule wp_inode_read [OF h inode])
    subgoal premises q for p t
    proof -
      note t = q(1)
      have sz: "IC_SIZE t p = ?size" by (simp add: IC_SIZE_def q(2) file_size_def)
      have lf: "lfragno (sb t) = lfragno (sb s)" "fragoff t = fragoff s"
        using holds_fields [OF t] by (simp_all add: fragoff_def fun_eq_iff)
      have no: "\<not> sbyte > ?size" using le by simp
      note fold = prod.case option.case Let_def sz lf n' d [symmetric] if_not_P [OF no]
      show ?thesis
      proof (cases "sfrag = efrag")
        case True
        show ?thesis unfolding fold if_P [OF True] using one [OF True t] by (simp only: add_0)
      next
        case False
        show ?thesis
          unfolding fold if_not_P [OF False] wp_bind
          apply (rule wp_mono [OF head [OF False t]])
          subgoal premises q for r u
          proof -
            obtain x out1 where r: "r = (x, out1)" by (cases r)
            with q have x: "x \<noteq> 0" and u: "cache.holds s u f" and fl: "filled out out1 pos ?g" by simp_all
            show ?thesis
              unfolding r prod.case if_not_P [OF x] wp_bind holds_fields(2) [OF u] p [symmetric] pos [symmetric]
              apply (rule wp_mono [OF middle [OF False u fl]])
              subgoal premises q for r v
              proof -
                obtain y out2 where r: "r = (y, out2)" by (cases r)
                with q have y: "y \<noteq> 0" and v: "cache.holds s v f"
                  and fl: "filled out out2 (pos + unat N * ?F) ?g" by simp_all
                show ?thesis
                  unfolding r prod.case if_not_P [OF y] holds_fsize [OF v]
                  by (rule tail [OF False v fl])
              qed
              done
          qed
          done
      qed
    qed
    done
qed

end
