(* ===== verification/Write_Correct.thy ===== *)
theory Write_Correct
  imports Read_Correct
begin

text \<open>
  Writing files, fs/fwrite.c, inside their present size: the frags of the range get the bytes of
  the request, through the cache or, for many frags at once, straight to the medium, past the
  cache; no other frag changes.
\<close>

section \<open>Frags that are not in the cache\<close>

definition uncached :: "u32 set \<Rightarrow> fsys \<Rightarrow> bool" where
  "uncached A s \<longleftrightarrow> (\<forall>a \<in> A. cache_node a (fc s) = Some None)"

lemma uncached_empty [simp]: "uncached {} s"
  by (simp add: uncached_def)

lemma uncached_iff:
  assumes "cache_inv s S" "0 \<notin> A"
  shows "uncached A s \<longleftrightarrow> (\<forall>n \<in> set S. blk (nodes (fc s) n) \<notin> A)"
proof -
  note ok = cache_ok_same_disk [OF assms(1)]
  show ?thesis
  proof
    assume u: "uncached A s"
    show "\<forall>n \<in> set S. blk (nodes (fc s) n) \<notin> A"
    proof (intro ballI notI)
      fix n assume n: "n \<in> set S" "blk (nodes (fc s) n) \<in> A"
      then have "cache_node (blk (nodes (fc s) n)) (fc s) = Some (Some n)"
        using cache_node_Some [OF ok n(1) refl] assms(2) by metis
      then show False using u n(2) by (auto simp: uncached_def)
    qed
  next
    assume "\<forall>n \<in> set S. blk (nodes (fc s) n) \<notin> A"
    then show "uncached A s" unfolding uncached_def by (metis cache_node_None [OF ok])
  qed
qed

lemma stable_uncached:
  assumes "\<And>a. a \<in> A \<Longrightarrow> valid_frag s0 a"
  shows "stable (- A) (uncached A) s0 f"
  unfolding stable_def
proof (intro allI impI)
  fix s b r t
  assume h: "cache.holds s0 s f" and u: "uncached A s" and v: "valid_frag s0 b" "b \<in> - A"
    and t: "cache_frag b s = Some (r, t)"
  have zero: "0 \<notin> A" using assms by (auto simp: valid_frag_def)
  obtain S where S: "cache_inv s S" "S \<noteq> []" using mountedE [OF cache.holdsD(1) [OF h]] by metis
  have "valid_frag s b" using v(1) cache.holdsD(2) [OF h] by simp
  then have ok: "b \<noteq> 0" "frag_ok s b" by (simp_all add: valid_frag_def)
  obtain n T where n: "fetched s S t T n" "blk (nodes (fc t) n) = b"
    using cache_frag_fetched [OF S ok] t by auto
  then have T: "cache_inv t T" "set T = set S" by (simp_all add: fetched_def)
  have "blk (nodes (fc t) m) \<notin> A" if "m \<in> set T" for m
    using n v(2) that T(2) u uncached_iff [OF S(1) zero] by (cases "m = n") (auto simp: fetched_def)
  then show "uncached A t" using uncached_iff [OF T(1) zero] by blast
qed

section \<open>Past the cache\<close>

text \<open>A write to frags that are not in the cache changes the contents there.\<close>

lemma data_write_uncached:
  assumes h: "keeping (uncached B) s0 s f" and A: "A = run_addrs b n" "\<And>a. a \<in> B \<Longrightarrow> valid_frag s0 a"
    and AB: "A \<subseteq> B"
    and n: "0 < n" "n \<le> 2 ^ 32" and len: "n * frag_size s0 \<le> length bs"
  shows "\<exists>t g. snd (data_write bs b n s) = t \<and> keeping (uncached B) s0 t g \<and> (\<forall>a. a \<notin> A \<longrightarrow> g a = f a) \<and>
    (\<forall>i < n. g (b + of_nat i) = slice bs (i * frag_size s0) (frag_size s0))"
proof -
  let ?F = "frag_size s0"
  define g where "g = put_frags ?F bs b n f"
  note hs = keeping_holds [OF h]
  note fld = holds_fields [OF hs]
  obtain S where S: "cache_inv s S" "cache_size (fc s) = int (length S)" "8 \<le> length S"
    using mountedE [OF cache.holdsD(1) [OF hs]] by metis
  have zero: "0 \<notin> B" using A(2) by (auto simp: valid_frag_def)
  have out: "blk (nodes (fc s) m) \<notin> A" if "m \<in> set S" for m
    using h that uncached_iff [OF S(1) zero] AB by (auto simp: keeping_def)
  have inA: "a \<in> A \<longleftrightarrow> unat (a - b) < n" for a
  proof
    assume "a \<in> A"
    then obtain i where "i < n" "a = b + of_nat i" by (auto simp: A(1) run_addrs_def)
    then show "unat (a - b) < n" using unat_of_nat32 [of i] n(2) by simp
  next
    assume "unat (a - b) < n"
    moreover have "a = b + of_nat (unat (a - b))" by simp
    ultimately show "a \<in> A" unfolding A(1) run_addrs_def by blast
  qed
  have "b \<in> A" using n(1) by (simp add: inA)
  then have "valid_frag s b" using A(2) AB cache.holdsD(2) [OF hs] by auto
  moreover have good: "dev_good s" using S(1) by (simp add: cache_inv_def)
  ultimately obtain d where d: "write_request b s = (False, s\<lparr>dev := d\<rparr>)" "same_dev (dev s) d"
    using write_request_ok [of s b] by (auto simp: dev_good_def valid_frag_def)
  let ?disk = "put_frags (frag_size s) bs b n (disk (dev s))"
  let ?t = "s\<lparr>dev := d\<lparr>disk := ?disk\<rparr>\<rparr>"
  have run: "snd (data_write bs b n s) = ?t"
    using d by (simp add: data_write_def same_dev_def)
  have keep: "?disk a = disk (dev s) a" if "a \<notin> A" for a
    using that inA by (simp add: put_frags_def)
  have new: "?disk a = slice bs (unat (a - b) * ?F) ?F" if "a \<in> A" for a
    using that inA by (simp add: put_frags_def fld)
  have slices: "length (slice bs (i * ?F) ?F) = ?F" if "i < n" for i
  proof -
    have "Suc i * ?F \<le> n * ?F" using that by (intro mult_le_mono1) simp
    then show ?thesis using len by (simp add: slice_def)
  qed
  have good': "dev_good ?t"
    using good d(2) slices inA new keep fld unfolding dev_good_def dev_ok_def same_dev_def
    by (auto simp: put_frags_def)
  have ok: "cache_ok (frag_size s) (disk (dev s)) (fc s) S" using S(1) by (simp add: cache_inv_def)
  have "cache_ok (frag_size s) ?disk (fc s) S"
    using ok keep out unfolding cache_ok_def node_ok_def by metis
  moreover have fok: "frag_ok ?t = frag_ok s"
    using d(2) by (simp add: frag_ok_def sectoff_def same_dev_def fun_eq_iff)
  ultimately have inv: "cache_inv ?t S" using S(1) good' by (simp add: cache_inv_def)
  then have "mounted ?t" unfolding mounted_def using S(2,3) by (intro exI [of _ S]) (simp add: CACHE_SIZE_MIN_def)
  moreover have vt: "valid_frag ?t = valid_frag s" using fok by (simp add: valid_frag_def fun_eq_iff)
  moreover have "fs_rest ?t = fs_rest s" using d(2) by (simp add: fs_rest_def same_dev_def)
  moreover have "view ?t a = g a" if v: "valid_frag s0 a" for a
  proof (cases "a \<in> A")
    case True
    then have "view ?t a = ?disk a"
      using view_of_miss [OF inv, of a] out by auto
    then show ?thesis using new [OF True] True inA by (simp add: g_def put_frags_def)
  next
    case False
    have "view ?t a = view s a" using keep [OF False] by (auto simp: view_def frag_buf_def split: option.splits)
    then show ?thesis using False inA cache.holdsD(4) [OF hs v] by (simp add: g_def put_frags_def)
  qed
  ultimately have "keeping (uncached B) s0 ?t g"
    using h by (simp add: keeping_def cache.holds_def uncached_def)
  moreover have "g a = f a" if "a \<notin> A" for a using that inA by (simp add: g_def put_frags_def)
  moreover have "g (b + of_nat i) = slice bs (i * ?F) ?F" if "i < n" for i
    using that unat_of_nat32 [of i] n(2) by (simp add: g_def put_frags_def)
  ultimately show ?thesis using run by blast
qed

lemma cache_invalidate_uncached:
  assumes h: "keeping (uncached A) s0 s f" and A: "0 \<notin> A" and b: "valid_frag s0 b"
  shows "wp (cache_invalidate b s) (\<lambda>_ t. \<exists>x. keeping (uncached (insert b A)) s0 t (f(b := x)))"
proof -
  note hs = keeping_holds [OF h]
  obtain S where S: "cache_inv s S" "cache_size (fc s) = int (length S)" "8 \<le> length S" "S \<noteq> []"
    using mountedE [OF cache.holdsD(1) [OF hs]] .
  have b0: "b \<noteq> 0" using b by (simp add: valid_frag_def)
  obtain t T where t: "cache_invalidate b s = Some ((), t)" "cache_inv t T" "set T = set S"
    "cache_frame s t" "cache_size (fc t) = cache_size (fc s)"
    "\<forall>n \<in> set S. blk (nodes (fc t) n) = (if blk (nodes (fc s) n) = b then 0 else blk (nodes (fc s) n))"
    "\<forall>a. a \<noteq> 0 \<longrightarrow> view t a = ((view s)(b := disk (dev s) b)) a"
    using cache_invalidate_correct [OF S(1) b0] by blast
  have "uncached (insert b A) t"
    using uncached_iff [OF t(2), of "insert b A"] uncached_iff [OF S(1) A] A b0 h t(3,6)
    by (auto simp: keeping_def)
  moreover have "mounted t"
    unfolding mounted_def using t(2,3,5) same_set_length [OF S(1) t(2,3)] S(2,3)
    by (intro exI [of _ T]) (simp add: CACHE_SIZE_MIN_def)
  moreover have "view t a = (f(b := disk (dev s) b)) a" if "valid_frag s0 a" for a
    using t(7) that cache.holdsD(4) [OF hs that] by (simp add: valid_frag_def)
  ultimately have "keeping (uncached (insert b A)) s0 t (f(b := disk (dev s) b))"
    using hs cache_frame_valid [OF t(4)] cache_frame_rest [OF t(4)]
    by (simp add: keeping_def cache.holds_def)
  then show ?thesis using t(1) by auto
qed

section \<open>The frags of a file that exist\<close>

text \<open>The tree can be walked to frag \<open>k\<close> through frags in \<open>B\<close>.\<close>

definition walkable :: "u32 set \<Rightarrow> fsys \<Rightarrow> (u32 \<Rightarrow> bytes) \<Rightarrow> u32 \<Rightarrow> u32 \<Rightarrow> bool" where
  "walkable B s f inum k \<longleftrightarrow> in_reach s (file_blk_num (sb s) k) \<and>
     frags_valid s (file_slots s f inum (file_blk_num (sb s) k)) \<and>
     fst ` set (file_slots s f inum (file_blk_num (sb s) k)) \<subseteq> B"

lemma walkable_reads:
  assumes "stable B R s0 f" "keeping R s0 s f" "walkable B s0 f inum k"
  shows "wp (ridisk_frag k inum s) (\<lambda>r t. keeping R s0 t f \<and> r = file_frag_addr s0 f inum k)"
  using ridisk_frag_reads_keeping [OF assms(1,2)] assms(3) by (simp add: walkable_def)

lemma prev_scan_keeps:
  assumes st: "stable B R s0 f" and "keeping R s0 s f" "\<And>j. j < n \<Longrightarrow> walkable B s0 f inum (of_nat j)"
  shows "wp (prev_scan n inum prev s) (\<lambda>_ t. keeping R s0 t f)"
  using assms(2,3)
proof (induction n arbitrary: prev s)
  case 0
  then show ?case by simp
next
  case (Suc n)
  have "wp (prev_scan n inum a t) (\<lambda>_ t. keeping R s0 t f)" if "keeping R s0 t f" for a t
    using Suc.IH [OF that] Suc.prems(2) by simp
  then show ?case
    unfolding prev_scan.simps wp_bind
    by (intro wp_mono [OF walkable_reads [OF st Suc.prems(1), of inum "of_nat n"]])
      (use Suc.prems in auto)
qed

lemma prev_frag_addr_keeps:
  assumes st: "stable B R s0 f" and h: "keeping R s0 s f"
    and w: "\<And>j. j < unat k \<Longrightarrow> walkable B s0 f inum (of_nat j)"
  shows "wp (prev_frag_addr k inum s) (\<lambda>_ t. keeping R s0 t f)"
proof -
  have "nat (sint (k - 1) + 1) \<le> unat k"
  proof (cases "k = 0")
    case True
    then show ?thesis by simp
  next
    case False
    have "sint (k - 1) \<le> uint (k - 1)"
      by (simp add: sint_uint signed_take_bit_int_less_eq_self_iff) (rule order_trans [of _ 0]; simp)
    also have "uint (k - 1) = uint k - 1"
    proof -
      have "uint k \<noteq> 0" "0 \<le> uint k" using False by (simp_all add: unsigned_eq_0_iff)
      then have "1 \<le> uint k" by linarith
      then show ?thesis using uint_sub_lem [of 1 k] by simp
    qed
    finally show ?thesis by (simp add: nat_le_iff)
  qed
  then have "wp (prev_scan (nat (sint (k - 1) + 1)) inum (uninit (hnd s)) s) (\<lambda>_ t. keeping R s0 t f)"
    by (intro prev_scan_keeps [OF st h] w) simp
  then show ?thesis
    unfolding prev_frag_addr_def wp_bind Let_def by (rule wp_mono) auto
qed

lemma widisk_walk_reads:
  assumes st: "stable B R s0 f" and "keeping R s0 s f"
    and "\<forall>p \<in> set (walk_slots f ds c). valid_frag s0 (fst p) \<and> fst p \<in> B"
    and "ds = [] \<or> frag_word f (last (walk_slots f ds c)) \<noteq> 0"
  shows "wp (widisk_walk ds c inum prev s) (\<lambda>r t. keeping R s0 t f \<and>
    r = (if ds = [] then c else frag_word f (last (walk_slots f ds c))))"
  using assms(2-4)
proof (induction ds arbitrary: c s)
  case Nil
  then show ?case by simp
next
  case (Cons d ds curblk s)
  obtain ptr frg where d: "d = (ptr, frg)" by (cases d)
  define p where "p = (curblk + of_nat frg, 4 * ptr)"
  define c where "c = frag_word f p"
  have v: "valid_frag s0 (curblk + of_nat frg)" "curblk + of_nat frg \<in> B"
    using Cons.prems(2) d by (simp_all add: Let_def)
  have sl: "walk_slots f ((ptr, frg) # ds) curblk = p # (if c = 0 then [] else walk_slots f ds c)"
    by (simp add: p_def c_def Let_def)
  have nz: "c \<noteq> 0" using Cons.prems(3) d sl by (cases "c = 0") (simp_all add: c_def)
  have ws: "walk_slots f ds c = [] \<longleftrightarrow> ds = []" by (cases ds) (auto simp: Let_def)
  show ?case
    unfolding d widisk_walk.simps wp_bind Let_def
  proof (rule wp_get_keeping [OF st Cons.prems(1) v])
    fix n t assume t: "keeping R s0 t f" "frag_buf t n = f (curblk + of_nat frg)"
    have c: "peek32 (frag_buf t n) (4 * ptr) = c" using t(2) by (simp add: c_def p_def frag_word_def)
    have "wp (widisk_walk ds c inum prev t) (\<lambda>r t. keeping R s0 t f \<and>
        r = (if ds = [] then c else frag_word f (last (walk_slots f ds c))))"
      using Cons.IH [OF t(1), of c] Cons.prems(2,3) d sl nz ws by auto
    then show "wp (case (Some n, t) of (temp, s) \<Rightarrow> case temp of None \<Rightarrow> Some (0, s)
       | Some n \<Rightarrow> if peek32 (frag_buf s n) (4 * ptr) \<noteq> 0
           then widisk_walk ds (peek32 (frag_buf s n) (4 * ptr)) inum prev s
           else block_allocate prev s \<bind> (\<lambda>(curblka, s). if curblka = 0 then Some (0, s)
             else put_pointer (curblk + of_nat frg) ptr curblka s \<bind> (\<lambda>(ok, s).
               if \<not> ok then Some (0, s)
               else inode_modify inum s \<bind> (\<lambda>(inode, s). case inode of None \<Rightarrow> Some (0, s)
                 | Some p \<Rightarrow> (if ds \<noteq> [] then block_erase curblka (ADJUST_IC_BLKS p (NDSPB s) s)
                       else Some ((), ADJUST_IC_BLKS p (NDSPB s) s)) \<bind>
                     (\<lambda>(u, s). widisk_walk ds curblka inum prev s)))))
      (\<lambda>r t. keeping R s0 t f \<and> r = (if (ptr, frg) # ds = [] then curblk
         else frag_word f (last (walk_slots f ((ptr, frg) # ds) curblk))))"
      using nz c sl ws by (auto simp: c_def cong: if_cong)
  qed
qed

lemma widisk_frag_reads:
  assumes st: "stable B R s0 f" and h: "keeping R s0 s f" and nz: "file_frag_addr s0 f inum k \<noteq> 0"
    and w: "\<And>j. j \<le> unat k \<Longrightarrow> walkable B s0 f inum (of_nat j)"
  shows "wp (widisk_frag k inum s) (\<lambda>r t. keeping R s0 t f \<and> r = file_frag_addr s0 f inum k)"
proof -
  have wk: "walkable B s0 f inum k" using w [of "unat k"] by simp
  then have r: "in_reach s0 (file_blk_num (sb s0) k)"
    and v: "frags_valid s0 (file_slots s0 f inum (file_blk_num (sb s0) k))"
    and B: "fst ` set (file_slots s0 f inum (file_blk_num (sb s0) k)) \<subseteq> B"
    by (simp_all add: walkable_def)
  define b where "b = file_blk_num (sb s0) k"
  note v' = v [folded b_def] and B' = B [folded b_def]
  show ?thesis
    unfolding widisk_frag_def wp_bind
  proof (rule wp_inode_read_keeping [OF st h frags_valid_inode [OF v] inode_frag_in [OF B]])
    fix p t assume t: "keeping R s0 t f"
      and get: "\<And>field. get32 t p field = frag_word f (inode_slot (sb s0) inum field)"
    note e = holds_fields [OF keeping_holds [OF t]]
    show "wp (case (Some p, t) of (inode, s) \<Rightarrow> case inode of None \<Rightarrow> Some (0, s)
       | Some p \<Rightarrow>
           (let blkno = file_blk_num (sb s) k;
                frac = blk_frac (sb s) k
            in if blkno < 12 then
                 (let curblk = get32 s p (ic_db (unat blkno))
                  in if curblk \<noteq> 0 then Some (curblk + frac, s)
                     else prev_frag_addr k inum s \<bind> (\<lambda>(prev_frag, s).
                       block_allocate prev_frag s \<bind> (\<lambda>(curblk, s).
                       if curblk = 0 then Some (0, s)
                       else inode_modify inum s \<bind> (\<lambda>(inode, s).
                         case inode of None \<Rightarrow> Some (0, s)
                         | Some p \<Rightarrow>
                             (let s = ADJUST_IC_BLKS p (NDSPB s) s
                              in Some (curblk + frac, put32 p (ic_db (unat blkno)) curblk s))))))
               else
                 block_path s blkno \<bind> (\<lambda>digits.
                   let curblk = get32 s p (ic_ib (length digits - 1))
                   in if curblk \<noteq> 0 then
                     prev_frag_addr k inum s \<bind> (\<lambda>(prev_frag, s).
                       widisk_walk (rev digits) curblk inum prev_frag s \<bind> (\<lambda>(curblk, s).
                       Some (if curblk = 0 then 0 else curblk + frac, s)))
                   else prev_frag_addr k inum s \<bind> (\<lambda>(prev_frag, s).
                     block_allocate prev_frag s \<bind> (\<lambda>(curblk, s).
                     if curblk = 0 then Some (0, s)
                     else inode_modify inum s \<bind> (\<lambda>(inode, s).
                       case inode of None \<Rightarrow> Some (0, s)
                       | Some p \<Rightarrow>
                           let s = ADJUST_IC_BLKS p (NDSPB s) s;
                               s = put32 p (ic_ib (length digits - 1)) curblk s
                           in block_erase curblk s \<bind> (\<lambda>(u, s).
                             widisk_walk (rev digits) curblk inum prev_frag s \<bind> (\<lambda>(curblk, s).
                             Some (if curblk = 0 then 0 else curblk + frac, s)))))))))
      (\<lambda>r t. keeping R s0 t f \<and> r = file_frag_addr s0 f inum k)"
    proof (cases "b < 12")
      case True
      then show ?thesis using t get nz
        by (simp add: e b_def [symmetric] Let_def file_frag_addr_def file_slots_def split: if_splits)
    next
      case False
      then obtain ds where ds: "block_path s0 b = Some ds" using r by (auto simp: in_reach_def b_def)
      define c where "c = frag_word f (inode_slot (sb s0) inum (ic_ib (length ds - 1)))"
      have ne: "ds \<noteq> []" using ds by (auto simp: block_path_def Let_def split: if_splits)
      have c0: "c \<noteq> 0"
        using nz False ds by (auto simp: c_def file_frag_addr_def b_def [symmetric] file_slots_def Let_def)
      have sl: "file_slots s0 f inum b =
          inode_slot (sb s0) inum (ic_ib (length ds - 1)) # walk_slots f (rev ds) c"
        using False ds c0 by (simp add: file_slots_def c_def Let_def)
      have slots: "\<forall>p \<in> set (walk_slots f (rev ds) c). valid_frag s0 (fst p) \<and> fst p \<in> B"
        using v' B' sl by (auto simp: frags_valid_def list_all_iff)
      have "walk_slots f (rev ds) c \<noteq> []"
        using ne by (cases "rev ds") (auto simp: Let_def)
      then have a: "file_frag_addr s0 f inum k = (let c = frag_word f (last (walk_slots f (rev ds) c))
           in if c = 0 then 0 else c + blk_frac (sb s0) k)"
        by (simp add: file_frag_addr_def b_def [symmetric] sl)
      then have last: "frag_word f (last (walk_slots f (rev ds) c)) \<noteq> 0" using nz by (auto simp: Let_def)
      have walk: "wp (widisk_walk (rev ds) c inum prev u) (\<lambda>r t. keeping R s0 t f \<and>
          r = frag_word f (last (walk_slots f (rev ds) c)))" if "keeping R s0 u f" for prev u
        using widisk_walk_reads [OF st that slots] last ne by simp
      have prev: "wp (prev_frag_addr k inum t) (\<lambda>_ t. keeping R s0 t f)"
        by (rule prev_frag_addr_keeps [OF st t]) (use w in simp)
      have rest: "wp (widisk_walk (rev ds) c inum prev u \<bind> (\<lambda>(curblk, s).
          Some (if curblk = 0 then 0 else curblk + blk_frac (sb s0) k, s)))
          (\<lambda>r t. keeping R s0 t f \<and> r = file_frag_addr s0 f inum k)" if "keeping R s0 u f" for prev u
        unfolding wp_bind by (rule wp_mono [OF walk [OF that]]) (simp add: a Let_def last)
      show ?thesis
        using False c0 get ds
        by (simp add: e b_def [symmetric] Let_def c_def [symmetric] wp_bind del: One_nat_def
            split del: if_split)
          (rule wp_mono [OF prev], use rest in \<open>simp add: wp_bind e del: One_nat_def split del: if_split cong: if_cong\<close>)
    qed
  qed
qed

section \<open>The bytes that a write stores\<close>

text \<open>The frags of a file that have bytes from \<open>lo\<close> up to \<open>hi\<close>, at least one, and their
  addresses.\<close>

definition touched :: "nat \<Rightarrow> nat \<Rightarrow> nat \<Rightarrow> nat list" where
  "touched m lo hi = [lo div m..<max (Suc (lo div m)) ((hi + m - 1) div m)]"

definition data_frags :: "fsys \<Rightarrow> (u32 \<Rightarrow> bytes) \<Rightarrow> u32 \<Rightarrow> nat \<Rightarrow> nat \<Rightarrow> u32 list" where
  "data_frags s f inum lo hi =
     map (\<lambda>k. file_frag_addr s f inum (of_nat k)) (touched (frag_size s) lo hi)"

text \<open>These frags exist, they are different from each other, and the tree can be walked to them
  and to all frags below without meeting one of them.\<close>

definition writable :: "fsys \<Rightarrow> (u32 \<Rightarrow> bytes) \<Rightarrow> u32 \<Rightarrow> nat \<Rightarrow> nat \<Rightarrow> bool" where
  "writable s f inum lo hi \<longleftrightarrow>
     (let D = data_frags s f inum lo hi
      in distinct D \<and> list_all (valid_frag s) D \<and>
         list_all (\<lambda>k. walkable (- set D) s f inum (of_nat k))
           [0..<Suc (last (touched (frag_size s) lo hi))])"

text \<open>Of the request, bytes \<open>lo\<close> to \<open>hi\<close> of a file of \<open>size\<close> bytes, the ones below \<open>p\<close> are
  stored; nothing is said of the frags in \<open>A\<close>. No other frag of the partition has changed.\<close>

definition stored :: "fsys \<Rightarrow> (u32 \<Rightarrow> bytes) \<Rightarrow> u32 \<Rightarrow> bytes \<Rightarrow> nat \<Rightarrow> nat \<Rightarrow> nat \<Rightarrow> u32 set \<Rightarrow> nat \<Rightarrow>
    (u32 \<Rightarrow> bytes) \<Rightarrow> bool" where
  "stored s f inum b lo hi sz A p g \<longleftrightarrow>
     (\<forall>a. a \<notin> set (data_frags s f inum lo hi) \<longrightarrow> g a = f a) \<and>
     (\<forall>k \<in> set (touched (frag_size s) lo hi). file_frag_addr s f inum (of_nat k) \<notin> A \<longrightarrow>
       (\<forall>j < frag_size s. k * frag_size s + j < sz \<longrightarrow>
          g (file_frag_addr s f inum (of_nat k)) ! j =
            (if lo \<le> k * frag_size s + j \<and> k * frag_size s + j < p then b ! (k * frag_size s + j - lo)
             else f (file_frag_addr s f inum (of_nat k)) ! j)))"

lemma stored_start: "stored s f inum b lo hi sz {} lo f"
  unfolding stored_def by auto

lemma walkable_mono: "walkable B s f inum k \<Longrightarrow> B \<subseteq> C \<Longrightarrow> walkable C s f inum k"
  by (auto simp: walkable_def)

text \<open>The tree is the same after frags outside of it have changed.\<close>

lemma walkable_cong:
  assumes w: "walkable B s f inum k" and g: "\<And>a. a \<in> B \<Longrightarrow> g a = f a"
  shows "walkable B s g inum k" "file_frag_addr s g inum k = file_frag_addr s f inum k"
proof -
  let ?ps = "file_slots s f inum (file_blk_num (sb s) k)"
  have fw: "frag_word g p = frag_word f p" if "p \<in> set ?ps" for p
    using that w g by (auto simp: walkable_def frag_word_def)
  have sl: "file_slots s g inum (file_blk_num (sb s) k) = ?ps"
    by (rule file_slots_cong [OF fw])
  then show "walkable B s g inum k" using w by (simp add: walkable_def)
  have "?ps \<noteq> []" using file_slots_hd [of s f inum "file_blk_num (sb s) k"] by auto
  then show "file_frag_addr s g inum k = file_frag_addr s f inum k"
    using sl fw [of "last ?ps"] by (simp add: file_frag_addr_def)
qed

lemma touched_range:
  "k \<in> set (touched m lo hi) \<longleftrightarrow> lo div m \<le> k \<and> (k = lo div m \<or> k < (hi + m - 1) div m)"
  by (auto simp: touched_def)

lemma touched_le_last: "k \<in> set (touched m lo hi) \<Longrightarrow> k \<le> last (touched m lo hi)"
  by (auto simp: touched_def)

lemma writableD:
  assumes w: "writable s f inum lo hi" and k: "k \<in> set (touched (frag_size s) lo hi)"
  shows "file_frag_addr s f inum (of_nat k) \<in> set (data_frags s f inum lo hi)"
    "valid_frag s (file_frag_addr s f inum (of_nat k))"
    "j \<le> k \<Longrightarrow> walkable (- set (data_frags s f inum lo hi)) s f inum (of_nat j)"
    "k' \<in> set (touched (frag_size s) lo hi) \<Longrightarrow>
      file_frag_addr s f inum (of_nat k) = file_frag_addr s f inum (of_nat k') \<Longrightarrow> k = k'"
proof -
  show "file_frag_addr s f inum (of_nat k) \<in> set (data_frags s f inum lo hi)"
    using k by (auto simp: data_frags_def)
  then show "valid_frag s (file_frag_addr s f inum (of_nat k))"
    using w by (auto simp: writable_def Let_def list_all_iff)
  show "walkable (- set (data_frags s f inum lo hi)) s f inum (of_nat j)" if "j \<le> k"
  proof -
    have "j \<in> set [0..<Suc (last (touched (frag_size s) lo hi))]"
      using that touched_le_last [OF k] by (simp del: upt_Suc)
    then show ?thesis using w unfolding writable_def Let_def list_all_iff by blast
  qed
  show "k = k'" if "k' \<in> set (touched (frag_size s) lo hi)"
    "file_frag_addr s f inum (of_nat k) = file_frag_addr s f inum (of_nat k')"
    using w k that by (auto simp: writable_def Let_def data_frags_def distinct_map inj_on_def)
qed

text \<open>Finding a frag in the middle of a write.\<close>

lemma widisk_frag_finds:
  assumes w: "writable s0 f inum lo hi" and k: "k \<in> set (touched (frag_size s0) lo hi)"
    and A: "A \<subseteq> set (data_frags s0 f inum lo hi)" and st: "stored s0 f inum b lo hi sz C p g"
    and h: "keeping (uncached A) s0 s g"
  shows "wp (widisk_frag (of_nat k) inum s) (\<lambda>r t. keeping (uncached A) s0 t g \<and>
    r = file_frag_addr s0 f inum (of_nat k))"
proof -
  let ?D = "set (data_frags s0 f inum lo hi)"
  have g: "g a = f a" if "a \<in> - ?D" for a using st that by (simp add: stored_def)
  note cong = walkable_cong [OF _ g]
  note wd = writableD [OF w k]
  have "valid_frag s0 a" if "a \<in> A" for a
    using that A w by (auto simp: writable_def Let_def list_all_iff)
  then have "stable (- A) (uncached A) s0 g" by (rule stable_uncached)
  then have "wp (widisk_frag (of_nat k) inum s) (\<lambda>r t. keeping (uncached A) s0 t g \<and>
      r = file_frag_addr s0 g inum (of_nat k))"
  proof (rule widisk_frag_reads [OF _ h])
    show "file_frag_addr s0 g inum (of_nat k) \<noteq> 0"
      using wd(2) cong(2) [OF wd(3) [of k]] by (auto simp: valid_frag_def)
    fix j assume "j \<le> unat (of_nat k :: u32)"
    moreover have "unat (of_nat k :: u32) \<le> k" by (simp add: unat_of_nat)
    ultimately have "j \<le> k" by (rule order_trans)
    then show "walkable (- A) s0 g inum (of_nat j)"
      using cong(1) [OF wd(3)] walkable_mono A by (metis Compl_subset_Compl_iff)
  qed
  then show ?thesis using cong(2) [OF wd(3) [of k]] by simp
qed

text \<open>A change of frag \<open>k\<close>, whose bytes below \<open>p\<close> were stored before and whose bytes below
  \<open>p'\<close> are stored now.\<close>

lemma stored_frag:
  assumes w: "writable s f inum lo hi" and k: "k \<in> set (touched (frag_size s) lo hi)"
    and st: "stored s f inum b lo hi sz A p g" and A: "A \<subseteq> insert (file_frag_addr s f inum (of_nat k)) C"
    and pp: "p \<le> p'" "lo \<le> p" "k * frag_size s \<le> p" "p' \<le> Suc k * frag_size s"
    and x: "\<And>j. j < frag_size s \<Longrightarrow> k * frag_size s + j < sz \<Longrightarrow> x ! j =
        (if lo \<le> k * frag_size s + j \<and> k * frag_size s + j < p' then b ! (k * frag_size s + j - lo)
         else f (file_frag_addr s f inum (of_nat k)) ! j)"
  shows "stored s f inum b lo hi sz C p' (g(file_frag_addr s f inum (of_nat k) := x))"
  unfolding stored_def
proof (intro conjI allI ballI impI)
  let ?m = "frag_size s" and ?a = "\<lambda>k. file_frag_addr s f inum (of_nat k)"
  note wd = writableD [OF w k]
  fix a assume "a \<notin> set (data_frags s f inum lo hi)"
  then show "(g(?a k := x)) a = f a" using st wd(1) by (auto simp: stored_def)
next
  let ?m = "frag_size s" and ?a = "\<lambda>k. file_frag_addr s f inum (of_nat k)"
  fix i j assume i: "i \<in> set (touched ?m lo hi)" "?a i \<notin> C" and j: "j < ?m" "i * ?m + j < sz"
  show "(g(?a k := x)) (?a i) ! j =
      (if lo \<le> i * ?m + j \<and> i * ?m + j < p' then b ! (i * ?m + j - lo) else f (?a i) ! j)"
  proof (cases "i = k")
    case True
    then show ?thesis using x [OF j(1)] j(2) by simp
  next
    case False
    then have ne: "?a i \<noteq> ?a k" using writableD(4) [OF w k i(1)] by metis
    then have "?a i \<notin> A" using A i(2) by blast
    then have g: "g (?a i) ! j = (if lo \<le> i * ?m + j \<and> i * ?m + j < p then b ! (i * ?m + j - lo) else f (?a i) ! j)"
      using st i(1) j by (simp add: stored_def)
    have "Suc i * ?m \<le> k * ?m \<or> Suc k * ?m \<le> i * ?m"
      using False by (cases "i < k") (simp_all only: mult_le_mono1 Suc_leI linorder_not_less nat_less_le, auto intro!: mult_le_mono1 simp del: mult_Suc)
    then have "i * ?m + j < p \<longleftrightarrow> i * ?m + j < p'" using j(1) pp by auto
    then show ?thesis using g ne by simp
  qed
qed

text \<open>Storing a part of a frag through the cache.\<close>

lemma partial_frag_write_stores:
  assumes w: "writable s0 f inum lo hi" and k: "k \<in> set (touched (frag_size s0) lo hi)"
    and st: "stored s0 f inum b lo hi sz {} p g" and h: "cache.holds s0 s g"
    and p: "p = k * frag_size s0 + unat off" "unat off + unat n \<le> frag_size s0" "lo \<le> p"
    and b: "pos = p - lo" "pos + unat n \<le> length b"
    and rd: "readcache \<or> k * frag_size s0 = p \<and> sz \<le> p + unat n"
  shows "wp (partial_frag_write (file_frag_addr s0 f inum (of_nat k)) off n b pos readcache s)
    (\<lambda>r t. r = n \<and> (\<exists>g'. cache.holds s0 t g' \<and> stored s0 f inum b lo hi sz {} (p + unat n) g'))"
  unfolding partial_frag_write_def wp_bind
proof (rule cache.wp_get_write_from [OF h writableD(2) [OF w k]])
  let ?m = "frag_size s0" and ?a = "file_frag_addr s0 f inum (of_nat k)"
  fix i t
  assume len: "length (frag_buf t i) = rest_fsize (fs_rest s0)" and old: "readcache \<Longrightarrow> frag_buf t i = g ?a"
    and put: "\<And>bs. length bs = rest_fsize (fs_rest s0) \<Longrightarrow> cache.holds s0 (set_frag_buf i bs t) (g(?a := bs))"
  define x where "x = poke (frag_buf t i) (unat off) (slice b pos (unat n))"
  have sl: "length (slice b pos (unat n)) = unat n" using b(2) by (simp add: slice_def)
  have xl: "length x = ?m" using len sl p(2) by (simp add: x_def)
  have xn: "x ! j = (if unat off \<le> j \<and> j < unat off + unat n then b ! (pos + (j - unat off))
      else frag_buf t i ! j)" if "j < ?m" for j
    using that p(2) len sl b(2) by (auto simp: x_def nth_poke slice_def)
  have ga: "g ?a ! j = (if lo \<le> k * ?m + j \<and> k * ?m + j < p then b ! (k * ?m + j - lo) else f ?a ! j)"
    if "j < ?m" "k * ?m + j < sz" for j
    using st k that by (simp add: stored_def)
  have "stored s0 f inum b lo hi sz {} (p + unat n) (g(?a := x))"
  proof (rule stored_frag [OF w k st])
    fix j assume j: "j < ?m" "k * ?m + j < sz"
    have "frag_buf t i ! j = g ?a ! j" if "\<not> (unat off \<le> j \<and> j < unat off + unat n)"
      using old rd that p(1) j(2) by (cases readcache) auto
    then show "x ! j = (if lo \<le> k * ?m + j \<and> k * ?m + j < p + unat n then b ! (k * ?m + j - lo) else f ?a ! j)"
      using xn [OF j(1)] ga [OF j] p b(1) by auto
  qed (use p in auto)
  then show "wp (case (Some i, t) of (ptr, s) \<Rightarrow> case ptr of None \<Rightarrow> Some (0, s)
      | Some p \<Rightarrow> Some (n, set_frag_buf p (poke (frag_buf s p) (unat off) (slice b pos (unat n))) s))
    (\<lambda>r t. r = n \<and> (\<exists>g'. cache.holds s0 t g' \<and> stored s0 f inum b lo hi sz {} (p + unat n) g'))"
    using put [of x] xl by (auto simp: x_def [symmetric])
qed

section \<open>Whole frags\<close>

lemma set_frag_buf_hnd [simp]: "hnd (set_frag_buf n x s) = hnd s"
  by (simp add: set_frag_buf_def)

lemma full_frag_stores:
  assumes w: "writable s0 f inum lo hi" and k: "k \<in> set (touched (frag_size s0) lo hi)"
    and st: "stored s0 f inum b lo hi sz {} (k * frag_size s0) g" and h: "cache.holds s0 s g"
    and lo: "lo \<le> k * frag_size s0" and b: "pos = k * frag_size s0 - lo" "pos + frag_size s0 \<le> length b"
    and q: "\<And>i t g'. cache.holds s0 (set_frag_buf i (poke (frag_buf t i) 0 (slice b pos (FSIZE t))) t) g' \<Longrightarrow>
        stored s0 f inum b lo hi sz {} (Suc k * frag_size s0) g' \<Longrightarrow> FSIZE t = frag_size s0 \<Longrightarrow> Q (Some i) t"
  shows "wp (cache_frag_write (file_frag_addr s0 f inum (of_nat k)) False s) Q"
proof (rule cache.wp_get_write_from [OF h writableD(2) [OF w k]])
  let ?m = "frag_size s0" and ?a = "file_frag_addr s0 f inum (of_nat k)"
  fix i t
  assume len: "length (frag_buf t i) = rest_fsize (fs_rest s0)"
    and put: "\<And>bs. length bs = rest_fsize (fs_rest s0) \<Longrightarrow> cache.holds s0 (set_frag_buf i bs t) (g(?a := bs))"
  have sl: "length (slice b pos ?m) = ?m" using b(2) by (simp add: slice_def)
  define x where "x = poke (frag_buf t i) 0 (slice b pos ?m)"
  have x: "x = slice b pos ?m" using len sl by (simp add: x_def poke_def)
  then have hx: "cache.holds s0 (set_frag_buf i x t) (g(?a := x))" using put sl by simp
  then have F: "FSIZE t = ?m" using holds_fsize by (fastforce simp: FSIZE_def)
  have "stored s0 f inum b lo hi sz {} (Suc k * ?m) (g(?a := x))"
  proof (rule stored_frag [OF w k st])
    fix j assume "j < ?m" "k * ?m + j < sz"
    then show "x ! j = (if lo \<le> k * ?m + j \<and> k * ?m + j < Suc k * ?m then b ! (k * ?m + j - lo) else f ?a ! j)"
      using lo b by (simp add: x slice_def)
  qed (use lo in auto)
  then show "Q (Some i) t" using q hx F by (simp add: x_def)
qed

lemma cached_write_stores:
  assumes "writable s0 f inum lo hi" "\<And>j. i \<le> j \<Longrightarrow> j < i + n \<Longrightarrow> K + j \<in> set (touched (frag_size s0) lo hi)"
    and "cache.holds s0 s g" "stored s0 f inum b lo hi sz {} ((K + i) * frag_size s0) g"
    and "lo \<le> (K + i) * frag_size s0" "pos = (K + i) * frag_size s0 - lo"
    and "pos + n * frag_size s0 \<le> length b"
  shows "wp (cached_write n (of_nat K) (of_nat i) inum b pos s) (\<lambda>r t. r = of_nat (i + n) \<and>
    (\<exists>g'. cache.holds s0 t g' \<and> stored s0 f inum b lo hi sz {} ((K + i + n) * frag_size s0) g'))"
  using assms(2-)
proof (induction n arbitrary: i pos s g)
  case 0
  then show ?case by auto
next
  case (Suc n)
  let ?m = "frag_size s0" and ?a = "file_frag_addr s0 f inum (of_nat (K + i))"
  note w = assms(1)
  have k: "K + i \<in> set (touched ?m lo hi)" using Suc.prems(1) by simp
  have "?a \<noteq> 0" using writableD(2) [OF w k] by (simp add: valid_frag_def)
  note a0 = this
  have find: "wp (widisk_frag (of_nat (K + i)) inum s) (\<lambda>r t. cache.holds s0 t g \<and> r = ?a)"
    using widisk_frag_finds [OF w k _ Suc.prems(3), of "{}" s] Suc.prems(2) by (simp add: keeping_def)
  have step: "wp (cached_write n (of_nat K) (of_nat i + 1) inum b (pos + ?m) u) (\<lambda>r t. r = of_nat (i + Suc n) \<and>
      (\<exists>g'. cache.holds s0 t g' \<and> stored s0 f inum b lo hi sz {} ((K + i + Suc n) * ?m) g'))"
    if "cache.holds s0 u g'" "stored s0 f inum b lo hi sz {} (Suc (K + i) * ?m) g'" for u g'
    using Suc.IH [of "Suc i" u g' "pos + ?m"] that Suc.prems by (simp add: add.commute)
  show ?case
    unfolding cached_write.simps wp_bind
    apply (rule wp_mono [OF find [unfolded of_nat_add]])
    subgoal premises r for a t
    proof -
      have t: "cache.holds s0 t g" and a: "a = ?a" using r by simp_all
      show ?thesis
        unfolding a prod.case if_not_P [OF a0] wp_bind
        by (rule full_frag_stores [OF w k Suc.prems(3) t Suc.prems(4,5)])
          (use Suc.prems(6) step in simp_all)
    qed
    done
qed

section \<open>Gathered frags\<close>

lemma stored_forget:
  assumes "stored s f inum b lo hi sz A p g" "a \<in> set (data_frags s f inum lo hi)"
  shows "stored s f inum b lo hi sz (insert a A) p (g(a := x))"
  using assms by (auto simp: stored_def)

lemma writable_data_valid:
  "writable s f inum lo hi \<Longrightarrow> a \<in> set (data_frags s f inum lo hi) \<Longrightarrow> valid_frag s a"
  by (auto simp: writable_def Let_def list_all_iff)

lemma fresh_frag_takes:
  assumes w: "writable s0 f inum lo hi" and k: "k \<in> set (touched (frag_size s0) lo hi)"
    and A: "A \<subseteq> set (data_frags s0 f inum lo hi)" and st: "stored s0 f inum b lo hi sz A p g"
    and h: "keeping (uncached A) s0 s g"
  shows "wp (fresh_frag (of_nat k) inum s) (\<lambda>r t. r = file_frag_addr s0 f inum (of_nat k) \<and>
    (\<exists>g'. keeping (uncached (insert r A)) s0 t g' \<and> stored s0 f inum b lo hi sz (insert r A) p g'))"
proof -
  let ?a = "file_frag_addr s0 f inum (of_nat k)"
  note wd = writableD(1,2) [OF w k]
  have a0: "?a \<noteq> 0" and z: "0 \<notin> A" using wd(2) A writable_data_valid [OF w] by (auto simp: valid_frag_def)
  have inv: "wp (cache_invalidate ?a t) (\<lambda>_ u. \<exists>g'. keeping (uncached (insert ?a A)) s0 u g' \<and>
      stored s0 f inum b lo hi sz (insert ?a A) p g')" if "keeping (uncached A) s0 t g" for t
    by (rule wp_mono [OF cache_invalidate_uncached [OF that z wd(2)]]) (use stored_forget [OF st wd(1)] in blast)
  show ?thesis
    unfolding fresh_frag_def wp_bind
    apply (rule wp_mono [OF widisk_frag_finds [OF w k A st h]])
    subgoal premises r for x t
    proof -
      have t: "keeping (uncached A) s0 t g" and x: "x = ?a" using r by simp_all
      show ?thesis unfolding x prod.case if_P [OF a0] wp_bind by (rule wp_mono [OF inv [OF t]]) auto
    qed
    done
qed

text \<open>The write of a run of \<open>r\<close> frags, from number \<open>K\<close> of the file on.\<close>

lemma run_stores:
  assumes w: "writable s0 f inum lo hi" and k: "\<And>q. q < r \<Longrightarrow> K + q \<in> set (touched (frag_size s0) lo hi)"
    and cs: "\<And>q. q < r \<Longrightarrow> file_frag_addr s0 f inum (of_nat (K + q)) = cs + of_nat q"
    and r: "0 < r" "r \<le> 2 ^ 32" and B: "run_addrs cs r \<subseteq> B" "B \<subseteq> set (data_frags s0 f inum lo hi)"
    and h: "keeping (uncached B) s0 s g" and st: "stored s0 f inum b lo hi sz B (K * frag_size s0) g"
    and lo: "lo \<le> K * frag_size s0" and len: "(K + r) * frag_size s0 - lo \<le> length b"
  shows "\<exists>g'. keeping (uncached B) s0 (snd (data_write (drop (K * frag_size s0 - lo) b) cs r s)) g' \<and>
    stored s0 f inum b lo hi sz (B - run_addrs cs r) ((K + r) * frag_size s0) g'"
proof -
  let ?m = "frag_size s0" and ?A = "run_addrs cs r" and ?a = "\<lambda>k. file_frag_addr s0 f inum (of_nat k)"
  let ?b = "drop (K * ?m - lo) b"
  have len': "r * ?m \<le> length ?b" using len lo by (simp add: algebra_simps)
  obtain g' where g': "keeping (uncached B) s0 (snd (data_write ?b cs r s)) g'"
    "\<And>a. a \<notin> ?A \<Longrightarrow> g' a = g a" "\<And>q. q < r \<Longrightarrow> g' (cs + of_nat q) = slice ?b (q * ?m) ?m"
    using data_write_uncached [OF h refl _ B(1) r len'] B(2) writable_data_valid [OF w] by blast
  have inA: "?a k \<in> ?A \<longleftrightarrow> K \<le> k \<and> k < K + r" if "k \<in> set (touched ?m lo hi)" for k
  proof
    assume "?a k \<in> ?A"
    then obtain q where "q < r" "?a k = ?a (K + q)" using cs by (auto simp: run_addrs_def)
    then show "K \<le> k \<and> k < K + r" using writableD(4) [OF w that k [of q]] by simp
  next
    assume "K \<le> k \<and> k < K + r"
    then obtain q where "k = K + q" "q < r" by (metis le_Suc_ex nat_add_left_cancel_less)
    then show "?a k \<in> ?A" unfolding run_addrs_def using cs [of q] by blast
  qed
  have "stored s0 f inum b lo hi sz (B - ?A) ((K + r) * ?m) g'"
    unfolding stored_def
  proof (intro conjI allI ballI impI)
    fix a assume a: "a \<notin> set (data_frags s0 f inum lo hi)"
    then show "g' a = f a" using g'(2) [of a] B st by (auto simp: stored_def)
  next
    fix k j assume kt: "k \<in> set (touched ?m lo hi)" "?a k \<notin> B - ?A" and j: "j < ?m" "k * ?m + j < sz"
    show "g' (?a k) ! j = (if lo \<le> k * ?m + j \<and> k * ?m + j < (K + r) * ?m then b ! (k * ?m + j - lo) else f (?a k) ! j)"
    proof (cases "?a k \<in> ?A")
      case True
      then have q: "K \<le> k" "k < K + r" using inA [OF kt(1)] by simp_all
      define q where "q = k - K"
      have kq: "k = K + q" "q < r" using q by (simp_all add: q_def)
      have le: "K * ?m \<le> k * ?m" "Suc k * ?m \<le> (K + r) * ?m"
        using q by (intro mult_le_mono1; simp)+
      have "q * ?m + (K * ?m - lo) \<le> length b" using len le(2) lo by (simp add: kq(1) add_mult_distrib)
      then have "g' (?a k) ! j = b ! (K * ?m - lo + (q * ?m + j))"
        using g'(3) [OF kq(2)] cs [OF kq(2)] j(1) by (simp add: kq(1) slice_def nth_drop algebra_simps)
      moreover have "K * ?m - lo + (q * ?m + j) = k * ?m + j - lo" using lo by (simp add: kq algebra_simps)
      moreover have "lo \<le> k * ?m + j" by (rule trans_le_add1 [OF order_trans [OF lo le(1)]])
      moreover have "k * ?m + j < (K + r) * ?m" using le(2) j(1) by simp
      ultimately show ?thesis by simp
    next
      case False
      then have nin: "\<not> (K \<le> k \<and> k < K + r)" using inA [OF kt(1)] by simp
      have "Suc k * ?m \<le> K * ?m \<or> (K + r) * ?m \<le> k * ?m"
      proof (cases "k < K")
        case True
        then show ?thesis by (intro disjI1 mult_le_mono1) simp
      next
        case False
        then show ?thesis using nin by (intro disjI2 mult_le_mono1) simp
      qed
      then have "k * ?m + j < K * ?m \<longleftrightarrow> k * ?m + j < (K + r) * ?m"
        using j(1) by (auto simp: add_mult_distrib)
      then show ?thesis using st kt False j g'(2) [OF False] by (simp add: stored_def)
    qed
  qed
  then show ?thesis using g'(1) by blast
qed

lemma write_run_data_write:
  assumes "FSIZE s = m" "K + r = K' + Suc i" "K' \<le> K" "lf = cs + of_nat (r - 1)" "0 < r" "Suc i < 2 ^ 32"
    and "lo \<le> K' * m"
  shows "write_run cs lf (of_nat i + 1) b (K' * m - lo) s = snd (data_write (drop (K * m - lo) b) cs r s)"
proof -
  have r: "r \<le> Suc i" using assms(2,3) by simp
  have cnt: "lf - cs + 1 = of_nat r" using assms(4,5) by (cases r) (simp_all add: algebra_simps)
  have "of_nat i + 1 - of_nat r = (of_nat (Suc i - r) :: u32)" using r by (simp add: of_nat_diff)
  moreover have "unat (of_nat r :: u32) = r" "unat (of_nat (Suc i - r) :: u32) = Suc i - r"
    using r assms(6) unat_of_nat32 [of r] unat_of_nat32 [of "Suc i - r"] by simp_all
  moreover have "K' * m - lo + (Suc i - r) * m = K * m - lo"
  proof -
    have "K = K' + (Suc i - r)" using r assms(2) by simp
    then show ?thesis using assms(7) by (simp add: add_mult_distrib)
  qed
  ultimately show ?thesis unfolding write_run_def Let_def cnt assms(1) by simp
qed

lemma keeping_mono: "keeping (uncached B) s0 s g \<Longrightarrow> A \<subseteq> B \<Longrightarrow> keeping (uncached A) s0 s g"
  by (auto simp: keeping_def uncached_def)

lemma run_addrs_Suc: "run_addrs c (Suc n) = insert (c + of_nat n) (run_addrs c n)"
  by (auto simp: run_addrs_def lessThan_Suc)

lemma run_addrs_1: "run_addrs c 1 = {c}"
  by (auto simp: run_addrs_def)

lemma write_run_stores:
  assumes w: "writable s0 f inum lo hi" and lo: "lo \<le> K' * frag_size s0" and b: "pos = K' * frag_size s0 - lo"
    and k: "\<And>q. q < r \<Longrightarrow> K + q \<in> set (touched (frag_size s0) lo hi)"
    and cs: "\<And>q. q < r \<Longrightarrow> file_frag_addr s0 f inum (of_nat (K + q)) = cs + of_nat q"
    and r: "0 < r" "K + r = K' + Suc i" "K' \<le> K" "lf = cs + of_nat (r - 1)" "Suc i < 2 ^ 32"
    and B: "run_addrs cs r \<subseteq> B" "B \<subseteq> set (data_frags s0 f inum lo hi)"
    and h: "keeping (uncached B) s0 s g" and st: "stored s0 f inum b lo hi sz B (K * frag_size s0) g"
    and len: "pos + Suc i * frag_size s0 \<le> length b"
  shows "\<exists>g'. keeping (uncached B) s0 (write_run cs lf (of_nat i + 1) b pos s) g' \<and>
    stored s0 f inum b lo hi sz (B - run_addrs cs r) ((K' + Suc i) * frag_size s0) g'"
proof -
  let ?m = "frag_size s0"
  have lo': "lo \<le> K * ?m" by (rule order_trans [OF lo mult_le_mono1 [OF r(3)]])
  have "(K + r) * ?m - lo \<le> length b"
    unfolding r(2) using len b lo by (simp add: add_mult_distrib)
  moreover have "r \<le> 2 ^ 32" using r(2,3,5) by simp
  ultimately have "\<exists>g'. keeping (uncached B) s0 (snd (data_write (drop (K * ?m - lo) b) cs r s)) g' \<and>
      stored s0 f inum b lo hi sz (B - run_addrs cs r) ((K + r) * ?m) g'"
    using run_stores [OF w k cs r(1) _ B h st lo'] by blast
  then show ?thesis
    using write_run_data_write [OF holds_fsize [OF keeping_holds [OF h]] r(2,3,4,1,5) lo]
    unfolding b r(2) by simp
qed

lemma run_in_data:
  assumes "writable s f inum lo hi" "\<And>q. q < r \<Longrightarrow> K + q \<in> set (touched (frag_size s) lo hi)"
    and "\<And>q. q < r \<Longrightarrow> file_frag_addr s f inum (of_nat (K + q)) = cs + of_nat q"
  shows "run_addrs cs r \<subseteq> set (data_frags s f inum lo hi)"
proof
  fix a assume "a \<in> run_addrs cs r"
  then obtain q where "q < r" "a = cs + of_nat q" by (auto simp: run_addrs_def)
  then show "a \<in> set (data_frags s f inum lo hi)"
    using writableD(1) [OF assms(1) assms(2) [of q]] assms(3) [of q] by metis
qed

lemma gather_write_stores:
  assumes w: "writable s0 f inum lo hi" and lo: "lo \<le> K' * frag_size s0"
    and b: "pos = K' * frag_size s0 - lo"
  assumes "\<And>q. q \<le> i + n \<Longrightarrow> K' + q \<in> set (touched (frag_size s0) lo hi)"
    and "keeping (uncached (run_addrs cs r)) s0 s g"
    and "stored s0 f inum b lo hi sz (run_addrs cs r) (K * frag_size s0) g"
    and "0 < r" "K + r = K' + Suc i" "K' \<le> K"
    and "\<And>q. q < r \<Longrightarrow> file_frag_addr s0 f inum (of_nat (K + q)) = cs + of_nat q"
    and "lf = cs + of_nat (r - 1)" "pos + (Suc i + n) * frag_size s0 \<le> length b" "Suc i + n < 2 ^ 32"
  shows "wp (gather_write n (of_nat K') (of_nat i) cs lf inum b pos s) (\<lambda>x t. x = of_nat (Suc i + n) \<and>
    (\<exists>g'. cache.holds s0 t g' \<and> stored s0 f inum b lo hi sz {} ((K' + Suc i + n) * frag_size s0) g'))"
  using assms(4-)
proof (induction n arbitrary: K i cs r lf s g)
  case 0
  let ?m = "frag_size s0" and ?A = "run_addrs cs r"
  have k: "K + q \<in> set (touched ?m lo hi)" if "q < r" for q
    using 0(1) [of "K - K' + q"] that 0(5,6) by simp
  have A: "?A \<subseteq> set (data_frags s0 f inum lo hi)"
    by (rule run_in_data [OF w k 0(7)])
  from write_run_stores [OF w lo b k 0(7) 0(4-6) 0(8) _ subset_refl A 0(2,3)]
  show ?case using 0(9,10) keeping_holds by (fastforce simp: add.commute)
next
  case (Suc n)
  let ?m = "frag_size s0" and ?A = "run_addrs cs r" and ?D = "set (data_frags s0 f inum lo hi)"
  let ?k = "K' + Suc i" and ?a = "\<lambda>k. file_frag_addr s0 f inum (of_nat k)"
  let ?Q = "\<lambda>x t. x = of_nat (Suc i + Suc n) \<and>
    (\<exists>g'. cache.holds s0 t g' \<and> stored s0 f inum b lo hi sz {} ((K' + Suc i + Suc n) * ?m) g')"
  note p = Suc.prems
  have k: "K + q \<in> set (touched ?m lo hi)" if "q \<le> r" for q
    using p(1) [of "K - K' + q"] that p(5,6) by simp
  have kk: "?k \<in> set (touched ?m lo hi)" using k [of r] p(5) by simp
  have A: "?A \<subseteq> ?D" by (rule run_in_data [OF w k p(7)]) simp_all
  note wd = writableD [OF w kk]
  have new: "?a ?k \<notin> ?A"
  proof
    assume "?a ?k \<in> ?A"
    then obtain q where "q < r" "?a ?k = ?a (K + q)" using p(7) by (auto simp: run_addrs_def)
    then show False using wd(4) k [of q] p(5) by simp
  qed
  have a0: "?a ?k \<noteq> 0" using wd(2) by (simp add: valid_frag_def)
  have i1: "of_nat i + 1 = (of_nat (Suc i) :: u32)" by simp
  have more: "wp (gather_write n (of_nat K') (of_nat i + 1) cs (?a ?k) inum b pos t) ?Q"
    if "keeping (uncached (insert (?a ?k) ?A)) s0 t g'" "stored s0 f inum b lo hi sz (insert (?a ?k) ?A) (K * ?m) g'"
      "?a ?k = lf + 1" for t g'
  proof -
    have ak: "?a (K + r) = cs + of_nat r" using that(3) p(4,5,8) by (cases r) simp_all
    have cs: "?a (K + q) = cs + of_nat q" if "q < Suc r" for q
      using that ak p(7) by (cases "q = r") simp_all
    have A': "insert (?a ?k) ?A = run_addrs cs (Suc r)" using ak p(5) by (simp add: run_addrs_Suc)
    have "wp (gather_write n (of_nat K') (of_nat (Suc i)) cs (?a ?k) inum b pos t) (\<lambda>x t.
        x = of_nat (Suc (Suc i) + n) \<and> (\<exists>g'. cache.holds s0 t g' \<and>
          stored s0 f inum b lo hi sz {} ((K' + Suc (Suc i) + n) * ?m) g'))"
      by (rule Suc.IH [OF _ that(1,2) [unfolded A']]) (use p cs ak in simp_all)
    then show ?thesis unfolding i1 by simp
  qed
  have fresh: "wp (gather_write n (of_nat K') (of_nat i + 1) (?a ?k) (?a ?k) inum b pos
      (write_run cs lf (of_nat i + 1) b pos t)) ?Q"
    if t: "keeping (uncached (insert (?a ?k) ?A)) s0 t g'"
      "stored s0 f inum b lo hi sz (insert (?a ?k) ?A) (K * ?m) g'" for t g'
  proof -
    have len: "pos + Suc i * ?m \<le> length b" "Suc i < 2 ^ 32" using p(9,10) by (simp_all add: add_mult_distrib)
    have "insert (?a ?k) ?A \<subseteq> ?D" using A wd(1) by simp
    from write_run_stores [OF w lo b k p(7) p(4-6) p(8) len(2) _ this t len(1)]
    obtain g2 where g2: "keeping (uncached (insert (?a ?k) ?A)) s0 (write_run cs lf (of_nat i + 1) b pos t) g2"
      "stored s0 f inum b lo hi sz (insert (?a ?k) ?A - ?A) (?k * ?m) g2" by auto
    have one: "run_addrs (?a ?k) 1 = {?a ?k}" by (rule run_addrs_1)
    have "keeping (uncached (run_addrs (?a ?k) 1)) s0 (write_run cs lf (of_nat i + 1) b pos t) g2"
      "stored s0 f inum b lo hi sz (run_addrs (?a ?k) 1) (?k * ?m) g2"
      unfolding one using g2 new keeping_mono [OF g2(1), of "{?a ?k}"] by (simp_all add: insert_Diff_if)
    then have "wp (gather_write n (of_nat K') (of_nat (Suc i)) (?a ?k) (?a ?k) inum b pos
        (write_run cs lf (of_nat i + 1) b pos t)) (\<lambda>x t.
        x = of_nat (Suc (Suc i) + n) \<and> (\<exists>g'. cache.holds s0 t g' \<and>
          stored s0 f inum b lo hi sz {} ((K' + Suc (Suc i) + n) * ?m) g'))"
      by (rule Suc.IH [rotated]) (use p in simp_all)
    then show ?thesis unfolding i1 by simp
  qed
  have e: "of_nat K' + (of_nat i + 1) = (of_nat ?k :: u32)" by simp
  show ?case
    unfolding gather_write.simps wp_bind e
    apply (rule wp_mono [OF fresh_frag_takes [OF w kk A p(3,2)]])
    subgoal premises q for l t
    proof -
      obtain g' where l: "l = ?a ?k" and t: "keeping (uncached (insert (?a ?k) ?A)) s0 t g'"
        "stored s0 f inum b lo hi sz (insert (?a ?k) ?A) (K * ?m) g'"
        using q by auto
      show ?thesis
        unfolding l prod.case Let_def if_not_P [OF a0] using more [OF t] fresh [OF t] by simp
    qed
    done
qed

section \<open>Whole frags, by either way\<close>

lemma file_frags_write_stores:
  assumes w: "writable s0 f inum lo hi" and lo: "lo \<le> K * frag_size s0" "pos = K * frag_size s0 - lo"
    and k: "\<And>j. j < unat n \<Longrightarrow> K + j \<in> set (touched (frag_size s0) lo hi)"
    and h: "cache.holds s0 s g" and st: "stored s0 f inum b lo hi sz {} (K * frag_size s0) g"
    and len: "pos + unat n * frag_size s0 \<le> length b"
  shows "wp (file_frags_write (of_nat K) n addr b pos inum s) (\<lambda>r t. r = n \<and>
    (\<exists>g'. cache.holds s0 t g' \<and> stored s0 f inum b lo hi sz {} ((K + unat n) * frag_size s0) g'))"
proof -
  let ?m = "frag_size s0" and ?a = "file_frag_addr s0 f inum (of_nat K)"
  let ?Q = "\<lambda>r t. r = n \<and>
    (\<exists>g'. cache.holds s0 t g' \<and> stored s0 f inum b lo hi sz {} ((K + unat n) * ?m) g')"
  have cached: "wp (cached_write (unat n) (of_nat K) 0 inum b pos s) ?Q"
    using cached_write_stores [OF w _ h, of 0 "unat n" K b sz pos] k st lo len by simp
  have gather: "wp (do { (lfrag, s) \<leftarrow> fresh_frag (of_nat K) inum s;
      if lfrag = 0 then Some (0, s)
      else gather_write (unat n - 1) (of_nat K) 0 lfrag lfrag inum b pos s }) ?Q" if n: "\<not> n < 4"
  proof -
    have n0: "0 < unat n" using n by (cases "n = 0") (simp_all add: unat_gt_0)
    have kK: "K \<in> set (touched ?m lo hi)" using k [of 0] n0 by simp
    have a0: "?a \<noteq> 0" using writableD(2) [OF w kK] by (simp add: valid_frag_def)
    have one: "run_addrs ?a 1 = {?a}" by (rule run_addrs_1)
    have go: "wp (gather_write (unat n - 1) (of_nat K) 0 ?a ?a inum b pos t) ?Q"
      if "keeping (uncached {?a}) s0 t g'" "stored s0 f inum b lo hi sz {?a} (K * ?m) g'" for t g'
    proof -
      have "wp (gather_write (unat n - 1) (of_nat K) (of_nat 0) ?a ?a inum b pos t) (\<lambda>x t.
          x = of_nat (Suc 0 + (unat n - 1)) \<and> (\<exists>g'. cache.holds s0 t g' \<and>
            stored s0 f inum b lo hi sz {} ((K + Suc 0 + (unat n - 1)) * ?m) g'))"
        by (rule gather_write_stores [OF w lo _ that [folded one]])
          (use k n0 len unsigned_less [of n] in simp_all)
      then show ?thesis using n0 by simp
    qed
    show ?thesis
      unfolding wp_bind
      apply (rule wp_mono [OF fresh_frag_takes [OF w kK _ st, of s]])
      subgoal by simp
      subgoal using h by (simp add: keeping_def)
      subgoal premises q for l t
      proof -
        obtain g' where l: "l = ?a" and t: "keeping (uncached {?a}) s0 t g'" "stored s0 f inum b lo hi sz {?a} (K * ?m) g'"
          using q by auto
        show ?thesis unfolding l prod.case if_not_P [OF a0] by (rule go [OF t])
      qed
      done
  qed
  show ?thesis
    unfolding file_frags_write_def file_ua_frags_write_def using cached gather by simp
qed

section \<open>Writing a file\<close>

lemma touched_mem:
  assumes "0 < m" "lo div m \<le> k" "k = lo div m \<or> k * m < hi"
  shows "k \<in> set (touched m lo hi)"
proof (cases "k = lo div m")
  case True
  then show ?thesis by (simp add: touched_range)
next
  case False
  then have "k * m + m \<le> hi + m - 1" using assms(3) by simp
  then have "Suc k \<le> (hi + m - 1) div m" using assms(1) by (simp add: less_eq_div_iff_mult_less_eq)
  then show ?thesis using assms(2) by (simp add: touched_range)
qed

text \<open>The part of the request from \<open>lo\<close> to \<open>p\<close> is stored.\<close>

definition written_to :: "fsys \<Rightarrow> (u32 \<Rightarrow> bytes) \<Rightarrow> u32 \<Rightarrow> bytes \<Rightarrow> nat \<Rightarrow> nat \<Rightarrow> nat \<Rightarrow> nat \<Rightarrow> fsys \<Rightarrow> bool" where
  "written_to s f inum b lo hi sz p t \<longleftrightarrow> (\<exists>g. cache.holds s t g \<and> stored s f inum b lo hi sz {} p g)"

lemma widisk_written:
  assumes "writable s f inum lo hi" "k \<in> set (touched (frag_size s) lo hi)" "written_to s f inum b lo hi sz p t"
  shows "wp (widisk_frag (of_nat k) inum t) (\<lambda>r u. written_to s f inum b lo hi sz p u \<and>
    r = file_frag_addr s f inum (of_nat k))"
proof -
  obtain g where g: "cache.holds s t g" "stored s f inum b lo hi sz {} p g"
    using assms(3) by (auto simp: written_to_def)
  show ?thesis
    by (rule wp_mono [OF widisk_frag_finds [OF assms(1,2) _ g(2), of "{}" t]])
      (use g in \<open>auto simp: keeping_def written_to_def\<close>)
qed

lemma partial_written:
  assumes "writable s f inum lo hi" "k \<in> set (touched (frag_size s) lo hi)" "written_to s f inum b lo hi sz p t"
    and "p = k * frag_size s + unat off" "unat off + unat n \<le> frag_size s" "lo \<le> p"
    and "pos = p - lo" "pos + unat n \<le> length b" "rc \<or> k * frag_size s = p \<and> sz \<le> p + unat n"
  shows "wp (partial_frag_write (file_frag_addr s f inum (of_nat k)) off n b pos rc t)
    (\<lambda>r u. r = n \<and> written_to s f inum b lo hi sz (p + unat n) u)"
proof -
  obtain g where g: "cache.holds s t g" "stored s f inum b lo hi sz {} p g"
    using assms(3) by (auto simp: written_to_def)
  show ?thesis
    unfolding written_to_def by (rule partial_frag_write_stores [OF assms(1,2) g(2,1) assms(4-)])
qed

lemma frags_written:
  assumes "writable s f inum lo hi" "lo \<le> K * frag_size s" "pos = K * frag_size s - lo"
    and "\<And>j. j < unat n \<Longrightarrow> K + j \<in> set (touched (frag_size s) lo hi)"
    and "written_to s f inum b lo hi sz (K * frag_size s) t" "pos + unat n * frag_size s \<le> length b"
  shows "wp (file_frags_write (of_nat K) n addr b pos inum t) (\<lambda>r u. r = n \<and>
    written_to s f inum b lo hi sz ((K + unat n) * frag_size s) u)"
proof -
  obtain g where g: "cache.holds s t g" "stored s f inum b lo hi sz {} (K * frag_size s) g"
    using assms(5) by (auto simp: written_to_def)
  show ?thesis
    unfolding written_to_def by (rule file_frags_write_stores [OF assms(1-4) g assms(6)])
qed

lemma written_fields:
  assumes "written_to s f inum b lo hi sz p t"
  shows "hnd t = hnd s" "FSIZE t = frag_size s"
  using assms holds_fields(2) holds_fsize by (auto simp: written_to_def)

theorem file_write_correct:
  fixes s :: fsys
  defines "f \<equiv> view s"
  assumes m: "mounted s" and F: "0 < frag_size s"
    and le: "unat sbyte + unat nbytes \<le> unat (file_size s f inum)"
    and w: "writable s f inum (unat sbyte) (unat sbyte + unat nbytes)"
    and len: "unat nbytes \<le> length b"
  shows "wp (file_write inum sbyte nbytes addr b s) (\<lambda>r t. r = nbytes \<and>
    written_to s f inum b (unat sbyte) (unat sbyte + unat nbytes) (unat (file_size s f inum))
      (unat sbyte + unat nbytes) t)"
proof -
  let ?F = "frag_size s" and ?lo = "unat sbyte" and ?hi = "unat sbyte + unat nbytes"
    and ?sz = "unat (file_size s f inum)"
  let ?W = "written_to s f inum b ?lo ?hi ?sz" and ?a = "\<lambda>k. file_frag_addr s f inum (of_nat k)"
  have size: "?sz < 2 ^ 32" by (rule order_less_le_trans [OF unsigned_less]) simp
  have sum: "unat (sbyte + nbytes) = ?hi" using le size by (simp add: unat_word_ariths)
  define spos epos sfrag efrag where d: "spos = sbyte mod fsize (hnd s)" "epos = (sbyte + nbytes) mod fsize (hnd s)"
    "sfrag = sbyte div fsize (hnd s)" "efrag = (sbyte + nbytes) div fsize (hnd s)"
  define K E where ke: "K = ?lo div ?F" "E = ?hi div ?F"
  have u: "unat spos = ?lo mod ?F" "unat epos = ?hi mod ?F" "unat sfrag = K" "unat efrag = E"
    by (simp_all only: d unat_div unat_mod sum ke)
  have sK: "sfrag = of_nat K" and eE: "efrag = of_nat E" by (simp_all flip: u(3,4))
  have split: "K * ?F + unat spos = ?lo" "E * ?F + unat epos = ?hi" "unat spos < ?F" "unat epos < ?F"
    using F by (simp_all add: u ke)
  have KE: "K \<le> E" unfolding ke by (rule div_le_mono) simp
  have kK: "K \<in> set (touched ?F ?lo ?hi)" by (rule touched_mem [OF F]) (simp_all add: ke)
  have tm: "k \<in> set (touched ?F ?lo ?hi)" if "K \<le> k" "k * ?F < ?hi" for k
    by (rule touched_mem [OF F]) (use that in \<open>simp_all add: ke\<close>)
  have nz: "?a k \<noteq> 0" if "k \<in> set (touched ?F ?lo ?hi)" for k
    using writableD(2) [OF w that] by (simp add: valid_frag_def)
  have inode: "valid_frag s (fst (inode_slot (sb s) inum 0))"
    using writableD(3) [OF w kK order_refl] frags_valid_inode by (auto simp: walkable_def)
  have fs: "unat (fsize (hnd s) - spos) = ?F - unat spos"
    using split(3) by (intro unat_sub) (simp add: word_le_nat_alt)
  have neq: "K < E" if "sfrag \<noteq> efrag" using KE that sK eE by (cases "K = E") auto
  have mono: "Suc K * ?F \<le> E * ?F" if "sfrag \<noteq> efrag"
    using neq [OF that] by (intro mult_le_mono1) simp
  have one: "wp (partial_frag_write (?a K) spos (epos - spos) b 0 (nbytes \<noteq> file_size s f inum) t)
      (\<lambda>r u. r = epos - spos \<and> ?W ?hi u)" if eq: "sfrag = efrag" and t: "?W ?lo t" for t
  proof -
    have KE': "K = E" using eq u by simp
    then have ep: "unat epos = unat spos + unat nbytes" using split by simp
    then have n: "unat (epos - spos) = unat nbytes"
      using unat_sub [of spos epos] by (simp add: word_le_nat_alt)
    have whole: "K * ?F = ?lo \<and> ?sz \<le> ?lo + unat (epos - spos)" if "nbytes = file_size s f inum"
    proof -
      have "?lo = 0" using le that by simp
      then show ?thesis using split(1) n that by simp
    qed
    have "wp (partial_frag_write (?a K) spos (epos - spos) b 0 (nbytes \<noteq> file_size s f inum) t)
      (\<lambda>r u. r = epos - spos \<and> ?W (?lo + unat (epos - spos)) u)"
      by (rule partial_written [OF w kK t split(1) [symmetric]])
        (use n ep split(4) len whole in auto)
    then show ?thesis using n by simp
  qed
  define A pos where A: "A = (if spos \<noteq> 0 then Suc K else K)"
    and pos: "pos = (if spos \<noteq> 0 then unat (fsize (hnd s) - spos) else 0)"
  define sfrag' N where p: "sfrag' = (if spos \<noteq> 0 then sfrag + 1 else sfrag)"
    "N = (if spos \<noteq> 0 then efrag - sfrag - 1 else efrag - sfrag)"
  have sA: "sfrag' = of_nat A" by (simp add: p A sK)
  have Apos: "A * ?F = ?lo + pos"
    using split(1,3) by (cases "spos = 0") (simp_all add: A pos fs)
  have NA: "unat N = E - A" if "sfrag \<noteq> efrag"
  proof -
    have "A \<le> E" "N = of_nat E - of_nat A" using neq [OF that] by (simp_all add: A p sK eE)
    moreover have "unat efrag < 2 ^ 32" using unsigned_less [of efrag] by simp
    ultimately show ?thesis by (simp add: u(4) unat_of_nat32 flip: of_nat_diff)
  qed
  have AE: "A * ?F + (E - A) * ?F = E * ?F" if "sfrag \<noteq> efrag"
    using neq [OF that] by (simp add: A flip: add_mult_distrib)
  have head: "wp (if spos \<noteq> 0 then partial_frag_write (?a K) spos (fsize (hnd s) - spos) b 0 True t
      else Some (0, t)) (\<lambda>_ u. ?W (A * ?F) u)" if ne: "sfrag \<noteq> efrag" and t: "?W ?lo t" for t
  proof (cases "spos = 0")
    case True
    then show ?thesis using t Apos by (simp add: pos)
  next
    case False
    have "?F - unat spos \<le> unat nbytes" using mono [OF ne] split by simp
    then have "wp (partial_frag_write (?a K) spos (fsize (hnd s) - spos) b 0 True t)
      (\<lambda>r u. r = fsize (hnd s) - spos \<and> ?W (?lo + unat (fsize (hnd s) - spos)) u)"
      by (intro partial_written [OF w kK t split(1) [symmetric]]) (use split(3) len fs in auto)
    then show ?thesis using False Apos by (auto simp: pos elim!: wp_mono)
  qed
  have middle: "wp (if N > 0 then file_frags_write sfrag' N addr b pos inum t else Some (N, t))
      (\<lambda>r u. r = N \<and> ?W (E * ?F) u)" if ne: "sfrag \<noteq> efrag" and t: "?W (A * ?F) t" for t
  proof (cases "N > 0")
    case True
    note N = NA [OF ne] and sum' = AE [OF ne]
    have "A + j \<in> set (touched ?F ?lo ?hi)" if "j < unat N" for j
    proof (rule tm)
      show "K \<le> A + j" by (simp add: A)
      have "Suc (A + j) * ?F \<le> E * ?F" using that N by (intro mult_le_mono1) simp
      then show "(A + j) * ?F < ?hi" using F split(2) by simp
    qed
    then have "wp (file_frags_write (of_nat A) N addr b pos inum t) (\<lambda>r u. r = N \<and> ?W ((A + unat N) * ?F) u)"
      by (intro frags_written [OF w _ _ _ t]) (use Apos sum' split(2) len N in auto)
    moreover have "A + unat N = E" using N neq [OF ne] by (simp add: A)
    ultimately show ?thesis using True by (simp add: sA)
  next
    case False
    then have "N = 0" using word_neq_0_conv [of N] by simp
    then have "A = E" using NA [OF ne] neq [OF ne] by (simp add: A split: if_splits)
    then show ?thesis using t \<open>N = 0\<close> by simp
  qed
  have tail: "wp (do { (faddr, s) \<leftarrow> widisk_frag efrag inum t;
        if faddr = 0 then Some (x s, s)
        else do { (n, s) \<leftarrow> partial_frag_write faddr 0 epos b (pos + unat N * ?F) True s; Some (nbytes, s) } })
      (\<lambda>r u. r = nbytes \<and> ?W ?hi u)" if ne: "sfrag \<noteq> efrag" and t: "?W (E * ?F) t" and ep: "epos \<noteq> 0" for t x
  proof -
    have ep': "0 < unat epos" using ep by (simp add: unat_gt_0)
    have kE: "E \<in> set (touched ?F ?lo ?hi)" using tm [OF KE] split(2) ep' by simp
    have E: "E * ?F = ?lo + (pos + unat N * ?F)" using AE [OF ne] Apos NA [OF ne] by simp
    have part: "wp (partial_frag_write (?a E) 0 epos b (pos + unat N * ?F) True v) (\<lambda>r u. ?W ?hi u)"
      if "?W (E * ?F) v" for v
    proof -
      have "wp (partial_frag_write (?a E) 0 epos b (pos + unat N * ?F) True v)
          (\<lambda>r u. r = epos \<and> ?W (E * ?F + unat epos) u)"
        by (rule partial_written [OF w kE that]) (use split E len in auto)
      then show ?thesis by (rule wp_mono) (use split(2) in simp)
    qed
    show ?thesis
      unfolding wp_bind
      apply (rule wp_mono [OF widisk_written [OF w kE t, folded eE]])
      subgoal premises q for r v
      proof -
        have r: "r = ?a E" and v: "?W (E * ?F) v" using q by (simp_all add: eE)
        show ?thesis
          unfolding r prod.case if_not_P [OF nz [OF kE]] wp_bind by (rule wp_mono [OF part [OF v]]) simp
      qed
      done
  qed
  have start: "?W ?lo t" if "cache.holds s t f" for t
    unfolding written_to_def using that stored_start by blast
  show ?thesis
    unfolding file_write_def wp_bind
    apply (rule wp_inode_read [OF cache.holds_refl [OF m, folded f_def] inode])
    subgoal premises q for p t
    proof -
      note t = start [OF q(1)]
      note hd = written_fields(1) [OF t]
      have sz: "IC_SIZE t p = file_size s f inum" by (simp add: IC_SIZE_def q(2) file_size_def)
      have "\<not> sbyte + nbytes > file_size s f inum" using le sum by (simp add: word_less_nat_alt)
      then have ex: "write_expand p inum sbyte nbytes t = Some (Some (nbytes, file_size s f inum, True), t)"
        by (simp add: write_expand_def sz)
      note fold = prod.case option.case Let_def hd d [symmetric]
      show ?thesis
      proof (cases "sfrag = efrag")
        case True
        show ?thesis
          unfolding fold ex wp_Some wp_bind
          apply (simp only: True simp_thms if_True)
          apply (rule wp_mono [OF widisk_written [OF w kK t, folded sK, unfolded True]])
          subgoal premises q for r u
          proof -
            have r: "r = ?a K" and u: "?W ?lo u" using q by (simp_all add: sK flip: True)
            show ?thesis
              unfolding r prod.case if_not_P [OF nz [OF kK]] wp_bind
              by (rule wp_mono [OF one [OF True u]]) simp
          qed
          done
      next
        case ne: False
        have find: "wp (if sfrag = efrag \<or> spos \<noteq> 0 then widisk_frag sfrag inum t else Some (1, t))
          (\<lambda>r u. ?W ?lo u \<and> r \<noteq> 0 \<and> (spos \<noteq> 0 \<longrightarrow> r = ?a K))"
          using ne t widisk_written [OF w kK t, folded sK] nz [OF kK]
          by (auto simp: sK elim!: wp_mono)
        show ?thesis
          unfolding fold ex wp_Some wp_bind
          apply (rule wp_mono [OF find])
          subgoal premises q for r u
          proof -
            have r: "r \<noteq> 0" and u: "?W ?lo u"
              and ra: "(if spos \<noteq> 0 then partial_frag_write r spos (fsize (hnd s) - spos) b 0 True u else Some (0, u)) =
                (if spos \<noteq> 0 then partial_frag_write (?a K) spos (fsize (hnd s) - spos) b 0 True u else Some (0, u))"
              using q by simp_all
            show ?thesis
              unfolding prod.case if_not_P [OF r] if_not_P [OF ne] wp_bind written_fields(1) [OF u] ra
              apply (rule wp_mono [OF head [OF ne u]])
              subgoal premises q for r v
                unfolding prod.case wp_bind written_fields(1) [OF q] p [symmetric] pos [symmetric]
                apply (rule wp_mono [OF middle [OF ne q]])
                subgoal premises q for r z
                proof -
                  have r: "\<not> r \<noteq> N" and z: "?W (E * ?F) z" using q by simp_all
                  have fin: "?W ?hi z" if "epos = 0" using z split(2) that by simp
                  show ?thesis
                    unfolding prod.case if_not_P [OF r] written_fields(2) [OF z]
                    using tail [OF ne z, of "\<lambda>s. fsize (hnd s) - spos + N * fsize (hnd s)"] fin
                    by (cases "epos = 0") simp_all
                qed
                done
              done
          qed
          done
      qed
    qed
    done
qed

end
