(* ===== verification/Read_Properties.thy ===== *)
theory Read_Properties
  imports Read_Correct
begin

text \<open>
  What reading a file promises, evaluated on a file of six frags.
\<close>

definition sample_text :: "u32 \<Rightarrow> bytes" where
  "sample_text b =
     (if b = 32 then poke32 (poke32 (replicate 512 0) 268 3000) 296 304
      else replicate 512 (ucast b))"

lemma sample_text_length: "length (sample_text b) = 512"
  by (simp add: sample_text_def)

abbreviation text_file :: fsys where
  "text_file \<equiv> opened sample_text sample_cg"

lemmas text_file = opened_state [of sample_text, OF sample_text_length, where g = sample_cg]

lemma text_file_valid: "valid_frag text_file b \<longleftrightarrow> b \<noteq> 0 \<and> b < 1024"
  by (rule opened_valid [of sample_text, OF sample_text_length])

lemma text_file_sizes: "frag_size text_file = 512" "frag_shifts text_file"
proof -
  obtain m where h: "hnd text_file = sample_hnd\<lparr>mem_count := m\<rparr>" using text_file(6) by blast
  show "frag_size text_file = 512" "frag_shifts text_file"
    by (simp_all add: h frag_shifts_def text_file(3) sample_hnd_def sample_sb_def)
qed

lemma text_file_inode:
  "inode_slot sample_sb 2 ic_size = (32, 268)" "inode_slot sample_sb 2 0 = (32, 256)"
  "inode_slot sample_sb 2 (ic_db 0) = (32, 296)"
  "peek32 (sample_text 32) 268 = 3000" "peek32 (sample_text 32) 296 = 304"
  by code_simp+

lemma text_file_frags:
  assumes "k \<in> {0, 1, 2, 3, 4, 5, 6, 7}"
  shows "file_slots text_file (view text_file) 2 (file_blk_num sample_sb k) = [(32, 296)]"
    "file_frag_addr text_file (view text_file) 2 k = 304 + k"
    "file_frag text_file (view text_file) 2 k = replicate 512 (ucast (304 + k))"
    "reachable text_file (view text_file) 2 k"
proof -
  have "\<forall>k \<in> {0, 1, 2, 3, 4, 5, 6, 7}. file_blk_num sample_sb k = 0 \<and> blk_frac sample_sb k = k"
    by code_simp
  then have k: "file_blk_num sample_sb k = 0" "blk_frac sample_sb k = k" using assms by blast+
  note e = text_file(3) k text_file_inode text_file(2) frag_word_def
  show sl: "file_slots text_file (view text_file) 2 (file_blk_num sample_sb k) = [(32, 296)]"
    by (simp add: file_slots_def e)
  show a: "file_frag_addr text_file (view text_file) 2 k = 304 + k"
    using sl by (simp add: file_frag_addr_def e)
  have "304 + k < 1024" "304 + k \<noteq> 0" "304 + k \<noteq> 1" "304 + k \<noteq> 32"
    using assms by auto
  note v = this
  show "file_frag text_file (view text_file) 2 k = replicate 512 (ucast (304 + k))"
    using v by (simp add: file_frag_def a e sample_text_def)
  show "reachable text_file (view text_file) 2 k"
    using sl v by (simp add: reachable_def a text_file_valid frags_valid_def in_reach_def e)
qed

text \<open>C6: \<open>file_read\<close> returns the number of bytes between the offset and the end of the file,
  but at most as many as were asked for, and stores these bytes of the file in the buffer, whether
  they come through the cache or straight from the medium; it changes neither the rest of the
  buffer nor the file system. Holes read as zeros where whole frags of them are read; a frag that
  is read in part, the first or the last one, must not be a hole, since there the code looks frag
  0 up and returns what that look up finds.\<close>

theorem file_read_reads:
  assumes "mounted s" "frag_shifts s" "sbyte \<le> file_size s (view s) inum"
    and "valid_frag s (fst (inode_slot (sb s) inum 0))"
    and "unat sbyte + unat nbytes < 2 ^ 32"
    and "n = min nbytes (file_size s (view s) inum - sbyte)"
    and "readable s (view s) inum (unat sbyte) (unat sbyte + unat n)"
    and "unat n \<le> length out"
  shows "wp (file_read inum sbyte nbytes addr out s) (\<lambda>(r, out') t. r = n \<and>
    length out' = length out \<and>
    (\<forall>i < length out. out' ! i =
       (if i < unat n then file_byte s (view s) inum (unat sbyte + i) else out ! i)) \<and>
    cache.holds s t (view s))"
  by (rule wp_mono [OF file_read_correct [OF assms]]) (auto simp: filled_def)

lemma file_read_reads_witness:
  "wp (file_read 2 100 2600 0 (replicate 3000 0) text_file) (\<lambda>(r, out') t. r = 2600 \<and>
     out' ! 0 = 48 \<and> out' ! 2599 = 53 \<and> out' ! 2600 = 0)"
proof -
  have sz: "file_size text_file (view text_file) 2 = 3000"
    by (simp add: file_size_def text_file(2,3) text_file_inode frag_word_def)
  have rd: "readable text_file (view text_file) 2 100 2700"
    by (simp add: readable_def text_file_sizes text_file_frags upt_rec)
  show ?thesis
    by (rule wp_mono [OF file_read_reads [of text_file 100 2 2600 2600 "replicate 3000 0" 0]])
      (use rd in \<open>auto simp: sz text_file text_file_sizes text_file_valid text_file_inode
        file_byte_def text_file_frags\<close>)
qed

end
