(* ===== verification/Write_Properties.thy ===== *)
theory Write_Properties
  imports Write_Correct Read_Properties
begin

text \<open>
  What writing into a file promises, and that a read finds what was written.
\<close>

section \<open>The file after a write\<close>

lemma file_slots_state:
  "sb t = sb s \<Longrightarrow> block_path t = block_path s \<Longrightarrow> file_slots t f inum blkno = file_slots s f inum blkno"
  by (simp add: file_slots_def)

text \<open>The tree is what it was, and so are the addresses in it.\<close>

lemma written_tree:
  assumes w: "writable s (view s) inum lo hi" and t: "written_to s (view s) inum b lo hi sz p t"
    and k: "k \<in> set (touched (frag_size s) lo hi)"
  shows "file_frag_addr t (view t) inum (of_nat k) = file_frag_addr s (view s) inum (of_nat k)"
    "file_slots t (view t) inum (file_blk_num (sb s) (of_nat k)) =
       file_slots s (view s) inum (file_blk_num (sb s) (of_nat k))"
    "file_size t (view t) inum = file_size s (view s) inum"
proof -
  obtain g where g: "cache.holds s t g" "stored s (view s) inum b lo hi sz {} p g"
    using t by (auto simp: written_to_def)
  note e = holds_fields [OF g(1)]
  let ?B = "{a. valid_frag s a \<and> a \<notin> set (data_frags s (view s) inum lo hi)}"
  have eq: "view t a = view s a" if "a \<in> ?B" for a
    using that cache.holdsD(4) [OF g(1), of a] g(2) by (simp add: stored_def)
  have wk: "walkable ?B s (view s) inum (of_nat k)"
    using writableD(3) [OF w k order_refl] by (auto simp: walkable_def frags_valid_def list_all_iff)
  note c = walkable_cong [OF wk eq]
  show "file_frag_addr t (view t) inum (of_nat k) = file_frag_addr s (view s) inum (of_nat k)"
    using c(2) by (simp add: file_frag_addr_def e(1) file_slots_state [OF e(1,3)] cong: if_cong)
  have "fst (inode_slot (sb s) inum 0) \<in> ?B" using inode_frag_in wk unfolding walkable_def by blast
  then show "file_size t (view t) inum = file_size s (view s) inum"
    using eq inode_slot_frag [of "sb s" inum ic_size] by (simp add: file_size_def frag_word_def e(1))
  show "file_slots t (view t) inum (file_blk_num (sb s) (of_nat k)) =
       file_slots s (view s) inum (file_blk_num (sb s) (of_nat k))"
    unfolding file_slots_state [OF e(1,3)]
    by (rule file_slots_cong) (use wk eq in \<open>auto simp: walkable_def frag_word_def\<close>)
qed

lemma written_byte:
  assumes w: "writable s (view s) inum lo hi" and t: "written_to s (view s) inum b lo hi sz hi t"
    and i: "i < sz" "i div frag_size s \<in> set (touched (frag_size s) lo hi)" and F: "0 < frag_size s"
  shows "file_byte t (view t) inum i =
    (if lo \<le> i \<and> i < hi then b ! (i - lo) else file_byte s (view s) inum i)"
proof -
  obtain g where g: "cache.holds s t g" "stored s (view s) inum b lo hi sz {} hi g"
    using t by (auto simp: written_to_def)
  let ?k = "i div frag_size s" and ?j = "i mod frag_size s"
  let ?a = "file_frag_addr s (view s) inum (of_nat ?k)"
  have v: "valid_frag s ?a" by (rule writableD(2) [OF w i(2)])
  have sz: "frag_size t = frag_size s" using written_fields(1) [OF t] by simp
  have "view t ?a ! ?j = (if lo \<le> i \<and> i < hi then b ! (i - lo) else view s ?a ! ?j)"
    using cache.holdsD(4) [OF g(1) v] g(2) i F by (simp add: stored_def)
  then show ?thesis
    using v written_tree(1) [OF w t i(2)] by (simp add: file_byte_def file_frag_def sz valid_frag_def)
qed

text \<open>C8: \<open>file_write\<close> into the existing part of a file returns the number of bytes; then these
  bytes of the file are those of the buffer, the others in the same frags are what they were, and
  no other frag of the partition has changed, whether the frags went through the cache or straight
  to the medium.\<close>

theorem file_write_writes:
  assumes "mounted s" "0 < frag_size s"
    and "unat sbyte + unat nbytes \<le> unat (file_size s (view s) inum)"
    and "writable s (view s) inum (unat sbyte) (unat sbyte + unat nbytes)"
    and "unat nbytes \<le> length b"
  shows "wp (file_write inum sbyte nbytes addr b s) (\<lambda>r t. r = nbytes \<and> mounted t \<and>
    (\<forall>a. valid_frag s a \<longrightarrow>
       a \<notin> set (data_frags s (view s) inum (unat sbyte) (unat sbyte + unat nbytes)) \<longrightarrow>
       view t a = view s a) \<and>
    (\<forall>i < unat (file_size s (view s) inum).
       i div frag_size s \<in> set (touched (frag_size s) (unat sbyte) (unat sbyte + unat nbytes)) \<longrightarrow>
       file_byte t (view t) inum i =
         (if unat sbyte \<le> i \<and> i < unat sbyte + unat nbytes then b ! (i - unat sbyte)
          else file_byte s (view s) inum i)))"
proof (rule wp_mono [OF file_write_correct [OF assms]])
  fix r t
  assume r: "r = nbytes \<and> written_to s (view s) inum b (unat sbyte) (unat sbyte + unat nbytes)
      (unat (file_size s (view s) inum)) (unat sbyte + unat nbytes) t"
  then obtain g where g: "cache.holds s t g" "stored s (view s) inum b (unat sbyte) (unat sbyte + unat nbytes)
      (unat (file_size s (view s) inum)) {} (unat sbyte + unat nbytes) g"
    by (auto simp: written_to_def)
  show "r = nbytes \<and> mounted t \<and>
    (\<forall>a. valid_frag s a \<longrightarrow>
       a \<notin> set (data_frags s (view s) inum (unat sbyte) (unat sbyte + unat nbytes)) \<longrightarrow>
       view t a = view s a) \<and>
    (\<forall>i < unat (file_size s (view s) inum).
       i div frag_size s \<in> set (touched (frag_size s) (unat sbyte) (unat sbyte + unat nbytes)) \<longrightarrow>
       file_byte t (view t) inum i =
         (if unat sbyte \<le> i \<and> i < unat sbyte + unat nbytes then b ! (i - unat sbyte)
          else file_byte s (view s) inum i))"
    using r cache.holdsD(1) [OF g(1)] cache.holdsD(4) [OF g(1)] g(2)
      written_byte [OF assms(4) conjunct2 [OF r] _ _ assms(2)]
    by (auto simp: stored_def)
qed

lemma text_file_size: "file_size text_file (view text_file) 2 = 3000"
  by (simp add: file_size_def text_file(2,3) text_file_inode frag_word_def)

lemma text_file_writable: "writable text_file (view text_file) 2 100 2700"
proof -
  have t: "touched 512 100 2700 = [0, 1, 2, 3, 4, 5]" by code_simp
  show ?thesis
    unfolding writable_def data_frags_def walkable_def text_file_sizes t text_file(3)
    using text_file_frags(4) [unfolded reachable_def text_file(3)]
    by (simp add: text_file_frags text_file_valid frags_valid_def upt_rec)
qed

lemma file_write_writes_witness:
  "wp (file_write 2 100 2600 0 (replicate 2600 7) text_file) (\<lambda>r t. r = 2600 \<and>
     file_byte t (view t) 2 99 = 48 \<and> file_byte t (view t) 2 2699 = 7 \<and> file_byte t (view t) 2 2700 = 53)"
proof -
  have t: "touched 512 100 2700 = [0, 1, 2, 3, 4, 5]" by code_simp
  show ?thesis
    by (rule wp_mono [OF file_write_writes [of text_file 100 2600 2 "replicate 2600 7" 0]])
      (use text_file_writable in \<open>auto simp: text_file_size text_file text_file_sizes t
        file_byte_def [of text_file] text_file_frags\<close>)
qed

text \<open>After a write the same range can be read.\<close>

lemma written_readable:
  assumes w: "writable s (view s) inum lo hi" and t: "written_to s (view s) inum b lo hi sz p t"
    and rd: "readable s (view s) inum lo hi" and F: "0 < frag_size s"
  shows "readable t (view t) inum lo hi"
proof -
  obtain g where g: "cache.holds s t g" using t by (auto simp: written_to_def)
  note e = holds_fields [OF g]
  have same: "reachable t (view t) inum (of_nat k) = reachable s (view s) inum (of_nat k)"
    "file_frag_addr t (view t) inum (of_nat k) = file_frag_addr s (view s) inum (of_nat k)"
    if "k \<in> set [lo div frag_size s..<Suc (hi div frag_size s)]" "k * frag_size s < hi \<or> k = lo div frag_size s" for k
  proof -
    have k: "k \<in> set (touched (frag_size s) lo hi)"
      by (rule touched_mem [OF F]) (use that in \<open>auto simp del: upt_Suc\<close>)
    note wt = written_tree [OF w t k]
    show "file_frag_addr t (view t) inum (of_nat k) = file_frag_addr s (view s) inum (of_nat k)" by (rule wt(1))
    show "reachable t (view t) inum (of_nat k) = reachable s (view s) inum (of_nat k)"
      by (simp add: reachable_def wt(1,2) e(1) in_reach_def e(3) frags_valid_def cache.holdsD(2) [OF g])
  qed
  have sz: "frag_size t = frag_size s" using e(2) by simp
  show ?thesis
    using rd same unfolding readable_def Let_def sz list_all_iff by (metis (no_types, lifting))
qed

text \<open>C7: what \<open>file_write\<close> wrote into the existing part of a file \<open>file_read\<close> reads back.\<close>

theorem file_write_read:
  assumes "mounted s" "frag_shifts s" "unat nbytes \<le> length b" "unat nbytes \<le> length out"
    and "unat sbyte + unat nbytes \<le> unat (file_size s (view s) inum)"
    and "writable s (view s) inum (unat sbyte) (unat sbyte + unat nbytes)"
    and "readable s (view s) inum (unat sbyte) (unat sbyte + unat nbytes)"
  shows "wp (do { (r, s) \<leftarrow> file_write inum sbyte nbytes addr b s; file_read inum sbyte nbytes addr' out s })
    (\<lambda>(r, out') t. r = nbytes \<and> take (unat nbytes) out' = take (unat nbytes) b)"
proof -
  let ?lo = "unat sbyte" and ?hi = "unat sbyte + unat nbytes" and ?sz = "file_size s (view s) inum"
  note F = frag_shifts_numbers(3) [OF assms(2)]
  have k: "?lo div frag_size s \<in> set (touched (frag_size s) ?lo ?hi)" by (rule touched_mem [OF F]) simp_all
  have size: "unat ?sz < 2 ^ 32" by (rule order_less_le_trans [OF unsigned_less]) simp
  have le: "sbyte \<le> ?sz" using assms(5) by (simp add: word_le_nat_alt)
  then have "unat nbytes \<le> unat (?sz - sbyte)" using assms(5) unat_sub [OF le] by linarith
  then have n: "nbytes = min nbytes (?sz - sbyte)" by (simp add: min_def word_le_nat_alt)
  show ?thesis
    unfolding wp_bind
  proof (rule wp_mono [OF file_write_correct [OF assms(1) F assms(5,6,3)]])
    fix r t
    assume "r = nbytes \<and> written_to s (view s) inum b ?lo ?hi (unat ?sz) ?hi t"
    then have t: "written_to s (view s) inum b ?lo ?hi (unat ?sz) ?hi t" by simp
    then obtain g where g: "cache.holds s t g" by (auto simp: written_to_def)
    note e = holds_fields [OF g] and wt = written_tree [OF assms(6) t k]
    have "valid_frag s (fst (inode_slot (sb s) inum 0))"
      using writableD(3) [OF assms(6) k order_refl] frags_valid_inode by (auto simp: walkable_def)
    then have inode: "valid_frag t (fst (inode_slot (sb t) inum 0))"
      using cache.holdsD(2) [OF g] e(1) by simp
    have sh: "frag_shifts t" using assms(2) by (simp add: frag_shifts_def e)
    have nov: "?lo + unat nbytes < 2 ^ 32" using assms(5) size by simp
    have read: "wp (file_read inum sbyte nbytes addr' out t) (\<lambda>(r, out') u. r = nbytes \<and>
        length out' = length out \<and>
        (\<forall>i < length out. out' ! i = (if i < unat nbytes then file_byte t (view t) inum (?lo + i) else out ! i)) \<and>
        cache.holds t u (view t))"
      by (rule file_read_reads [OF cache.holdsD(1) [OF g] sh _ inode nov _
            written_readable [OF assms(6) t assms(7) F] assms(4)])
        (use le n wt(3) in simp_all)
    have byte: "file_byte t (view t) inum (?lo + i) = b ! i" if "i < unat nbytes" for i
    proof -
      have "(?lo + i) div frag_size s \<in> set (touched (frag_size s) ?lo ?hi)"
      proof (rule touched_mem [OF F])
        show "?lo div frag_size s \<le> (?lo + i) div frag_size s" by (rule div_le_mono) simp
        have "(?lo + i) div frag_size s * frag_size s \<le> ?lo + i" by simp
        then show "(?lo + i) div frag_size s = ?lo div frag_size s \<or>
            (?lo + i) div frag_size s * frag_size s < ?hi" using that by linarith
      qed
      then show ?thesis
        using written_byte [OF assms(6) t _ _ F, of "?lo + i"] that assms(5) by simp
    qed
    show "wp (case (r, t) of (r, s) \<Rightarrow> file_read inum sbyte nbytes addr' out s)
        (\<lambda>(r, out') t. r = nbytes \<and> take (unat nbytes) out' = take (unat nbytes) b)"
      unfolding prod.case
      by (rule wp_mono [OF read]) (use byte assms(3,4) in \<open>auto simp: list_eq_iff_nth_eq\<close>)
  qed
qed

lemma file_write_read_witness:
  "wp (do { (r, s) \<leftarrow> file_write 2 100 2600 0 (replicate 2600 7) text_file; file_read 2 100 2600 0 (replicate 2600 0) s })
    (\<lambda>(r, out') t. r = 2600 \<and> take 2600 out' = replicate 2600 7)"
proof -
  have "readable text_file (view text_file) 2 100 2700"
    by (simp add: readable_def text_file_sizes text_file_frags upt_rec)
  then show ?thesis
    using file_write_read [of text_file 2600 "replicate 2600 7" "replicate 2600 0" 100 2 0 0]
      text_file_writable
    by (simp add: text_file_size text_file text_file_sizes split_beta)
qed

end
