(* ===== verification/Path.thy ===== *)
theory Path
  imports Dir
begin

text \<open>
  The path half of fs/file.c: \<open>nextslash\<close>, \<open>dir_name_find\<close>, \<open>file_find\<close> with its
  symbolic links, and the creation and deletion of symbolic links. The part of the path from
  \<open>current\<close> to \<open>strend\<close> is a byte list.
\<close>

definition ERROR_NO_FREE_STORE :: int where "ERROR_NO_FREE_STORE = 103"
definition ERROR_TOO_MANY_LEVELS :: int where "ERROR_TOO_MANY_LEVELS = 217"
definition ERROR_IS_SOFT_LINK :: int where "ERROR_IS_SOFT_LINK = 233"
definition MAX_PATH_LEVEL_LEN :: int where "MAX_PATH_LEVEL_LEN = 8191"
definition MAXSYMLINKLEN :: nat where "MAXSYMLINKLEN = (12 + 3) * 4 - 1"

section \<open>Names\<close>

text \<open>The component in front of the first slash, and what follows the slash.\<close>

definition nextslash :: "bytes \<Rightarrow> bytes \<times> bytes" where
  "nextslash str = (takeWhile (\<lambda>c. c \<noteq> 47) str, drop 1 (dropWhile (\<lambda>c. c \<noteq> 47) str))"

definition dot :: bytes where "dot = [46]"
definition dotdot :: bytes where "dotdot = [46, 46]"

definition set_Pinum :: "u32 \<Rightarrow> fsys \<Rightarrow> fsys" where
  "set_Pinum x s = s\<lparr>hnd := (hnd s)\<lparr>Pinum := x\<rparr>\<rparr>"

definition dir_name_find :: "u32 \<Rightarrow> bytes \<Rightarrow> fsys \<Rightarrow> (u32 \<times> fsys) option" where
  "dir_name_find pinum name s =
     do {
       (inum, s) \<leftarrow> (if name = [] \<or> name = dot then Some (pinum, s)
                    else dir_name_search pinum name s);
       let s = set_Pinum pinum s;
       if name = [] \<or> name = dot \<or> name = dotdot then
         do {
           (up, s) \<leftarrow> dir_name_search inum dotdot s;
           let s = set_Pinum up s;
           (off, s) \<leftarrow> dir_inum_search up inum s;
           Some (inum, set_Poffset off s)
         }
       else Some (inum, s)
     }"

section \<open>Paths\<close>

text \<open>One pass of the loop of \<open>file_find\<close>: it goes on with the rest of a path in a directory,
  leaves the loop, or returns from the function. Both ends carry the result.\<close>

datatype path_step = Descend bytes u32 | Leave u32

text \<open>The new path after a symbolic link: the contents of the link, a slash at the size of the
  link, and the rest of the old path. The buffer has \<open>templen\<close> bytes.\<close>

definition link_buffer :: "u32 \<Rightarrow> iptr \<Rightarrow> nat \<Rightarrow> bytes \<Rightarrow> u32 \<Rightarrow> fsys \<Rightarrow> (bytes \<times> fsys) option" where
  "link_buffer finum p inosize rest addr s =
     do {
       let b = replicate (inosize + length rest + 2) 0;
       (b, s) \<leftarrow> (if bsd44fs (hnd s) \<and> inosize < MAXSYMLINKLEN then
                    Some (strcpy b 0 (cstring (frag_buf s (fst p)) (snd p + ic_db 0)), s)
                  else
                    do {
                      ((n, b), s) \<leftarrow> file_read finum 0 (of_nat inosize) addr b s;
                      Some (b, s)
                    });
       Some (strcpy (b[inosize := 47]) (inosize + 1) rest, s)
     }"

text \<open>A link that begins with a slash goes to the root or, in AmigaDOS paths, to the parent;
  one that begins with a colon goes to the root.\<close>

definition follow_link :: "u32 \<Rightarrow> bytes \<Rightarrow> fsys \<Rightarrow> (path_step \<times> fsys) option" where
  "follow_link pinum path s =
     (case path of [] \<Rightarrow> Some (Descend [] pinum, s)
      | c # cs \<Rightarrow>
          if c = 47 then
            do {
              (finum, s) \<leftarrow> (if unix_paths (hnd s) then Some (2, s)
                            else dir_name_find pinum dotdot s);
              Some (Descend cs finum, s)
            }
          else if c = 58 then Some (Descend cs 2, s)
          else Some (Descend path pinum, s))"

definition set_linkname :: "bytes \<Rightarrow> fsys \<Rightarrow> fsys" where
  "set_linkname l s = s\<lparr>hnd := (hnd s)\<lparr>linkname := Some l\<rparr>\<rparr>"

definition symlink_step :: "u32 \<Rightarrow> u32 \<Rightarrow> iptr \<Rightarrow> bytes \<Rightarrow> u32 \<Rightarrow> fsys \<Rightarrow> (path_step \<times> fsys) option"
where
  "symlink_step pinum finum p rest addr s =
     (if \<not> resolve_symlinks (hnd s) \<and> \<not> read_link (hnd s)
      then Some (Leave 0, set_Res2 ERROR_IS_SOFT_LINK s)
      else
        let inosize = sint (IC_SIZE s p);
            templen = inosize + int (length rest) + 2
        in if inosize < 0 then None
           else if templen > MAX_PATH_LEVEL_LEN
           then Some (Leave 0, set_Res2 ERROR_IS_SOFT_LINK s)
           else
             (let (ok, s) = alloc_mem s
              in if \<not> ok then Some (Leave finum, set_Res2 ERROR_NO_FREE_STORE s)
                 else
                   do {
                     (b, s) \<leftarrow> link_buffer finum p (nat inosize) rest addr s;
                     if read_link (hnd s) then
                       Some (Leave finum,
                         set_linkname (cstring (b[nat inosize + length rest := 0]) 0) s)
                     else follow_link pinum (cstring b 0) s
                   }))"

text \<open>A path that goes up is an empty component (in AmigaDOS paths).\<close>

definition file_find_step :: "bytes \<Rightarrow> u32 \<Rightarrow> u32 \<Rightarrow> fsys \<Rightarrow> (path_step \<times> fsys) option" where
  "file_find_step path pinum addr s =
     do {
       let (current, rest) = nextslash path;
       let up = (\<not> unix_paths (hnd s) \<and> current = []);
       (finum, s) \<leftarrow> dir_name_find pinum (if up then dotdot else current) s;
       if \<not> up \<and> finum = 0 then Some (Leave 0, s)
       else do {
         (inode, s) \<leftarrow> inode_read finum s;
         case inode of None \<Rightarrow> Some (Leave 0, s)
         | Some p \<Rightarrow>
             if get16 s p ic_mode AND IFMT = IFLNK then symlink_step pinum finum p rest addr s
             else if get16 s p ic_mode AND IFCHR \<noteq> 0 then Some (Leave finum, s)
             else Some (Descend rest finum, s)
       }
     }"

text \<open>The loop ends with an error in the pass after \<open>r\<close> more; it starts with 128.\<close>

primrec file_find_loop :: "nat \<Rightarrow> bytes \<Rightarrow> u32 \<Rightarrow> u32 \<Rightarrow> u32 \<Rightarrow> fsys \<Rightarrow> (u32 \<times> fsys) option" where
  "file_find_loop 0 path finum pinum addr s =
     (if path = [] then Some (finum, s)
      else do {
        (st, s) \<leftarrow> file_find_step path pinum addr s;
        case st of Leave finum \<Rightarrow> Some (finum, s)
        | Descend rest finum \<Rightarrow> Some (0, set_Res2 ERROR_TOO_MANY_LEVELS s)
      })"
| "file_find_loop (Suc r) path finum pinum addr s =
     (if path = [] then Some (finum, s)
      else do {
        (st, s) \<leftarrow> file_find_step path pinum addr s;
        case st of Leave finum \<Rightarrow> Some (finum, s)
        | Descend rest finum \<Rightarrow> file_find_loop r rest finum finum addr s
      })"

text \<open>A leading slash of a Unix path sets \<open>finum\<close> only; the first component is looked up in
  \<open>pinum\<close> all the same. \<open>addr\<close> is the address of a buffer for the contents of a link.\<close>

definition file_find :: "u32 \<Rightarrow> bytes \<Rightarrow> u32 \<Rightarrow> fsys \<Rightarrow> (u32 \<times> fsys) option" where
  "file_find pinum name addr s =
     (let (ok, s) = alloc_mem s
      in if \<not> ok then Some (0, set_Res2 ERROR_NO_FREE_STORE s)
         else
           do {
             let rooted = (unix_paths (hnd s) \<and> name \<noteq> [] \<and> hd name = 47);
             let finum = (if rooted then 2 else pinum);
             let path = (if rooted then tl name else name);
             (finum, s) \<leftarrow> (if path = [] then dir_name_find finum dot s else Some (finum, s));
             file_find_loop 128 path finum pinum addr s
           })"

section \<open>Symbolic links\<close>

definition symlink_delete :: "u32 \<Rightarrow> nat \<Rightarrow> fsys \<Rightarrow> (unit \<times> fsys) option" where
  "symlink_delete inum len s =
     (if \<not> bsd44fs (hnd s) \<or> len \<ge> MAXSYMLINKLEN then
        do { (r, s) \<leftarrow> file_deallocate inum s; Some ((), s) }
      else Some ((), s))"

text \<open>A short link lives in the inode. \<open>addr\<close> is the address of the contents.\<close>

definition symlink_create :: "u32 \<Rightarrow> bytes \<Rightarrow> u32 \<Rightarrow> fsys \<Rightarrow> (bool \<times> fsys) option" where
  "symlink_create inum contents addr s =
     (if bsd44fs (hnd s) \<and> length contents < MAXSYMLINKLEN then
        do {
          (inode, s) \<leftarrow> inode_modify inum s;
          p \<leftarrow> inode;
          let s = upd_buf (fst p) (\<lambda>b. strcpy b (snd p + ic_db 0) contents) s;
          Some (True, put32 p ic_size (of_nat (length contents)) s)
        }
      else
        do {
          let n = of_nat (length contents + 1);
          (r, s) \<leftarrow> file_write inum 0 n addr (contents @ [0]) s;
          if r = n then
            do { (e, s) \<leftarrow> file_block_retract inum s; Some (True, s) }
          else Some (False, s)
        })"

end
