(* ===== verification/Superblock.thy ===== *)
theory Superblock
  imports File_IO
begin

text \<open>
  The superblock part of fs/ufs.c: the steps of the search for a superblock, what \<open>superblock_read\<close> makes of
  the one that it found (with \<open>cgsummary_read\<close> and \<open>ffs_oldfscompat\<close>), and
  \<open>superblock_flush\<close>. The superblock and the summary of the groups are kept on the medium in
  decoded form. Numbers that the code compares as \<open>long\<close> are compared with sign.
\<close>

section \<open>The search\<close>

text \<open>The jumps of the loop counter.\<close>

definition sb_jump :: "nat \<Rightarrow> nat" where
  "sb_jump ssector =
     (if ssector = 5 then 8
      else if ssector = 10 then 6
      else if ssector = 18 then 48
      else if ssector = 49 then 64
      else if ssector = 65 then 112
      else if ssector = 113 then 240
      else ssector)"

definition good_bsize :: "u32 \<Rightarrow> bool" where
  "good_bsize b \<longleftrightarrow> b = 4096 \<or> b = 8192 \<or> b = 16384 \<or> b = 32768"

section \<open>Setting up\<close>

definition FS_UFS1_MAGIC :: u32 where "FS_UFS1_MAGIC = 0x011954"
definition FS_42POSTBLFMT :: u32 where "FS_42POSTBLFMT = -1"
definition FS_DYNAMICPOSTBLFMT :: u32 where "FS_DYNAMICPOSTBLFMT = 1"
definition FS_44INODEFMT :: u32 where "FS_44INODEFMT = 2"
definition FS_FLAGS_SUJ :: u8 where "FS_FLAGS_SUJ = 0x08"
definition FS_FLAGS_MULTILEVEL :: u8 where "FS_FLAGS_MULTILEVEL = 0x20"
definition FS_FLAGS_GJOURNAL :: u8 where "FS_FLAGS_GJOURNAL = 0x40"

definition csum_addr :: "superblock \<Rightarrow> u32" where
  "csum_addr fs = (if fs_updated fs then fs_new_csaddr fs else fs_csaddr fs)"

text \<open>\<open>cgsummary_read\<close>: true is a failure. After a fault of the device the file system is
  read-only, and \<open>fs_csp\<close> is what the superblock of the medium holds there.\<close>

definition cgsummary_read :: "fsys \<Rightarrow> bool \<times> fsys" where
  "cgsummary_read s =
     (let (ok, s) = alloc_mem s
      in if \<not> ok then (True, s)
         else
           let (err, s) = read_request (csum_addr (sb s)) s
           in if err then (False, set_ronly s)
              else (False, upd_sb (\<lambda>fs. fs\<lparr>fs_csp := disk_csp (dev s)\<rparr>) s))"

text \<open>The two halves of \<open>ffs_oldfscompat\<close>: the rotational layout, and the format of the
  inodes. \<open>DISK64\<close> is the second word of a quad.\<close>

definition old_layout :: "superblock \<Rightarrow> superblock" where
  "old_layout fs =
     (let fs = (if fs_npsect fs <s fs_nsect fs then fs\<lparr>fs_npsect := fs_nsect fs\<rparr> else fs);
          fs = (if fs_interleave fs <s 1 then fs\<lparr>fs_interleave := 1\<rparr> else fs)
      in if fs_postblformat fs = FS_42POSTBLFMT then fs\<lparr>fs_nrpos := 8\<rparr> else fs)"

definition old_inodes :: "superblock \<Rightarrow> superblock" where
  "old_inodes fs =
     fs\<lparr>fs_maxfilesize := (0, 0xffffffff),
        fs_qbmask := (0xffffffff, NOT (fs_bmask fs)),
        fs_qfmask := (0xffffffff, NOT (fs_fmask fs))\<rparr>"

definition ffs_oldfscompat :: "fsys \<Rightarrow> fsys" where
  "ffs_oldfscompat s =
     (let s = upd_sb old_layout s;
          fs = sb s
      in if fs_inodefmt fs = 0 \<or> fs_inodefmt fs = FS_42POSTBLFMT \<or>
            fs_inodefmt fs = FS_DYNAMICPOSTBLFMT
         then s\<lparr>sb := old_inodes fs,
                hnd := (hnd s)\<lparr>fs_lbmask := NOT (fs_bmask fs), fs_lfmask := NOT (fs_fmask fs),
                               bsd44fs := False\<rparr>\<rparr>
         else if fs_inodefmt fs = FS_44INODEFMT
         then s\<lparr>hnd := (hnd s)\<lparr>fs_lfmask := snd (fs_qfmask fs), fs_lbmask := snd (fs_qbmask fs),
                               bsd44fs := True\<rparr>\<rparr>
         else set_ronly s)"

text \<open>The loop that finds \<open>pfragshift\<close>: from \<open>index\<close> up, the doublings until \<open>csize\<close> is
  reached. An index beyond \<open>2 ^ 30\<close> does not fit into an \<open>int\<close>.\<close>

fun shift_loop :: "nat \<Rightarrow> nat \<Rightarrow> nat \<Rightarrow> nat \<Rightarrow> nat option" where
  "shift_loop 0 index csize n = (if index < csize then None else Some n)"
| "shift_loop (Suc r) index csize n =
     (if index < csize then shift_loop r (2 * index) csize (Suc n) else Some n)"

definition frag_shift :: "nat \<Rightarrow> nat option" where
  "frag_shift csize = shift_loop 30 1 csize 0"

text \<open>\<open>superblock_read\<close> from the label \<open>superblock\<close> found on: false is success. \<open>physical_ro\<close>
  says that the medium is write-protected, \<open>img\<close> is the superblock as it was read.\<close>

definition superblock_setup :: "bool \<Rightarrow> superblock \<Rightarrow> fsys \<Rightarrow> (bool \<times> fsys) option" where
  "superblock_setup physical_ro img s =
     (let s = s\<lparr>sb := img\<lparr>fs_ronly := False\<rparr>,
                hnd := (hnd s)\<lparr>fsize := fs_fsize img, bsize := fs_bsize img\<rparr>\<rparr>
      in if fs_magic (sb s) \<noteq> FS_UFS1_MAGIC then Some (True, s)
         else
           (let s = (if fs_flags (sb s) AND
                        (FS_FLAGS_SUJ OR FS_FLAGS_MULTILEVEL OR FS_FLAGS_GJOURNAL) \<noteq> 0
                     then set_ronly s else s);
                (err, s) = cgsummary_read s
            in if err then Some (True, s)
               else
                 do {
                   let shift = unat (fs_fragshift (sb s));
                   n \<leftarrow> frag_shift (unat (fs_nindir (sb s)) div 2 ^ shift);
                   let s = s\<lparr>hnd := (hnd s)\<lparr>fblkshift := shift, pfragshift := n\<rparr>\<rparr>;
                   let s = (if physical_ro then set_ronly s else s);
                   let s = upd_sb (\<lambda>fs. fs\<lparr>fs_fmod := 0, fs_clean := 0\<rparr>) s;
                   Some (False, ffs_oldfscompat s)
                 }))"

section \<open>Writing\<close>

text \<open>The superblock and the summary are kept in fields of the device of their own, \<open>disk_sb\<close> and
  \<open>disk_csp\<close>; the addresses that the code computes for them enter the check of the range.\<close>

definition superblock_sector :: "fsys \<Rightarrow> u32" where
  "superblock_sector s = 16 * 512 div phys_sectorsize (dev s)"

definition write_sb :: "fsys \<Rightarrow> fsys" where
  "write_sb s =
     (let (err, s) = write_request (lfragno (sb s) (superblock_sector s * phys_sectorsize (dev s))) s
      in if err then s else s\<lparr>dev := (dev s)\<lparr>disk_sb := sb s\<rparr>\<rparr>)"

definition write_csum :: "u32 \<Rightarrow> fsys \<Rightarrow> fsys" where
  "write_csum csaddr s =
     (let (err, s) = write_request csaddr s
      in if err then s else s\<lparr>dev := (dev s)\<lparr>disk_csp := fs_csp (sb s)\<rparr>\<rparr>)"

definition stamp_sb :: "u32 \<Rightarrow> superblock \<Rightarrow> superblock" where
  "stamp_sb t fs =
     (let fs = fs\<lparr>fs_time := t, fs_fmod := 0\<rparr>
      in if fs_updated fs then fs\<lparr>fs_new_time := t\<rparr> else fs)"

definition superblock_flush :: "fsys \<Rightarrow> nat \<times> fsys" where
  "superblock_flush s =
     (if fs_fmod (sb s) = 0 \<or> fs_ronly (sb s) then (0, s)
      else
        let s = upd_sb (stamp_sb (now (hnd s))) s;
            csaddr = csum_addr (sb s)
        in (1, write_csum csaddr (write_sb s)))"

end
