(* ===== verification/Volume.thy ===== *)
theory Volume
  imports Path Superblock
begin

text \<open>
  fs/system.c: the volume with its locks and file handles, and the paths that packets name.
  AmigaDOS locks live in the list \<open>dl_LockList\<close> of the volume node, linked by \<open>fl_Link\<close>; here it
  is the list of their addresses, newest first. Locks and file handles are named by their
  addresses, which are not 0; a BCPL pointer to a lock is its address. The list of AmigaDOS
  devices belongs to the operating system and is a part of the state that the code
  reads. \<open>volumename\<close> is the memory behind the
  length byte of the volume's name. The options of the mount entry are \<open>GMT\<close>, \<open>og_perm_invert\<close> and \<open>opt_minfree\<close>.
\<close>

section \<open>State\<close>

record bffs_lock =
  fl_Key :: u32
  fl_Access :: int
  fl_Task :: nat
  fl_Volume :: nat
  fl_Pinum :: u32
  fl_Poffset :: u32
  fl_Fileh :: "nat option"

record bffs_fh =
  fh_lock :: nat
  current_position :: u32
  maximum_position :: u32
  access_mode :: int
  truncate_mode :: int
  real_inum :: u32

text \<open>An entry of the list of devices: an assign (\<open>dl_Type\<close> 1) has a lock, of which the code
  reads \<open>fl_Key\<close>, \<open>fl_Pinum\<close> and \<open>fl_Poffset\<close>.\<close>

record dos_device =
  dl_Type :: int
  dl_Name :: bytes
  dl_Lock :: "(u32 \<times> u32 \<times> u32) option"

record volume =
  fs :: fsys
  Res1 :: u32
  VolNode :: "nat option"
  DosPort :: nat
  lock_list :: "nat list"
  locks :: "nat \<Rightarrow> bffs_lock"
  lock_brk :: nat
  files :: "nat \<Rightarrow> bffs_fh"
  file_brk :: nat
  volumename :: bytes
  handler_name :: bytes
  dos_devices :: "dos_device list"
  GMT :: u32
  og_perm_invert :: bool
  opt_minfree :: bool
  physical_ro :: bool

text \<open>\<open>fl_Access\<close> and the mode of a lock. \<open>ACCESS_READ\<close> is \<open>SHARED_LOCK\<close>, and \<open>ACCESS_WRITE\<close>
  is \<open>EXCLUSIVE_LOCK\<close>.\<close>

definition SHARED_LOCK :: int where "SHARED_LOCK = -2"
definition EXCLUSIVE_LOCK :: int where "EXCLUSIVE_LOCK = -1"
definition ACCESS_INVISIBLE :: int where "ACCESS_INVISIBLE = 0"

definition MODE_READ :: int where "MODE_READ = 0"
definition MODE_WRITE :: int where "MODE_WRITE = 1"
definition MODE_UPDATE :: int where "MODE_UPDATE = 0"
definition MODE_TRUNCATE :: int where "MODE_TRUNCATE = 1"

definition DOSTRUE :: u32 where "DOSTRUE = -1"
definition DOSFALSE :: u32 where "DOSFALSE = 0"
definition ERROR_OBJECT_IN_USE :: int where "ERROR_OBJECT_IN_USE = 202"
definition ERROR_DEVICE_NOT_MOUNTED :: int where "ERROR_DEVICE_NOT_MOUNTED = 218"

definition set_Res1 :: "u32 \<Rightarrow> volume \<Rightarrow> volume" where
  "set_Res1 x v = v\<lparr>Res1 := x\<rparr>"

definition on_fs :: "(fsys \<Rightarrow> ('a \<times> fsys) option) \<Rightarrow> volume \<Rightarrow> ('a \<times> volume) option" where
  "on_fs f v = map_option (\<lambda>(r, s). (r, v\<lparr>fs := s\<rparr>)) (f (fs v))"

definition upd_fs :: "(fsys \<Rightarrow> fsys) \<Rightarrow> volume \<Rightarrow> volume" where
  "upd_fs f v = v\<lparr>fs := f (fs v)\<rparr>"

definition alloc_vol :: "volume \<Rightarrow> bool \<times> volume" where
  "alloc_vol v = (let (ok, s) = alloc_mem (fs v) in (ok, v\<lparr>fs := s\<rparr>))"

section \<open>Locks\<close>

text \<open>The first lock with the key.\<close>

definition lock_on :: "u32 \<Rightarrow> volume \<Rightarrow> nat option" where
  "lock_on key v = find (\<lambda>l. fl_Key (locks v l) = key) (lock_list v)"

definition access_denied :: "int \<Rightarrow> int \<Rightarrow> bool" where
  "access_denied mode access =
     (if mode = EXCLUSIVE_LOCK then access \<noteq> 0
      else if mode = ACCESS_INVISIBLE then False
      else access = EXCLUSIVE_LOCK)"

definition CreateLock :: "u32 \<Rightarrow> int \<Rightarrow> u32 \<Rightarrow> u32 \<Rightarrow> volume \<Rightarrow> nat option \<times> volume" where
  "CreateLock key mode pinum poffset v =
     (case VolNode v of None \<Rightarrow> (None, upd_fs (set_Res2 ERROR_DEVICE_NOT_MOUNTED) v)
      | Some vol \<Rightarrow>
          let access = (case lock_on key v of None \<Rightarrow> 0 | Some l \<Rightarrow> fl_Access (locks v l))
          in if access_denied mode access
             then (None, upd_fs (set_Res2 ERROR_OBJECT_IN_USE) v)
             else
               let (ok, v) = alloc_vol v
               in if \<not> ok then (None, upd_fs (set_Res2 ERROR_NO_FREE_STORE) v)
                  else
                    let l = Suc (lock_brk v)
                    in (Some l,
                        v\<lparr>locks := (locks v)(l :=
                            \<lparr>fl_Key = key, fl_Access = mode, fl_Task = DosPort v, fl_Volume = vol,
                             fl_Pinum = pinum, fl_Poffset = poffset, fl_Fileh = None\<rparr>),
                          lock_brk := l, lock_list := l # lock_list v\<rparr>))"

text \<open>The result of a packet that creates a lock.\<close>

definition BADDR :: "nat option \<Rightarrow> u32" where
  "BADDR l = (case l of None \<Rightarrow> 0 | Some l \<Rightarrow> of_nat l)"

text \<open>\<open>FreeLock\<close> takes the lock out of the list of the volume node.\<close>

definition FreeLock :: "nat option \<Rightarrow> volume \<Rightarrow> (unit \<times> volume) option" where
  "FreeLock lock v =
     (case lock of None \<Rightarrow> Some ((), v)
      | Some l \<Rightarrow>
          if VolNode v = None then None
          else if l \<in> set (lock_list v)
          then Some ((), v\<lparr>lock_list := remove1 l (lock_list v)\<rparr>)
          else Some ((), set_Res1 DOSFALSE v))"

section \<open>Closing files\<close>

definition upd_file :: "nat \<Rightarrow> (bffs_fh \<Rightarrow> bffs_fh) \<Rightarrow> volume \<Rightarrow> volume" where
  "upd_file h f v = v\<lparr>files := (files v)(h := f (files v h))\<rparr>"

definition truncate_file :: "nat \<Rightarrow> volume \<Rightarrow> (unit \<times> volume) option" where
  "truncate_file h v =
     (if access_mode (files v h) = MODE_WRITE then
        do {
          let inum = real_inum (files v h);
          (inode, v) \<leftarrow> on_fs (inode_modify inum) v;
          p \<leftarrow> inode;
          let v = upd_fs (put32 p ic_mtime (now (hnd (fs v)))) v;
          (u, v) \<leftarrow>
            (if truncate_mode (files v h) = MODE_TRUNCATE then
               do {
                 let pos = maximum_position (files v h);
                 (u, v) \<leftarrow> (if pos < IC_SIZE (fs v) p
                           then on_fs (file_blocks_deallocate inum) (upd_fs (put32 p ic_size pos) v)
                           else Some ((), v));
                 Some ((), upd_file h (\<lambda>f. f\<lparr>truncate_mode := MODE_UPDATE\<rparr>) v)
               }
             else Some ((), v));
          (e, v) \<leftarrow> on_fs (file_block_retract inum) v;
          Some ((), upd_file h (\<lambda>f. f\<lparr>access_mode := MODE_READ\<rparr>) v)
        }
      else Some ((), v))"

fun close_each :: "nat list \<Rightarrow> volume \<Rightarrow> (unit \<times> volume) option" where
  "close_each [] v = Some ((), v)"
| "close_each (l # ls) v =
     do {
       (u, v) \<leftarrow> (case fl_Fileh (locks v l) of
                   Some h \<Rightarrow>
                     if access_mode (files v h) = MODE_WRITE then
                       do {
                         (u, v) \<leftarrow> truncate_file h v;
                         Some ((), upd_file h (\<lambda>f. f\<lparr>access_mode := MODE_READ\<rparr>) v)
                       }
                     else Some ((), v)
                 | None \<Rightarrow> Some ((), v));
       close_each ls v
     }"

definition close_files :: "volume \<Rightarrow> (unit \<times> volume) option" where
  "close_files v = (if VolNode v = None then Some ((), v) else close_each (lock_list v) v)"

section \<open>Paths of packets\<close>

text \<open>\<open>strchr(name, ':')\<close> splits a path.\<close>

definition before_colon :: "bytes \<Rightarrow> bytes" where
  "before_colon path = takeWhile (\<lambda>c. c \<noteq> 58) path"

definition after_colon :: "bytes \<Rightarrow> bytes" where
  "after_colon path = drop 1 (dropWhile (\<lambda>c. c \<noteq> 58) path)"

text \<open>\<open>strnicmp\<close> compares as many bytes as the name of the device has, so that an assign is
  found by any name that begins with its own.\<close>

definition is_assign :: "bytes \<Rightarrow> dos_device \<Rightarrow> bool" where
  "is_assign name d \<longleftrightarrow>
     dl_Type d = 1 \<and>
     map to_lower (dl_Name d) = take (length (dl_Name d)) (map to_lower name)"

definition ResolveColon :: "bytes \<Rightarrow> volume \<Rightarrow> (u32 \<times> volume) option" where
  "ResolveColon path v =
     (if 58 \<notin> set path then Some (0, v)
      else
        let name = before_colon path
        in if name = [] then Some (2, v)
           else if streqv (cstring (volumename v) 0) name \<or> streqv (handler_name v) name then Some (2, v)
           else case find (is_assign name) (dos_devices v) of None \<Rightarrow> Some (2, v)
             | Some d \<Rightarrow>
                 do {
                   (key, pinum, poffset) \<leftarrow> dl_Lock d;
                   Some (key, upd_fs (set_Poffset poffset \<circ> set_Pinum pinum) v)
                 })"

text \<open>Where the last component of a path begins: behind the last slash or colon that is not
  at the beginning of the path. The loop goes down from the end.\<close>

fun last_part :: "bytes \<Rightarrow> nat \<Rightarrow> nat" where
  "last_part path 0 = 0"
| "last_part path (Suc i) =
     (if Suc i < length path \<and> path ! Suc i \<in> {47, 58} then Suc (Suc i) else last_part path i)"

definition parent_parse :: "nat option \<Rightarrow> bytes \<Rightarrow> u32 \<Rightarrow> volume \<Rightarrow> ((u32 \<times> bytes) \<times> volume) option"
where
  "parent_parse lock path addr v =
     do {
       (pinum, v) \<leftarrow> ResolveColon path v;
       let (pinum, sname) =
         (if pinum \<noteq> 0 then (if 58 \<in> set path then (pinum, after_colon path) else (2, path))
          else (case lock of Some l \<Rightarrow> fl_Key (locks v l) | None \<Rightarrow> 2, path));
       let part = last_part sname (length sname);
       if part \<noteq> 0 then
         do {
           (pinum, v) \<leftarrow> on_fs (file_find pinum (take (part - 1) sname) addr) v;
           (pinum, v) \<leftarrow> (if \<not> unix_paths (hnd (fs v)) \<and> 1 < part \<and> sname ! (part - 2) = 47
                         then on_fs (dir_name_search pinum dotdot) v else Some (pinum, v));
           Some ((pinum, drop part sname), v)
         }
       else if sname \<noteq> [] \<and> hd sname = 47 then
         do {
           (pinum, v) \<leftarrow> (if unix_paths (hnd (fs v)) then Some (2, v)
                         else on_fs (dir_name_search pinum dotdot) v);
           Some ((pinum, tl sname), v)
         }
       else Some ((pinum, sname), v)
     }"

definition path_parse :: "nat option \<Rightarrow> bytes \<Rightarrow> u32 \<Rightarrow> volume \<Rightarrow> (u32 \<times> volume) option" where
  "path_parse lock path addr v =
     do {
       (inum, v) \<leftarrow> ResolveColon path v;
       if inum \<noteq> 0 then
         (if 58 \<in> set path then on_fs (file_find inum (after_colon path) addr) v
          else on_fs (file_find 2 path addr) v)
       else
         (case lock of
            Some l \<Rightarrow>
              on_fs (file_find (fl_Key (locks v l)) path addr)
                (upd_fs (set_Poffset (fl_Poffset (locks v l)) \<circ> set_Pinum (fl_Pinum (locks v l))) v)
          | None \<Rightarrow> on_fs (file_find 2 path addr) v)
     }"

end
