(* ===== verification/Unix_Time.thy ===== *)
theory Unix_Time
  imports Bffs_Prelude "HOL-Library.Signed_Division"
begin

text \<open>
  fs/unixtime.c: the conversion between Unix times, seconds since 1970, and AmigaDOS date
  stamps, days since 1978 with minutes and ticks of 1/50 second. All values are 32-bit words;
  \<open>GMT\<close> is the number of hours to add to UTC.
\<close>

record datestamp =
  ds_Days :: u32
  ds_Minute :: u32
  ds_Tick :: u32

definition TICKS_PER_SECOND :: u32 where "TICKS_PER_SECOND = 50"

definition unix_time_to_amiga_ds :: "u32 \<Rightarrow> u32 \<Rightarrow> datestamp" where
  "unix_time_to_amiga_ds GMT timeval =
     (let timeval = timeval + GMT * 3600
      in \<lparr>ds_Days = timeval div 86400 - 2922,
          ds_Minute = timeval mod 86400 div 60,
          ds_Tick = timeval mod 60 * TICKS_PER_SECOND\<rparr>)"

text \<open>The division of the ticks is one of signed numbers. The sums and products are of signed
  \<open>long\<close> in C and overflow for late dates; here they wrap, as they do on the processors that the
  handler is compiled for.\<close>

definition amiga_ds_to_unix_time :: "u32 \<Rightarrow> datestamp \<Rightarrow> u32" where
  "amiga_ds_to_unix_time GMT ds =
     2922 * 86400 - GMT * 3600 + ds_Days ds * 24 * 3600 + ds_Minute ds * 60 +
     word_of_int (sint (ds_Tick ds) sdiv 50)"

text \<open>A positive word is read alike with and without sign.\<close>

lemma sint_small: "unat (x :: u32) < 2 ^ 31 \<Longrightarrow> sint x = int (unat x)" (is "?lt \<Longrightarrow> ?thesis")
proof -
  assume "unat x < 2 ^ 31"
  then have "int (unat x) < int (2 ^ 31)" by (simp only: of_nat_less_iff)
  then have "uint x < 2 ^ 31" by (simp only: uint_nat of_nat_power of_nat_numeral)
  moreover have "- (2 ^ 31) \<le> uint x" by (rule order_trans [OF _ uint_ge_0]) simp
  ultimately have "signed_take_bit 31 (uint x) = uint x"
    by (intro signed_take_bit_int_eq_self)
  then show ?thesis by (simp add: sint_uint)
qed

lemma times_50_sdiv: "int k * 50 sdiv 50 = int k"
  by (cases k) (simp_all add: signed_divide_int_def sgn_if)

lemma ticks_back: "r < 60 \<Longrightarrow> word_of_int (sint (r * 50 :: u32) sdiv 50) = r" (is "_ \<Longrightarrow> ?thesis")
proof -
  assume "r < 60"
  then have r: "unat r < 60" by (simp add: word_less_nat_alt)
  then have "unat (r * 50) = unat r * 50" by (simp add: unat_word_ariths)
  then have "sint (r * 50) = int (unat r) * 50" using r by (subst sint_small) (simp_all only:, simp_all)
  then have "sint (r * 50) sdiv 50 = int (unat r)" by (simp only: times_50_sdiv)
  then show ?thesis by simp
qed

lemma seconds_of_day: "(x :: u32) = x div 86400 * 86400 + x mod 86400 div 60 * 60 + x mod 60"
proof (rule unsigned_word_eqI)
  have m: "(unat x mod 86400) mod 60 = unat x mod 60" by (simp add: mod_mod_cancel)
  have e: "unat x = unat x div 86400 * 86400 + unat x mod 86400 div 60 * 60 + unat x mod 60"
    using div_mult_mod_eq [of "unat x" 86400] div_mult_mod_eq [of "unat x mod 86400" 60] m
    by linarith
  have "unat x < 2 ^ 32" using unsigned_less [of x] by simp
  then show "unat x = unat (x div 86400 * 86400 + x mod 86400 div 60 * 60 + x mod 60)"
    using e by (simp add: unat_word_ariths unat_div unat_mod)
qed

text \<open>C39: a Unix time survives the conversion to an AmigaDOS date stamp and back, for every
  32-bit time and every time zone, where signed sums wrap.\<close>

theorem unix_time_roundtrip:
  "amiga_ds_to_unix_time GMT (unix_time_to_amiga_ds GMT t) = t"
proof -
  define x where "x = t + GMT * 3600"
  have "x mod 60 < 60" by (simp add: word_less_nat_alt unat_mod)
  then have "word_of_int (sint (x mod 60 * 50) sdiv 50) = x mod 60" by (rule ticks_back)
  then have "amiga_ds_to_unix_time GMT (unix_time_to_amiga_ds GMT t) =
      2922 * 86400 - GMT * 3600 + (x div 86400 - 2922) * 24 * 3600 + x mod 86400 div 60 * 60 + x mod 60"
    by (simp add: amiga_ds_to_unix_time_def unix_time_to_amiga_ds_def x_def TICKS_PER_SECOND_def Let_def)
  also have "\<dots> = (x div 86400 * 86400 + x mod 86400 div 60 * 60 + x mod 60) - GMT * 3600"
    by (simp add: algebra_simps)
  also have "\<dots> = t" using seconds_of_day [of x] by (simp add: x_def)
  finally show ?thesis .
qed

end
