(* ===== verification/Packet_Info.thy ===== *)
theory Packet_Info
  imports Volume Unix_Time
begin

text \<open>
  The packets of fs/packets.c that report on files: the protection bits, \<open>FillInfoBlock\<close>,
  \<open>FillAttrBlock\<close>, the examine packets and \<open>PDeviceInfo\<close>. The text that the options
  \<open>inode_comments\<close> and \<open>link_comments\<close> add to \<open>fib_Comment\<close> is left out: the model is that of a
  handler without these options. A packet that reports on a file returns the block that it filled.
\<close>

section \<open>Protection bits\<close>

definition ISUID :: u16 where "ISUID = 0x800"
definition ISGID :: u16 where "ISGID = 0x400"
definition ISVTX :: u16 where "ISVTX = 0x200"
definition IEXEC :: u16 where "IEXEC = 0x40"

definition FIBF_DELETE :: u32 where "FIBF_DELETE = 0x1"
definition FIBF_EXECUTE :: u32 where "FIBF_EXECUTE = 0x2"
definition FIBF_WRITE :: u32 where "FIBF_WRITE = 0x4"
definition FIBF_READ :: u32 where "FIBF_READ = 0x8"
definition FIBF_PURE :: u32 where "FIBF_PURE = 0x20"
definition FIBF_SCRIPT :: u32 where "FIBF_SCRIPT = 0x40"
definition FIBF_HIDDEN :: u32 where "FIBF_HIDDEN = 0x80"
definition FIBF_GRP_DELETE :: u32 where "FIBF_GRP_DELETE = 0x100"
definition FIBF_GRP_EXECUTE :: u32 where "FIBF_GRP_EXECUTE = 0x200"
definition FIBF_GRP_WRITE :: u32 where "FIBF_GRP_WRITE = 0x400"
definition FIBF_GRP_READ :: u32 where "FIBF_GRP_READ = 0x800"
definition FIBF_OTR_DELETE :: u32 where "FIBF_OTR_DELETE = 0x1000"
definition FIBF_OTR_EXECUTE :: u32 where "FIBF_OTR_EXECUTE = 0x2000"
definition FIBF_OTR_WRITE :: u32 where "FIBF_OTR_WRITE = 0x4000"
definition FIBF_OTR_READ :: u32 where "FIBF_OTR_READ = 0x8000"

text \<open>\<open>(x & bit) ? a : b\<close>.\<close>

definition pick :: "'a::len word \<Rightarrow> 'a word \<Rightarrow> 'b \<Rightarrow> 'b \<Rightarrow> 'b" where
  "pick x b yes no = (if x AND b \<noteq> 0 then yes else no)"

text \<open>The Unix mode as AmigaDOS protection, where a set bit denies.\<close>

definition fib_protection :: "bool \<Rightarrow> u16 \<Rightarrow> u32" where
  "fib_protection invert mode =
     (let R = ucast IREAD; W = ucast IWRITE; X = ucast IEXEC;
          fmode = ucast mode :: u32;
          p = pick fmode (ucast ISUID) FIBF_SCRIPT 0;
          p = p OR pick fmode (ucast ISGID) FIBF_HIDDEN 0;
          p = p OR pick fmode (ucast ISVTX) FIBF_PURE 0;
          p = p OR pick fmode R 0 FIBF_READ;
          p = p OR pick fmode W 0 (FIBF_WRITE OR FIBF_DELETE);
          p = p OR pick fmode X 0 FIBF_EXECUTE;
          fmode = push_bit 3 fmode;
          fmode = (if invert then fmode XOR (R OR W OR X OR drop_bit 3 (R OR W OR X)) else fmode);
          p = p OR pick fmode R 0 FIBF_GRP_READ;
          p = p OR pick fmode W 0 (FIBF_GRP_WRITE OR FIBF_GRP_DELETE);
          p = p OR pick fmode X 0 FIBF_GRP_EXECUTE;
          fmode = push_bit 3 fmode;
          p = p OR pick fmode R 0 FIBF_OTR_READ;
          p = p OR pick fmode W 0 (FIBF_OTR_WRITE OR FIBF_OTR_DELETE)
      in p OR pick fmode X 0 FIBF_OTR_EXECUTE)"

text \<open>The mode that \<open>PSetProtect\<close> stores: the new protection in the old mode.\<close>

definition protect_mode :: "bool \<Rightarrow> u32 \<Rightarrow> u16 \<Rightarrow> u16" where
  "protect_mode invert msk mode =
     (let R = ucast IREAD; W = ucast IWRITE; X = ucast IEXEC;
          temp = ucast mode :: u32;
          temp = temp AND NOT (ucast ISUID OR ucast ISGID OR ucast ISVTX OR 0x1FF);
          temp = temp OR pick msk FIBF_SCRIPT (ucast ISUID) 0;
          temp = temp OR pick msk FIBF_HIDDEN (ucast ISGID) 0;
          temp = temp OR pick msk FIBF_PURE (ucast ISVTX) 0;
          temp = temp OR pick msk FIBF_READ 0 R;
          temp = temp OR pick msk FIBF_WRITE 0 W;
          temp = temp OR pick msk FIBF_DELETE 0 W;
          temp = temp OR pick msk FIBF_EXECUTE 0 X;
          temp = temp OR pick msk FIBF_GRP_READ 0 (drop_bit 3 R);
          temp = temp OR pick msk FIBF_GRP_WRITE 0 (drop_bit 3 W);
          temp = temp OR pick msk FIBF_GRP_DELETE 0 (drop_bit 3 W);
          temp = temp OR pick msk FIBF_GRP_EXECUTE 0 (drop_bit 3 X);
          temp = temp OR pick msk FIBF_OTR_READ 0 (drop_bit 6 R);
          temp = temp OR pick msk FIBF_OTR_WRITE 0 (drop_bit 6 W);
          temp = temp OR pick msk FIBF_OTR_DELETE 0 (drop_bit 6 W);
          temp = temp OR pick msk FIBF_OTR_EXECUTE 0 (drop_bit 6 X);
          temp = (if invert then temp XOR (drop_bit 3 (R OR W OR X) OR drop_bit 6 (R OR W OR X))
                  else temp)
      in ucast temp)"

section \<open>The kind of a file\<close>

definition IFIFO :: u16 where "IFIFO = 0x1000"
definition IFBLK :: u16 where "IFBLK = 0x6000"
definition IFSOCK :: u16 where "IFSOCK = 0xC000"
definition IFWHT :: u16 where "IFWHT = 0xE000"

definition ST_ROOT :: int where "ST_ROOT = 1"
definition ST_USERDIR :: int where "ST_USERDIR = 2"
definition ST_SOFTLINK :: int where "ST_SOFTLINK = 3"
definition ST_FILE :: int where "ST_FILE = -3"
definition ST_LINKFILE :: int where "ST_LINKFILE = -4"
definition ST_BDEVICE :: int where "ST_BDEVICE = -10"
definition ST_CDEVICE :: int where "ST_CDEVICE = -11"
definition ST_SOCKET :: int where "ST_SOCKET = -12"
definition ST_FIFO :: int where "ST_FIFO = -13"
definition ST_WHITEOUT :: int where "ST_WHITEOUT = -15"

definition entry_type :: "u16 \<Rightarrow> int" where
  "entry_type mode =
     (if mode AND IFMT = IFREG then ST_FILE
      else if mode AND IFMT = IFDIR then ST_USERDIR
      else if mode AND IFMT = IFLNK then ST_SOFTLINK
      else if mode AND IFCHR \<noteq> 0 then (if mode AND IFMT = IFBLK then ST_BDEVICE else ST_CDEVICE)
      else if mode AND IFMT = IFIFO then ST_FIFO
      else if mode AND IFMT = IFSOCK then ST_SOCKET
      else if mode AND IFMT = IFWHT then ST_WHITEOUT
      else ST_FILE)"

datatype fattr_type = NFNON | NFREG | NFDIR | NFBLK | NFCHR | NFLNK | NFSOCK | NFFIFO

text \<open>The \<open>switch\<close> of \<open>FillAttrBlock\<close> is on \<open>fmode & IFREG\<close>.\<close>

definition attr_type :: "u16 \<Rightarrow> fattr_type" where
  "attr_type mode =
     (let t = mode AND IFREG
      in if t = IFREG then NFREG
         else if t = IFDIR then NFDIR
         else if t = IFBLK then NFBLK
         else if t = IFCHR then NFCHR
         else if t = IFLNK then NFLNK
         else if t = IFSOCK then NFSOCK
         else if t = IFIFO then NFFIFO
         else NFNON)"

section \<open>Information blocks\<close>

record fileinfo =
  fib_DiskKey :: u32
  fib_DirEntryType :: int
  fib_FileName :: bytes
  fib_Protection :: u32
  fib_EntryType :: int
  fib_Size :: u32
  fib_NumBlocks :: u32
  fib_Date :: datestamp
  fib_OwnerUID :: u16
  fib_OwnerGID :: u16
  fib_mode :: u32
  fib_DirOffset :: u32

record fileattr =
  fa_type :: fattr_type
  fa_mode :: u16
  fa_nlink :: u16
  fa_uid :: u16
  fa_gid :: u16
  fa_size :: u32
  fa_blocksize :: u32
  fa_rdev :: u32
  fa_blocks :: u32
  fa_fileid :: u16
  fa_atime :: "u32 \<times> u32"
  fa_mtime :: "u32 \<times> u32"
  fa_ctime :: "u32 \<times> u32"

definition ic_ouid :: nat where "ic_ouid = 4"
definition ic_ogid :: nat where "ic_ogid = 6"
definition ic_size_hi :: nat where "ic_size_hi = 8"
definition ic_atime_ns :: nat where "ic_atime_ns = 20"
definition ic_mtime_ns :: nat where "ic_mtime_ns = 28"
definition ic_ctime_ns :: nat where "ic_ctime_ns = 36"
definition ic_nuid :: nat where "ic_nuid = 112"
definition ic_ngid :: nat where "ic_ngid = 116"

definition ROOTINO :: u32 where "ROOTINO = 2"

definition ACTION_EXAMINE_OBJECT :: int where "ACTION_EXAMINE_OBJECT = 23"
definition ACTION_EX_OBJECT :: int where "ACTION_EX_OBJECT = 50"
definition ACTION_EX_NEXT :: int where "ACTION_EX_NEXT = 51"

definition DIRNAMESIZE :: nat where "DIRNAMESIZE = 108"

text \<open>The record of a directory that a pointer names.\<close>

definition dir_at :: "fsys \<Rightarrow> iptr \<Rightarrow> (bytes \<Rightarrow> nat \<Rightarrow> 'a) \<Rightarrow> 'a" where
  "dir_at s d f = f (frag_buf s (fst d)) (snd d)"

text \<open>The mode as \<open>FillInfoBlock\<close> leaves it in its variable.\<close>

definition fmode_left :: "bool \<Rightarrow> u16 \<Rightarrow> u32" where
  "fmode_left invert mode =
     (let fmode = push_bit 3 (ucast mode :: u32)
      in push_bit 3 (if invert then fmode XOR 0x1F8 else fmode))"

text \<open>The name comes from the record of the directory, but that of the root is the volume's.
  A NULL record is followed when it is needed.\<close>

definition FillInfoBlock :: "int \<Rightarrow> fileinfo \<Rightarrow> nat \<Rightarrow> iptr \<Rightarrow> iptr option \<Rightarrow> volume \<Rightarrow> fileinfo option"
where
  "FillInfoBlock ptype fib lock finode dir_ent v =
     (let s = fs v;
          mode = get16 s finode ic_mode;
          kind = (case dir_ent of None \<Rightarrow> ST_ROOT
                  | Some d \<Rightarrow> if dir_at s d d_ino = ROOTINO then ST_ROOT else entry_type mode);
          mtime = get32 s finode ic_mtime;
          fib = fib\<lparr>
            fib_Size := (if get32 s finode ic_size_hi \<noteq> 0 then push_bit 31 1 else IC_SIZE s finode),
            fib_NumBlocks := get32 s finode ic_blocks div NDSPF s,
            fib_DirEntryType := kind,
            fib_Protection := fib_protection (og_perm_invert v) mode,
            fib_OwnerUID := (if bsd44fs (hnd s) then ucast (get32 s finode ic_nuid)
                             else get16 s finode ic_ouid),
            fib_OwnerGID := (if bsd44fs (hnd s) then ucast (get32 s finode ic_ngid)
                             else get16 s finode ic_ogid),
            fib_EntryType := kind,
            fib_Date := unix_time_to_amiga_ds (GMT v) (if mtime \<noteq> 0 then mtime else fs_time (sb s))\<rparr>;
          fib = (if ptype = ACTION_EX_OBJECT \<or> ptype = ACTION_EX_NEXT
                 then fib\<lparr>fib_mode := fmode_left (og_perm_invert v) mode\<rparr> else fib)
      in if fl_Key (locks v lock) = ROOTINO \<and>
            (ptype = ACTION_EXAMINE_OBJECT \<or> ptype = ACTION_EX_OBJECT)
         then Some (fib\<lparr>fib_FileName := cstring (volumename v) 0\<rparr>)
         else
           do {
             d \<leftarrow> dir_ent;
             Some (fib\<lparr>fib_FileName := take (DIRNAMESIZE - 2) (dir_at s d d_name),
                       fib_DiskKey := dir_at s d d_ino\<rparr>)
           })"

definition FillAttrBlock :: "iptr \<Rightarrow> volume \<Rightarrow> fileattr" where
  "FillAttrBlock finode v =
     (let s = fs v;
          mode = get16 s finode ic_mode;
          time = (\<lambda>t ns. (get32 s finode t + GMT v * 3600, get32 s finode ns div 1000))
      in \<lparr>fa_type = attr_type mode, fa_mode = mode, fa_nlink = get16 s finode ic_nlink,
          fa_uid = get16 s finode ic_ouid, fa_gid = get16 s finode ic_ogid,
          fa_size = IC_SIZE s finode, fa_blocksize = phys_sectorsize (dev s),
          fa_rdev = (if mode AND IFCHR \<noteq> 0 then get32 s finode (ic_db 0) else 0),
          fa_blocks = get32 s finode ic_blocks, fa_fileid = get16 s finode ic_ouid,
          fa_atime = time ic_atime ic_atime_ns, fa_mtime = time ic_mtime ic_mtime_ns,
          fa_ctime = time ic_ctime ic_ctime_ns\<rparr>)"

section \<open>Examine\<close>

definition fail :: "int \<Rightarrow> volume \<Rightarrow> volume" where
  "fail code v = set_Res1 DOSFALSE (upd_fs (set_Res2 code) v)"

text \<open>The target of a symbolic link, 0 when it is broken. \<open>addr\<close> is the address of the buffer for
  its contents.\<close>

definition link_target :: "nat \<Rightarrow> iptr \<Rightarrow> u32 \<Rightarrow> volume \<Rightarrow> (u32 \<times> volume) option" where
  "link_target lock p addr v =
     (let inum = fl_Key (locks v lock);
          pinum = fl_Pinum (locks v lock);
          filesize = IC_SIZE (fs v) p;
          n = unat filesize;
          (ok, v) = alloc_vol v
      in if \<not> ok then None
         else if bsd44fs (hnd (fs v)) \<and> n < MAXSYMLINKLEN then
           on_fs (file_find pinum
             (take n (cstring (frag_buf (fs v) (fst p)) (snd p + ic_db 0))) addr) v
         else
           do {
             ((r, buf), v) \<leftarrow> on_fs (file_read inum 0 filesize addr (replicate (n + 1) 0)) v;
             if r = filesize then on_fs (file_find pinum (take n (cstring buf 0)) addr) v
             else Some (0, v)
           })"

definition examine_common :: "int \<Rightarrow> nat \<Rightarrow> bool \<Rightarrow> fileinfo \<Rightarrow> u32 \<Rightarrow> volume \<Rightarrow>
    ((fileinfo \<times> fileattr option) \<times> volume) option" where
  "examine_common ptype lock attr fib addr v =
     do {
       let fib = fib\<lparr>fib_DirOffset := push_bit 31 1\<rparr>;
       (dir_ent, v) \<leftarrow>
         (if fl_Key (locks v lock) = ROOTINO then Some (Some None, v)
          else do {
            (inode, v) \<leftarrow> on_fs (inode_read (fl_Key (locks v lock))) v;
            p \<leftarrow> inode;
            if get16 (fs v) p ic_mode AND IFMT = IFLNK then
              if resolve_symlinks (hnd (fs v)) then
                do {
                  (ninum, v) \<leftarrow> link_target lock p addr v;
                  if ninum = 0 then Some (None, fail ERROR_IS_SOFT_LINK v)
                  else do {
                    (d, v) \<leftarrow> on_fs (dir_next (Pinum (hnd (fs v))) (Poffset (hnd (fs v)))) v;
                    let l = (locks v lock)\<lparr>fl_Key := ninum, fl_Pinum := Pinum (hnd (fs v)),
                              fl_Poffset := Poffset (hnd (fs v))\<rparr>;
                    Some (Some d, v\<lparr>locks := (locks v)(lock := l)\<rparr>)
                  }
                }
              else Some (None, fail ERROR_IS_SOFT_LINK v)
            else
              do {
                (d, v) \<leftarrow> on_fs (dir_next (fl_Pinum (locks v lock)) (fl_Poffset (locks v lock))) v;
                Some (Some d, v)
              }
          });
       case dir_ent of None \<Rightarrow> Some ((fib, None), v)
       | Some d \<Rightarrow>
           do {
             (inode, v) \<leftarrow> on_fs (inode_read (fl_Key (locks v lock))) v;
             p \<leftarrow> inode;
             fib \<leftarrow> FillInfoBlock ptype fib lock p d v;
             Some ((fib, if attr then Some (FillAttrBlock p v) else None), v)
           }
     }"

text \<open>\<open>attr\<close>: the third argument is not 0.\<close>

definition PExamineObject :: "int \<Rightarrow> nat option \<Rightarrow> fileinfo \<Rightarrow> bool \<Rightarrow> u32 \<Rightarrow> volume \<Rightarrow>
    ((fileinfo \<times> fileattr option) \<times> volume) option" where
  "PExamineObject ptype lock fib attr addr v =
     do {
       l \<leftarrow> lock;
       examine_common ptype l (ptype = ACTION_EX_OBJECT \<and> attr) fib addr v
     }"

definition PExamineFh :: "int \<Rightarrow> nat \<Rightarrow> fileinfo \<Rightarrow> u32 \<Rightarrow> volume \<Rightarrow>
    ((fileinfo \<times> fileattr option) \<times> volume) option" where
  "PExamineFh ptype fileh fib addr v =
     examine_common ptype (fh_lock (files v fileh)) False fib addr v"

text \<open>The loop of \<open>PExamineNext\<close> from the label \<open>getname\<close> on: the next record in use at or after
  an offset in the directory, with the offset behind it. Only \<open>ACTION_EX_NEXT\<close> shows the first
  two records. \<open>None\<close> in the result stands for the end of the directory.\<close>

partial_function (option) next_entry ::
    "bool \<Rightarrow> u32 \<Rightarrow> u32 \<Rightarrow> u32 \<Rightarrow> fsys \<Rightarrow> ((iptr option \<times> u32) \<times> fsys) option" where
  "next_entry dots key dirsize off s =
     (if dirsize \<le> off then Some ((None, off), s)
      else
        do {
          (r, s) \<leftarrow> dir_next key off s;
          case r of None \<Rightarrow> Some ((None, off), s)
          | Some d \<Rightarrow>
              (let reclen = dir_at s d d_reclen
               in if off = 0 \<and> \<not> dots then
                    next_entry dots key dirsize
                      (of_nat (reclen + dir_at s (fst d, snd d + reclen) d_reclen)) s
                  else
                    let off = off + of_nat reclen
                    in if dir_at s d d_ino = 0 then
                         next_entry dots key dirsize
                           (if reclen = 0 then (off OR of_nat (DIRBLKSIZ - 1)) + 1 else off) s
                       else Some ((Some d, off), s))
        })"

definition ERROR_NO_MORE_ENTRIES :: int where "ERROR_NO_MORE_ENTRIES = 232"
definition ERROR_READ_PROTECTED :: int where "ERROR_READ_PROTECTED = 224"
definition ERROR_DIR_NOT_FOUND :: int where "ERROR_DIR_NOT_FOUND = 204"

text \<open>\<open>fib_DirOffset\<close> has its highest bit set before the first entry. The test of the entry type
  is one of the low bits of a negative or positive number.\<close>

definition first_entry :: "fileinfo \<Rightarrow> bool" where
  "first_entry fib \<longleftrightarrow> fib_DirOffset fib AND push_bit 31 1 \<noteq> 0"

definition no_directory :: "fileinfo \<Rightarrow> bool" where
  "no_directory fib \<longleftrightarrow> fib_DirEntryType fib mod 4 = 0"

definition PExamineNext :: "int \<Rightarrow> nat option \<Rightarrow> fileinfo \<Rightarrow> bool \<Rightarrow> volume \<Rightarrow>
    ((fileinfo \<times> fileattr option) \<times> volume) option" where
  "PExamineNext ptype lock fib attr v =
     do {
       l \<leftarrow> lock;
       let key = fl_Key (locks v l);
       if first_entry fib \<and> no_directory fib then Some ((fib, None), fail ERROR_NO_MORE_ENTRIES v)
       else do {
         (ok, fib, v) \<leftarrow>
           (if first_entry fib then
              do {
                (r, v) \<leftarrow> on_fs (is_readable key) v;
                Some (r, fib\<lparr>fib_DirOffset := 0\<rparr>, v)
              }
            else Some (True, fib, v));
         if \<not> ok then Some ((fib, None), fail ERROR_READ_PROTECTED v)
         else do {
           (pinode, v) \<leftarrow> on_fs (inode_read key) v;
           case pinode of None \<Rightarrow> Some ((fib, None), fail ERROR_DIR_NOT_FOUND v)
           | Some p \<Rightarrow>
               if \<not> is_dir_inode (fs v) p then Some ((fib, None), fail ERROR_DIR_NOT_FOUND v)
               else do {
                 ((r, off), v) \<leftarrow> on_fs (next_entry (ptype = ACTION_EX_NEXT) key (IC_SIZE (fs v) p)
                             (fib_DirOffset fib)) v;
                 let fib = fib\<lparr>fib_DirOffset := off\<rparr>;
                 case r of None \<Rightarrow> Some ((fib, None), fail ERROR_NO_MORE_ENTRIES v)
                 | Some d \<Rightarrow>
                     do {
                       (inode, v) \<leftarrow> on_fs (inode_read (dir_at (fs v) d d_ino)) v;
                       p \<leftarrow> inode;
                       fib \<leftarrow> FillInfoBlock ptype fib l p (Some d) v;
                       Some ((fib, if ptype = ACTION_EX_NEXT \<and> attr
                                   then Some (FillAttrBlock p v) else None), v)
                     }
               }
         }
       }
     }"

section \<open>The volume\<close>

record infodata =
  id_DiskState :: int
  id_NumBlocks :: u32
  id_NumBlocksUsed :: u32
  id_BytesPerBlock :: u32
  id_VolumeNode :: u32

definition ID_WRITE_PROTECTED :: int where "ID_WRITE_PROTECTED = 80"
definition ID_VALIDATED :: int where "ID_VALIDATED = 82"

definition PDeviceInfo :: "volume \<Rightarrow> infodata" where
  "PDeviceInfo v =
     (let s = fs v;
          b = sb s;
          nbfree = (if fs_updated b then cs_nbfree (fs_new_cstotal b) else cs_nbfree (fs_cstotal b));
          dsize = (if fs_updated b then fs_new_dsize b else fs_dsize b);
          used = dsize - nbfree * fs_frag b
      in \<lparr>id_DiskState = (if fs_ronly b then ID_WRITE_PROTECTED else ID_VALIDATED),
          id_NumBlocks = dsize,
          id_NumBlocksUsed = (if opt_minfree v then used + fs_minfree b * dsize div 100 else used),
          id_BytesPerBlock = fsize (hnd s),
          id_VolumeNode = BADDR (VolNode v)\<rparr>)"

end
