(* ===== verification/Packets.thy ===== *)
theory Packets
  imports Packet_Info
begin

text \<open>
  The packets of fs/packets.c that work on files and directories. The results of a packet are
  \<open>Res1\<close> and \<open>Res2\<close>; they are \<open>DOSTRUE\<close> and 0 when a packet arrives. A name is a BCPL string:
  the bytes from its length byte on. Most packets end it at its length, some rely on a zero byte.
  \<open>addr\<close> is the address of a transfer buffer.
\<close>

definition ERROR_OBJECT_EXISTS :: int where "ERROR_OBJECT_EXISTS = 203"
definition ERROR_OBJECT_TOO_LARGE :: int where "ERROR_OBJECT_TOO_LARGE = 207"
definition ERROR_ACTION_NOT_KNOWN :: int where "ERROR_ACTION_NOT_KNOWN = 209"
definition ERROR_INVALID_COMPONENT_NAME :: int where "ERROR_INVALID_COMPONENT_NAME = 210"
definition ERROR_OBJECT_WRONG_TYPE :: int where "ERROR_OBJECT_WRONG_TYPE = 212"
definition ERROR_DISK_NOT_VALIDATED :: int where "ERROR_DISK_NOT_VALIDATED = 213"
definition ERROR_DISK_WRITE_PROTECTED :: int where "ERROR_DISK_WRITE_PROTECTED = 214"
definition ERROR_SEEK_ERROR :: int where "ERROR_SEEK_ERROR = 219"
definition ERROR_DELETE_PROTECTED :: int where "ERROR_DELETE_PROTECTED = 222"
definition ERROR_WRITE_PROTECTED :: int where "ERROR_WRITE_PROTECTED = 223"
definition ERROR_BAD_NUMBER :: int where "ERROR_BAD_NUMBER = 115"
definition ERROR_BAD_TEMPLATE :: int where "ERROR_BAD_TEMPLATE = 114"

text \<open>The length byte is a signed \<open>char\<close>: the code writes in front of the string when it is
  negative.\<close>

definition bstr :: "bytes \<Rightarrow> bytes option" where
  "bstr b =
     (case b of [] \<Rightarrow> None
      | n # cs \<Rightarrow> if 128 \<le> n then None else Some (cstring (take (unat n) cs) 0))"

definition bstr_open :: "bytes \<Rightarrow> bytes" where
  "bstr_open b = cstring b 1"

text \<open>The error code of a failed search, unless the search has left one.\<close>

definition fail_with :: "int \<Rightarrow> volume \<Rightarrow> volume" where
  "fail_with code v =
     (if Res2 (hnd (fs v)) = 0 then fail code v else set_Res1 DOSFALSE v)"

definition read_only :: "volume \<Rightarrow> bool" where
  "read_only v \<longleftrightarrow> fs_ronly (sb (fs v))"

section \<open>Locks\<close>

definition grant :: "u32 \<Rightarrow> int \<Rightarrow> u32 \<Rightarrow> u32 \<Rightarrow> volume \<Rightarrow> volume" where
  "grant key mode pinum poffset v =
     (let (l, v) = CreateLock key mode pinum poffset v in set_Res1 (BADDR l) v)"

definition PLocateObject :: "nat option \<Rightarrow> bytes \<Rightarrow> int \<Rightarrow> u32 \<Rightarrow> volume \<Rightarrow> (unit \<times> volume) option"
where
  "PLocateObject lock bname mode addr v =
     (if read_only v \<and> mode = EXCLUSIVE_LOCK
      then Some ((), set_Res1 (of_int ERROR_DISK_WRITE_PROTECTED) v)
      else
        do {
          name \<leftarrow> bstr bname;
          ((pinum, sname), v) \<leftarrow> parent_parse lock name addr v;
          if pinum = 0 then Some ((), fail_with ERROR_DIR_NOT_FOUND v)
          else do {
            (inum, v) \<leftarrow> on_fs (dir_name_find pinum sname) v;
            if inum = 0 then Some ((), fail_with ERROR_OBJECT_NOT_FOUND v)
            else do {
              (inode, v) \<leftarrow> on_fs (inode_read inum) v;
              soft \<leftarrow> (if resolve_symlinks (hnd (fs v)) then Some False
                      else map_option (\<lambda>p. get16 (fs v) p ic_mode AND IFMT = IFLNK) inode);
              if soft then Some ((), fail ERROR_IS_SOFT_LINK v)
              else Some ((), grant inum mode (Pinum (hnd (fs v))) (Poffset (hnd (fs v))) v)
            }
          }
        })"

definition PFreeLock :: "nat option \<Rightarrow> volume \<Rightarrow> (unit \<times> volume) option" where
  "PFreeLock lock v = FreeLock lock v"

definition PCopyDir :: "nat option \<Rightarrow> volume \<Rightarrow> (unit \<times> volume) option" where
  "PCopyDir lock v =
     do {
       l \<leftarrow> lock;
       let b = locks v l;
       Some ((), grant (fl_Key b) (fl_Access b) (fl_Pinum b) (fl_Poffset b) v)
     }"

definition PParent :: "nat option \<Rightarrow> volume \<Rightarrow> (unit \<times> volume) option" where
  "PParent lock v =
     do {
       l \<leftarrow> lock;
       let b = locks v l;
       if fl_Key b = ROOTINO then Some ((), set_Res1 0 v)
       else do {
         (pinum, v) \<leftarrow> on_fs (dir_name_search (fl_Pinum b) dotdot) v;
         if pinum = 0 then Some ((), set_Res1 0 v)
         else do {
           (ioffset, v) \<leftarrow> on_fs (dir_inum_search pinum (fl_Pinum b)) v;
           Some ((), grant (fl_Pinum b) SHARED_LOCK pinum ioffset v)
         }
       }
     }"

definition LOCK_DIFFERENT :: int where "LOCK_DIFFERENT = -1"
definition LOCK_SAME :: int where "LOCK_SAME = 0"
definition LOCK_SAME_HANDLER :: int where "LOCK_SAME_HANDLER = 1"

text \<open>The inode, the volume and the handler of a lock; no lock is the root.\<close>

definition lock_place :: "nat option \<Rightarrow> volume \<Rightarrow> u32 \<times> nat \<times> nat" where
  "lock_place lock v =
     (case lock of
        None \<Rightarrow> (ROOTINO, case VolNode v of None \<Rightarrow> 0 | Some n \<Rightarrow> n, DosPort v)
      | Some l \<Rightarrow> (fl_Key (locks v l), fl_Volume (locks v l), fl_Task (locks v l)))"

definition PSameLock :: "nat option \<Rightarrow> nat option \<Rightarrow> volume \<Rightarrow> volume" where
  "PSameLock lock1 lock2 v =
     (let (key1, place1) = lock_place lock1 v;
          (key2, place2) = lock_place lock2 v
      in if place1 \<noteq> place2 then fail LOCK_DIFFERENT v
         else if key1 \<noteq> key2 then fail LOCK_SAME_HANDLER v
         else set_Res1 DOSTRUE (upd_fs (set_Res2 LOCK_SAME) v))"

section \<open>Opening files\<close>

text \<open>A new file handle for a lock. The result of the packet is its address in \<open>fh_Arg1\<close>.\<close>

definition open_fh :: "nat \<Rightarrow> int \<Rightarrow> u32 \<Rightarrow> volume \<Rightarrow> nat \<times> volume" where
  "open_fh l trunc inum v =
     (let h = Suc (file_brk v)
      in (h, v\<lparr>files := (files v)(h :=
                 \<lparr>fh_lock = l, current_position = 0, maximum_position = 0,
                  access_mode = MODE_READ, truncate_mode = trunc, real_inum = inum\<rparr>),
               file_brk := h,
               locks := (locks v)(l := (locks v l)\<lparr>fl_Fileh := Some h\<rparr>)\<rparr>))"

definition PFindInput :: "nat option \<Rightarrow> bytes \<Rightarrow> u32 \<Rightarrow> volume \<Rightarrow> (nat option \<times> volume) option" where
  "PFindInput lock bname addr v =
     do {
       name \<leftarrow> bstr bname;
       (inum, v) \<leftarrow> path_parse lock name addr v;
       if inum = 0 then Some (None, fail_with ERROR_OBJECT_NOT_FOUND v)
       else do {
         (inode, v) \<leftarrow> on_fs (inode_read inum) v;
         case inode of None \<Rightarrow> Some (None, fail ERROR_DISK_NOT_VALIDATED v)
         | Some p \<Rightarrow>
             if get16 (fs v) p ic_mode AND IFMT \<noteq> IFREG
             then Some (None, fail ERROR_OBJECT_WRONG_TYPE v)
             else if get16 (fs v) p ic_mode AND IREAD = 0
             then Some (None, fail ERROR_READ_PROTECTED v)
             else
               (let (ok, v) = alloc_vol v
                in if \<not> ok then Some (None, fail ERROR_NO_FREE_STORE v)
                   else
                     let (lk, v) = CreateLock inum SHARED_LOCK (Pinum (hnd (fs v)))
                                     (Poffset (hnd (fs v))) v
                     in case lk of None \<Rightarrow> Some (None, fail ERROR_OBJECT_IN_USE v)
                        | Some l \<Rightarrow>
                            let (h, v) = open_fh l MODE_UPDATE inum v
                            in Some (Some h, v))
       }
     }"

text \<open>The directory types of new entries.\<close>

definition DT_FIFO :: u8 where "DT_FIFO = 1"
definition DT_CHR :: u8 where "DT_CHR = 2"
definition DT_DIR :: u8 where "DT_DIR = 4"
definition DT_BLK :: u8 where "DT_BLK = 6"
definition DT_REG :: u8 where "DT_REG = 8"
definition DT_LNK :: u8 where "DT_LNK = 10"
definition DT_WHT :: u8 where "DT_WHT = 16"

text \<open>The branch of \<open>PFindOutput\<close> for a new file; without a lock the packet has failed.\<close>

definition create_file :: "u32 \<Rightarrow> bytes \<Rightarrow> volume \<Rightarrow> ((u32 \<times> nat) option \<times> volume) option" where
  "create_file pinum sname v =
     (if dir_name_is_illegal sname then Some (None, fail ERROR_INVALID_COMPONENT_NAME v)
      else
        do {
          (w, v) \<leftarrow> on_fs (is_writable pinum) v;
          if \<not> w then Some (None, fail ERROR_WRITE_PROTECTED v)
          else do {
            (inum, v) \<leftarrow> on_fs (inum_new pinum False) v;
            if inum = 0 then Some (None, fail ERROR_NO_MORE_ENTRIES v)
            else do {
              (ioffset, v) \<leftarrow> on_fs (dir_create pinum sname inum DT_REG) v;
              if ioffset = 0 then
                do {
                  (u, v) \<leftarrow> on_fs (inum_free inum) v;
                  Some (None, fail ERROR_DISK_FULL v)
                }
              else
                (let (lk, v) = CreateLock inum EXCLUSIVE_LOCK pinum ioffset v
                 in case lk of
                      None \<Rightarrow> do {
                        (u, v) \<leftarrow> on_fs (inum_free inum) v;
                        Some (None, fail ERROR_OBJECT_NOT_FOUND v)
                      }
                    | Some l \<Rightarrow> do {
                        (u, v) \<leftarrow> on_fs (inum_sane inum False) v;
                        Some (Some (inum, l), v)
                      })
            }
          }
        })"

text \<open>The branch for a file that exists.\<close>

definition reopen_file :: "u32 \<Rightarrow> volume \<Rightarrow> ((u32 \<times> nat) option \<times> volume) option" where
  "reopen_file inum v =
     do {
       (inode, v) \<leftarrow> on_fs (inode_read inum) v;
       case inode of None \<Rightarrow> Some (None, set_Res1 DOSFALSE v)
       | Some p \<Rightarrow>
           if get16 (fs v) p ic_mode AND IFMT \<noteq> IFREG
           then Some (None, fail ERROR_OBJECT_WRONG_TYPE v)
           else if get16 (fs v) p ic_mode AND IWRITE = 0
           then Some (None, fail ERROR_WRITE_PROTECTED v)
           else
             (let (lk, v) = CreateLock inum EXCLUSIVE_LOCK (Pinum (hnd (fs v)))
                              (Poffset (hnd (fs v))) v
              in case lk of None \<Rightarrow> Some (None, fail ERROR_OBJECT_IN_USE v)
                 | Some l \<Rightarrow> Some (Some (inum, l), v))
     }"

definition PFindOutput :: "nat option \<Rightarrow> bytes \<Rightarrow> u32 \<Rightarrow> volume \<Rightarrow> (nat option \<times> volume) option" where
  "PFindOutput lock bname addr v =
     do {
       name \<leftarrow> bstr bname;
       if read_only v then Some (None, fail ERROR_DISK_WRITE_PROTECTED v)
       else
         (let (ok, v) = alloc_vol v
          in if \<not> ok then Some (None, fail ERROR_NO_FREE_STORE v)
             else
               do {
                 ((pinum, sname), v) \<leftarrow> parent_parse lock name addr v;
                 if pinum = 0 then Some (None, fail ERROR_DIR_NOT_FOUND v)
                 else do {
                   (inum, v) \<leftarrow> on_fs (dir_name_search pinum sname) v;
                   (r, v) \<leftarrow> (if inum = 0 then create_file pinum sname v else reopen_file inum v);
                   case r of None \<Rightarrow> Some (None, v)
                   | Some (inum, l) \<Rightarrow>
                       (let (h, v) = open_fh l MODE_TRUNCATE inum v in Some (Some h, v))
                 }
               })
     }"

section \<open>Reading, writing and seeking\<close>

text \<open>The new position of a file handle after a transfer of \<open>n\<close> bytes.\<close>

definition advance :: "nat \<Rightarrow> u32 \<Rightarrow> volume \<Rightarrow> volume" where
  "advance h n v =
     upd_file h (\<lambda>f. let pos = current_position f + n
                     in f\<lparr>current_position := pos,
                          maximum_position := max pos (maximum_position f)\<rparr>) v"

definition odd_inum :: "u32 \<Rightarrow> bool" where
  "odd_inum inum \<longleftrightarrow> sint inum < 3 \<or> 2097152 < sint inum"

text \<open>\<open>Res1\<close> is unsigned, so that the test whether it is negative never succeeds.\<close>

definition PRead :: "nat \<Rightarrow> bytes \<Rightarrow> u32 \<Rightarrow> u32 \<Rightarrow> volume \<Rightarrow> (bytes \<times> volume) option" where
  "PRead h bs nbytes addr v =
     do {
       let inum = real_inum (files v h);
       (ok, v) \<leftarrow> on_fs (is_readable inum) v;
       if \<not> ok then Some (bs, fail ERROR_READ_PROTECTED v)
       else do {
         let v = (if odd_inum inum then set_Res1 (-1) (upd_fs (set_Res2 ERROR_SEEK_ERROR) v) else v);
         ((r, bs), v) \<leftarrow> on_fs (file_read inum (current_position (files v h)) nbytes addr bs) v;
         let v = set_Res1 r v;
         if 0 \<le> Res1 v then Some (bs, advance h (Res1 v) v)
         else Some (bs, set_Res1 (-1) (upd_fs (set_Res2 ERROR_SEEK_ERROR) v))
       }
     }"

text \<open>The first write of a file handle; true when it may go on.\<close>

definition begin_write :: "nat \<Rightarrow> volume \<Rightarrow> (bool \<times> volume) option" where
  "begin_write h v =
     (if access_mode (files v h) = MODE_READ then
        do {
          (w, v) \<leftarrow> on_fs (is_writable (real_inum (files v h))) v;
          if \<not> w then Some (False, set_Res1 (-1) (upd_fs (set_Res2 ERROR_WRITE_PROTECTED) v))
          else do {
            (e, v) \<leftarrow> on_fs (file_block_extend (real_inum (files v h))) v;
            if e \<noteq> 0 then Some (False, set_Res1 (-1) (upd_fs (set_Res2 ERROR_DISK_FULL) v))
            else Some (True, upd_file h (\<lambda>f. f\<lparr>access_mode := MODE_WRITE\<rparr>) v)
          }
        }
      else Some (True, v))"

definition PWrite :: "nat \<Rightarrow> bytes \<Rightarrow> u32 \<Rightarrow> u32 \<Rightarrow> volume \<Rightarrow> (unit \<times> volume) option" where
  "PWrite h bs nbytes addr v =
     (if read_only v then Some ((), fail ERROR_DISK_WRITE_PROTECTED v)
      else if odd_inum (real_inum (files v h))
      then Some ((), set_Res1 (-1) (upd_fs (set_Res2 ERROR_SEEK_ERROR) v))
      else
        do {
          (ok, v) \<leftarrow> begin_write h v;
          if \<not> ok then Some ((), v)
          else do {
            let v = upd_fs (set_Res2 0) v;
            (r, v) \<leftarrow> on_fs (file_write (real_inum (files v h)) (current_position (files v h))
                              nbytes addr bs) v;
            let v = set_Res1 r v;
            if 0 \<le> Res1 v then Some ((), advance h (Res1 v) v)
            else
              (let v = set_Res1 (-1) v
               in Some ((), if Res2 (hnd (fs v)) = 0 then upd_fs (set_Res2 ERROR_SEEK_ERROR) v else v))
          }
        })"

definition OFFSET_BEGINNING :: int where "OFFSET_BEGINNING = -1"
definition OFFSET_CURRENT :: int where "OFFSET_CURRENT = 0"
definition OFFSET_END :: int where "OFFSET_END = 1"

definition PSeek :: "nat \<Rightarrow> u32 \<Rightarrow> int \<Rightarrow> volume \<Rightarrow> (unit \<times> volume) option" where
  "PSeek h movement mode v =
     do {
       let inum = real_inum (files v h);
       let v = (if sint inum < 3 \<or> sint inum div 2 ^ 30 \<noteq> 0
                then set_Res1 (-1) (upd_fs (set_Res2 ERROR_SEEK_ERROR) v) else v);
       (inode, v) \<leftarrow> on_fs (inode_read inum) v;
       p \<leftarrow> inode;
       let pos = current_position (files v h);
       let end_pos = IC_SIZE (fs v) p;
       let movement = (if mode = OFFSET_END then movement + end_pos
                       else if mode = OFFSET_CURRENT then movement + pos else movement);
       if 0 \<le>s movement \<and> movement \<le> end_pos
       then Some ((), upd_file h (\<lambda>f. f\<lparr>current_position := movement\<rparr>) (set_Res1 pos v))
       else Some ((), set_Res1 (-1) (upd_fs (set_Res2 ERROR_SEEK_ERROR) v))
     }"

definition PEnd :: "nat \<Rightarrow> volume \<Rightarrow> (unit \<times> volume) option" where
  "PEnd h v =
     do {
       (u, v) \<leftarrow> (if access_mode (files v h) = MODE_WRITE then truncate_file h v else Some ((), v));
       FreeLock (Some (fh_lock (files v h))) v
     }"

end
