(* ===== verification/Packet_Objects.thy ===== *)
theory Packet_Objects
  imports Packets
begin

text \<open>
  The packets of fs/packets.c that create, delete and rename objects, those that change the
  attributes of a file, and those for the volume as a whole.
\<close>

section \<open>Deleting\<close>

definition add_nlink :: "iptr \<Rightarrow> u16 \<Rightarrow> volume \<Rightarrow> volume" where
  "add_nlink p n v = upd_fs (put16 p ic_nlink (get16 (fs v) p ic_nlink + n)) v"

text \<open>The end of \<open>PDeleteObject\<close>: a file without links gives up its blocks and its inode.\<close>

definition drop_unlinked :: "u32 \<Rightarrow> volume \<Rightarrow> (unit \<times> volume) option" where
  "drop_unlinked inum v =
     do {
       (inode, v) \<leftarrow> on_fs (inode_read inum) v;
       p \<leftarrow> inode;
       if 1 \<le>s get16 (fs v) p ic_nlink then Some ((), v)
       else do {
         let kind = get16 (fs v) p ic_mode AND IFMT;
         (u, v) \<leftarrow>
           (if kind = IFLNK then on_fs (symlink_delete inum (unat (IC_SIZE (fs v) p))) v
            else if kind \<noteq> IFCHR \<and> kind \<noteq> IFBLK then
              do { (r, v) \<leftarrow> on_fs (file_deallocate inum) v; Some ((), v) }
            else Some ((), v));
         on_fs (inum_free inum) v
       }
     }"

definition PDeleteObject :: "nat option \<Rightarrow> bytes \<Rightarrow> u32 \<Rightarrow> volume \<Rightarrow> (unit \<times> volume) option" where
  "PDeleteObject lock bname addr v =
     (if read_only v then Some ((), fail ERROR_DISK_WRITE_PROTECTED v)
      else
        do {
          ((pinum, subname), v) \<leftarrow> parent_parse lock (bstr_open bname) addr v;
          (inum, v) \<leftarrow> (if pinum \<noteq> 0 then on_fs (dir_name_search pinum subname) v else Some (0, v));
          let ioffset = Poffset (hnd (fs v));
          if inum = 0 then Some ((), fail ERROR_OBJECT_NOT_FOUND v)
          else if inum = 1 then Some ((), fail ERROR_DIRECTORY_NOT_EMPTY v)
          else if inum = 2 then Some ((), fail ERROR_OBJECT_WRONG_TYPE v)
          else do {
            (w, v) \<leftarrow> on_fs (is_writable pinum) v;
            if \<not> w then Some ((), fail ERROR_DELETE_PROTECTED v)
            else if VolNode v = None then None
            else if lock_on inum v \<noteq> None then Some ((), fail ERROR_OBJECT_IN_USE v)
            else do {
              (r, v) \<leftarrow> on_fs (dir_offset_delete pinum ioffset True) v;
              if r = 0 then Some ((), set_Res1 DOSFALSE v)
              else do {
                (inode, v) \<leftarrow> on_fs (inode_modify inum) v;
                case inode of None \<Rightarrow> Some ((), fail ERROR_DISK_NOT_VALIDATED v)
                | Some p \<Rightarrow>
                    do {
                      let v = add_nlink p (-1) v;
                      if get16 (fs v) p ic_mode AND IFMT = IFDIR then
                        do {
                          (pinode, v) \<leftarrow> on_fs (inode_modify pinum) v;
                          case pinode of None \<Rightarrow> Some ((), fail ERROR_DISK_NOT_VALIDATED v)
                          | Some q \<Rightarrow> drop_unlinked inum (add_nlink q (-1) (add_nlink p (-1) v))
                        }
                      else drop_unlinked inum v
                    }
              }
            }
          }
        })"

section \<open>Creating\<close>

text \<open>The new directory has the records . and .. in its first block.\<close>

definition new_dir :: "u32 \<Rightarrow> bytes \<Rightarrow> u32 \<Rightarrow> volume \<Rightarrow> (unit \<times> volume) option" where
  "new_dir pinum sname newinum v =
     do {
       (ioffset, v) \<leftarrow> on_fs (dir_create pinum sname newinum DT_DIR) v;
       (ok, v) \<leftarrow>
         (if ioffset = 0 then Some (False, v)
          else do {
            (u, v) \<leftarrow> on_fs (inum_sane newinum True) v;
            (a, v) \<leftarrow> on_fs (dir_create newinum dot newinum DT_DIR) v;
            (b, v) \<leftarrow> on_fs (dir_create newinum dotdot pinum DT_DIR) v;
            if b \<noteq> 0 then Some (True, v)
            else do {
              (u, v) \<leftarrow> on_fs (dir_offset_delete pinum ioffset False) v;
              (u, v) \<leftarrow> on_fs (file_deallocate newinum) v;
              Some (False, v)
            }
          });
       if ok then
         do {
           (inode, v) \<leftarrow> on_fs (inode_modify pinum) v;
           p \<leftarrow> inode;
           Some ((), upd_fs (set_Res2 0) (grant newinum EXCLUSIVE_LOCK pinum ioffset (add_nlink p 1 v)))
         }
       else
         do {
           (u, v) \<leftarrow> on_fs (inum_free newinum) v;
           Some ((), fail ERROR_INVALID_COMPONENT_NAME v)
         }
     }"

definition PCreateDir :: "nat option \<Rightarrow> bytes \<Rightarrow> u32 \<Rightarrow> volume \<Rightarrow> (unit \<times> volume) option" where
  "PCreateDir lock bname addr v =
     (if read_only v then Some ((), fail ERROR_DISK_WRITE_PROTECTED v)
      else
        do {
          ((pinum, sname), v) \<leftarrow> parent_parse lock (bstr_open bname) addr v;
          if pinum = 0 then Some ((), fail ERROR_DIR_NOT_FOUND v)
          else do {
            (w, v) \<leftarrow> on_fs (is_writable pinum) v;
            if \<not> w then Some ((), fail ERROR_WRITE_PROTECTED v)
            else if dir_name_is_illegal sname then Some ((), fail ERROR_INVALID_COMPONENT_NAME v)
            else do {
              (inum, v) \<leftarrow> on_fs (dir_name_search pinum sname) v;
              if inum \<noteq> 0 then Some ((), fail ERROR_OBJECT_EXISTS v)
              else do {
                (newinum, v) \<leftarrow> on_fs (inum_new pinum True) v;
                if newinum = 0 then Some ((), fail ERROR_NO_MORE_ENTRIES v)
                else new_dir pinum sname newinum v
              }
            }
          }
        })"

text \<open>The start of \<open>PCreateObject\<close> and \<open>PMakeLink\<close>: the parent for a new name, or \<open>None\<close> when
  the packet has failed.\<close>

definition new_name :: "nat option \<Rightarrow> bytes \<Rightarrow> u32 \<Rightarrow> volume \<Rightarrow> ((u32 \<times> bytes) option \<times> volume) option"
where
  "new_name lock bname addr v =
     do {
       ((pinum, subname), v) \<leftarrow> parent_parse lock (bstr_open bname) addr v;
       if pinum = 0 \<or> dir_name_is_illegal subname
       then Some (None, fail ERROR_INVALID_COMPONENT_NAME v)
       else do {
         (w, v) \<leftarrow> on_fs (is_writable pinum) v;
         if \<not> w then Some (None, fail ERROR_WRITE_PROTECTED v)
         else do {
           (inum, v) \<leftarrow> on_fs (dir_name_search pinum subname) v;
           if inum \<noteq> 0 then Some (None, fail ERROR_OBJECT_EXISTS v)
           else Some (Some (pinum, subname), v)
         }
       }
     }"

text \<open>A hard link to the inode of a lock, a soft link to a name.\<close>

definition hard_link :: "u32 \<Rightarrow> bytes \<Rightarrow> nat option \<Rightarrow> volume \<Rightarrow> (unit \<times> volume) option" where
  "hard_link pinum subname lock_from v =
     (case lock_from of None \<Rightarrow> Some ((), fail ERROR_BAD_TEMPLATE v)
      | Some l \<Rightarrow>
          do {
            let inum = fl_Key (locks v l);
            (inode, v) \<leftarrow> on_fs (inode_read inum) v;
            p \<leftarrow> inode;
            let kind = get16 (fs v) p ic_mode AND IFMT;
            if kind = IFDIR then Some ((), fail ERROR_OBJECT_WRONG_TYPE v)
            else do {
              (ioffset, v) \<leftarrow> on_fs (dir_create pinum subname inum (ucast (drop_bit 12 kind))) v;
              if ioffset = 0 then Some ((), fail ERROR_DISK_FULL v)
              else do {
                (inode, v) \<leftarrow> on_fs (inode_modify inum) v;
                p \<leftarrow> inode;
                Some ((), add_nlink p 1 v)
              }
            }
          })"

definition soft_link :: "u32 \<Rightarrow> bytes \<Rightarrow> bytes \<Rightarrow> u32 \<Rightarrow> volume \<Rightarrow> (unit \<times> volume) option" where
  "soft_link pinum subname name_from addr v =
     do {
       (inum, v) \<leftarrow> on_fs (inum_new pinum False) v;
       if inum = 0 then Some ((), fail ERROR_NO_MORE_ENTRIES v)
       else do {
         (ioffset, v) \<leftarrow> on_fs (dir_create pinum subname inum DT_LNK) v;
         if ioffset = 0 then
           do { (u, v) \<leftarrow> on_fs (inum_free inum) v; Some ((), fail ERROR_DISK_FULL v) }
         else do {
           (u, v) \<leftarrow> on_fs (inum_sane inum False) v;
           (ok, v) \<leftarrow> on_fs (symlink_create inum name_from addr) v;
           if ok then
             do {
               (inode, v) \<leftarrow> on_fs (inode_modify inum) v;
               p \<leftarrow> inode;
               Some ((), upd_fs (put16 p ic_mode
                 (get16 (fs v) p ic_mode AND NOT IFMT OR IFLNK)) v)
             }
           else do {
             (u, v) \<leftarrow> on_fs (dir_offset_delete pinum ioffset False) v;
             (u, v) \<leftarrow> on_fs (file_deallocate inum) v;
             (u, v) \<leftarrow> on_fs (inum_free inum) v;
             Some ((), set_Res1 DOSFALSE v)
           }
         }
       }
     }"

text \<open>\<open>lock_from\<close> and \<open>name_from\<close> are two readings of the third argument.\<close>

definition PMakeLink :: "nat option \<Rightarrow> bytes \<Rightarrow> nat option \<Rightarrow> bytes \<Rightarrow> bool \<Rightarrow> u32 \<Rightarrow> volume \<Rightarrow>
    (unit \<times> volume) option" where
  "PMakeLink lock bname lock_from name_from soft addr v =
     (if read_only v then Some ((), fail ERROR_DISK_WRITE_PROTECTED v)
      else
        do {
          (r, v) \<leftarrow> new_name lock bname addr v;
          case r of None \<Rightarrow> Some ((), v)
          | Some (pinum, subname) \<Rightarrow>
              if soft then soft_link pinum subname (bstr_open name_from) addr v
              else hard_link pinum subname lock_from v
        })"

text \<open>The mode of a special file, and the directory type of each kind of object.\<close>

definition special_mode :: "u16 \<Rightarrow> u16 \<Rightarrow> u16" where
  "special_mode kind mode = mode AND NOT IFREG OR kind"

definition object_type :: "int \<Rightarrow> u8 option" where
  "object_type st_type =
     (if st_type = ST_FILE then Some DT_REG
      else if st_type = ST_CDEVICE then Some DT_CHR
      else if st_type = ST_BDEVICE then Some DT_BLK
      else if st_type = ST_FIFO then Some DT_FIFO
      else if st_type = ST_WHITEOUT then Some DT_WHT
      else None)"

definition make_special :: "int \<Rightarrow> u32 \<Rightarrow> iptr \<Rightarrow> fsys \<Rightarrow> fsys" where
  "make_special st_type device p s =
     (if st_type = ST_FIFO then put16 p ic_mode (special_mode IFIFO (get16 s p ic_mode)) s
      else if st_type = ST_CDEVICE then
        put32 p (ic_db 0) device (put16 p ic_mode (special_mode IFCHR (get16 s p ic_mode)) s)
      else if st_type = ST_BDEVICE then
        put32 p (ic_db 0) device (put16 p ic_mode (special_mode IFBLK (get16 s p ic_mode)) s)
      else s)"

text \<open>\<open>device\<close>, \<open>lock_from\<close> and \<open>name_from\<close> are readings of the fourth argument.\<close>

definition PCreateObject :: "nat option \<Rightarrow> bytes \<Rightarrow> int \<Rightarrow> u32 \<Rightarrow> nat option \<Rightarrow> bytes \<Rightarrow> u32 \<Rightarrow> volume \<Rightarrow>
    (unit \<times> volume) option" where
  "PCreateObject lock bname st_type device lock_from name_from addr v =
     (if read_only v then Some ((), fail ERROR_DISK_WRITE_PROTECTED v)
      else if st_type = ST_USERDIR then PCreateDir lock bname addr v
      else if st_type = ST_LINKFILE then PMakeLink lock bname lock_from name_from False addr v
      else if st_type = ST_SOFTLINK then PMakeLink lock bname lock_from name_from True addr v
      else
        case object_type st_type of None \<Rightarrow> Some ((), fail ERROR_BAD_NUMBER v)
        | Some dir_type \<Rightarrow>
            do {
              (r, v) \<leftarrow> new_name lock bname addr v;
              case r of None \<Rightarrow> Some ((), v)
              | Some (pinum, subname) \<Rightarrow>
                  do {
                    (inum, v) \<leftarrow> on_fs (inum_new pinum False) v;
                    if inum = 0 then Some ((), fail ERROR_NO_MORE_ENTRIES v)
                    else do {
                      (ioffset, v) \<leftarrow> on_fs (dir_create pinum subname inum dir_type) v;
                      if ioffset \<noteq> 0 then
                        do {
                          (u, v) \<leftarrow> on_fs (inum_sane inum False) v;
                          (inode, v) \<leftarrow> on_fs (inode_modify inum) v;
                          if st_type = ST_FILE \<or> st_type = ST_WHITEOUT then Some ((), v)
                          else do { p \<leftarrow> inode; Some ((), upd_fs (make_special st_type device p) v) }
                        }
                      else do {
                        let v = upd_fs (set_Res2 ERROR_DISK_FULL) v;
                        (u, v) \<leftarrow> on_fs (inum_free inum) v;
                        Some ((), set_Res1 DOSFALSE v)
                      }
                    }
                  }
            })"

section \<open>Renaming\<close>

definition PRenameObject :: "nat option \<Rightarrow> bytes \<Rightarrow> nat option \<Rightarrow> bytes \<Rightarrow> u32 \<Rightarrow> volume \<Rightarrow>
    (unit \<times> volume) option" where
  "PRenameObject oldparent oldbname newparent newbname addr v =
     (let v = set_Res1 DOSFALSE v
      in if read_only v then Some ((), set_Res1 (of_int ERROR_DISK_WRITE_PROTECTED) v)
         else
           do {
             oldname \<leftarrow> bstr oldbname;
             newname \<leftarrow> bstr newbname;
             ((oldpinum, oldsubname), v) \<leftarrow> parent_parse oldparent oldname addr v;
             ((newpinum, newsubname), v) \<leftarrow> parent_parse newparent newname addr v;
             (w, v) \<leftarrow> on_fs (is_writable oldpinum) v;
             if \<not> w then Some ((), upd_fs (set_Res2 ERROR_WRITE_PROTECTED) v)
             else do {
               (w, v) \<leftarrow> on_fs (is_writable newpinum) v;
               if \<not> w then Some ((), upd_fs (set_Res2 ERROR_WRITE_PROTECTED) v)
               else if dir_name_is_illegal oldsubname \<or> dir_name_is_illegal newsubname
               then Some ((), upd_fs (set_Res2 ERROR_INVALID_COMPONENT_NAME) v)
               else if oldpinum = 0 \<or> newpinum = 0
               then Some ((), upd_fs (set_Res2 ERROR_DIR_NOT_FOUND) v)
               else do {
                 (inum, v) \<leftarrow> on_fs (dir_name_search oldpinum oldsubname) v;
                 if inum = 0 then Some ((), upd_fs (set_Res2 ERROR_OBJECT_NOT_FOUND) v)
                 else do {
                   (inode, v) \<leftarrow> on_fs (inode_read inum) v;
                   p \<leftarrow> inode;
                   let kind = get16 (fs v) p ic_mode AND IFMT;
                   let isdir = (kind = IFDIR \<and> oldpinum \<noteq> newpinum);
                   (r, v) \<leftarrow> on_fs (dir_rename oldpinum oldsubname newpinum newsubname isdir
                               (ucast (drop_bit 12 kind))) v;
                   if r = 0 then Some ((), upd_fs (set_Res2 ERROR_OBJECT_IN_USE) v)
                   else if isdir then
                     do {
                       (r, v) \<leftarrow> on_fs (dir_inum_change inum oldpinum newpinum) v;
                       (inode, v) \<leftarrow> on_fs (inode_modify oldpinum) v;
                       p \<leftarrow> inode;
                       let v = add_nlink p (-1) v;
                       (inode, v) \<leftarrow> on_fs (inode_modify newpinum) v;
                       p \<leftarrow> inode;
                       Some ((), set_Res1 DOSTRUE (add_nlink p 1 v))
                     }
                   else Some ((), set_Res1 DOSTRUE v)
                 }
               }
             }
           })"

definition MAXMNTLEN :: nat where "MAXMNTLEN = 512"

text \<open>\<open>strncpy\<close> pads the name with zeros; the last of its bytes falls on the first byte of the
  field \<open>fs_cgrotor\<close> behind \<open>fs_fsmnt\<close>. The memory of the volume name keeps what is behind the new
  name. The length byte is a signed \<open>char\<close>.\<close>

definition PRenameDisk :: "bytes \<Rightarrow> volume \<Rightarrow> (unit \<times> volume) option" where
  "PRenameDisk newname v =
     (if read_only v then Some ((), set_Res1 (of_int ERROR_DISK_WRITE_PROTECTED) v)
      else if VolNode v = None then Some ((), fail 0 v)
      else if newname = [] \<or> 128 \<le> hd newname then None
      else
        let n = unat (hd newname);
            name = take MAXMNTLEN (bstr_open newname);
            copy = name @ replicate (MAXMNTLEN - length name) 0;
            mnt = 47 # take (MAXMNTLEN - 1) copy;
            behind = (\<lambda>b. (fs_cgrotor b AND 0xFFFFFF) OR push_bit 24 (ucast (copy ! (MAXMNTLEN - 1))))
        in Some ((), (upd_fs (upd_sb (\<lambda>b. b\<lparr>fs_fsmnt := mnt[n + 1 := 0], fs_cgrotor := behind b,
                                        fs_fmod := fs_fmod b + 1\<rparr>)) v)
                 \<lparr>volumename := poke (volumename v) 0 (take n (tl newname))\<rparr>))"

section \<open>Attributes\<close>

text \<open>The inode that an attribute packet works on.\<close>

definition with_inode :: "(u32 \<Rightarrow> fsys \<Rightarrow> (iptr option \<times> fsys) option) \<Rightarrow> nat option \<Rightarrow> bytes \<Rightarrow> u32 \<Rightarrow>
    volume \<Rightarrow> (iptr option \<times> volume) option" where
  "with_inode access lock bname addr v =
     do {
       (inum, v) \<leftarrow> path_parse lock (bstr_open bname) addr v;
       (inode, v) \<leftarrow> (if inum = 0 then Some (None, v) else on_fs (access inum) v);
       Some (inode, case inode of None \<Rightarrow> fail ERROR_OBJECT_NOT_FOUND v | Some p \<Rightarrow> v)
     }"

definition PSetProtect :: "nat option \<Rightarrow> bytes \<Rightarrow> u32 \<Rightarrow> u32 \<Rightarrow> volume \<Rightarrow> (unit \<times> volume) option" where
  "PSetProtect lock bname msk addr v =
     do {
       (inode, v) \<leftarrow> with_inode inode_modify lock bname addr v;
       Some ((), case inode of None \<Rightarrow> v
         | Some p \<Rightarrow> upd_fs (put16 p ic_mode
             (protect_mode (og_perm_invert v) msk (get16 (fs v) p ic_mode))) v)
     }"

definition PSetPerms :: "nat option \<Rightarrow> bytes \<Rightarrow> u32 \<Rightarrow> u32 \<Rightarrow> volume \<Rightarrow> (unit \<times> volume) option" where
  "PSetPerms lock bname mode addr v =
     do {
       (inode, v) \<leftarrow> with_inode inode_modify lock bname addr v;
       Some ((), case inode of None \<Rightarrow> v
         | Some p \<Rightarrow> upd_fs (put16 p ic_mode
             (get16 (fs v) p ic_mode AND IFMT OR ucast mode AND NOT IFMT)) v)
     }"

definition PGetPerms :: "nat option \<Rightarrow> bytes \<Rightarrow> u32 \<Rightarrow> volume \<Rightarrow> (unit \<times> volume) option" where
  "PGetPerms lock bname addr v =
     do {
       (inode, v) \<leftarrow> with_inode inode_read lock bname addr v;
       Some ((), case inode of None \<Rightarrow> v
         | Some p \<Rightarrow> upd_fs (set_Res2 (uint (get16 (fs v) p ic_mode))) v)
     }"

text \<open>The owner is kept in a 16-bit and in a 32-bit field; -1 keeps the old one.\<close>

definition set_id :: "iptr \<Rightarrow> nat \<Rightarrow> nat \<Rightarrow> u16 \<Rightarrow> fsys \<Rightarrow> fsys" where
  "set_id p old new ident s =
     (if ident \<noteq> -1 then put32 p new (scast ident) (put16 p old ident s) else s)"

definition PSetOwner :: "nat option \<Rightarrow> bytes \<Rightarrow> u32 \<Rightarrow> u32 \<Rightarrow> volume \<Rightarrow> (unit \<times> volume) option" where
  "PSetOwner lock bname both addr v =
     do {
       (inode, v) \<leftarrow> with_inode inode_modify lock bname addr v;
       Some ((), case inode of None \<Rightarrow> v
         | Some p \<Rightarrow> upd_fs (set_id p ic_ogid ic_ngid (ucast both) \<circ>
             set_id p ic_ouid ic_nuid (ucast (drop_bit 16 both))) v)
     }"

text \<open>The dates of a file: \<open>op\<close> is even to set and odd to get.\<close>

definition date_field :: "int \<Rightarrow> nat option" where
  "date_field op =
     (if op = 0 \<or> op = 1 then Some ic_mtime
      else if op = 2 \<or> op = 3 then Some ic_ctime
      else if op = 4 \<or> op = 5 then Some ic_atime
      else None)"

definition PSetDate :: "nat option \<Rightarrow> bytes \<Rightarrow> datestamp \<Rightarrow> u32 \<Rightarrow> volume \<Rightarrow> (unit \<times> volume) option"
where
  "PSetDate lock bname ds addr v =
     (if read_only v then Some ((), fail ERROR_DISK_WRITE_PROTECTED v)
      else
        do {
          (inum, v) \<leftarrow> path_parse lock (bstr_open bname) addr v;
          if inum = 0 then Some ((), fail ERROR_OBJECT_NOT_FOUND v)
          else do {
            (inode, v) \<leftarrow> on_fs (inode_modify inum) v;
            p \<leftarrow> inode;
            Some ((), upd_fs (put32 p ic_mtime (amiga_ds_to_unix_time (GMT v) ds)) v)
          }
        })"

text \<open>The common course of \<open>PSetDates\<close> and \<open>PSetTimes\<close>: \<open>put\<close> stores the argument of the packet in
  a field of the inode, \<open>get\<close> reads it.\<close>

definition date_packet :: "(iptr \<Rightarrow> nat \<Rightarrow> 'a \<Rightarrow> fsys \<Rightarrow> fsys) \<Rightarrow> (fsys \<Rightarrow> iptr \<Rightarrow> nat \<Rightarrow> 'a) \<Rightarrow> int \<Rightarrow>
    nat option \<Rightarrow> bytes \<Rightarrow> 'a \<Rightarrow> u32 \<Rightarrow> volume \<Rightarrow> ('a \<times> volume) option" where
  "date_packet put get op lock bname x addr v =
     (if read_only v then Some (x, fail ERROR_DISK_WRITE_PROTECTED v)
      else
        do {
          (inum, v) \<leftarrow> path_parse lock (bstr_open bname) addr v;
          if inum = 0 then Some (x, fail ERROR_OBJECT_NOT_FOUND v)
          else case date_field op of None \<Rightarrow> Some (x, fail ERROR_ACTION_NOT_KNOWN v)
          | Some field \<Rightarrow>
              do {
                (inode, v) \<leftarrow> on_fs ((if even op then inode_modify else inode_read) inum) v;
                p \<leftarrow> inode;
                if even op then Some (x, upd_fs (put p field x) v)
                else Some (get (fs v) p field, v)
              }
        })"

definition PSetDates :: "int \<Rightarrow> nat option \<Rightarrow> bytes \<Rightarrow> datestamp \<Rightarrow> u32 \<Rightarrow> volume \<Rightarrow>
    (datestamp \<times> volume) option" where
  "PSetDates op lock bname ds addr v =
     date_packet (\<lambda>p field ds. put32 p field (amiga_ds_to_unix_time (GMT v) ds))
       (\<lambda>s p field. unix_time_to_amiga_ds (GMT v) (get32 s p field)) op lock bname ds addr v"

text \<open>Unix times: the seconds in local time, and the nanoseconds in the field behind.\<close>

definition PSetTimes :: "int \<Rightarrow> nat option \<Rightarrow> bytes \<Rightarrow> u32 \<times> u32 \<Rightarrow> u32 \<Rightarrow> volume \<Rightarrow>
    ((u32 \<times> u32) \<times> volume) option" where
  "PSetTimes op lock bname time addr v =
     date_packet (\<lambda>p field (t, ns) s. put32 p (field + 4) ns (put32 p field (t - GMT v * 3600) s))
       (\<lambda>s p field. (get32 s p field + GMT v * 3600, get32 s p (field + 4))) op lock bname time addr v"

text \<open>The name of a symbolic link: the bytes that are stored in the buffer of the caller, which has
  \<open>space\<close> bytes.\<close>

definition PReadLink :: "nat option \<Rightarrow> bytes \<Rightarrow> int \<Rightarrow> u32 \<Rightarrow> volume \<Rightarrow> (bytes option \<times> volume) option"
where
  "PReadLink lock name space addr v =
     do {
       let v = upd_fs (\<lambda>s. s\<lparr>hnd := (hnd s)\<lparr>linkname := None, read_link := True\<rparr>\<rparr>) v;
       (inum, v) \<leftarrow> path_parse lock (cstring name 0) addr v;
       let v = upd_fs (\<lambda>s. s\<lparr>hnd := (hnd s)\<lparr>read_link := False\<rparr>\<rparr>) v;
       let none = (\<lambda>v. set_Res1 (-1) (upd_fs (set_Res2 ERROR_OBJECT_NOT_FOUND) v));
       if inum = 0 then Some (None, none v)
       else case linkname (hnd (fs v)) of None \<Rightarrow> Some (None, none v)
       | Some l \<Rightarrow>
           if space \<le> int (length l)
           then Some (None, set_Res1 (-2) (upd_fs (set_Res2 ERROR_OBJECT_TOO_LARGE) v))
           else Some (Some (l @ [0]), set_Res1 (of_nat (length l + 1)) v)
     }"

section \<open>The volume\<close>

definition PFlush :: "volume \<Rightarrow> (unit \<times> volume) option" where
  "PFlush v =
     on_fs (\<lambda>s. do {
       let (n, s) = superblock_flush s;
       (m, s) \<leftarrow> cache_cg_flush s;
       (k, s) \<leftarrow> cache_flush s;
       Some ((), s)
     }) v"

definition PMoreCache :: "int \<Rightarrow> volume \<Rightarrow> (unit \<times> volume) option" where
  "PMoreCache amount v =
     (if 9999 < \<bar>amount\<bar> then
        (let n = int (cache_cg_size (cgc (fs v))) + sgn amount * (\<bar>amount\<bar> - 10000);
             v = upd_fs (\<lambda>s. cache_cg_adjust (s\<lparr>cgc := (cgc s)\<lparr>cache_cg_size := nat n\<rparr>\<rparr>)) v
         in Some ((), set_Res1 (of_nat (cache_cg_size (cgc (fs v)))) v))
      else
        do {
          (u, v) \<leftarrow> on_fs (\<lambda>s. cache_adjust
                     (s\<lparr>fc := (fc s)\<lparr>cache_size := max 4 (cache_size (fc s) + amount)\<rparr>\<rparr>)) v;
          Some ((), set_Res1 (of_int (cache_size (fc (fs v)))) v)
        })"

definition PWriteProtect :: "bool \<Rightarrow> volume \<Rightarrow> volume" where
  "PWriteProtect protect v =
     (if protect then upd_fs set_ronly v
      else if \<not> physical_ro v then upd_fs (upd_sb (\<lambda>b. b\<lparr>fs_ronly := False\<rparr>)) v
      else v)"

definition PFormat :: "volume \<Rightarrow> volume" where
  "PFormat v = (if read_only v then fail ERROR_DISK_WRITE_PROTECTED v else v)"

definition PSetFileSize :: "volume \<Rightarrow> volume" where
  "PSetFileSize v = fail ERROR_OBJECT_NOT_FOUND v"

definition PUnimplemented :: "volume \<Rightarrow> volume" where
  "PUnimplemented v = fail ERROR_ACTION_NOT_KNOWN v"

definition PDie :: "volume \<Rightarrow> volume" where
  "PDie v = upd_fs stop_packets v"

end
