(* ===== verification/Packet_Steps.thy ===== *)
theory Packet_Steps
  imports Packet_Objects
begin

text \<open>
  The handler as a state machine: a step is one packet of some client. An invariant of the locks
  and file handles is kept by every packet as soon as it is kept by the few operations of
  fs/system.c that packets use to change them; \<open>packet_invariant\<close> is this interface. Two kinds of
  packets are no steps, since they break the exclusion of locks: requests for an invisible lock, and
  examine packets that change the inode of a lock on a symbolic link.
\<close>

section \<open>Steps\<close>

text \<open>The state in which a packet begins.\<close>

definition arrive :: "volume \<Rightarrow> volume" where
  "arrive v = set_Res1 DOSTRUE (upd_fs (set_Res2 0) v)"

text \<open>A client names locks that it holds and files that it has opened.\<close>

definition known :: "nat option \<Rightarrow> volume \<Rightarrow> bool" where
  "known lock v \<longleftrightarrow> (case lock of None \<Rightarrow> True | Some l \<Rightarrow> l \<in> set (lock_list v))"

text \<open>An examine packet that leaves every lock on its inode, as all do that follow no symbolic
  link.\<close>

definition same_keys :: "volume \<Rightarrow> volume \<Rightarrow> bool" where
  "same_keys v w \<longleftrightarrow> (\<forall>l. fl_Key (locks w l) = fl_Key (locks v l))"

inductive packet_step :: "volume \<Rightarrow> volume \<Rightarrow> bool" where
  locate: "mode \<noteq> ACCESS_INVISIBLE \<Longrightarrow> PLocateObject lock bname mode addr (arrive v) = Some (r, w) \<Longrightarrow>
    packet_step v w"
| free_lock: "PFreeLock lock (arrive v) = Some (r, w) \<Longrightarrow> packet_step v w"
| copy_dir: "known lock v \<Longrightarrow> PCopyDir lock (arrive v) = Some (r, w) \<Longrightarrow> packet_step v w"
| parent: "PParent lock (arrive v) = Some (r, w) \<Longrightarrow> packet_step v w"
| same_lock: "PSameLock lock lock' (arrive v) = w \<Longrightarrow> packet_step v w"
| find_input: "PFindInput lock bname addr (arrive v) = Some (h, w) \<Longrightarrow> packet_step v w"
| find_output: "PFindOutput lock bname addr (arrive v) = Some (h, w) \<Longrightarrow> packet_step v w"
| read_file: "PRead h bs nbytes addr (arrive v) = Some (r, w) \<Longrightarrow> packet_step v w"
| write_file: "PWrite h bs nbytes addr (arrive v) = Some (r, w) \<Longrightarrow> packet_step v w"
| seek_file: "PSeek h movement mode (arrive v) = Some (r, w) \<Longrightarrow> packet_step v w"
| end_file: "PEnd h (arrive v) = Some (r, w) \<Longrightarrow> packet_step v w"
| examine_object: "PExamineObject ptype lock fib attr addr (arrive v) = Some (r, w) \<Longrightarrow> same_keys v w \<Longrightarrow>
    packet_step v w"
| examine_fh: "PExamineFh ptype fileh fib addr (arrive v) = Some (r, w) \<Longrightarrow> same_keys v w \<Longrightarrow>
    packet_step v w"
| examine_next: "PExamineNext ptype lock fib attr (arrive v) = Some (r, w) \<Longrightarrow> packet_step v w"
| delete: "PDeleteObject lock bname addr (arrive v) = Some (r, w) \<Longrightarrow> packet_step v w"
| create_dir: "PCreateDir lock bname addr (arrive v) = Some (r, w) \<Longrightarrow> packet_step v w"
| create_object: "PCreateObject lock bname st_type device lock_from name_from addr (arrive v) =
    Some (r, w) \<Longrightarrow> packet_step v w"
| make_link: "PMakeLink lock bname lock_from name_from soft addr (arrive v) = Some (r, w) \<Longrightarrow>
    packet_step v w"
| rename: "PRenameObject oldparent oldbname newparent newbname addr (arrive v) = Some (r, w) \<Longrightarrow>
    packet_step v w"
| rename_disk: "PRenameDisk newname (arrive v) = Some (r, w) \<Longrightarrow> packet_step v w"
| set_protect: "PSetProtect lock bname msk addr (arrive v) = Some (r, w) \<Longrightarrow> packet_step v w"
| set_perms: "PSetPerms lock bname mode addr (arrive v) = Some (r, w) \<Longrightarrow> packet_step v w"
| get_perms: "PGetPerms lock bname addr (arrive v) = Some (r, w) \<Longrightarrow> packet_step v w"
| set_owner: "PSetOwner lock bname both addr (arrive v) = Some (r, w) \<Longrightarrow> packet_step v w"
| set_date: "PSetDate lock bname ds addr (arrive v) = Some (r, w) \<Longrightarrow> packet_step v w"
| set_dates: "PSetDates op lock bname ds addr (arrive v) = Some (ds', w) \<Longrightarrow> packet_step v w"
| set_times: "PSetTimes op lock bname time addr (arrive v) = Some (time', w) \<Longrightarrow> packet_step v w"
| read_link: "PReadLink lock bname space addr (arrive v) = Some (l, w) \<Longrightarrow> packet_step v w"
| flush: "PFlush (arrive v) = Some (r, w) \<Longrightarrow> packet_step v w"
| more_cache: "PMoreCache amount (arrive v) = Some (r, w) \<Longrightarrow> packet_step v w"
| write_protect: "PWriteProtect protect (arrive v) = w \<Longrightarrow> packet_step v w"
| format: "PFormat (arrive v) = w \<Longrightarrow> packet_step v w"
| set_file_size: "PSetFileSize (arrive v) = w \<Longrightarrow> packet_step v w"
| unimplemented: "PUnimplemented (arrive v) = w \<Longrightarrow> packet_step v w"
| die: "PDie (arrive v) = w \<Longrightarrow> packet_step v w"

section \<open>What a packet keeps\<close>

text \<open>\<open>I\<close> holds after \<open>m\<close>, if \<open>m\<close> returns.\<close>

definition keeps :: "(volume \<Rightarrow> bool) \<Rightarrow> ('a \<times> volume) option \<Rightarrow> bool" where
  "keeps I m \<longleftrightarrow> (\<forall>r v. m = Some (r, v) \<longrightarrow> I v)"

lemma keeps_Some: "I v \<Longrightarrow> keeps I (Some (r, v))"
  and keeps_None: "keeps I None"
  by (simp_all add: keeps_def)

lemma keeps_bind:
  "keeps I m \<Longrightarrow> (\<And>r v. I v \<Longrightarrow> keeps I (f r v)) \<Longrightarrow> keeps I (m \<bind> (\<lambda>(r, v). f r v))"
  by (auto simp: keeps_def bind_eq_Some_conv)

lemma keeps_pure: "(\<And>x. m = Some x \<Longrightarrow> keeps I (f x)) \<Longrightarrow> keeps I (m \<bind> f)"
  by (auto simp: keeps_def bind_eq_Some_conv)

lemma keeps_if: "(b \<Longrightarrow> keeps I m) \<Longrightarrow> (\<not> b \<Longrightarrow> keeps I n) \<Longrightarrow> keeps I (if b then m else n)"
  and keeps_option: "(x = None \<Longrightarrow> keeps I m) \<Longrightarrow> (\<And>y. x = Some y \<Longrightarrow> keeps I (g y)) \<Longrightarrow>
    keeps I (case x of None \<Rightarrow> m | Some y \<Rightarrow> g y)"
  and keeps_prod: "(\<And>a b. p = (a, b) \<Longrightarrow> keeps I (h a b)) \<Longrightarrow> keeps I (case p of (a, b) \<Rightarrow> h a b)"
  by (auto split: option.splits prod.splits)

lemma keeps_result: "(\<And>a b. r = (a, b) \<Longrightarrow> keeps I (g a b v)) \<Longrightarrow>
    keeps I ((case r of (a, b) \<Rightarrow> g a b) v)"
  by (auto split: option.splits prod.splits)

lemma keeps_D: "keeps I m \<Longrightarrow> m = Some (r, v) \<Longrightarrow> I v"
  by (simp add: keeps_def)

text \<open>\<open>I\<close> holds but for the inodes of the locks and where their entries are.\<close>

definition but_keys :: "(volume \<Rightarrow> bool) \<Rightarrow> volume \<Rightarrow> volume \<Rightarrow> bool" where
  "but_keys I v w \<longleftrightarrow> I (w\<lparr>locks := locks v\<rparr>) \<and>
     (\<forall>l. fl_Access (locks w l) = fl_Access (locks v l) \<and> fl_Fileh (locks w l) = fl_Fileh (locks v l))"

text \<open>
  The laws: a packet changes the file system, the results and the name of the volume freely, a
  file handle without changing its lock, and the locks through \<open>CreateLock\<close> and \<open>FreeLock\<close> only.
\<close>

locale packet_invariant =
  fixes I :: "volume \<Rightarrow> bool"
  assumes new_fs: "I v \<Longrightarrow> I (v\<lparr>fs := s\<rparr>)"
    and new_res: "I v \<Longrightarrow> I (v\<lparr>Res1 := x\<rparr>)"
    and new_name: "I v \<Longrightarrow> I (v\<lparr>volumename := b\<rparr>)"
    and new_file: "I v \<Longrightarrow> (\<And>f. fh_lock (g f) = fh_lock f) \<Longrightarrow> I (upd_file h g v)"
    and new_places: "I v \<Longrightarrow> (\<And>l. fl_Key (ls l) = fl_Key (locks v l)) \<Longrightarrow>
        (\<And>l. fl_Access (ls l) = fl_Access (locks v l)) \<Longrightarrow>
        (\<And>l. fl_Fileh (ls l) = fl_Fileh (locks v l)) \<Longrightarrow> I (v\<lparr>locks := ls\<rparr>)"
    and new_lock: "I v \<Longrightarrow> mode \<noteq> ACCESS_INVISIBLE \<Longrightarrow> I (snd (CreateLock key mode pinum poffset v))"
    and no_lock: "I v \<Longrightarrow> keeps I (FreeLock lock v)"
    and opened: "I v \<Longrightarrow> I (snd (open_fh l trunc inum v))"
    and visible: "I v \<Longrightarrow> l \<in> set (lock_list v) \<Longrightarrow> fl_Access (locks v l) \<noteq> ACCESS_INVISIBLE"
begin

lemma keeps_state [simp]:
  assumes "I v"
  shows "I (upd_fs f v)" "I (set_Res1 x v)" "I (fail c v)" "I (fail_with c v)" "I (add_nlink p n v)"
    "I (advance h k v)" "I (arrive v)" "I (v\<lparr>volumename := b\<rparr>)"
  using new_fs [OF assms] new_res [OF assms] new_res [OF new_fs [OF assms]] new_name [OF assms]
    new_res [OF new_fs [OF assms]] new_file [OF assms]
  by (simp_all add: upd_fs_def set_Res1_def fail_def fail_with_def add_nlink_def arrive_def
      advance_def Let_def)

lemma keeps_mode [simp]:
  assumes "I v"
  shows "I (upd_file h (\<lambda>f. f\<lparr>access_mode := m\<rparr>) v)" "I (upd_file h (\<lambda>f. f\<lparr>truncate_mode := m\<rparr>) v)"
    "I (upd_file h (\<lambda>f. f\<lparr>current_position := x\<rparr>) v)"
  by (rule new_file [OF assms]; simp)+

lemma keeps_grant [simp]: "I v \<Longrightarrow> mode \<noteq> ACCESS_INVISIBLE \<Longrightarrow> I (grant key mode pinum poffset v)"
  using new_lock [of v mode key pinum poffset] by (auto simp: grant_def split: prod.splits)

lemma keeps_on_fs: "I v \<Longrightarrow> keeps I (on_fs f v)"
  using new_fs [of v] by (auto simp: keeps_def on_fs_def)

lemma keeps_alloc:
  "I v \<Longrightarrow> (\<And>ok v. I v \<Longrightarrow> keeps I (f ok v)) \<Longrightarrow> keeps I (case alloc_vol v of (ok, v) \<Rightarrow> f ok v)"
  using new_fs [of v] by (simp add: alloc_vol_def split: prod.splits)

lemma keeps_create:
  "I v \<Longrightarrow> mode \<noteq> ACCESS_INVISIBLE \<Longrightarrow> (\<And>l v. I v \<Longrightarrow> keeps I (f l v)) \<Longrightarrow>
    keeps I (case CreateLock key mode pinum poffset v of (l, v) \<Rightarrow> f l v)"
  using new_lock [of v mode key pinum poffset] by (auto split: prod.splits)

lemma keeps_open:
  "I v \<Longrightarrow> (\<And>h v. I v \<Longrightarrow> keeps I (f h v)) \<Longrightarrow> keeps I (case open_fh l trunc inum v of (h, v) \<Rightarrow> f h v)"
  using opened [of v l trunc inum] by (auto split: prod.splits)

lemmas keep_rules = keeps_alloc keeps_create keeps_open keeps_on_fs keeps_None keeps_Some keeps_if
  keeps_option keeps_bind keeps_pure no_lock keeps_prod keeps_result

lemma shared_visible [simp]: "SHARED_LOCK \<noteq> ACCESS_INVISIBLE" "EXCLUSIVE_LOCK \<noteq> ACCESS_INVISIBLE"
  by (simp_all add: SHARED_LOCK_def EXCLUSIVE_LOCK_def ACCESS_INVISIBLE_def)

lemma keeps_ResolveColon: "I v \<Longrightarrow> keeps I (ResolveColon path v)"
  unfolding ResolveColon_def Let_def by (rule keep_rules | assumption | simp)+

lemma keeps_parent_parse: "I v \<Longrightarrow> keeps I (parent_parse lock path addr v)"
  unfolding parent_parse_def Let_def
  by (rule keeps_ResolveColon keep_rules | assumption | simp)+

lemma keeps_path_parse: "I v \<Longrightarrow> keeps I (path_parse lock path addr v)"
  unfolding path_parse_def Let_def
  by (rule keeps_ResolveColon keep_rules | assumption | simp)+

lemmas path_rules = keeps_parent_parse keeps_path_parse

lemma keeps_truncate_file: "I v \<Longrightarrow> keeps I (truncate_file h v)"
  unfolding truncate_file_def Let_def by (rule keep_rules | assumption | simp)+

lemma keeps_PLocateObject: "I v \<Longrightarrow> mode \<noteq> ACCESS_INVISIBLE \<Longrightarrow> keeps I (PLocateObject lock bname mode addr v)"
  unfolding PLocateObject_def Let_def by (rule path_rules keep_rules | assumption | simp)+

lemma keeps_PFreeLock: "I v \<Longrightarrow> keeps I (PFreeLock lock v)"
  unfolding PFreeLock_def Let_def by (rule keep_rules | assumption | simp)+

lemma keeps_PCopyDir:
  assumes "I v" "known lock v"
  shows "keeps I (PCopyDir lock (arrive v))"
proof -
  have "locks (arrive v) = locks v" by (simp add: arrive_def set_Res1_def upd_fs_def)
  then show ?thesis
    using assms visible [of v] unfolding PCopyDir_def Let_def
    by (intro keep_rules keeps_grant) (auto simp: known_def)
qed

lemma keeps_PParent: "I v \<Longrightarrow> keeps I (PParent lock v)"
  unfolding PParent_def Let_def by (rule keep_rules | assumption | simp)+

lemma keeps_PFindInput: "I v \<Longrightarrow> keeps I (PFindInput lock bname addr v)"
  unfolding PFindInput_def Let_def by (rule path_rules keep_rules | assumption | simp)+

lemma keeps_create_file: "I v \<Longrightarrow> keeps I (create_file pinum sname v)"
  unfolding create_file_def Let_def by (rule keep_rules | assumption | simp)+

lemma keeps_reopen_file: "I v \<Longrightarrow> keeps I (reopen_file inum v)"
  unfolding reopen_file_def Let_def by (rule keep_rules | assumption | simp)+

lemma keeps_PFindOutput: "I v \<Longrightarrow> keeps I (PFindOutput lock bname addr v)"
  unfolding PFindOutput_def Let_def by (rule keeps_create_file keeps_reopen_file path_rules keep_rules | assumption | simp)+

lemma keeps_PRead: "I v \<Longrightarrow> keeps I (PRead h bs nbytes addr v)"
  unfolding PRead_def Let_def by (rule keep_rules | assumption | simp)+

lemma keeps_begin_write: "I v \<Longrightarrow> keeps I (begin_write h v)"
  unfolding begin_write_def Let_def by (rule keep_rules | assumption | simp)+

lemma keeps_PWrite: "I v \<Longrightarrow> keeps I (PWrite h bs nbytes addr v)"
  unfolding PWrite_def Let_def by (rule keeps_begin_write keep_rules | assumption | simp)+

lemma keeps_PSeek: "I v \<Longrightarrow> keeps I (PSeek h movement mode v)"
  unfolding PSeek_def Let_def by (rule keep_rules | assumption | simp)+

lemma keeps_PEnd: "I v \<Longrightarrow> keeps I (PEnd h v)"
  unfolding PEnd_def Let_def by (rule keeps_truncate_file keep_rules | assumption | simp)+

lemma keeps_drop_unlinked: "I v \<Longrightarrow> keeps I (drop_unlinked inum v)"
  unfolding drop_unlinked_def Let_def by (rule keep_rules | assumption | simp)+

lemma keeps_PDeleteObject: "I v \<Longrightarrow> keeps I (PDeleteObject lock bname addr v)"
  unfolding PDeleteObject_def Let_def by (rule keeps_drop_unlinked path_rules keep_rules | assumption | simp)+

lemma keeps_new_dir: "I v \<Longrightarrow> keeps I (new_dir pinum sname newinum v)"
  unfolding new_dir_def Let_def by (rule keep_rules | assumption | simp)+

lemma keeps_PCreateDir: "I v \<Longrightarrow> keeps I (PCreateDir lock bname addr v)"
  unfolding PCreateDir_def Let_def by (rule keeps_new_dir path_rules keep_rules | assumption | simp)+

lemma keeps_new_name: "I v \<Longrightarrow> keeps I (new_name lock bname addr v)"
  unfolding new_name_def Let_def by (rule path_rules keep_rules | assumption | simp)+

lemma keeps_hard_link: "I v \<Longrightarrow> keeps I (hard_link pinum subname lock_from v)"
  unfolding hard_link_def Let_def by (rule keep_rules | assumption | simp)+

lemma keeps_soft_link: "I v \<Longrightarrow> keeps I (soft_link pinum subname name_from addr v)"
  unfolding soft_link_def Let_def by (rule keep_rules | assumption | simp)+

lemma keeps_PMakeLink: "I v \<Longrightarrow> keeps I (PMakeLink lock bname lock_from name_from soft addr v)"
  unfolding PMakeLink_def Let_def by (rule keeps_new_name keeps_hard_link keeps_soft_link keep_rules | assumption | simp)+

lemma keeps_PCreateObject: "I v \<Longrightarrow> keeps I (PCreateObject lock bname st_type device lock_from name_from addr v)"
  unfolding PCreateObject_def Let_def by (rule keeps_PCreateDir keeps_PMakeLink keeps_new_name keep_rules | assumption | simp)+

lemma keeps_PRenameObject: "I v \<Longrightarrow> keeps I (PRenameObject oldparent oldbname newparent newbname addr v)"
  unfolding PRenameObject_def Let_def by (rule path_rules keep_rules | assumption | simp)+

lemma keeps_PRenameDisk: "I v \<Longrightarrow> keeps I (PRenameDisk newname v)"
  unfolding PRenameDisk_def Let_def by (rule keep_rules | assumption | simp)+

lemma keeps_with_inode: "I v \<Longrightarrow> keeps I (with_inode access lock bname addr v)"
  unfolding with_inode_def Let_def by (rule path_rules keep_rules | assumption | simp split: option.split)+

lemma keeps_PSetProtect: "I v \<Longrightarrow> keeps I (PSetProtect lock bname msk addr v)"
  unfolding PSetProtect_def Let_def by (rule keeps_with_inode keep_rules | assumption | simp split: option.split)+

lemma keeps_PSetPerms: "I v \<Longrightarrow> keeps I (PSetPerms lock bname mode addr v)"
  unfolding PSetPerms_def Let_def by (rule keeps_with_inode keep_rules | assumption | simp split: option.split)+

lemma keeps_PGetPerms: "I v \<Longrightarrow> keeps I (PGetPerms lock bname addr v)"
  unfolding PGetPerms_def Let_def by (rule keeps_with_inode keep_rules | assumption | simp split: option.split)+

lemma keeps_PSetOwner: "I v \<Longrightarrow> keeps I (PSetOwner lock bname both addr v)"
  unfolding PSetOwner_def Let_def by (rule keeps_with_inode keep_rules | assumption | simp split: option.split)+

lemma keeps_PSetDate: "I v \<Longrightarrow> keeps I (PSetDate lock bname ds addr v)"
  unfolding PSetDate_def Let_def by (rule path_rules keep_rules | assumption | simp)+

lemma keeps_date_packet: "I v \<Longrightarrow> keeps I (date_packet put get op lock bname x addr v)"
  unfolding date_packet_def Let_def by (rule path_rules keep_rules | assumption | simp)+

lemma keeps_PSetDates: "I v \<Longrightarrow> keeps I (PSetDates op lock bname ds addr v)"
  unfolding PSetDates_def Let_def by (rule keeps_date_packet keep_rules | assumption | simp)+

lemma keeps_PSetTimes: "I v \<Longrightarrow> keeps I (PSetTimes op lock bname time addr v)"
  unfolding PSetTimes_def Let_def by (rule keeps_date_packet keep_rules | assumption | simp)+

lemma keeps_PReadLink: "I v \<Longrightarrow> keeps I (PReadLink lock name space addr v)"
  unfolding PReadLink_def Let_def by (rule path_rules keep_rules | assumption | simp)+

lemma keeps_PFlush: "I v \<Longrightarrow> keeps I (PFlush v)"
  unfolding PFlush_def Let_def by (rule keep_rules | assumption | simp)+

lemma keeps_PMoreCache: "I v \<Longrightarrow> keeps I (PMoreCache amount v)"
  unfolding PMoreCache_def Let_def by (rule keep_rules | assumption | simp)+

lemma keeps_PExamineNext:
  assumes "I v"
  shows "keeps I (PExamineNext ptype lock fib attr v)"
proof -
  have begun: "I v'" if "(if b then do { (r, v) \<leftarrow> on_fs f v; Some (r, fb, v) } else Some (True, fib, v)) =
      Some (ok, fib', v')" for b f fb ok fib' v'
    using that keeps_D [OF keeps_on_fs [OF assms]] assms
    by (auto simp: bind_eq_Some_conv split: if_splits)
  show ?thesis
    unfolding PExamineNext_def Let_def
    by (rule keep_rules | drule begun | assumption | simp add: assms)+
qed

text \<open>The examine packets may change the inode of a lock on their way.\<close>

lemma but_keys_fs:
  assumes "but_keys I v0 v"
  shows "but_keys I v0 (v\<lparr>fs := s\<rparr>)"
proof -
  have "(v\<lparr>fs := s\<rparr>)\<lparr>locks := locks v0\<rparr> = (v\<lparr>locks := locks v0\<rparr>)\<lparr>fs := s\<rparr>" by simp
  then show ?thesis using assms new_fs [of "v\<lparr>locks := locks v0\<rparr>"] by (simp only: but_keys_def) simp
qed

lemma but_keys_fail:
  assumes "but_keys I v0 v"
  shows "but_keys I v0 (fail c v)"
proof -
  have "(fail c v)\<lparr>locks := locks v0\<rparr> = ((v\<lparr>locks := locks v0\<rparr>)\<lparr>fs := fs (fail c v)\<rparr>)\<lparr>Res1 := DOSFALSE\<rparr>"
    by (simp add: fail_def set_Res1_def upd_fs_def)
  moreover have "locks (fail c v) = locks v" by (simp add: fail_def set_Res1_def upd_fs_def)
  ultimately show ?thesis
    using assms new_res [OF new_fs, of "v\<lparr>locks := locks v0\<rparr>"] by (simp only: but_keys_def) simp
qed

lemma but_keys_on_fs: "but_keys I v0 v \<Longrightarrow> keeps (but_keys I v0) (on_fs f v)"
  using but_keys_fs by (auto simp: keeps_def on_fs_def)

lemma but_keys_lock:
  assumes "but_keys I v0 v" "fl_Access x = fl_Access (locks v l)" "fl_Fileh x = fl_Fileh (locks v l)"
  shows "but_keys I v0 (v\<lparr>locks := (locks v)(l := x)\<rparr>)"
  using assms by (simp add: but_keys_def)

lemma but_keys_alloc:
  "but_keys I v0 v \<Longrightarrow> (\<And>ok v. but_keys I v0 v \<Longrightarrow> keeps (but_keys I v0) (f ok v)) \<Longrightarrow>
    keeps (but_keys I v0) (case alloc_vol v of (ok, v) \<Rightarrow> f ok v)"
  using but_keys_fs by (simp add: alloc_vol_def split: prod.splits)

lemmas but_keys_rules = but_keys_alloc but_keys_on_fs keeps_None keeps_Some keeps_if keeps_option
  keeps_bind keeps_pure keeps_prod keeps_result

lemma but_keys_link_target: "but_keys I v0 v \<Longrightarrow> keeps (but_keys I v0) (link_target lock p addr v)"
  unfolding link_target_def Let_def by (rule but_keys_rules | assumption | simp)+

lemma but_keys_examine:
  "but_keys I v0 v \<Longrightarrow> keeps (but_keys I v0) (examine_common ptype lock attr fib addr v)"
  unfolding examine_common_def Let_def
  by (rule but_keys_link_target but_keys_rules but_keys_fail but_keys_lock | assumption | simp)+

lemma but_keys_same:
  assumes "but_keys I v0 w" "same_keys v0 w"
  shows "I w"
  using new_places [of "w\<lparr>locks := locks v0\<rparr>" "locks w"] assms by (simp add: but_keys_def same_keys_def)

lemma keeps_examine:
  assumes "I v" "examine_common ptype lock attr fib addr (arrive v) = Some (r, w)" "same_keys v w"
  shows "I w"
proof -
  have "locks (arrive v) = locks v" by (simp add: arrive_def set_Res1_def upd_fs_def)
  then have "but_keys I v (arrive v)" using keeps_state(7) [OF assms(1)] by (simp add: but_keys_def flip: \<open>locks (arrive v) = locks v\<close>)
  then show ?thesis using but_keys_same keeps_D [OF but_keys_examine assms(2)] assms(3) by blast
qed

text \<open>Every packet keeps the invariant.\<close>

lemmas keeps_packet = keeps_PLocateObject keeps_PFreeLock keeps_PParent keeps_PFindInput
  keeps_PFindOutput keeps_PRead keeps_PWrite keeps_PSeek keeps_PEnd keeps_PExamineNext
  keeps_PDeleteObject keeps_PCreateDir keeps_PCreateObject keeps_PMakeLink keeps_PRenameObject
  keeps_PRenameDisk keeps_PSetProtect keeps_PSetPerms keeps_PGetPerms keeps_PSetOwner keeps_PSetDate
  keeps_PSetDates keeps_PSetTimes keeps_PReadLink keeps_PFlush keeps_PMoreCache

theorem packet_keeps:
  assumes "packet_step v w" "I v"
  shows "I w"
proof -
  have start: "I (arrive v)" by (simp add: assms(2))
  note kept = keeps_packet [OF start, THEN keeps_D] keeps_PCopyDir [OF assms(2), THEN keeps_D]
  from assms(1) show ?thesis
    by cases ((rule kept, assumption+) |
      (auto simp: PExamineObject_def PExamineFh_def intro: keeps_examine [OF assms(2)] split: bind_splits; fail) | (auto simp: start PSameLock_def PWriteProtect_def Let_def
        PFormat_def PSetFileSize_def PUnimplemented_def PDie_def split: prod.splits if_splits; fail))+
qed

lemma packets_keep: "packet_step\<^sup>*\<^sup>* v w \<Longrightarrow> I v \<Longrightarrow> I w"
  by (induction rule: rtranclp_induct) (auto dest: packet_keeps)

end

end
