(* ===== verification/Lock_Invariants.thy ===== *)
theory Lock_Invariants
  imports Packet_Steps
begin

text \<open>
  The invariants of the locks and file handles of fs/system.c: exclusive locks exclude other
  locks, and a file handle and its lock name each other. Both are instances of
  \<open>packet_invariant\<close>, so that every sequence of packets keeps them.
\<close>

section \<open>Exclusive locks\<close>

definition lock_inv :: "volume \<Rightarrow> bool" where
  "lock_inv v \<longleftrightarrow>
     distinct (lock_list v) \<and>
     (\<forall>l \<in> set (lock_list v). l \<le> lock_brk v \<and> fl_Access (locks v l) \<noteq> ACCESS_INVISIBLE \<and>
        (fl_Access (locks v l) = EXCLUSIVE_LOCK \<longrightarrow>
           (\<forall>m \<in> set (lock_list v). fl_Key (locks v m) = fl_Key (locks v l) \<longrightarrow> m = l)))"

lemma lock_inv_cong:
  assumes "lock_inv v" "lock_list w = lock_list v" "lock_brk w = lock_brk v"
    "\<And>l. fl_Key (locks w l) = fl_Key (locks v l)" "\<And>l. fl_Access (locks w l) = fl_Access (locks v l)"
  shows "lock_inv w"
  using assms by (simp add: lock_inv_def)

text \<open>The first lock with a key tells enough to keep an exclusive lock alone.\<close>

lemma lock_on_None: "lock_on key v = None \<Longrightarrow> l \<in> set (lock_list v) \<Longrightarrow> fl_Key (locks v l) \<noteq> key"
  by (auto simp: lock_on_def find_None_iff)

lemma lock_on_Some:
  "lock_on key v = Some l \<Longrightarrow> l \<in> set (lock_list v) \<and> fl_Key (locks v l) = key"
  by (auto simp: lock_on_def find_Some_iff)

lemma granted_shared:
  assumes "lock_inv v" "\<not> access_denied mode (case lock_on key v of None \<Rightarrow> 0 | Some l \<Rightarrow> fl_Access (locks v l))"
    "l \<in> set (lock_list v)" "fl_Key (locks v l) = key" "mode \<noteq> ACCESS_INVISIBLE"
  shows "fl_Access (locks v l) \<noteq> EXCLUSIVE_LOCK" "mode \<noteq> EXCLUSIVE_LOCK"
proof -
  obtain m where m: "lock_on key v = Some m" using assms(3,4) lock_on_None by (cases "lock_on key v") auto
  note m' = lock_on_Some [OF m]
  have "fl_Access (locks v m) \<noteq> 0"
    using assms(1) m' by (auto simp: lock_inv_def ACCESS_INVISIBLE_def)
  then show excl: "mode \<noteq> EXCLUSIVE_LOCK" using assms(2) m by (auto simp: access_denied_def)
  show "fl_Access (locks v l) \<noteq> EXCLUSIVE_LOCK"
  proof
    assume "fl_Access (locks v l) = EXCLUSIVE_LOCK"
    then have "m = l" using assms(1,3,4) m' by (auto simp: lock_inv_def)
    then show False
      using assms(2,5) m \<open>fl_Access (locks v l) = EXCLUSIVE_LOCK\<close> excl by (simp add: access_denied_def)
  qed
qed

text \<open>The three outcomes of \<open>CreateLock\<close>.\<close>

lemma CreateLock_cases:
  obtains (failed) s where "snd (CreateLock key mode pinum poffset v) = v\<lparr>fs := s\<rparr>"
      "fst (CreateLock key mode pinum poffset v) = None"
  | (granted) s vol where
      "\<not> access_denied mode (case lock_on key v of None \<Rightarrow> 0 | Some l \<Rightarrow> fl_Access (locks v l))"
      "fst (CreateLock key mode pinum poffset v) = Some (Suc (lock_brk v))"
      "snd (CreateLock key mode pinum poffset v) =
         v\<lparr>fs := s, locks := (locks v)(Suc (lock_brk v) :=
               \<lparr>fl_Key = key, fl_Access = mode, fl_Task = DosPort v, fl_Volume = vol,
                fl_Pinum = pinum, fl_Poffset = poffset, fl_Fileh = None\<rparr>),
           lock_brk := Suc (lock_brk v), lock_list := Suc (lock_brk v) # lock_list v\<rparr>"
  by (cases "VolNode v"; cases "alloc_mem (fs v)"; cases "fst (alloc_mem (fs v))"; cases
      "access_denied mode (case lock_on key v of None \<Rightarrow> 0 | Some l \<Rightarrow> fl_Access (locks v l))")
    (auto simp: CreateLock_def alloc_vol_def Let_def upd_fs_def)

lemma lock_inv_CreateLock:
  assumes "lock_inv v" "mode \<noteq> ACCESS_INVISIBLE"
  shows "lock_inv (snd (CreateLock key mode pinum poffset v))"
proof (cases rule: CreateLock_cases [of key mode pinum poffset v])
  case failed
  then show ?thesis using assms(1) by (simp add: lock_inv_def)
next
  case (granted s vol)
  have new: "Suc (lock_brk v) \<notin> set (lock_list v)" using assms(1) by (auto simp: lock_inv_def)
  then have "\<And>l. l \<in> set (lock_list v) \<Longrightarrow> l \<noteq> Suc (lock_brk v)" by auto
  then show ?thesis
    using assms new granted_shared [OF assms(1) granted(1)]
    unfolding granted(3) lock_inv_def by auto
qed

lemma lock_inv_FreeLock: "lock_inv v \<Longrightarrow> keeps lock_inv (FreeLock lock v)"
  by (auto simp: FreeLock_def keeps_def lock_inv_def set_Res1_def split: option.splits if_splits
      dest: in_set_remove1 [THEN iffD1, rotated] set_remove1_subset [THEN subsetD])

interpretation exclusive: packet_invariant lock_inv
proof unfold_locales
  show "lock_inv (snd (open_fh l trunc inum v))" if "lock_inv v" for l trunc inum v
    using that by (rule lock_inv_cong) (simp_all add: open_fh_def Let_def)
  show "fl_Access (locks v l) \<noteq> ACCESS_INVISIBLE" if "lock_inv v" "l \<in> set (lock_list v)" for v l
    using that by (simp add: lock_inv_def)
qed (simp_all add: lock_inv_CreateLock lock_inv_FreeLock, auto simp: lock_inv_def upd_file_def)

section \<open>File handles\<close>

text \<open>The lock of an open file knows its handle, and the handle its lock.\<close>

definition handle_inv :: "volume \<Rightarrow> bool" where
  "handle_inv v \<longleftrightarrow>
     (\<forall>l \<in> set (lock_list v). l \<le> lock_brk v \<and> fl_Access (locks v l) \<noteq> ACCESS_INVISIBLE \<and>
        (\<forall>h. fl_Fileh (locks v l) = Some h \<longrightarrow> h \<le> file_brk v \<and> fh_lock (files v h) = l))"

lemma handle_inv_CreateLock:
  assumes "handle_inv v" "mode \<noteq> ACCESS_INVISIBLE"
  shows "handle_inv (snd (CreateLock key mode pinum poffset v))"
proof (cases rule: CreateLock_cases [of key mode pinum poffset v])
  case failed
  then show ?thesis using assms(1) by (simp add: handle_inv_def)
next
  case (granted s vol)
  then show ?thesis
    using assms unfolding granted(3) handle_inv_def by auto
qed

interpretation handles: packet_invariant handle_inv
proof unfold_locales
  show "handle_inv (snd (open_fh l trunc inum v))" if "handle_inv v" for l trunc inum v
    using that by (auto simp: handle_inv_def open_fh_def Let_def)
  show "fl_Access (locks v l) \<noteq> ACCESS_INVISIBLE" if "handle_inv v" "l \<in> set (lock_list v)" for v l
    using that by (simp add: handle_inv_def)
  show "keeps handle_inv (FreeLock lock v)" if "handle_inv v" for lock v
    using that by (auto simp: FreeLock_def keeps_def handle_inv_def set_Res1_def
        split: option.splits if_splits dest: set_remove1_subset [THEN subsetD])
qed (simp_all add: handle_inv_CreateLock, auto simp: handle_inv_def upd_file_def)

end
