(* ===== verification/Dispatch.thy ===== *)
theory Dispatch
  imports Packet_Objects
begin

text \<open>
  fs/table.c: the tables that give the routine for the type of a packet, and whether the routine
  needs an open file system. Types from 0 on are looked up in a table by position, the others by
  search. The numbers of the standard actions are those of AmigaDOS.
\<close>

datatype routine =
    Nil | Unimplemented | Die | Current_Volume | Locate_Object | Rename_Disk | Free_Lock
  | Delete_Object | Rename_Object | More_Cache | Copy_Dir | Set_Protect | Create_Dir
  | Examine_Object | Examine_Next | Device_Info | Flush | Parent | Inhibit | Disk_Change
  | Set_Date | Same_Lock | Read | Write | Find_Input | Find_Output | End_File | Create_Object
  | Make_Link | Set_Owner | Is_Filesystem | Seek | Read_Link | Set_File_Size | Set_Dates
  | Set_Times | Get_Perms | Set_Perms | Examine_Fh | Get_Disk_FSSM | Free_Disk_FSSM
  | Filesys_Stats | Write_Protect | Format

text \<open>Each entry has the routine and \<open>check_inhibit\<close>.\<close>

abbreviation "CHECK r \<equiv> (r, True)"
abbreviation "NOCHK r \<equiv> (r, False)"

definition dpacket_table :: "(routine \<times> bool) list" where
  "dpacket_table =
     [CHECK Nil, NOCHK Unimplemented, NOCHK Unimplemented, NOCHK Unimplemented,
      NOCHK Unimplemented, NOCHK Die, NOCHK Unimplemented, CHECK Current_Volume,
      CHECK Locate_Object, CHECK Rename_Disk, NOCHK Unimplemented, NOCHK Unimplemented,
      NOCHK Unimplemented, NOCHK Unimplemented, NOCHK Unimplemented, CHECK Free_Lock,
      CHECK Delete_Object, CHECK Rename_Object, CHECK More_Cache, CHECK Copy_Dir,
      NOCHK Unimplemented, CHECK Set_Protect, CHECK Create_Dir, CHECK Examine_Object,
      CHECK Examine_Next, CHECK Device_Info, CHECK Device_Info, CHECK Flush,
      NOCHK Unimplemented, CHECK Parent, CHECK Flush, NOCHK Inhibit, CHECK Unimplemented,
      CHECK Disk_Change, CHECK Set_Date, NOCHK Unimplemented, NOCHK Unimplemented,
      NOCHK Unimplemented, NOCHK Unimplemented, NOCHK Unimplemented, CHECK Same_Lock]"

definition spacket_table :: "(int \<times> routine \<times> bool) list" where
  "spacket_table =
     [(82, CHECK Read), (87, CHECK Write), (1005, CHECK Find_Input), (1006, CHECK Find_Output),
      (1007, CHECK End_File), (50, CHECK Examine_Object), (51, CHECK Examine_Next),
      (2346, CHECK Create_Object), (1021, CHECK Make_Link), (1036, CHECK Set_Owner),
      (1027, CHECK Is_Filesystem), (1008, CHECK Seek), (1004, CHECK Find_Input),
      (1024, CHECK Read_Link), (1022, CHECK Set_File_Size), (2998, CHECK Set_Dates),
      (2997, CHECK Set_Times), (2995, CHECK Get_Perms), (2996, CHECK Set_Perms),
      (1034, CHECK Examine_Fh), (4201, NOCHK Get_Disk_FSSM), (4202, NOCHK Free_Disk_FSSM),
      (2999, NOCHK Filesys_Stats), (1023, CHECK Write_Protect), (33, CHECK Disk_Change),
      (1020, CHECK Format)]"

definition packet_lookup :: "int \<Rightarrow> (routine \<times> bool) option" where
  "packet_lookup ptype =
     (if ptype < int (length dpacket_table) \<and> ptype \<ge> 0
      then Some (dpacket_table ! nat ptype)
      else map_option snd (find (\<lambda>e. fst e = ptype) spacket_table))"

end
