(* ===== verification/Packet_Properties.thy ===== *)
theory Packet_Properties
  imports Lock_Invariants Dispatch Cache_Properties Map_Properties
begin

text \<open>
  What the packet layer promises: exclusive locks stay alone, protection bits survive the
  conversions, a flush makes the medium durable, the name of a path is its last component.
\<close>

section \<open>A sample volume\<close>

text \<open>Two locks: a shared one on inode 5 and an exclusive one on inode 7.\<close>

definition sample_lock :: "u32 \<Rightarrow> int \<Rightarrow> bffs_lock" where
  "sample_lock key mode = \<lparr>fl_Key = key, fl_Access = mode, fl_Task = 1, fl_Volume = 1,
     fl_Pinum = 2, fl_Poffset = 0, fl_Fileh = None\<rparr>"

definition sample_volume :: "fsys \<Rightarrow> volume" where
  "sample_volume s =
     \<lparr>fs = s, Res1 = 0, VolNode = Some 1, DosPort = 1, lock_list = [2, 1],
      locks = (\<lambda>l. if l = 1 then sample_lock 5 SHARED_LOCK else sample_lock 7 EXCLUSIVE_LOCK),
      lock_brk = 2,
      files = (\<lambda>h. \<lparr>fh_lock = 0, current_position = 0, maximum_position = 0,
                    access_mode = MODE_READ, truncate_mode = MODE_UPDATE, real_inum = 0\<rparr>),
      file_brk = 0, volumename = [66, 83, 68, 0], handler_name = [66, 70], dos_devices = [],
      GMT = 0, og_perm_invert = False, opt_minfree = False, physical_ro = False\<rparr>"

lemma sample_volume_inv: "lock_inv (sample_volume s)"
  by (simp add: lock_inv_def sample_volume_def sample_lock_def SHARED_LOCK_def EXCLUSIVE_LOCK_def
      ACCESS_INVISIBLE_def)

section \<open>Locks\<close>

text \<open>C34: whatever packets of \<open>packet_step\<close> clients send, a lock with exclusive access is the only
  lock on its inode. These are the packets on locks, files, directories, attributes and the cache,
  except for an examine packet that follows a symbolic link and so changes the key of its lock,
  and for requests for an invisible lock, both of which break the exclusion.\<close>

theorem exclusive_lock_alone:
  assumes "packet_step\<^sup>*\<^sup>* v w" "lock_inv v"
    and "l \<in> set (lock_list w)" "fl_Access (locks w l) = EXCLUSIVE_LOCK"
    and "m \<in> set (lock_list w)" "fl_Key (locks w m) = fl_Key (locks w l)"
  shows "m = l"
  using exclusive.packets_keep [OF assms(1,2)] assms(3-6) by (auto simp: lock_inv_def)

lemma exclusive_lock_alone_witness:
  "\<exists>w. packet_step\<^sup>*\<^sup>* (sample_volume (sample (\<lambda>_. []) sample_cg)) w \<and> lock_list w = [3, 2, 1] \<and>
     (\<forall>m \<in> {1, 2, 3}. fl_Key (locks w m) = 7 \<longrightarrow> m = 2)"
proof -
  let ?v = "sample_volume (sample (\<lambda>_. []) sample_cg)"
  define w where "w = snd (the (PCopyDir (Some 1) (arrive ?v)))"
  note e = sample_volume_def sample_lock_def arrive_def set_Res1_def upd_fs_def PCopyDir_def
    grant_def CreateLock_def lock_on_def alloc_vol_def alloc_mem_def sample_def sample_hnd_def
    set_Res2_def access_denied_def SHARED_LOCK_def EXCLUSIVE_LOCK_def ACCESS_INVISIBLE_def Let_def
  have run: "PCopyDir (Some 1) (arrive ?v) = Some ((), w)"
    by (simp add: w_def e)
  have w: "lock_list w = [3, 2, 1]" "fl_Access (locks w 2) = EXCLUSIVE_LOCK"
    "fl_Key (locks w 2) = 7"
    by (simp_all add: w_def e)
  have "packet_step ?v w"
    by (rule copy_dir [OF _ run]) (simp add: known_def sample_volume_def)
  then have step: "packet_step\<^sup>*\<^sup>* ?v w" by (rule r_into_rtranclp)
  have "m = 2" if "m \<in> {1, 2, 3}" "fl_Key (locks w m) = 7" for m
    using exclusive_lock_alone [OF step sample_volume_inv _ w(2), of m] that w by auto
  then show ?thesis using step w(1) by blast
qed

text \<open>The law needs that clients ask for no lock of mode 0: \<open>CreateLock\<close> looks at the first lock
  with the key only, and an invisible one hides the exclusive one behind it.\<close>

lemma invisible_lock_hides:
  defines "v \<equiv> sample_volume (sample (\<lambda>_. []) sample_cg)"
  defines "u \<equiv> snd (CreateLock 7 ACCESS_INVISIBLE 2 0 v)"
  shows "fst (CreateLock 7 SHARED_LOCK 2 0 v) = None"
    "fst (CreateLock 7 SHARED_LOCK 2 0 u) = Some 4"
  unfolding u_def v_def sample_volume_def sample_lock_def CreateLock_def lock_on_def alloc_vol_def alloc_mem_def
    sample_def sample_hnd_def access_denied_def SHARED_LOCK_def EXCLUSIVE_LOCK_def
    ACCESS_INVISIBLE_def Let_def by simp_all

section \<open>Protection bits\<close>

lemma pick_exp: "pick x (2 ^ n) y z = (if bit x n then y else z)"
  by (simp add: pick_def and_exp_eq_0_iff_not_bit)

lemmas pick_num = pick_exp [of _ 0, simplified] pick_exp [of _ 1, simplified]
  pick_exp [of _ 2, simplified] pick_exp [of _ 3, simplified] pick_exp [of _ 4, simplified] pick_exp [of _ 5, simplified]
  pick_exp [of _ 6, simplified] pick_exp [of _ 7, simplified] pick_exp [of _ 8, simplified] pick_exp [of _ 9, simplified]
  pick_exp [of _ 10, simplified] pick_exp [of _ 11, simplified] pick_exp [of _ 12, simplified] pick_exp [of _ 13, simplified]
  pick_exp [of _ 14, simplified] pick_exp [of _ 15, simplified]

lemmas protection_bits = FIBF_DELETE_def FIBF_EXECUTE_def FIBF_WRITE_def FIBF_READ_def FIBF_PURE_def FIBF_SCRIPT_def FIBF_HIDDEN_def
  FIBF_GRP_DELETE_def FIBF_GRP_EXECUTE_def FIBF_GRP_WRITE_def FIBF_GRP_READ_def FIBF_OTR_DELETE_def FIBF_OTR_EXECUTE_def
  FIBF_OTR_WRITE_def FIBF_OTR_READ_def ISUID_def ISGID_def ISVTX_def IREAD_def IWRITE_def IEXEC_def IFMT_def

lemma below_16: "n < 16 \<Longrightarrow> n = 0 \<or> n = 1 \<or> n = 2 \<or> n = 3 \<or> n = 4 \<or> n = 5 \<or> n = 6 \<or> n = 7 \<or>
    n = 8 \<or> n = 9 \<or> n = 10 \<or> n = 11 \<or> n = 12 \<or> n = 13 \<or> n = 14 \<or> n = (15 :: nat)"
  by arith

lemma fib_bit:
  assumes "n < 16"
  shows "bit (fib_protection invert mode) n \<longleftrightarrow>
    [\<not> bit mode 7, \<not> bit mode 6, \<not> bit mode 7, \<not> bit mode 8, False, bit mode 9, bit mode 11,
     bit mode 10, bit mode 4 = invert, bit mode 3 = invert, bit mode 4 = invert,
     bit mode 5 = invert, bit mode 1 = invert, bit mode 0 = invert, bit mode 1 = invert,
     bit mode 2 = invert] ! n"
  using below_16 [OF assms] unfolding fib_protection_def Let_def protection_bits
  by (elim disjE) (simp_all add: pick_num bit_simps)

text \<open>C36: the protection bits that a file reports, given back with \<open>PSetProtect\<close>, restore its
  permissions and the bits for set-user, set-group and sticky, for both readings of the bits of
  group and others.\<close>

theorem protection_roundtrip:
  "protect_mode invert (fib_protection invert mode) old = (old AND IFMT) OR (mode AND 0xFFF)"
proof (rule bit_word_eqI)
  fix n assume "n < LENGTH(16)"
  then have "n < 16" by simp
  from below_16 [OF this]
  show "bit (protect_mode invert (fib_protection invert mode) old) n =
      bit ((old AND IFMT) OR (mode AND 0xFFF)) n"
    unfolding protect_mode_def Let_def protection_bits
    by (elim disjE) (simp_all add: pick_num fib_bit bit_simps)
qed

section \<open>Flush\<close>

text \<open>The superblock goes to the medium first, without a change to the rest.\<close>

definition sb_places_ok :: "fsys \<Rightarrow> bool" where
  "sb_places_ok s \<longleftrightarrow>
     frag_ok s (lfragno (sb s) (superblock_sector s * phys_sectorsize (dev s))) \<and>
     frag_ok s (csum_addr (sb s))"

lemma superblock_flush_writes:
  assumes "dev_ok s" "\<not> fs_ronly (sb s)" "sb_places_ok s"
  shows "\<exists>n d b. superblock_flush s = (n, s\<lparr>dev := d, sb := b\<rparr>) \<and>
    same_dev ((dev s)\<lparr>disk_sb := disk_sb d, disk_csp := disk_csp d\<rparr>) d \<and>
    b\<lparr>fs_time := x, fs_new_time := y, fs_fmod := z\<rparr> = (sb s)\<lparr>fs_time := x, fs_new_time := y, fs_fmod := z\<rparr> \<and>
    (fs_fmod (sb s) \<noteq> 0 \<longrightarrow> fs_time b = now (hnd s) \<and> fs_fmod b = 0 \<and>
       disk_sb d = b \<and> disk_csp d = fs_csp b)"
proof (cases "fs_fmod (sb s) = 0")
  case True
  then show ?thesis
    by (auto simp: superblock_flush_def same_dev_def intro!: exI [of _ "dev s"] exI [of _ "sb s"])
next
  case False
  define b where "b = stamp_sb (now (hnd s)) (sb s)"
  define u where "u = s\<lparr>sb := b\<rparr>"
  have b: "fs_csp b = fs_csp (sb s)" "\<not> fs_ronly b" "csum_addr b = csum_addr (sb s)"
    "lfragno b = lfragno (sb s)" "fs_time b = now (hnd s)" "fs_fmod b = 0"
    "b\<lparr>fs_time := x, fs_new_time := y, fs_fmod := z\<rparr> = (sb s)\<lparr>fs_time := x, fs_new_time := y, fs_fmod := z\<rparr>"
    using assms(2) by (auto simp: b_def stamp_sb_def csum_addr_def lfragno_def fun_eq_iff Let_def fs_updated_def)
  have ok: "frag_ok u = frag_ok s" "dev_ok u" "superblock_sector u = superblock_sector s"
    using assms(1) by (auto simp: u_def frag_ok_def sectoff_def dev_ok_def superblock_sector_def fun_eq_iff)
  obtain d where d: "write_request (lfragno b (superblock_sector u * phys_sectorsize (dev u))) u =
      (False, u\<lparr>dev := d\<rparr>)" "same_dev (dev u) d"
    using write_request_ok [OF ok(2), of "lfragno b (superblock_sector u * phys_sectorsize (dev u))"]
      assms(3) ok(1,3) b by (auto simp: sb_places_ok_def u_def)
  define t where "t = u\<lparr>dev := d\<lparr>disk_sb := b\<rparr>\<rparr>"
  have t: "frag_ok t = frag_ok s" "dev_ok t" "\<not> fs_ronly (sb t)"
    using d(2) ok b(2)
    by (auto simp: t_def frag_ok_def sectoff_def dev_ok_def fun_eq_iff same_dev_def u_def)
  obtain e where e: "write_request (csum_addr b) t = (False, t\<lparr>dev := e\<rparr>)" "same_dev (dev t) e"
    using write_request_ok [OF t(2) _ t(3), of "csum_addr b"] t(1) assms(3) b(3)
    by (auto simp: sb_places_ok_def)
  have "superblock_flush s = (1, s\<lparr>dev := e\<lparr>disk_csp := fs_csp b\<rparr>, sb := b\<rparr>)"
    using False assms(2) d(1) e(1)
    by (simp add: superblock_flush_def upd_sb_def Let_def write_sb_def write_csum_def t_def u_def
        flip: b_def)
  then show ?thesis
    using b d(2) e(2) False
    by (intro exI [of _ 1] exI [of _ "e\<lparr>disk_csp := fs_csp b\<rparr>"] exI [of _ b])
      (simp add: same_dev_def t_def u_def)
qed

text \<open>The stamps on the superblock matter neither to the frag cache nor to the groups.\<close>

lemma stamped_mounted:
  assumes "mounted s" "same_dev ((dev s)\<lparr>disk_sb := disk_sb d, disk_csp := disk_csp d\<rparr>) d"
    "fs_ronly b = fs_ronly (sb s)"
  shows "mounted (s\<lparr>dev := d, sb := b\<rparr>)" "view (s\<lparr>dev := d, sb := b\<rparr>) = view s"
proof -
  have "cache_inv (s\<lparr>dev := d, sb := b\<rparr>) S = cache_inv s S" for S
    using assms(2,3)
    by (simp add: cache_inv_def dev_good_def dev_ok_def frag_ok_def sectoff_def same_dev_def)
  then show "mounted (s\<lparr>dev := d, sb := b\<rparr>)" using assms(1) by (simp add: mounted_def)
  show "view (s\<lparr>dev := d, sb := b\<rparr>) = view s"
    using assms(2) by (intro ext) (simp add: view_def frag_buf_def same_dev_def split: option.splits)
qed

lemma stamped_cg_inv:
  assumes "cg_inv s E" "same_dev ((dev s)\<lparr>disk_sb := disk_sb d, disk_csp := disk_csp d\<rparr>) d"
    "fs_ronly b = fs_ronly (sb s)" "cgtod b = cgtod (sb s)" "fs_ncg b = fs_ncg (sb s)"
  shows "cg_inv (s\<lparr>dev := d, sb := b\<rparr>) E" "cg_view (s\<lparr>dev := d, sb := b\<rparr>) = cg_view s"
proof -
  have "cgx_of (s\<lparr>dev := d, sb := b\<rparr>) = cgx_of s" by (rule ext) (simp add: cgx_of_def cg_at_def)
  then show "cg_inv (s\<lparr>dev := d, sb := b\<rparr>) E"
    using assms by (simp add: cg_inv_def cg_layout_def cg_at_def dev_ok_def frag_ok_def
        sectoff_def same_dev_def)
  show "cg_view (s\<lparr>dev := d, sb := b\<rparr>) = cg_view s"
    using assms by (intro ext) (simp add: cg_view_def cg_at_def same_dev_def split: option.splits)
qed

lemma PFlush_syncs:
  assumes "mounted (fs v)" "cg_inv (fs v) E" "sb_places_ok (fs v)"
  shows "\<exists>w. PFlush v = Some ((), w) \<and>
    (\<forall>b. b \<noteq> 0 \<longrightarrow> disk (dev (fs w)) b = view (fs v) b) \<and>
    (\<forall>c < fs_ncg (sb (fs v)). disk_cg (dev (fs w)) (cgtod (sb (fs v)) c) = cg_view (fs v) c) \<and>
    (fs_fmod (sb (fs v)) \<noteq> 0 \<longrightarrow> disk_sb (dev (fs w)) = sb (fs w) \<and>
       disk_csp (dev (fs w)) = fs_csp (sb (fs v)) \<and> fs_time (sb (fs w)) = now (hnd (fs v)))"
proof -
  let ?s = "fs v"
  have "dev_ok ?s" "\<not> fs_ronly (sb ?s)" using assms(2) by (simp_all add: cg_inv_def)
  from superblock_flush_writes [OF this assms(3), of 0 0 0]
  obtain n d b where f: "superblock_flush ?s = (n, ?s\<lparr>dev := d, sb := b\<rparr>)"
    and d: "same_dev ((dev ?s)\<lparr>disk_sb := disk_sb d, disk_csp := disk_csp d\<rparr>) d"
    and b: "b\<lparr>fs_time := 0, fs_new_time := 0, fs_fmod := 0\<rparr> =
      (sb ?s)\<lparr>fs_time := 0, fs_new_time := 0, fs_fmod := 0\<rparr>"
    and new: "fs_fmod (sb ?s) \<noteq> 0 \<longrightarrow> fs_time b = now (hnd ?s) \<and> fs_fmod b = 0 \<and>
       disk_sb d = b \<and> disk_csp d = fs_csp b" by blast
  have same: "fs_ronly b = fs_ronly (sb ?s)" "fs_ncg b = fs_ncg (sb ?s)" "fs_csp b = fs_csp (sb ?s)"
    "cgtod b = cgtod (sb ?s)"
    using arg_cong [OF b, of fs_ronly] arg_cong [OF b, of fs_ncg] arg_cong [OF b, of fs_csp]
      arg_cong [OF b, of cgtod] by (simp_all add: cgtod_def cgstart_def cgbase_def fun_eq_iff)
  define t where "t = ?s\<lparr>dev := d, sb := b\<rparr>"
  note tm = stamped_mounted [OF assms(1) d same(1), folded t_def]
  note tc = stamped_cg_inv [OF assms(2) d same(1,4,2), folded t_def]
  obtain m u E' where u: "cache_cg_flush t = Some (m, u)" "cg_frame t u"
    "\<forall>c < fs_ncg (sb t). disk_cg (dev u) (cgtod (sb t) c) = cg_view t c"
    using cache_cg_flush_correct [OF tc(1)] by blast
  have um: "mounted u" "view u = view t" using cg_frame_mounted [OF u(2)] cg_frame_view [OF u(2)] tm(1) by simp_all
  then obtain S where "cache_inv u S" by (auto simp: mounted_def)
  from cache_flush_correct [OF this] obtain r w where w: "cache_flush u = Some (r, w)"
    "cache_frame u w" "\<forall>b. b \<noteq> 0 \<longrightarrow> disk (dev w) b = view u b" by blast
  have run: "PFlush v = Some ((), v\<lparr>fs := w\<rparr>)"
    by (simp add: PFlush_def on_fs_def f u(1) w(1) flip: t_def)
  have frame: "disk_cg (dev w) = disk_cg (dev u)" "disk_sb (dev w) = disk_sb d"
    "disk_csp (dev w) = disk_csp d" "sb w = b"
    using w(2) u(2) by (simp_all add: cache_frame_def cg_frame_def same_dev_def t_def)
  show ?thesis
    using run w(3) u(3) um(2) tm(2) tc(2) frame new same by (simp add: t_def)
qed

text \<open>C35: a flush packet brings everything to the medium: every frag that the cache has, the block
  of every cylinder group, and a changed superblock with the summary of the groups and the time
  of the flush.\<close>

theorem flush_durable:
  assumes "mounted (fs v)" "cg_inv (fs v) E" "sb_places_ok (fs v)"
  shows "\<exists>w. PFlush v = Some ((), w) \<and>
    (\<forall>b. b \<noteq> 0 \<longrightarrow> disk (dev (fs w)) b = view (fs v) b) \<and>
    (\<forall>c < fs_ncg (sb (fs v)). disk_cg (dev (fs w)) (cgtod (sb (fs v)) c) = cg_view (fs v) c) \<and>
    (fs_fmod (sb (fs v)) \<noteq> 0 \<longrightarrow> disk_sb (dev (fs w)) = sb (fs w) \<and>
       disk_csp (dev (fs w)) = fs_csp (sb (fs v)) \<and> fs_time (sb (fs w)) = now (hnd (fs v)))"
  by (rule PFlush_syncs [OF assms])

lemma flush_durable_witness:
  "\<exists>v w. PFlush v = Some ((), w) \<and> fs_time (disk_sb (dev (fs v))) = 900 \<and>
     fs_time (disk_sb (dev (fs w))) = 1000"
proof -
  define s where "s = opened (\<lambda>_. replicate 512 0) sample_cg"
  note o = opened_state [of "\<lambda>_. replicate 512 0", where g = sample_cg, folded s_def, simplified]
  have i: "cg_inv s []"
    using opened_cg_inv(1) [of "\<lambda>_. replicate 512 0" sample_cg] by (simp add: s_def sample_cg_def)
  obtain m where h: "hnd s = sample_hnd\<lparr>mem_count := m\<rparr>" using o(6) by blast
  define b where "b = (sb s)\<lparr>fs_fmod := 1\<rparr>"
  define t where "t = s\<lparr>dev := dev s, sb := b\<rparr>"
  have d: "same_dev ((dev s)\<lparr>disk_sb := disk_sb (dev s), disk_csp := disk_csp (dev s)\<rparr>) (dev s)"
    by (simp add: same_dev_def)
  have b: "fs_ronly b = fs_ronly (sb s)" "cgtod b = cgtod (sb s)" "fs_ncg b = fs_ncg (sb s)"
    by (simp_all add: b_def cgtod_def cgstart_def cgbase_def fun_eq_iff)
  have f: "fs (sample_volume t) = t" by (simp add: sample_volume_def)
  have "sb_places_ok t"
    by (simp add: sb_places_ok_def t_def b_def o(3,5) h frag_ok_def sectoff_def lfragno_def
        superblock_sector_def csum_addr_def fs_updated_def sample_def sample_sb_def sample_hnd_def)
  then obtain w where w: "PFlush (sample_volume t) = Some ((), w)" "disk_sb (dev (fs w)) = sb (fs w)"
    "fs_time (sb (fs w)) = now (hnd t)"
    using flush_durable [of "sample_volume t" "[]", unfolded f]
      stamped_mounted(1) [OF o(1) d b(1)] stamped_cg_inv(1) [OF i d b]
    by (auto simp: t_def b_def)
  have "fs_time (disk_sb (dev t)) = 900" "now (hnd t) = 1000"
    by (simp_all add: t_def o(5) h sample_def sample_sb_def sample_hnd_def)
  then show ?thesis
    using w by (intro exI [of _ "sample_volume t"] exI [of _ w]) (simp add: f)
qed

section \<open>Names\<close>

lemma last_part_rev:
  assumes "i \<le> length path" "\<And>j. Suc i \<le> j \<Longrightarrow> j < length path \<Longrightarrow> path ! j \<notin> {47, 58}"
  shows "drop (last_part path i) path =
    (if \<exists>c \<in> set (tl path). c \<in> {47, 58} then rev (takeWhile (\<lambda>c. c \<notin> {47, 58}) (rev path)) else path)"
  using assms
proof (induction i)
  case 0
  have "\<not> (\<exists>c \<in> set (tl path). c \<in> {47, 58})"
    using 0(2) by (auto simp: in_set_conv_nth nth_tl)
  then show ?case by simp
next
  case (Suc i)
  show ?case
  proof (cases "Suc i < length path \<and> path ! Suc i \<in> {47, 58}")
    case True
    then have here: "path = take (Suc i) path @ path ! Suc i # drop (Suc (Suc i)) path"
      by (simp add: id_take_nth_drop)
    have rest: "\<forall>c \<in> set (rev (drop (Suc (Suc i)) path)). c \<notin> {47, 58}"
      using Suc.prems(2) by (auto simp: in_set_conv_nth)
    have "rev path = rev (drop (Suc (Suc i)) path) @ path ! Suc i # rev (take (Suc i) path)"
      by (subst here) simp
    then have "takeWhile (\<lambda>c. c \<notin> {47, 58}) (rev path) = rev (drop (Suc (Suc i)) path)"
      using rest True by (auto simp: takeWhile_append)
    moreover have "\<exists>c \<in> set (tl path). c \<in> {47, 58}"
      using True nth_mem [of i "tl path"] by (auto simp: nth_tl)
    ultimately show ?thesis using True by simp
  next
    case False
    have "path ! j \<notin> {47, 58}" if "Suc i \<le> j" "j < length path" for j
      using that False Suc.prems(2) [of j] by (cases "j = Suc i") auto
    moreover have "drop (last_part path (Suc i)) path = drop (last_part path i) path"
      by (simp only: last_part.simps False if_False)
    ultimately show ?thesis using Suc.IH Suc.prems(1) by (simp del: last_part.simps)
  qed
qed

text \<open>C40: when a slash or colon stands behind the first byte of a path, the search for the last
  one, from the end of the path to the second byte, gives the last component as splitting the
  path there would. Otherwise the whole path is returned, also for a path like \<open>/x\<close> whose only
  separator is the first byte.\<close>

theorem last_component:
  "drop (last_part path (length path)) path =
    (if \<exists>c \<in> set (tl path). c \<in> {47, 58} then rev (takeWhile (\<lambda>c. c \<notin> {47, 58}) (rev path)) else path)"
  by (rule last_part_rev) simp_all

end
