(* ===== verification/Mount.thy ===== *)
theory Mount
  imports Packet_Objects
begin

text \<open>
  Opening and closing of the file system: the environment and the disk labels of fs/ufs.c, the
  search for a superblock, and the volume node of fs/system.c. The state of the handler around a
  volume is the record \<open>bffs\<close>. What the operating system has is a part of it: the mount entry
  \<open>env\<close>, the drive, and the raw sectors of the medium, as bytes and, where a superblock may be
  expected, in decoded form. \<open>heap\<close> and \<open>heap_sb\<close> are what fresh memory holds. The handler's own
  volume node is not in \<open>dos_devices\<close>; it is in the list of the system while \<open>VolNode\<close> is set.
  The texts for the status display (\<open>stat\<close>) are left out.
\<close>

section \<open>State\<close>

record dosenv =
  de_SizeBlock :: u32
  de_Surfaces :: u32
  de_BlocksPerTrack :: u32
  de_LowCyl :: u32
  de_HighCyl :: u32
  de_Reserved :: u32
  de_PreAlloc :: u32
  de_Mask :: u32
  de_NumBuffers :: int

text \<open>The answers of the device: whether it opens, \<open>io_Actual\<close> of \<open>TD_CHANGESTATE\<close>, if that
  succeeds, and of \<open>TD_PROTSTATUS\<close>.\<close>

record disk_drive =
  dr_opens :: bool
  dr_changestate :: "u32 option"
  dr_protstatus :: u32

record bffs =
  vol :: volume
  env :: dosenv
  drive :: disk_drive
  sectors :: "u32 \<Rightarrow> bytes"
  sb_at :: "u32 \<Rightarrow> superblock"
  heap :: "nat \<Rightarrow> u8"
  heap_sb :: superblock
  superblock_set :: bool
  dev_openfail :: int
  inhibited :: int
  fs_partition :: u32
  no_Sun_label :: bool
  no_BSD_label :: bool
  env_setup :: bool
  timing :: bool
  write_items :: int
  write_delay :: int
  timer_loops :: int

abbreviation bffs_fs :: "bffs \<Rightarrow> fsys" where
  "bffs_fs b \<equiv> fs (vol b)"

definition upd_bfs :: "(fsys \<Rightarrow> fsys) \<Rightarrow> bffs \<Rightarrow> bffs" where
  "upd_bfs f b = b\<lparr>vol := upd_fs f (vol b)\<rparr>"

definition upd_dev :: "(device \<Rightarrow> device) \<Rightarrow> bffs \<Rightarrow> bffs" where
  "upd_dev f b = upd_bfs (\<lambda>s. s\<lparr>dev := f (dev s)\<rparr>) b"

definition upd_hnd :: "(handler \<Rightarrow> handler) \<Rightarrow> bffs \<Rightarrow> bffs" where
  "upd_hnd f b = upd_bfs (\<lambda>s. s\<lparr>hnd := f (hnd s)\<rparr>) b"

definition in_vol :: "(volume \<Rightarrow> ('a \<times> volume) option) \<Rightarrow> bffs \<Rightarrow> ('a \<times> bffs) option" where
  "in_vol f b = map_option (\<lambda>(r, v). (r, b\<lparr>vol := v\<rparr>)) (f (vol b))"

definition alloc_b :: "bffs \<Rightarrow> bool \<times> bffs" where
  "alloc_b b = (let (ok, v) = alloc_vol (vol b) in (ok, b\<lparr>vol := v\<rparr>))"

text \<open>A failing packet.\<close>

definition refuse :: "int \<Rightarrow> bffs \<Rightarrow> bffs" where
  "refuse code b = b\<lparr>vol := fail code (vol b)\<rparr>"

section \<open>The device\<close>

text \<open>The logarithm of a sector size, by shifting.\<close>

fun sector_shift :: "nat \<Rightarrow> nat" where
  "sector_shift temp = (if temp div 2 \<noteq> 0 then Suc (sector_shift (temp div 2)) else 0)"

declare sector_shift.simps [simp del]

definition sector_bytes :: "u32 \<Rightarrow> u32" where
  "sector_bytes temp =
     (if temp \<in> {512, 1024, 2048, 4096, 8192, 16384} then temp else 512)"

text \<open>The settings of the mount entry, taken over once. The bits 3 and 4 turn on the comment
  options, which are not modelled.\<close>

definition setup_environment :: "bffs \<Rightarrow> bffs" where
  "setup_environment b =
     (let e = env b; fl = de_PreAlloc e; temp = sector_bytes (de_SizeBlock e * 4);
          b = upd_hnd (\<lambda>h. h\<lparr>tranmask := NOT (de_Mask e), resolve_symlinks := bit fl 0,
                           case_dependent := bit fl 1, unix_paths := bit fl 2\<rparr>) b;
          b = upd_dev (\<lambda>d. d\<lparr>phys_sectorsize := temp, phys_sectorshift := sector_shift (unat temp),
                psectmax := de_BlocksPerTrack e * (de_HighCyl e + 1) * de_Surfaces e\<rparr>) b
      in b\<lparr>env_setup := False,
           vol := (vol b)\<lparr>og_perm_invert := bit fl 5, opt_minfree := bit fl 6,
                          GMT := scast (ucast (drop_bit 8 fl AND 255) :: u8)\<rparr>\<rparr>)"

text \<open>1 is a failure; \<open>DoIO\<close> returns \<open>io_Error\<close>, so that \<open>io_Actual\<close> is taken in any case.\<close>

definition open_device :: "bffs \<Rightarrow> int \<times> bffs" where
  "open_device b =
     (if \<not> dr_opens (drive b) then (1, b)
      else if (case dr_changestate (drive b) of None \<Rightarrow> False | Some x \<Rightarrow> x \<noteq> 0) then (1, b)
      else
        let b = b\<lparr>vol := (vol b)\<lparr>physical_ro := dr_protstatus (drive b) \<noteq> 0\<rparr>\<rparr>;
            b = (if env_setup b then setup_environment b else b)
        in (0, upd_dev (\<lambda>d. d\<lparr>use_td64 := -1\<rparr>) b))"

section \<open>Disk labels\<close>

text \<open>The read of one sector; \<open>FSIZE\<close> is the size of a sector meanwhile.\<close>

definition sector_request :: "u32 \<Rightarrow> bffs \<Rightarrow> u32 option \<times> bffs" where
  "sector_request num b =
     (let (err, s) = read_request num (bffs_fs b)
      in (if err then None else Some (sectoff (bffs_fs b) num), b\<lparr>vol := (vol b)\<lparr>fs := s\<rparr>\<rparr>))"

definition part_end :: "dosenv \<Rightarrow> u32" where
  "part_end e = (de_HighCyl e + 1) * de_Surfaces e * de_BlocksPerTrack e"

definition set_psectoffset :: "u32 \<Rightarrow> bffs \<Rightarrow> bffs" where
  "set_psectoffset x b = upd_dev (\<lambda>d. d\<lparr>psectoffset := x\<rparr>) b"

definition part_off :: "bffs \<Rightarrow> u32" where
  "part_off b = psectoffset (dev (bffs_fs b))"

definition SunBB_MAGIC :: u16 where "SunBB_MAGIC = 0xDABE"
definition B44BB_MAGIC :: u32 where "B44BB_MAGIC = 0x82564557"

text \<open>True is a failure. The label has the heads at offset 436, the sectors of a track at 438,
  the partitions from 444 on and the magic number at 508.\<close>

definition sun_label_read :: "u32 \<Rightarrow> bffs \<Rightarrow> bool \<times> bffs" where
  "sun_label_read new_partition b =
     (if no_Sun_label b then (True, b)
      else if new_partition AND 8 \<noteq> 0 then (True, b\<lparr>no_Sun_label := True\<rparr>)
      else
        let part = new_partition AND 7; entry = 444 + 8 * unat part; (ok, b) = alloc_b b
        in if \<not> ok then (True, b)
           else
             let (a, b) = sector_request 0 b
             in case a of None \<Rightarrow> (True, b\<lparr>no_Sun_label := True\<rparr>)
                | Some a \<Rightarrow>
                    let label = sectors b a; sz = peek32 label (entry + 4)
                    in if peek16 label 508 \<noteq> SunBB_MAGIC \<or> sz = 0 \<or> sz > part_end (env b) - part_off b
                       then (True, b\<lparr>no_Sun_label := True\<rparr>)
                       else (False, (set_psectoffset (part_off b + peek32 label entry *
                              ucast (peek16 label 436) * ucast (peek16 label 438)) b)
                              \<lparr>fs_partition := part\<rparr>))"

text \<open>The memory from the start of a sector's buffer on; behind the sector lies what the heap
  holds.\<close>

definition sector_memory :: "bytes \<Rightarrow> (nat \<Rightarrow> u8) \<Rightarrow> nat \<Rightarrow> u8" where
  "sector_memory sector h i = (if i < length sector then sector ! i else h i)"

definition memory32 :: "(nat \<Rightarrow> u8) \<Rightarrow> nat \<Rightarrow> u32" where
  "memory32 m i = peek32 [m i, m (i + 1), m (i + 2), m (i + 3)] 0"

definition is_bsd_label :: "(nat \<Rightarrow> u8) \<Rightarrow> nat \<Rightarrow> bool" where
  "is_bsd_label m i \<longleftrightarrow> memory32 m i = B44BB_MAGIC \<and> memory32 m (i + 132) = B44BB_MAGIC"

text \<open>The places where the label is looked for: \<open>buffer\<close> points to words, so that a step of
  \<open>fs_offset\<close> is four bytes.\<close>

definition bsd_places :: "nat \<Rightarrow> nat list" where
  "bsd_places sectorsize = map (\<lambda>i. 4 * (16 * i)) [0..<(sectorsize - 276 + 15) div 16]"

text \<open>The result is that of the read when the label is not found: 0, a success.\<close>

definition bsd44_label_read :: "u32 \<Rightarrow> bffs \<Rightarrow> bool \<times> bffs" where
  "bsd44_label_read new_partition b =
     (if no_BSD_label b then (True, b)
      else if new_partition AND 16 \<noteq> 0 then (True, b\<lparr>no_BSD_label := True\<rparr>)
      else
        let part = new_partition AND 7; (ok, b) = alloc_b b
        in if \<not> ok then (True, b)
           else
             let (a, b) = sector_request 0 b
             in case a of None \<Rightarrow> (True, b\<lparr>no_BSD_label := True\<rparr>)
                | Some a \<Rightarrow>
                    let m = sector_memory (sectors b a) (heap b)
                    in case find (is_bsd_label m) (bsd_places (unat (phys_sectorsize (dev (bffs_fs b))))) of
                         None \<Rightarrow> (False, b\<lparr>no_BSD_label := True\<rparr>)
                       | Some i \<Rightarrow>
                           let entry = i + 148 + 16 * unat part; sz = memory32 m entry
                           in if sz = 0 \<or> sz > part_end (env b) - part_off b
                              then (False, b\<lparr>no_BSD_label := True\<rparr>)
                              else (False, (set_psectoffset (part_off b + memory32 m (entry + 4)) b)
                                     \<lparr>fs_partition := part\<rparr>))"

text \<open>True: neither label could be read.\<close>

definition partition_info_read :: "u32 \<Rightarrow> bffs \<Rightarrow> bool \<times> bffs" where
  "partition_info_read part b =
     (let e = env b;
          b = set_psectoffset (de_LowCyl e * de_Surfaces e * de_BlocksPerTrack e) b;
          b = upd_hnd (\<lambda>h. h\<lparr>fsize := phys_sectorsize (dev (bffs_fs b))\<rparr>) b;
          (sun, b) = sun_label_read part b
      in if sun then bsd44_label_read part b else (False, b))"

section \<open>The superblock\<close>

text \<open>The search of \<open>superblock_read\<close>, with the counter \<open>ssector\<close>: true when a superblock was
  found and memory for it was allocated. The search moves \<open>psectoffset\<close>.\<close>

partial_function (option) sb_search :: "nat \<Rightarrow> bffs \<Rightarrow> (bool \<times> bffs) option" where
  "sb_search ssector b =
     (if 248 \<le> ssector then Some (False, b)
      else
        let b = upd_hnd (\<lambda>h. h\<lparr>fsize := phys_sectorsize (dev (bffs_fs b))\<rparr>) b;
            (a, b) = sector_request (superblock_sector (bffs_fs b)) b
        in case a of None \<Rightarrow> Some (False, b)
           | Some a \<Rightarrow>
               let b = upd_hnd (\<lambda>h. h\<lparr>bsize := fs_bsize (sb_at b a)\<rparr>) b
               in if good_bsize (fs_bsize (sb_at b a)) then Some (alloc_b b)
                  else sb_search (Suc (sb_jump ssector)) (set_psectoffset (part_off b + 1) b))"

text \<open>True is a failure. The result of the second read, of the whole superblock, is ignored.\<close>

definition superblock_read :: "u32 \<Rightarrow> bffs \<Rightarrow> (bool \<times> bffs) option" where
  "superblock_read part b =
     (let (none, b) = partition_info_read part b;
          b = (if none then b\<lparr>fs_partition := 0\<rparr> else b)\<lparr>superblock_set := False\<rparr>;
          (ok, b) = alloc_b b
      in if \<not> ok then Some (True, b)
         else
           do {
             (found, b) \<leftarrow> sb_search 0 b;
             if \<not> found then Some (True, b)
             else do {
               let (a, b) = sector_request (superblock_sector (bffs_fs b)) b;
               let img = (case a of None \<Rightarrow> heap_sb b | Some a \<Rightarrow> sb_at b a);
               (err, s) \<leftarrow> superblock_setup (physical_ro (vol b)) img (bffs_fs b);
               Some (err, b\<lparr>vol := (vol b)\<lparr>fs := s\<rparr>, superblock_set := \<not> err\<rparr>)
             }
           })"

definition MAX_PART :: nat where "MAX_PART = 8"

text \<open>The search through the other partitions; 2 is a failure.\<close>

fun scan_parts :: "nat \<Rightarrow> bffs \<Rightarrow> (int \<times> bffs) option" where
  "scan_parts n b =
     do {
       (err, b) \<leftarrow> superblock_read (of_nat (MAX_PART - n)) b;
       if \<not> err then Some (0, b)
       else case n of 0 \<Rightarrow> Some (2, b) | Suc m \<Rightarrow> scan_parts m b
     }"

declare scan_parts.simps [simp del]

definition find_superblock :: "bffs \<Rightarrow> (int \<times> bffs) option" where
  "find_superblock b =
     do {
       let b = b\<lparr>no_Sun_label := False, no_BSD_label := False\<rparr>;
       (err, b) \<leftarrow> superblock_read (de_Reserved (env b)) b;
       if \<not> err then Some (0, b)
       else if no_Sun_label b \<and> no_BSD_label b then Some (2, b)
       else scan_parts MAX_PART b
     }"

section \<open>The volume node\<close>

text \<open>The last component of the name that the file system was last mounted as, with the slashes
  behind it; \<open>None\<close> when a byte is no printing character (\<open>char\<close> is signed) or the name has
  no end. The loop looks for the end before it looks at the bound, so that a name that fills the
  field may end with the first byte of the field \<open>fs_cgrotor\<close> behind it.\<close>

definition mount_name :: "superblock \<Rightarrow> bytes option" where
  "mount_name b =
     (let fsmnt = fs_fsmnt b @ [ucast (drop_bit 24 (fs_cgrotor b))];
          str = takeWhile (\<lambda>c. c \<noteq> 0) fsmnt;
          body = rev (dropWhile (\<lambda>c. c = 47) (rev str));
          tail = rev (takeWhile (\<lambda>c. c = 47) (rev str))
      in if length str = length fsmnt \<or> (\<exists>c \<in> set str. c < 32 \<or> 128 \<le> c) then None
         else Some (if body = [] then drop 1 str
                    else rev (takeWhile (\<lambda>c. c \<noteq> 47) (rev body)) @ tail))"

fun decimal :: "nat \<Rightarrow> bytes" where
  "decimal n = (if n < 10 then [of_nat (48 + n)] else decimal (n div 10) @ [of_nat (48 + n mod 10)])"

declare decimal.simps [simp del]

text \<open>The search for a name that no device has: \<open>count\<close> is appended to \<open>base\<close> and increased until
  the name is free.\<close>

partial_function (option) free_name :: "(bytes \<Rightarrow> bool) \<Rightarrow> bytes \<Rightarrow> bytes \<Rightarrow> u32 \<Rightarrow> bytes option"
where
  "free_name used base name cnt =
     (if used name then free_name used base (base @ decimal (unat cnt)) (cnt + 1) else Some name)"

definition name_taken :: "dos_device list \<Rightarrow> bytes \<Rightarrow> bool" where
  "name_taken devs name \<longleftrightarrow> list_ex (\<lambda>d. streqv (cstring (dl_Name d) 0) name) devs"

definition fsname :: "bffs \<Rightarrow> bytes option" where
  "fsname b =
     (if \<not> superblock_set b then Some [78, 85, 76, 76]
      else case mount_name (sb (bffs_fs b)) of
        Some (c # cs) \<Rightarrow> Some (c # cs)
      | _ \<Rightarrow>
          let base = [66, 70, 70, 83, 97 + ucast (fs_partition b)]
          in free_name (name_taken (dos_devices (vol b))) base base 0)"

text \<open>The address of the node is the next one that no lock has; of its fields only the name is
  kept here. Its date comes from the superblock, which is followed without a check.\<close>

definition NewVolNode :: "bffs \<Rightarrow> (unit \<times> bffs) option" where
  "NewVolNode b =
     (if VolNode (vol b) \<noteq> None then Some ((), b)
      else
        let (ok, b) = alloc_b b
        in if \<not> ok then Some ((), b)
           else
             let (ok, b) = alloc_b b
             in if \<not> ok then Some ((), b)
                else if \<not> superblock_set b then None
                else do {
                  name \<leftarrow> fsname b;
                  Some ((), b\<lparr>vol := (vol b)\<lparr>VolNode := Some (Suc (lock_brk (vol b))),
                         lock_brk := Suc (lock_brk (vol b)), lock_list := [],
                         volumename := name @ 0 # map (heap b) [length name + 1..<MAXMNTLEN - 1]\<rparr>\<rparr>)
                })"

definition RemoveVolNode :: "bffs \<Rightarrow> bffs" where
  "RemoveVolNode b =
     (if VolNode (vol b) = None then b
      else b\<lparr>vol := (vol b)\<lparr>VolNode := None, lock_list := []\<rparr>\<rparr>)"

section \<open>Opening and closing\<close>

definition ERROR_NOT_A_DOS_DISK :: int where "ERROR_NOT_A_DOS_DISK = 225"

definition motor_off :: "bffs \<Rightarrow> bffs" where
  "motor_off b = upd_dev (\<lambda>d. d\<lparr>motor_is_on := False\<rparr>) b"

definition motor_on :: "bffs \<Rightarrow> bffs" where
  "motor_on b = upd_dev (\<lambda>d. d\<lparr>motor_is_on := True\<rparr>) b"

text \<open>True when the handler is inhibited; a file system that cannot be opened is no failure
  here.\<close>

definition open_filesystem :: "bffs \<Rightarrow> (bool \<times> bffs) option" where
  "open_filesystem b =
     (if inhibited b \<noteq> 0 then Some (True, refuse ERROR_DEVICE_NOT_MOUNTED b)
      else
        do {
          let (f, b) = (if dev_openfail b = 1 then open_device b else (dev_openfail b, b));
          let b = b\<lparr>dev_openfail := f\<rparr>;
          (f, b) \<leftarrow> (if dev_openfail b \<noteq> 1 then find_superblock b else Some (1, b));
          let b = b\<lparr>dev_openfail := f\<rparr>;
          (u, b) \<leftarrow>
            (if dev_openfail b \<noteq> 0 then Some ((), refuse ERROR_NOT_A_DOS_DISK b)
             else do {
               (u, b) \<leftarrow> in_vol (on_fs (open_cache (de_NumBuffers (env b)))) b;
               NewVolNode (RemoveVolNode b)
             });
          Some (False, motor_off b)
        })"

text \<open>What \<open>close_filesystem\<close> writes.\<close>

definition sync_filesystem :: "fsys \<Rightarrow> (unit \<times> fsys) option" where
  "sync_filesystem s =
     do {
       (r, s) \<leftarrow> cache_flush s;
       (r, s) \<leftarrow> cache_cg_flush s;
       let s = upd_sb (\<lambda>x. x\<lparr>fs_clean := 1, fs_fmod := fs_fmod x + 1\<rparr>) s;
       let (r, s) = superblock_flush s;
       Some ((), s)
     }"

definition close_filesystem :: "bffs \<Rightarrow> (unit \<times> bffs) option" where
  "close_filesystem b =
     (if inhibited b \<noteq> 0 then Some ((), b)
      else
        do {
          (u, b) \<leftarrow>
            (if superblock_set b then do {
               (u, b) \<leftarrow> in_vol (on_fs sync_filesystem) b;
               (u, b) \<leftarrow> in_vol (on_fs close_cache) b;
               Some ((), b\<lparr>superblock_set := False\<rparr>)
             }
             else Some ((), b));
          Some ((), RemoveVolNode ((motor_off b)\<lparr>dev_openfail := 1\<rparr>))
        })"

end
