(* ===== verification/Handler_Loop.thy ===== *)
theory Handler_Loop
  imports Mount Dispatch Packet_Steps
begin

text \<open>
  The handler process: the packets of fs/packets.c that open and close the file system, and the
  main loop of fs/handler.c with its timer. A packet comes with its type and with its decoded
  arguments; the results that a routine writes to the client's memory are left out here.
\<close>

section \<open>Packets on the file system as a whole\<close>

text \<open>Closing the files reads inodes when a file is open for writing, which needs a
  superblock.\<close>

definition open_for_writing :: "volume \<Rightarrow> bool" where
  "open_for_writing v \<longleftrightarrow> VolNode v \<noteq> None \<and>
     list_ex (\<lambda>l. case fl_Fileh (locks v l) of None \<Rightarrow> False
                  | Some h \<Rightarrow> access_mode (files v h) = MODE_WRITE) (lock_list v)"

definition close_all_files :: "bffs \<Rightarrow> (unit \<times> bffs) option" where
  "close_all_files b =
     (if \<not> superblock_set b \<and> open_for_writing (vol b) then None else in_vol close_files b)"

definition PInhibit :: "bool \<Rightarrow> bffs \<Rightarrow> (unit \<times> bffs) option" where
  "PInhibit do_inhibit b =
     (if do_inhibit then
        do {
          (u, b) \<leftarrow> (if inhibited b = 0 then do {
                      (u, b) \<leftarrow> close_all_files b;
                      close_filesystem b
                    }
                    else Some ((), b));
          Some ((), b\<lparr>inhibited := inhibited b + 1\<rparr>)
        }
      else if inhibited b = 0 then Some ((), refuse 0 b)
      else
        let b = b\<lparr>inhibited := inhibited b - 1\<rparr>
        in if inhibited b = 0 then do { (r, b) \<leftarrow> open_filesystem b; Some ((), b) }
           else Some ((), b))"

definition PDiskChange :: "bffs \<Rightarrow> (unit \<times> bffs) option" where
  "PDiskChange b =
     do {
       (u, b) \<leftarrow> in_vol (on_fs cache_full_invalidate) b;
       (u, b) \<leftarrow> close_all_files b;
       (u, b) \<leftarrow> close_filesystem b;
       (r, b) \<leftarrow> open_filesystem b;
       Some ((), b)
     }"

definition PCurrentVolume :: "bffs \<Rightarrow> (unit \<times> bffs) option" where
  "PCurrentVolume b =
     do {
       (u, b) \<leftarrow> (if VolNode (vol b) = None then NewVolNode b else Some ((), b));
       Some ((), b\<lparr>vol := set_Res1 (BADDR (VolNode (vol b))) (vol b)\<rparr>)
     }"

definition PIsFilesystem :: "bffs \<Rightarrow> bffs" where
  "PIsFilesystem b =
     (if dev_openfail b \<noteq> 0 then refuse ERROR_DEVICE_NOT_MOUNTED b else b)"

text \<open>The result is the address \<open>stat\<close> of the status block, or \<open>dn_Startup\<close> of the device
  node.\<close>

definition PFilesysStats :: "u32 \<Rightarrow> bffs \<Rightarrow> bffs" where
  "PFilesysStats stat b = upd_bfs (set_Res2 (uint stat)) b"

definition PGetDiskFSSM :: "u32 \<Rightarrow> bffs \<Rightarrow> bffs" where
  "PGetDiskFSSM startup b = b\<lparr>vol := set_Res1 startup (vol b)\<rparr>"

definition flush_all :: "bffs \<Rightarrow> (unit \<times> bffs) option" where
  "flush_all b = (if superblock_set b then in_vol PFlush b else Some ((), b))"

section \<open>Requests\<close>

datatype request =
    RLocate "nat option" bytes int u32
  | RRename_Disk bytes
  | RFree_Lock "nat option"
  | RDelete "nat option" bytes u32
  | RRename "nat option" bytes "nat option" bytes u32
  | RMore_Cache int
  | RCopy_Dir "nat option"
  | RSet_Protect "nat option" bytes u32 u32
  | RCreate_Dir "nat option" bytes u32
  | RExamine int "nat option" fileinfo bool u32
  | RExamine_Next int "nat option" fileinfo bool
  | RExamine_Fh int nat fileinfo u32
  | RDevice_Info
  | RFlush
  | RParent "nat option"
  | RInhibit bool
  | RDisk_Change
  | RSet_Date "nat option" bytes datestamp u32
  | RSame_Lock "nat option" "nat option"
  | RRead nat bytes u32 u32
  | RWrite nat bytes u32 u32
  | RFind_Input "nat option" bytes u32
  | RFind_Output "nat option" bytes u32
  | REnd nat
  | RCreate_Object "nat option" bytes int u32 "nat option" bytes u32
  | RMake_Link "nat option" bytes "nat option" bytes bool u32
  | RSet_Owner "nat option" bytes u32 u32
  | RIs_Filesystem
  | RSeek nat u32 int
  | RRead_Link "nat option" bytes int u32
  | RSet_File_Size
  | RSet_Dates int "nat option" bytes datestamp u32
  | RSet_Times int "nat option" bytes "u32 \<times> u32" u32
  | RGet_Perms "nat option" bytes u32
  | RSet_Perms "nat option" bytes u32 u32
  | RFilesys_Stats u32
  | RGet_FSSM u32
  | RFree_FSSM
  | RCurrent_Volume
  | RWrite_Protect bool
  | RFormat
  | RNil
  | RUnimplemented
  | RDie

fun routine_of :: "request \<Rightarrow> routine" where
  "routine_of (RLocate l n m a) = Locate_Object"
| "routine_of (RRename_Disk n) = Rename_Disk"
| "routine_of (RFree_Lock l) = Free_Lock"
| "routine_of (RDelete l n a) = Delete_Object"
| "routine_of (RRename l n l' n' a) = Rename_Object"
| "routine_of (RMore_Cache n) = More_Cache"
| "routine_of (RCopy_Dir l) = Copy_Dir"
| "routine_of (RSet_Protect l n m a) = Set_Protect"
| "routine_of (RCreate_Dir l n a) = Create_Dir"
| "routine_of (RExamine t l i f a) = Examine_Object"
| "routine_of (RExamine_Next t l i f) = Examine_Next"
| "routine_of (RExamine_Fh t h i a) = Examine_Fh"
| "routine_of RDevice_Info = Device_Info"
| "routine_of RFlush = Flush"
| "routine_of (RParent l) = Parent"
| "routine_of (RInhibit i) = Inhibit"
| "routine_of RDisk_Change = Disk_Change"
| "routine_of (RSet_Date l n d a) = Set_Date"
| "routine_of (RSame_Lock l l') = Same_Lock"
| "routine_of (RRead h b n a) = Read"
| "routine_of (RWrite h b n a) = Write"
| "routine_of (RFind_Input l n a) = Find_Input"
| "routine_of (RFind_Output l n a) = Find_Output"
| "routine_of (REnd h) = End_File"
| "routine_of (RCreate_Object l n t d l' n' a) = Create_Object"
| "routine_of (RMake_Link l n l' n' s a) = Make_Link"
| "routine_of (RSet_Owner l n o' a) = Set_Owner"
| "routine_of RIs_Filesystem = Is_Filesystem"
| "routine_of (RSeek h n m) = Seek"
| "routine_of (RRead_Link l n s a) = Read_Link"
| "routine_of RSet_File_Size = Set_File_Size"
| "routine_of (RSet_Dates p l n d a) = Set_Dates"
| "routine_of (RSet_Times p l n t a) = Set_Times"
| "routine_of (RGet_Perms l n a) = Get_Perms"
| "routine_of (RSet_Perms l n m a) = Set_Perms"
| "routine_of (RFilesys_Stats x) = Filesys_Stats"
| "routine_of (RGet_FSSM x) = Get_Disk_FSSM"
| "routine_of RFree_FSSM = Free_Disk_FSSM"
| "routine_of RCurrent_Volume = Current_Volume"
| "routine_of (RWrite_Protect p) = Write_Protect"
| "routine_of RFormat = Format"
| "routine_of RNil = Nil"
| "routine_of RUnimplemented = Unimplemented"
| "routine_of RDie = Die"

text \<open>A routine that works on the volume alone; without a superblock the ones that need it
  follow a NULL pointer.\<close>

definition plain :: "(volume \<Rightarrow> ('a \<times> volume) option) \<Rightarrow> bffs \<Rightarrow> (unit \<times> bffs) option" where
  "plain f b = map_option (\<lambda>(r, b). ((), b)) (in_vol f b)"

definition on_sb :: "(volume \<Rightarrow> ('a \<times> volume) option) \<Rightarrow> bffs \<Rightarrow> (unit \<times> bffs) option" where
  "on_sb f b = (if superblock_set b then plain f b else None)"

abbreviation pure_step :: "(volume \<Rightarrow> volume) \<Rightarrow> volume \<Rightarrow> (unit \<times> volume) option" where
  "pure_step f v \<equiv> Some ((), f v)"

fun perform :: "request \<Rightarrow> bffs \<Rightarrow> (unit \<times> bffs) option" where
  "perform (RLocate l n m a) b = on_sb (PLocateObject l n m a) b"
| "perform (RRename_Disk n) b = on_sb (PRenameDisk n) b"
| "perform (RFree_Lock l) b = plain (PFreeLock l) b"
| "perform (RDelete l n a) b = on_sb (PDeleteObject l n a) b"
| "perform (RRename l n l' n' a) b = on_sb (PRenameObject l n l' n' a) b"
| "perform (RMore_Cache n) b = plain (PMoreCache n) b"
| "perform (RCopy_Dir l) b = plain (PCopyDir l) b"
| "perform (RSet_Protect l n m a) b = on_sb (PSetProtect l n m a) b"
| "perform (RCreate_Dir l n a) b = on_sb (PCreateDir l n a) b"
| "perform (RExamine t l i f a) b = on_sb (PExamineObject t l i f a) b"
| "perform (RExamine_Next t l i f) b = on_sb (PExamineNext t l i f) b"
| "perform (RExamine_Fh t h i a) b = on_sb (PExamineFh t h i a) b"
| "perform RDevice_Info b = on_sb (\<lambda>v. Some (PDeviceInfo v, v)) b"
| "perform RFlush b = flush_all b"
| "perform (RParent l) b = on_sb (PParent l) b"
| "perform (RInhibit i) b = PInhibit i b"
| "perform RDisk_Change b = PDiskChange b"
| "perform (RSet_Date l n d a) b = on_sb (PSetDate l n d a) b"
| "perform (RSame_Lock l l') b = plain (pure_step (PSameLock l l')) b"
| "perform (RRead h bs n a) b = on_sb (PRead h bs n a) b"
| "perform (RWrite h bs n a) b = on_sb (PWrite h bs n a) b"
| "perform (RFind_Input l n a) b = on_sb (PFindInput l n a) b"
| "perform (RFind_Output l n a) b = on_sb (PFindOutput l n a) b"
| "perform (REnd h) b = on_sb (PEnd h) b"
| "perform (RCreate_Object l n t d l' n' a) b = on_sb (PCreateObject l n t d l' n' a) b"
| "perform (RMake_Link l n l' n' s a) b = on_sb (PMakeLink l n l' n' s a) b"
| "perform (RSet_Owner l n o' a) b = on_sb (PSetOwner l n o' a) b"
| "perform RIs_Filesystem b = Some ((), PIsFilesystem b)"
| "perform (RSeek h n m) b = on_sb (PSeek h n m) b"
| "perform (RRead_Link l n s a) b = on_sb (PReadLink l n s a) b"
| "perform RSet_File_Size b = plain (pure_step PSetFileSize) b"
| "perform (RSet_Dates p l n d a) b = on_sb (PSetDates p l n d a) b"
| "perform (RSet_Times p l n t a) b = on_sb (PSetTimes p l n t a) b"
| "perform (RGet_Perms l n a) b = on_sb (PGetPerms l n a) b"
| "perform (RSet_Perms l n m a) b = on_sb (PSetPerms l n m a) b"
| "perform (RFilesys_Stats x) b = Some ((), PFilesysStats x b)"
| "perform (RGet_FSSM x) b = Some ((), PGetDiskFSSM x b)"
| "perform RFree_FSSM b = Some ((), b)"
| "perform RCurrent_Volume b = PCurrentVolume b"
| "perform (RWrite_Protect p) b = on_sb (pure_step (PWriteProtect p)) b"
| "perform RFormat b = on_sb (pure_step PFormat) b"
| "perform RNil b = Some ((), b)"
| "perform RUnimplemented b = plain (pure_step PUnimplemented) b"
| "perform RDie b = plain (pure_step PDie) b"

section \<open>The main loop\<close>

text \<open>\<open>NameHandler\<close> takes the name of the handler from the counted string of the startup packet:
  one byte less than it has, up to a colon, in lower case.\<close>

definition NameHandler :: "bytes \<Rightarrow> bytes" where
  "NameHandler name =
     map to_lower (before_colon (cstring (take (unat (hd name) - 1) (tl name)) 0))"

definition dirty_frags :: "bffs \<Rightarrow> int" where
  "dirty_frags b = cache_item_dirty (fc (bffs_fs b))"

definition motor_runs :: "bffs \<Rightarrow> bool" where
  "motor_runs b = motor_is_on (dev (bffs_fs b))"

text \<open>The timer policy behind the label \<open>endpack\<close>.\<close>

definition after_packet :: "bffs \<Rightarrow> bffs" where
  "after_packet b =
     (if motor_runs b \<or> dirty_frags b \<noteq> 0 then
        let b = (motor_on b)\<lparr>write_delay := timer_loops b\<rparr>
        in if timing b then b else b\<lparr>write_items := dirty_frags b, timing := True\<rparr>
      else b)"

text \<open>One packet: its type must belong to the routine that its arguments are for.\<close>

definition serve :: "int \<times> request \<Rightarrow> bffs \<Rightarrow> (unit \<times> bffs) option" where
  "serve p b =
     do {
       let b = b\<lparr>vol := arrive (vol b)\<rparr>;
       (u, b) \<leftarrow>
         (case packet_lookup (fst p) of
            None \<Rightarrow> Some ((), refuse ERROR_ACTION_NOT_KNOWN b)
          | Some (r, check) \<Rightarrow>
              do {
                (stop, b) \<leftarrow> (if dev_openfail b \<noteq> 0 \<and> check then open_filesystem b
                             else Some (False, b));
                if stop then Some ((), b)
                else if r = routine_of (snd p) then perform (snd p) b
                else None
              });
       Some ((), after_packet b)
     }"

fun serve_all :: "(int \<times> request) list \<Rightarrow> bffs \<Rightarrow> (unit \<times> bffs) option" where
  "serve_all [] b = Some ((), b)"
| "serve_all (p # ps) b = do { (u, b) \<leftarrow> serve p b; serve_all ps b }"

definition timer_tick :: "bffs \<Rightarrow> (unit \<times> bffs) option" where
  "timer_tick b =
     (if dirty_frags b > write_items b \<and> write_delay b > 0
      then Some ((), b\<lparr>write_items := dirty_frags b, write_delay := write_delay b - 1, timing := True\<rparr>)
      else do { (u, b) \<leftarrow> flush_all b; Some ((), b\<lparr>timing := False\<rparr>) })"

text \<open>The message port of the process and the signals that \<open>Wait\<close> waits for.\<close>

record port =
  queue :: "(int \<times> request) list"
  dos_signal :: bool
  timer_signal :: bool
  change_signal :: bool

definition NT_MESSAGE :: nat where "NT_MESSAGE = 5"

text \<open>One pass of the loop: \<open>Wait\<close> takes the signals; \<open>msgtype\<close>, the type of the first message,
  is the number of packets that are served at most.\<close>

definition loop_pass :: "port \<times> bffs \<Rightarrow> (port \<times> bffs) option" where
  "loop_pass pb =
     (let (p, b) = pb
      in do {
           (u, b) \<leftarrow> (if timer_signal p then timer_tick b else Some ((), b));
           (u, b) \<leftarrow> (if change_signal p then PDiskChange b else Some ((), b));
           (u, b) \<leftarrow>
             (if queue p = [] then
                Some ((), if \<not> timing b \<and> motor_runs b then motor_off b else b)
              else serve_all (take NT_MESSAGE (queue p)) b);
           Some (p\<lparr>queue := drop NT_MESSAGE (queue p), dos_signal := False,
                   timer_signal := False, change_signal := False\<rparr>, b)
         })"

text \<open>The system puts a message into the port and sets the signal; the timer expires when it
  was started; a pass begins when a signal is there. The steps are those of one activation of the
  loop, which begins with \<open>timing = 0\<close>: there the variable \<open>timing\<close> says that a request is with the
  timer. After the end of the handler (\<open>shutdown\<close>) it is not cleared, so that a handler that becomes
  active again may have it set and no request.\<close>

inductive loop_step :: "port \<times> bffs \<Rightarrow> port \<times> bffs \<Rightarrow> bool" where
  put_message: "loop_step (p, b) (p\<lparr>queue := queue p @ [m], dos_signal := True\<rparr>, b)"
| expire: "timing b \<Longrightarrow> loop_step (p, b) (p\<lparr>timer_signal := True\<rparr>, b)"
| change_disk: "loop_step (p, b) (p\<lparr>change_signal := True\<rparr>, b)"
| pass: "receiving_packets (hnd (bffs_fs b)) \<Longrightarrow>
    dos_signal p \<or> timer_signal p \<or> change_signal p \<Longrightarrow> loop_pass (p, b) = Some (q, c) \<Longrightarrow>
    loop_step (p, b) (q, c)"

text \<open>What follows the loop.\<close>

definition shutdown :: "bffs \<Rightarrow> (unit \<times> bffs) option" where
  "shutdown b =
     do {
       (u, b) \<leftarrow> close_all_files b;
       (u, b) \<leftarrow> close_filesystem b;
       Some ((), (RemoveVolNode b)\<lparr>inhibited := 1\<rparr>)
     }"

text \<open>A packet to the handler after that: true when it becomes active again.\<close>

definition dead_packet :: "request \<Rightarrow> bffs \<Rightarrow> (bool \<times> bffs) option" where
  "dead_packet rq b =
     (case rq of
        RFilesys_Stats x \<Rightarrow>
          do {
            (stop, b) \<leftarrow> open_filesystem (b\<lparr>inhibited := 0\<rparr>);
            Some (\<not> stop, if stop then b else after_packet (upd_hnd (\<lambda>h. h\<lparr>receiving_packets := True\<rparr>) b))
          }
      | RFree_Lock l \<Rightarrow> do { (u, b) \<leftarrow> plain (FreeLock l) b; Some (False, b) }
      | REnd h \<Rightarrow> do { (u, b) \<leftarrow> on_sb (PEnd h) b; Some (False, b) }
      | _ \<Rightarrow> Some (False, b))"

end
