(* ===== verification/Handler_Correct.thy ===== *)
theory Handler_Correct
  imports Handler_Loop
begin

text \<open>
  What holds whenever the handler waits: a file system that is not open has nothing in the cache
  that waits to be written, and as long as there is something, or the motor runs, so does the
  timer.
\<close>

section \<open>The count of dirty frags\<close>

lemma item_dirty_links [simp]:
  "cache_item_dirty (upd_node n f c) = cache_item_dirty c"
  "cache_item_dirty (stack_add n c) = cache_item_dirty c"
  "cache_item_dirty (stack_remove n c) = cache_item_dirty c"
  "cache_item_dirty (hash_add n c) = cache_item_dirty c"
  "cache_item_dirty (hash_remove n c) = cache_item_dirty c"
  "cache_item_dirty (cache_free n c) = cache_item_dirty c"
  by (simp_all add: upd_node_def stack_add_def stack_remove_def hash_add_def hash_remove_def
      cache_free_def Let_def split: option.splits)

lemma item_dirty_cache [simp]:
  "cache_item_dirty (cache_add n c) = cache_item_dirty c"
  "cache_item_dirty (cache_remove n c) = cache_item_dirty c"
  by (simp_all add: cache_add_def cache_remove_def Let_def)

lemma item_dirty_refresh: "cache_refresh n c = Some d \<Longrightarrow> cache_item_dirty d = cache_item_dirty c"
  by (auto simp: cache_refresh_def split: if_splits)

lemma flushed_clean: "cache_flush s = Some (r, t) \<Longrightarrow> cache_item_dirty (fc t) = 0"
  by (auto simp: cache_flush_def Let_def bind_eq_Some_conv split_beta split: if_splits)

lemma item_dirty_grow:
  "cache_grow k s = (g, t) \<Longrightarrow> cache_item_dirty (fc t) = cache_item_dirty (fc s)"
proof (induction k arbitrary: s)
  case 0
  then show ?case by simp
next
  case (Suc k)
  have alloc: "cache_item_dirty (fc (snd (cache_alloc s))) = cache_item_dirty (fc s)" for s
    by (simp add: cache_alloc_def alloc_mem_def Let_def)
  obtain node gu u where u: "cache_alloc_retry s = (node, gu, u)" by (cases "cache_alloc_retry s")
  have "cache_item_dirty (fc u) = cache_item_dirty (fc s)"
    using u alloc [of s] alloc [of "snd (cache_alloc s)"]
    by (auto simp: cache_alloc_retry_def stop_packets_def set_ronly_def upd_sb_def Let_def split_beta
        split: option.splits if_splits)
  then show ?case using Suc u by (auto split: option.splits)
qed

lemma item_dirty_rotate:
  "shrink_rotate node s = Some t \<Longrightarrow> cache_item_dirty (fc s) = 0 \<Longrightarrow> cache_item_dirty (fc t) = 0"
proof -
  have "cache_item_dirty (fc s) = 0 \<longrightarrow> cache_item_dirty (fc t) = 0"
    if "shrink_rotate node s = Some t" for node s t
    using that
    by (elim shrink_rotate.raw_induct [rotated])
      (auto simp: bind_eq_Some_conv item_dirty_refresh flushed_clean split: option.splits if_splits)
  then show "shrink_rotate node s = Some t \<Longrightarrow> cache_item_dirty (fc s) = 0 \<Longrightarrow> cache_item_dirty (fc t) = 0"
    by blast
qed

lemma item_dirty_shrink:
  "cache_shrink k s = Some t \<Longrightarrow> cache_item_dirty (fc s) = 0 \<Longrightarrow> cache_item_dirty (fc t) = 0"
proof (induction k arbitrary: s)
  case 0
  then show ?case by simp
next
  case (Suc k)
  then show ?case
    using item_dirty_rotate by (auto simp: bind_eq_Some_conv split: option.splits)
qed

lemma item_dirty_adjust:
  assumes "cache_adjust s = Some (r, t)" "cache_item_dirty (fc s) = 0"
  shows "cache_item_dirty (fc t) = 0"
  using assms item_dirty_grow item_dirty_shrink
  by (fastforce simp: cache_adjust_def Let_def bind_eq_Some_conv split: prod.splits if_splits)

section \<open>What opening leaves alone\<close>

definition lifecycle :: "bffs \<Rightarrow> frag_cache \<times> int \<times> int \<times> bool \<times> int \<times> int \<times> int" where
  "lifecycle b = (fc (bffs_fs b), inhibited b, dev_openfail b, timing b, write_items b, write_delay b,
     timer_loops b)"

lemma lifecycle_upd [simp]:
  "lifecycle (upd_dev f b) = lifecycle b" "lifecycle (upd_hnd g b) = lifecycle b"
  "lifecycle (set_psectoffset x b) = lifecycle b" "lifecycle (b\<lparr>superblock_set := y\<rparr>) = lifecycle b"
  "lifecycle (b\<lparr>fs_partition := p\<rparr>) = lifecycle b" "lifecycle (b\<lparr>no_Sun_label := z\<rparr>) = lifecycle b"
  "lifecycle (b\<lparr>no_BSD_label := z\<rparr>) = lifecycle b" "lifecycle (b\<lparr>env_setup := z\<rparr>) = lifecycle b"
  by (simp_all add: lifecycle_def upd_dev_def upd_hnd_def upd_bfs_def upd_fs_def set_psectoffset_def)

lemma superblock_set_upd [simp]:
  "superblock_set (upd_dev f b) = superblock_set b" "superblock_set (upd_hnd g b) = superblock_set b"
  "superblock_set (set_psectoffset x b) = superblock_set b"
  by (simp_all add: upd_dev_def upd_hnd_def upd_bfs_def set_psectoffset_def)

lemma fc_read_request [simp]: "fc (snd (read_request num s)) = fc s"
  by (simp add: read_request_def Let_def split_beta)

lemma lifecycle_request:
  "sector_request num b = (a, c) \<Longrightarrow> lifecycle c = lifecycle b \<and> superblock_set c = superblock_set b"
  using fc_read_request [of num "bffs_fs b"]
  by (auto simp: sector_request_def lifecycle_def split_beta Let_def)

lemma lifecycle_alloc: "alloc_b b = (ok, c) \<Longrightarrow> lifecycle c = lifecycle b \<and> superblock_set c = superblock_set b"
  by (auto simp: alloc_b_def alloc_vol_def alloc_mem_def lifecycle_def Let_def)

lemma lifecycle_labels:
  "sun_label_read p b = (r, c) \<Longrightarrow> lifecycle c = lifecycle b"
  "bsd44_label_read p b = (r, c) \<Longrightarrow> lifecycle c = lifecycle b"
  by (auto simp: sun_label_read_def bsd44_label_read_def Let_def dest!: lifecycle_alloc lifecycle_request
      split: if_splits prod.splits option.splits)

lemma lifecycle_info: "partition_info_read p b = (r, c) \<Longrightarrow> lifecycle c = lifecycle b"
  by (auto simp: partition_info_read_def Let_def dest!: lifecycle_labels split: if_splits prod.splits)

lemma lifecycle_search:
  "sb_search n b = Some (r, c) \<Longrightarrow> lifecycle c = lifecycle b"
proof -
  have "lifecycle (snd rc) = lifecycle b" if "sb_search n b = Some rc" for n b rc
    using that
    by (elim sb_search.raw_induct [rotated])
      (auto simp: Let_def dest!: lifecycle_request lifecycle_alloc split: if_splits prod.splits option.splits)
  then show "sb_search n b = Some (r, c) \<Longrightarrow> lifecycle c = lifecycle b" by fastforce
qed

lemma superblock_set_search: "sb_search n b = Some (r, c) \<Longrightarrow> superblock_set c = superblock_set b"
proof -
  have "superblock_set (snd rc) = superblock_set b" if "sb_search n b = Some rc" for n b rc
    using that
    by (elim sb_search.raw_induct [rotated])
      (auto simp: Let_def dest!: lifecycle_request lifecycle_alloc split: if_splits prod.splits option.splits)
  then show "sb_search n b = Some (r, c) \<Longrightarrow> superblock_set c = superblock_set b" by fastforce
qed

lemma fc_upd_sb [simp]: "fc (upd_sb f s) = fc s" "fc (set_ronly s) = fc s"
  by (simp_all add: upd_sb_def set_ronly_def)

lemma fc_setup: "superblock_setup ro img s = Some (r, t) \<Longrightarrow> fc t = fc s"
proof -
  have a: "fc (snd (alloc_mem s)) = fc s" for s by (simp add: alloc_mem_def)
  have c: "cgsummary_read s = (e, t) \<Longrightarrow> fc t = fc s" for s e t
    using a [of s] fc_read_request [of "csum_addr (sb s)" "snd (alloc_mem s)"]
    by (auto simp: cgsummary_read_def Let_def alloc_mem_def split_beta split: if_splits)
  have "fc (ffs_oldfscompat s) = fc s" for s
    by (simp add: ffs_oldfscompat_def Let_def)
  then show "superblock_setup ro img s = Some (r, t) \<Longrightarrow> fc t = fc s"
    by (auto simp: superblock_setup_def Let_def bind_eq_Some_conv dest!: c split: if_splits prod.splits)
qed

lemma lifecycle_superblock:
  assumes "superblock_read p b = Some (err, c)"
  shows "lifecycle c = lifecycle b \<and> superblock_set c = (\<not> err)"
proof -
  obtain none b1 where 1: "partition_info_read p b = (none, b1)" by (cases "partition_info_read p b")
  define b2 where "b2 = (if none then b1\<lparr>fs_partition := 0\<rparr> else b1)\<lparr>superblock_set := False\<rparr>"
  obtain ok b3 where 3: "alloc_b b2 = (ok, b3)" by (cases "alloc_b b2")
  have l3: "lifecycle b3 = lifecycle b" "\<not> superblock_set b3"
    using lifecycle_info [OF 1] lifecycle_alloc [OF 3] by (auto simp: b2_def)
  note run = assms [unfolded superblock_read_def Let_def 1 prod.case, folded b2_def,
      unfolded 3 prod.case]
  show ?thesis
  proof (cases "ok \<and> (\<exists>b4. sb_search 0 b3 = Some (True, b4))")
    case True
    then obtain b4 where 4: "sb_search 0 b3 = Some (True, b4)" by blast
    obtain a b5 where 5: "sector_request (superblock_sector (bffs_fs b4)) b4 = (a, b5)"
      by (cases "sector_request (superblock_sector (bffs_fs b4)) b4")
    have "lifecycle b5 = lifecycle b"
      using l3 lifecycle_search [OF 4] lifecycle_request [OF 5] by simp
    then show ?thesis
      using run True 4 5 by (auto simp: lifecycle_def bind_eq_Some_conv dest!: fc_setup)
  next
    case False
    then show ?thesis
      using run l3 lifecycle_search superblock_set_search
      by (auto simp: bind_eq_Some_conv split: if_splits) 
  qed
qed

lemma lifecycle_scan:
  "scan_parts n b = Some (r, c) \<Longrightarrow> lifecycle c = lifecycle b \<and> superblock_set c = (r = 0)"
proof (induction n arbitrary: b r c)
  case 0
  then show ?case
    by (subst (asm) scan_parts.simps) (auto simp: bind_eq_Some_conv dest!: lifecycle_superblock split: if_splits)
next
  case (Suc n)
  from Suc.prems show ?case
    by (subst (asm) scan_parts.simps)
      (auto simp: bind_eq_Some_conv dest!: lifecycle_superblock Suc.IH split: if_splits)
qed

lemma lifecycle_find:
  "find_superblock b = Some (r, c) \<Longrightarrow> lifecycle c = lifecycle b \<and> superblock_set c = (r = 0)"
  by (auto simp: find_superblock_def bind_eq_Some_conv dest!: lifecycle_superblock lifecycle_scan
      split: if_splits)

lemma lifecycle_device: "open_device b = (r, c) \<Longrightarrow>
    lifecycle c = lifecycle b \<and> superblock_set c = superblock_set b \<and> (r = 0 \<or> r = 1)"
  by (auto simp: open_device_def setup_environment_def Let_def lifecycle_def upd_dev_def upd_hnd_def
      upd_bfs_def upd_fs_def split: if_splits)

section \<open>The invariants of the loop\<close>

definition ends :: "('s \<Rightarrow> bool) \<Rightarrow> ('a \<times> 's) option \<Rightarrow> bool" where
  "ends P m \<longleftrightarrow> (\<forall>r s. m = Some (r, s) \<longrightarrow> P s)"

lemma ends_Some [simp]: "ends P (Some (r, s)) = P s"
  and ends_None [simp]: "ends P None"
  by (simp_all add: ends_def)

lemma ends_bind: "ends P m \<Longrightarrow> (\<And>r s. P s \<Longrightarrow> ends Q (f (r, s))) \<Longrightarrow> ends Q (m \<bind> f)"
  by (fastforce simp: ends_def bind_eq_Some_conv)

lemma ends_D: "ends P m \<Longrightarrow> m = Some (r, s) \<Longrightarrow> P s"
  by (simp add: ends_def)

text \<open>A file system that is not open has no dirty frags; an inhibited handler has none open.\<close>

definition mount_inv :: "bffs \<Rightarrow> bool" where
  "mount_inv b \<longleftrightarrow> (superblock_set b \<longleftrightarrow> dev_openfail b = 0) \<and>
     (inhibited b \<noteq> 0 \<longrightarrow> \<not> superblock_set b) \<and> (\<not> superblock_set b \<longrightarrow> dirty_frags b = 0)"

definition timer_inv :: "bffs \<Rightarrow> bool" where
  "timer_inv b \<longleftrightarrow> (dirty_frags b \<noteq> 0 \<or> motor_runs b \<longrightarrow> timing b)"

lemma dirty_lifecycle: "lifecycle c = lifecycle b \<Longrightarrow> dirty_frags c = dirty_frags b"
  by (simp add: lifecycle_def dirty_frags_def)

lemma dirty_upd [simp]:
  "dirty_frags (motor_off b) = dirty_frags b" "dirty_frags (motor_on b) = dirty_frags b"
  "dirty_frags (refuse code b) = dirty_frags b" "dirty_frags (RemoveVolNode b) = dirty_frags b"
  "\<not> motor_runs (motor_off b)" "motor_runs (motor_on b)"
  by (simp_all add: dirty_frags_def motor_runs_def motor_off_def motor_on_def refuse_def fail_def
      set_Res1_def set_Res2_def RemoveVolNode_def upd_dev_def upd_bfs_def upd_fs_def)

lemma outer_upd_bfs [simp]:
  "superblock_set (upd_bfs f b) = superblock_set b" "dev_openfail (upd_bfs f b) = dev_openfail b"
  "inhibited (upd_bfs f b) = inhibited b" "timing (upd_bfs f b) = timing b"
  "write_items (upd_bfs f b) = write_items b" "write_delay (upd_bfs f b) = write_delay b"
  by (simp_all add: upd_bfs_def)

lemma outer_upd [simp]:
  "superblock_set (motor_off b) = superblock_set b" "dev_openfail (motor_off b) = dev_openfail b"
  "inhibited (motor_off b) = inhibited b" "timing (motor_off b) = timing b"
  "superblock_set (motor_on b) = superblock_set b" "dev_openfail (motor_on b) = dev_openfail b"
  "inhibited (motor_on b) = inhibited b" "timing (motor_on b) = timing b"
  "superblock_set (refuse e b) = superblock_set b" "dev_openfail (refuse e b) = dev_openfail b"
  "inhibited (refuse e b) = inhibited b" "timing (refuse e b) = timing b"
  "superblock_set (RemoveVolNode b) = superblock_set b" "dev_openfail (RemoveVolNode b) = dev_openfail b"
  "inhibited (RemoveVolNode b) = inhibited b" "timing (RemoveVolNode b) = timing b"
  by (simp_all add: motor_off_def motor_on_def upd_dev_def refuse_def RemoveVolNode_def)

lemma runs_upd [simp]:
  "motor_runs (refuse e b) = motor_runs b" "motor_runs (RemoveVolNode b) = motor_runs b"
  "motor_runs (b\<lparr>dev_openfail := x\<rparr>) = motor_runs b" "dirty_frags (b\<lparr>dev_openfail := x\<rparr>) = dirty_frags b"
  "dirty_frags (b\<lparr>superblock_set := y\<rparr>) = dirty_frags b" "motor_runs (b\<lparr>superblock_set := y\<rparr>) = motor_runs b"
  "dirty_frags (b\<lparr>timing := z\<rparr>) = dirty_frags b" "motor_runs (b\<lparr>timing := z\<rparr>) = motor_runs b"
  "dirty_frags (b\<lparr>inhibited := i\<rparr>) = dirty_frags b" "motor_runs (b\<lparr>inhibited := i\<rparr>) = motor_runs b"
  "dirty_frags (b\<lparr>write_items := i\<rparr>) = dirty_frags b" "motor_runs (b\<lparr>write_items := i\<rparr>) = motor_runs b"
  "dirty_frags (b\<lparr>write_delay := i\<rparr>) = dirty_frags b" "motor_runs (b\<lparr>write_delay := i\<rparr>) = motor_runs b"
  by (simp_all add: motor_runs_def dirty_frags_def refuse_def fail_def set_Res1_def set_Res2_def
      upd_fs_def RemoveVolNode_def)

lemma mount_inv_upd [simp]:
  "mount_inv (motor_off b) = mount_inv b" "mount_inv (motor_on b) = mount_inv b"
  "mount_inv (refuse code b) = mount_inv b" "mount_inv (RemoveVolNode b) = mount_inv b"
  "mount_inv (b\<lparr>timing := x\<rparr>) = mount_inv b" "mount_inv (b\<lparr>write_items := y\<rparr>) = mount_inv b"
  "mount_inv (b\<lparr>write_delay := z\<rparr>) = mount_inv b"
  by (simp_all add: mount_inv_def)

text \<open>The fields around the volume.\<close>

lemma outer_in_vol:
  "in_vol f b = Some (r, c) \<Longrightarrow> superblock_set c = superblock_set b \<and> dev_openfail c = dev_openfail b \<and>
     inhibited c = inhibited b \<and> timing c = timing b"
  by (auto simp: in_vol_def)

lemma open_cache_clean:
  "in_vol (on_fs (open_cache n)) b = Some (r, c) \<Longrightarrow> dirty_frags c = 0"
  by (auto simp: in_vol_def on_fs_def open_cache_def dirty_frags_def dest!: item_dirty_adjust)

lemma NewVolNode_outer:
  "NewVolNode b = Some (r, c) \<Longrightarrow> superblock_set c = superblock_set b \<and> dev_openfail c = dev_openfail b \<and>
     inhibited c = inhibited b \<and> timing c = timing b \<and> dirty_frags c = dirty_frags b"
  by (auto simp: NewVolNode_def alloc_b_def alloc_vol_def alloc_mem_def dirty_frags_def Let_def
      bind_eq_Some_conv split: if_splits)

text \<open>Opening.\<close>

lemma open_filesystem_inv:
  assumes run: "open_filesystem b = Some (stop, c)" and fail: "dev_openfail b \<noteq> 0" and inv: "mount_inv b"
  shows "mount_inv c" "dirty_frags c = 0" "motor_runs c \<Longrightarrow> stop \<and> motor_runs b"
    "timing c = timing b"
proof -
  have b: "\<not> superblock_set b" "dirty_frags b = 0" using inv fail by (auto simp: mount_inv_def)
  have "mount_inv c \<and> dirty_frags c = 0 \<and> (motor_runs c \<longrightarrow> stop \<and> motor_runs b) \<and> timing c = timing b"
  proof (cases "inhibited b = 0")
    case False
    then have "stop" "c = refuse ERROR_DEVICE_NOT_MOUNTED b"
      using run by (simp_all add: open_filesystem_def)
    then show ?thesis using b inv by simp
  next
    case True
    obtain f1 b1 where 1: "(if dev_openfail b = 1 then open_device b else (dev_openfail b, b)) = (f1, b1)"
      by (cases "if dev_openfail b = 1 then open_device b else (dev_openfail b, b)")
    then have b1: "lifecycle b1 = lifecycle b" "\<not> superblock_set b1"
      using lifecycle_device b(1) by (auto split: if_splits)
    define b2 where "b2 = b1\<lparr>dev_openfail := f1\<rparr>"
    have f1: "dev_openfail b2 = f1" by (simp add: b2_def)
    note r1 = run [unfolded open_filesystem_def Let_def 1 prod.case, folded b2_def]
    obtain f2 b3 where 3: "(if f1 \<noteq> 1 then find_superblock b2 else Some (1, b2)) = Some (f2, b3)"
      using r1 True f1 by (cases "if f1 \<noteq> 1 then find_superblock b2 else Some (1, b2)") auto
    have b3: "lifecycle b3 = lifecycle b2" "superblock_set b3 = (f2 = 0)"
      using 3 b1(2) lifecycle_find [of b2 f2 b3] by (auto simp: b2_def split: if_splits)
    define b4 where "b4 = b3\<lparr>dev_openfail := f2\<rparr>"
    have b4: "mount_inv b4" "dirty_frags b4 = 0" "inhibited b4 = 0" "timing b4 = timing b"
      "superblock_set b4 = (f2 = 0)" "dev_openfail b4 = f2"
      using b1 b3 b(2) True by (auto simp: mount_inv_def lifecycle_def dirty_frags_def b4_def b2_def)
    note r2 = r1 [unfolded f1 3, simplified True, simplified, folded b4_def, simplified]
    show ?thesis
    proof (cases "f2 = 0")
      case False
      then have "c = motor_off (refuse ERROR_NOT_A_DOS_DISK b4)" using r2 b4(6) by simp
      then show ?thesis using b4 by simp
    next
      case True
      then obtain u b5 b6 where 5: "in_vol (on_fs (open_cache (de_NumBuffers (env b4)))) b4 = Some (u, b5)"
        "NewVolNode (RemoveVolNode b5) = Some ((), b6)" "c = motor_off b6"
        using r2 b4(6) by (auto simp: bind_eq_Some_conv)
      then have b6: "superblock_set b6 = superblock_set b4" "dev_openfail b6 = dev_openfail b4"
        "inhibited b6 = inhibited b4" "timing b6 = timing b4" "dirty_frags b6 = 0"
        using outer_in_vol [OF 5(1)] NewVolNode_outer [OF 5(2)] open_cache_clean [OF 5(1)] by simp_all
      then have "mount_inv b6" using b4 True by (simp add: mount_inv_def)
      then show ?thesis using b6 b4(4) 5(3) by simp
    qed
  qed
  then show "mount_inv c" "dirty_frags c = 0" "motor_runs c \<Longrightarrow> stop \<and> motor_runs b"
    "timing c = timing b" by simp_all
qed

text \<open>Closing.\<close>

lemma close_files_quiet:
  assumes "close_all_files b = Some (r, c)" "\<not> superblock_set b"
  shows "vol c = vol b"
proof -
  have quiet: "close_each ls v = Some ((), v)"
    if "\<not> list_ex (\<lambda>l. case fl_Fileh (locks v l) of None \<Rightarrow> False
         | Some h \<Rightarrow> access_mode (files v h) = MODE_WRITE) ls" for ls v
    using that by (induction ls) (auto split: option.splits)
  show ?thesis
    using assms quiet by (auto simp: close_all_files_def in_vol_def close_files_def open_for_writing_def
        split: if_splits)
qed

lemma close_all_files_outer:
  "close_all_files b = Some (r, c) \<Longrightarrow> superblock_set c = superblock_set b \<and>
     dev_openfail c = dev_openfail b \<and> inhibited c = inhibited b \<and> timing c = timing b"
  by (auto simp: close_all_files_def dest!: outer_in_vol split: if_splits)

lemma close_cache_clean: "in_vol (on_fs close_cache) b = Some (r, c) \<Longrightarrow> dirty_frags c = 0"
  by (auto simp: in_vol_def on_fs_def close_cache_def dirty_frags_def bind_eq_Some_conv Let_def)

lemma close_filesystem_inv:
  assumes run: "close_filesystem b = Some (r, c)" and "inhibited b = 0"
    and "\<not> superblock_set b \<Longrightarrow> dirty_frags b = 0"
  shows "mount_inv c" "dev_openfail c = 1" "inhibited c = 0" "timing c = timing b" "\<not> motor_runs c"
    "dirty_frags c = 0"
proof -
  obtain b1 where 1: "c = RemoveVolNode ((motor_off b1)\<lparr>dev_openfail := 1\<rparr>)"
    "\<not> superblock_set b1" "dirty_frags b1 = 0" "inhibited b1 = 0" "timing b1 = timing b"
  proof (cases "superblock_set b")
    case True
    then obtain u x u' y where "in_vol (on_fs sync_filesystem) b = Some (u, x)"
      "in_vol (on_fs close_cache) x = Some (u', y)"
      "c = RemoveVolNode ((motor_off (y\<lparr>superblock_set := False\<rparr>))\<lparr>dev_openfail := 1\<rparr>)"
      using run assms(2) by (auto simp: close_filesystem_def bind_eq_Some_conv)
    moreover from this have "inhibited y = 0" "timing y = timing b" "dirty_frags y = 0"
      using outer_in_vol close_cache_clean assms(2) by metis+
    ultimately show ?thesis using that [of "y\<lparr>superblock_set := False\<rparr>"] by simp
  next
    case False
    then show ?thesis using run that [of b] assms(2,3) by (auto simp: close_filesystem_def)
  qed
  then show "mount_inv c" "dev_openfail c = 1" "inhibited c = 0" "timing c = timing b" "\<not> motor_runs c"
    "dirty_frags c = 0"
    by (simp_all add: mount_inv_def)
qed

section \<open>Packets\<close>

lemma on_sb_inv: "mount_inv b \<Longrightarrow> ends mount_inv (on_sb f b)"
  by (auto simp: ends_def on_sb_def plain_def in_vol_def mount_inv_def)

lemma plain_inv:
  assumes "mount_inv b"
    and "ends (\<lambda>v. cache_item_dirty (fc (fs (vol b))) = 0 \<longrightarrow> cache_item_dirty (fc (fs v)) = 0) (f (vol b))"
  shows "ends mount_inv (plain f b)"
  using assms by (auto simp: ends_def plain_def in_vol_def mount_inv_def dirty_frags_def)

lemma item_dirty_cg_drop: "cache_item_dirty (fc (cg_drop_from n i s)) = cache_item_dirty (fc s)"
  by (induction n arbitrary: i s)
    (auto simp: Let_def data_write_cg_def write_request_def split_beta split: option.splits)

lemma plain_packets:
  "ends (\<lambda>w. cache_item_dirty (fc (fs v)) = 0 \<longrightarrow> cache_item_dirty (fc (fs w)) = 0) (PFreeLock l v)"
  "ends (\<lambda>w. cache_item_dirty (fc (fs v)) = 0 \<longrightarrow> cache_item_dirty (fc (fs w)) = 0) (PCopyDir l v)"
  "ends (\<lambda>w. cache_item_dirty (fc (fs v)) = 0 \<longrightarrow> cache_item_dirty (fc (fs w)) = 0) (PMoreCache n v)"
  "cache_item_dirty (fc (fs (PSameLock l l' v))) = cache_item_dirty (fc (fs v))"
  "cache_item_dirty (fc (fs (PSetFileSize v))) = cache_item_dirty (fc (fs v))"
  "cache_item_dirty (fc (fs (PUnimplemented v))) = cache_item_dirty (fc (fs v))"
  "cache_item_dirty (fc (fs (PDie v))) = cache_item_dirty (fc (fs v))"
proof -
  have fail: "fc (fs (fail e v)) = fc (fs v)" for e
    by (simp add: fail_def set_Res1_def set_Res2_def upd_fs_def)
  have create: "fc (fs (snd (CreateLock k m i p v))) = fc (fs v)" for k m i p
    by (simp add: CreateLock_def alloc_vol_def alloc_mem_def upd_fs_def set_Res2_def Let_def split_beta
        split: option.splits)
  show "ends (\<lambda>w. cache_item_dirty (fc (fs v)) = 0 \<longrightarrow> cache_item_dirty (fc (fs w)) = 0) (PFreeLock l v)"
    by (auto simp: ends_def PFreeLock_def FreeLock_def set_Res1_def split: option.splits if_splits)
  show "ends (\<lambda>w. cache_item_dirty (fc (fs v)) = 0 \<longrightarrow> cache_item_dirty (fc (fs w)) = 0) (PCopyDir l v)"
    using create by (auto simp: ends_def PCopyDir_def grant_def set_Res1_def Let_def split_beta
        bind_eq_Some_conv)
  show "ends (\<lambda>w. cache_item_dirty (fc (fs v)) = 0 \<longrightarrow> cache_item_dirty (fc (fs w)) = 0) (PMoreCache n v)"
    by (auto simp: ends_def PMoreCache_def on_fs_def upd_fs_def set_Res1_def Let_def bind_eq_Some_conv
        cache_cg_adjust_def item_dirty_cg_drop dest!: item_dirty_adjust split: if_splits)
  show "cache_item_dirty (fc (fs (PSameLock l l' v))) = cache_item_dirty (fc (fs v))"
    by (simp add: PSameLock_def fail set_Res1_def set_Res2_def upd_fs_def Let_def split_beta)
  show "cache_item_dirty (fc (fs (PSetFileSize v))) = cache_item_dirty (fc (fs v))"
    "cache_item_dirty (fc (fs (PUnimplemented v))) = cache_item_dirty (fc (fs v))"
    by (simp_all add: PSetFileSize_def PUnimplemented_def fail)
  show "cache_item_dirty (fc (fs (PDie v))) = cache_item_dirty (fc (fs v))"
    by (simp add: PDie_def upd_fs_def stop_packets_def)
qed

lemma inhibited_closed:
  "mount_inv b \<Longrightarrow> inhibited b \<noteq> 0 \<Longrightarrow> \<not> superblock_set b \<and> dev_openfail b \<noteq> 0"
  by (auto simp: mount_inv_def)

lemma PInhibit_inv:
  assumes inv: "mount_inv b"
  shows "ends mount_inv (PInhibit d b)"
  unfolding ends_def
proof (intro allI impI)
  fix r c assume run: "PInhibit d b = Some (r, c)"
  have up: "mount_inv (x\<lparr>inhibited := k\<rparr>)" if "mount_inv x" "\<not> superblock_set x" for x k
    using that by (simp add: mount_inv_def)
  show "mount_inv c"
  proof (cases d)
    case True
    show ?thesis
    proof (cases "inhibited b = 0")
      case True
      then obtain b1 b2 where 1: "close_all_files b = Some ((), b1)" "close_filesystem b1 = Some ((), b2)"
        "c = b2\<lparr>inhibited := inhibited b2 + 1\<rparr>"
        using run \<open>d\<close> by (auto simp: PInhibit_def bind_eq_Some_conv)
      have "\<not> superblock_set b1 \<Longrightarrow> dirty_frags b1 = 0"
        using close_files_quiet [OF 1(1)] close_all_files_outer [OF 1(1)] inv
        by (simp add: mount_inv_def dirty_frags_def)
      then have "mount_inv b2" "dev_openfail b2 = 1"
        using close_filesystem_inv [OF 1(2)] close_all_files_outer [OF 1(1)] True by simp_all
      then show ?thesis using up [of b2] 1(3) by (simp add: mount_inv_def)
    next
      case False
      then have "c = b\<lparr>inhibited := inhibited b + 1\<rparr>" using run \<open>d\<close> by (simp add: PInhibit_def)
      then show ?thesis using up [OF inv] inhibited_closed [OF inv False] by simp
    qed
  next
    case False
    show ?thesis
    proof (cases "inhibited b = 0")
      case True
      then show ?thesis using run \<open>\<not> d\<close> inv by (auto simp: PInhibit_def)
    next
      case False
      then have u: "\<not> superblock_set b" "dev_openfail b \<noteq> 0" using inhibited_closed [OF inv] by simp_all
      note inv' = up [OF inv u(1), of "inhibited b - 1"]
      show ?thesis
      proof (cases "inhibited b = 1")
        case True
        then obtain s where "open_filesystem (b\<lparr>inhibited := 0\<rparr>) = Some (s, c)"
          using run \<open>\<not> d\<close> by (auto simp: PInhibit_def bind_eq_Some_conv)
        then show ?thesis using open_filesystem_inv(1) [of "b\<lparr>inhibited := 0\<rparr>"] u inv' True by simp
      next
        case False
        then show ?thesis using run \<open>\<not> d\<close> inv' \<open>inhibited b \<noteq> 0\<close> by (simp add: PInhibit_def Let_def)
      qed
    qed
  qed
qed

lemma PDiskChange_inv:
  assumes inv: "mount_inv b" and run: "PDiskChange b = Some (r, c)"
  shows "mount_inv c" "dirty_frags c = 0"
proof -
  obtain b1 b2 b3 s where 1: "in_vol (on_fs cache_full_invalidate) b = Some ((), b1)"
    "close_all_files b1 = Some ((), b2)" "close_filesystem b2 = Some ((), b3)"
    "open_filesystem b3 = Some (s, c)"
    using run by (auto simp: PDiskChange_def bind_eq_Some_conv)
  note o1 = outer_in_vol [OF 1(1)] and o2 = close_all_files_outer [OF 1(2)]
  have "dirty_frags b1 = 0"
    using 1(1) by (auto simp: in_vol_def on_fs_def cache_full_invalidate_def dirty_frags_def bind_eq_Some_conv)
  then have d2: "\<not> superblock_set b2 \<Longrightarrow> dirty_frags b2 = 0"
    using close_files_quiet [OF 1(2)] o2 by (simp add: dirty_frags_def)
  have "mount_inv b3 \<and> dev_openfail b3 \<noteq> 0"
  proof (cases "inhibited b = 0")
    case True
    then show ?thesis using close_filesystem_inv [OF 1(3) _ d2] o1 o2 by simp
  next
    case False
    then have "b3 = b2" "\<not> superblock_set b2" "dev_openfail b2 \<noteq> 0"
      using 1(3) o1 o2 inhibited_closed [OF inv] by (simp_all add: close_filesystem_def)
    then show ?thesis using d2 by (simp add: mount_inv_def)
  qed
  then show "mount_inv c" "dirty_frags c = 0" using open_filesystem_inv [OF 1(4)] by simp_all
qed

lemma PCurrentVolume_inv:
  assumes inv: "mount_inv b"
  shows "ends mount_inv (PCurrentVolume b)"
  using assms by (auto simp: ends_def PCurrentVolume_def mount_inv_def dirty_frags_def set_Res1_def
      bind_eq_Some_conv dest!: NewVolNode_outer split: if_splits)

lemma perform_inv:
  assumes "mount_inv b"
  shows "ends mount_inv (perform rq b)"
proof -
  have p: "ends mount_inv (plain (PFreeLock l) b)" "ends mount_inv (plain (PCopyDir l) b)"
    "ends mount_inv (plain (PMoreCache n) b)" for l n
    by (rule plain_inv [OF assms], rule plain_packets)+
  have pure: "ends mount_inv (plain (pure_step g) b)"
    if "cache_item_dirty (fc (fs (g (vol b)))) = cache_item_dirty (fc (bffs_fs b))" for g
    by (rule plain_inv [OF assms]) (use that in simp)
  have q: "ends mount_inv (plain (pure_step (PSameLock l l')) b)"
    "ends mount_inv (plain (pure_step PSetFileSize) b)" "ends mount_inv (plain (pure_step PUnimplemented) b)"
    "ends mount_inv (plain (pure_step PDie) b)" for l l'
    by (rule pure, rule plain_packets)+
  have "ends mount_inv (flush_all b)"
    using on_sb_inv [OF assms, of PFlush] assms
    by (auto simp: flush_all_def on_sb_def plain_def ends_def)
  moreover have "ends mount_inv (PDiskChange b)" using PDiskChange_inv(1) [OF assms] by (simp add: ends_def)
  moreover have "mount_inv (PIsFilesystem b)" using assms by (simp add: PIsFilesystem_def)
  moreover have "mount_inv (PFilesysStats x b)" "mount_inv (PGetDiskFSSM x b)" for x
    using assms by (auto simp: PFilesysStats_def PGetDiskFSSM_def upd_bfs_def mount_inv_def dirty_frags_def
        set_Res1_def set_Res2_def upd_fs_def)
  ultimately show ?thesis
    using p q PInhibit_inv [OF assms] PCurrentVolume_inv [OF assms] assms
    by (cases rq) (simp_all add: on_sb_inv [OF assms])
qed

section \<open>Passes of the loop\<close>

lemma after_packet_inv: "mount_inv b \<Longrightarrow> mount_inv (after_packet b)" "timer_inv (after_packet b)"
  by (simp_all add: after_packet_def timer_inv_def Let_def)

lemma serve_inv:
  assumes "mount_inv b"
  shows "ends (\<lambda>c. mount_inv c \<and> timer_inv c) (serve p b)"
proof -
  define b' where "b' = b\<lparr>vol := arrive (vol b)\<rparr>"
  have b': "mount_inv b'"
    using assms by (auto simp: b'_def mount_inv_def dirty_frags_def arrive_def set_Res1_def set_Res2_def upd_fs_def)
  have "ends mount_inv (case packet_lookup (fst p) of None \<Rightarrow> Some ((), refuse ERROR_ACTION_NOT_KNOWN b')
          | Some (r, check) \<Rightarrow>
              do {
                (stop, b) \<leftarrow> (if dev_openfail b' \<noteq> 0 \<and> check then open_filesystem b' else Some (False, b'));
                if stop then Some ((), b)
                else if r = routine_of (snd p) then perform (snd p) b
                else None
              })"
  proof (cases "packet_lookup (fst p)")
    case None
    then show ?thesis using b' by simp
  next
    case (Some e)
    obtain r check where e: "e = (r, check)" by (cases e)
    have "ends mount_inv (if dev_openfail b' \<noteq> 0 \<and> check then open_filesystem b' else Some (False, b'))"
      using open_filesystem_inv(1) [OF _ _ b'] b' by (auto simp: ends_def)
    then show ?thesis unfolding Some e option.case prod.case
      by (rule ends_bind) (use perform_inv in simp)
  qed
  then show ?thesis
    unfolding serve_def Let_def b'_def [symmetric]
    by (rule ends_bind) (use after_packet_inv in simp)
qed

lemma serve_all_inv:
  assumes "mount_inv b"
  shows "ends (\<lambda>c. mount_inv c \<and> (ps \<noteq> [] \<longrightarrow> timer_inv c)) (serve_all ps b)"
  using assms
proof (induction ps arbitrary: b)
  case Nil
  then show ?case by simp
next
  case (Cons p ps)
  have "ends (\<lambda>c. mount_inv c \<and> timer_inv c) (serve_all ps b')" if "mount_inv b'" "timer_inv b'" for b'
    using Cons.IH [OF that(1)] that by (cases ps) (auto simp: ends_def)
  then show ?case
    unfolding serve_all.simps by (intro ends_bind [OF serve_inv [OF Cons.prems]]) simp
qed

lemma flush_all_clean:
  assumes "mount_inv b" "flush_all b = Some (r, c)"
  shows "dirty_frags c = 0" "mount_inv c"
proof -
  show "dirty_frags c = 0"
    using assms flushed_clean
    by (fastforce simp: flush_all_def in_vol_def PFlush_def on_fs_def dirty_frags_def mount_inv_def
        bind_eq_Some_conv Let_def split_beta split: if_splits)
  then show "mount_inv c"
    using assms outer_in_vol [of PFlush b r c] by (auto simp: flush_all_def mount_inv_def split: if_splits)
qed

lemma timer_tick_inv:
  assumes "mount_inv b"
  shows "ends (\<lambda>c. mount_inv c \<and> (dirty_frags c \<noteq> 0 \<longrightarrow> timing c)) (timer_tick b)"
  using flush_all_clean [OF assms] assms by (auto simp: ends_def timer_tick_def bind_eq_Some_conv)

text \<open>Between two passes nothing is dirty and the motor stands, or the timer runs.\<close>

lemma loop_pass_inv:
  assumes inv: "mount_inv b" "timer_inv b" and run: "loop_pass (p, b) = Some (q, c)"
  shows "mount_inv c \<and> timer_inv c"
proof -
  let ?dirty = "\<lambda>c. mount_inv c \<and> (dirty_frags c \<noteq> 0 \<longrightarrow> timing c)"
  have tick: "ends ?dirty (if timer_signal p then timer_tick b else Some ((), b))"
    using timer_tick_inv [OF inv(1)] inv by (auto simp: timer_inv_def)
  have change: "ends ?dirty (if change_signal p then PDiskChange b1 else Some ((), b1))" if "?dirty b1" for b1
    using PDiskChange_inv that by (auto simp: ends_def)
  have serve: "ends (\<lambda>c. mount_inv c \<and> timer_inv c)
      (if queue p = [] then Some ((), if \<not> timing b2 \<and> motor_runs b2 then motor_off b2 else b2)
       else serve_all (take NT_MESSAGE (queue p)) b2)" if "?dirty b2" for b2
  proof (cases "queue p = []")
    case True
    then show ?thesis using that by (auto simp: timer_inv_def)
  next
    case False
    then have "take NT_MESSAGE (queue p) \<noteq> []" by (simp add: NT_MESSAGE_def)
    then show ?thesis using False serve_all_inv [of b2 "take NT_MESSAGE (queue p)"] that by simp
  qed
  have "ends (\<lambda>c. mount_inv c \<and> timer_inv c)
    (do {
       (u, b) \<leftarrow> (if timer_signal p then timer_tick b else Some ((), b));
       (u, b) \<leftarrow> (if change_signal p then PDiskChange b else Some ((), b));
       if queue p = [] then Some ((), if \<not> timing b \<and> motor_runs b then motor_off b else b)
       else serve_all (take NT_MESSAGE (queue p)) b })"
    by (rule ends_bind [OF tick], simp only: prod.case, rule ends_bind [OF change], simp,
        simp only: prod.case, rule serve) simp
  then show ?thesis
    using run by (fastforce simp: loop_pass_def ends_def bind_eq_Some_conv split: if_splits)
qed

end
