(* ===== verification/Mount_Correct.thy ===== *)
theory Mount_Correct
  imports Mount
begin

text \<open>
  The two searches of opening: the one for a volume name that is free, and the one for a
  superblock.
\<close>

section \<open>Decimal numbers\<close>

definition undecimal :: "bytes \<Rightarrow> nat" where
  "undecimal ds = foldl (\<lambda>a d. 10 * a + (unat d - 48)) 0 ds"

lemma digit: "n < 10 \<Longrightarrow> unat (of_nat (48 + n) :: u8) - 48 = n"
  by (simp add: unat_of_nat del: of_nat_add)

lemma undecimal_decimal [simp]: "undecimal (decimal n) = n"
proof (induction n rule: decimal.induct)
  case (1 n)
  show ?case
  proof (cases "n < 10")
    case True
    then show ?thesis by (subst decimal.simps) (use digit in \<open>simp add: undecimal_def\<close>)
  next
    case False
    have "undecimal (decimal n) = 10 * undecimal (decimal (n div 10)) + n mod 10"
      using False digit [of "n mod 10"] by (subst decimal.simps) (simp add: undecimal_def)
    then show ?thesis using 1 False by simp
  qed
qed

lemma decimal_inject: "decimal m = decimal n \<longleftrightarrow> m = n"
  by (metis undecimal_decimal)

lemma to_lower_digit: "n < 10 \<Longrightarrow> to_lower (of_nat (48 + n)) = of_nat (48 + n)"
proof -
  assume "n < 10"
  then have "n \<in> {0, 1, 2, 3, 4, 5, 6, 7, 8, 9}" by auto
  then show ?thesis by (elim insertE emptyE) (simp_all add: to_lower_def)
qed

lemma to_lower_decimal [simp]: "map to_lower (decimal n) = decimal n"
proof (induction n rule: decimal.induct)
  case (1 n)
  show ?case
  proof (cases "n < 10")
    case True
    then show ?thesis by (subst (1 2) decimal.simps) (use to_lower_digit in simp)
  next
    case False
    then show ?thesis
      using 1 to_lower_digit [of "n mod 10"] by (subst (1 2) decimal.simps) simp
  qed
qed

lemma length_decimal: "n < 10 ^ Suc k \<Longrightarrow> length (decimal n) \<le> Suc k"
proof (induction k arbitrary: n)
  case 0
  then show ?case by (subst decimal.simps) simp
next
  case (Suc k)
  then have "n div 10 < 10 ^ Suc k" by (simp add: div_less_iff_less_mult)
  then show ?case using Suc.IH [of "n div 10"] by (subst decimal.simps) simp
qed

lemma decimal_not_Nil [simp]: "decimal n \<noteq> []"
  by (subst decimal.simps) simp

section \<open>A free name\<close>

definition candidate :: "bytes \<Rightarrow> nat \<Rightarrow> bytes" where
  "candidate base k = (if k = 0 then base else base @ decimal (k - 1))"

lemma candidate_distinct:
  assumes "streqv x (candidate base j)" "streqv x (candidate base k)" "length base \<le> 90"
    and "j < 2 ^ 32" "k < 2 ^ 32"
  shows "j = k"
proof -
  have short: "length (candidate base i) \<le> 107" if "i < 2 ^ 32" for i
  proof -
    have "length (decimal (i - 1)) \<le> Suc 9" using that by (intro length_decimal) simp
    then show ?thesis using assms(3) by (simp add: candidate_def)
  qed
  have "map to_lower (candidate base j) = map to_lower (candidate base k)"
    using assms(1,2) short [OF assms(4)] short [OF assms(5)] by (simp add: streqv_def DIRNAMELEN_def)
  then have "length (candidate base j) = length (candidate base k)"
    "drop (length base) (map to_lower (candidate base j)) = drop (length base) (map to_lower (candidate base k))"
    by (metis length_map, simp)
  then show ?thesis
    by (cases "j = 0"; cases "k = 0") (simp_all add: candidate_def decimal_inject)
qed

lemma free_candidate:
  assumes "length base \<le> 90" "length devs < 2 ^ 32"
  shows "\<exists>k \<le> length devs. \<not> name_taken devs (candidate base k)"
proof (rule ccontr)
  assume "\<not> ?thesis"
  then have taken: "name_taken devs (candidate base k)" if "k \<le> length devs" for k using that by blast
  have "\<exists>i < length devs. streqv (cstring (dl_Name (devs ! i)) 0) (candidate base k)"
    if k: "k \<le> length devs" for k
  proof -
    obtain d where "d \<in> set devs" "streqv (cstring (dl_Name d) 0) (candidate base k)"
      using taken [OF k] by (auto simp: name_taken_def list_ex_iff)
    then show ?thesis by (auto simp: in_set_conv_nth)
  qed
  then have "\<forall>k \<in> {..length devs}. \<exists>i. i < length devs \<and> streqv (cstring (dl_Name (devs ! i)) 0) (candidate base k)"
    by auto
  from bchoice [OF this] obtain i where i: "\<forall>k \<in> {..length devs}. i k < length devs \<and>
      streqv (cstring (dl_Name (devs ! i k)) 0) (candidate base k)"
    by blast
  have "i ` {..length devs} \<subseteq> {..<length devs}" using i by auto
  then have "card (i ` {..length devs}) \<le> length devs"
    using card_mono [of "{..<length devs}"] by simp
  then have "\<not> inj_on i {..length devs}" using card_image [of i "{..length devs}"] by auto
  then obtain j k where jk: "j \<le> length devs" "k \<le> length devs" "i j = i k" "j \<noteq> k"
    by (auto simp: inj_on_def)
  then show False using i candidate_distinct [of _ base j k] assms by fastforce
qed

lemma free_name_finds:
  assumes "\<not> used (candidate base (k + d))" "k + d < 2 ^ 32"
  shows "\<exists>name. free_name used base (candidate base k) (of_nat k) = Some name \<and> \<not> used name"
  using assms
proof (induction d arbitrary: k)
  case 0
  then show ?case by (subst free_name.simps) simp
next
  case (Suc d)
  show ?case
  proof (cases "used (candidate base k)")
    case True
    have "base @ decimal (unat (of_nat k :: u32)) = candidate base (Suc k)"
      using Suc.prems(2) unat_of_nat32 [of k] by (simp add: candidate_def)
    then have "free_name used base (candidate base k) (of_nat k) =
        free_name used base (candidate base (Suc k)) (of_nat (Suc k))"
      using True by (subst free_name.simps) (simp add: add.commute)
    then show ?thesis using Suc.IH [of "Suc k"] Suc.prems by simp
  next
    case False
    then show ?thesis by (subst free_name.simps) simp
  qed
qed

lemma free_name_total:
  assumes "length base \<le> 90" "length devs < 2 ^ 32"
  shows "\<exists>name. free_name (name_taken devs) base base 0 = Some name \<and> \<not> name_taken devs name"
proof -
  obtain k where "k \<le> length devs" "\<not> name_taken devs (candidate base k)"
    using free_candidate [OF assms] by blast
  then show ?thesis
    using free_name_finds [of "name_taken devs" base 0 k] assms(2) by (simp add: candidate_def)
qed

section \<open>The search for a superblock\<close>

text \<open>A state in which the search reads sector \<open>n\<close> of the device next, with \<open>m\<close> the end of the
  partition.\<close>

definition at_sector :: "nat \<Rightarrow> nat \<Rightarrow> bffs \<Rightarrow> bool" where
  "at_sector n m b \<longleftrightarrow>
     (let s = bffs_fs b in
      dev_ok s \<and> (\<forall>k. \<not> mem_fails (hnd s) k) \<and> phys_sectorsize (dev s) \<noteq> 0 \<and>
      unat (psectoffset (dev s)) + unat (superblock_sector s) = n \<and> unat (psectmax (dev s)) = m)"

definition super_at :: "bffs \<Rightarrow> nat \<Rightarrow> bool" where
  "super_at b n \<longleftrightarrow> good_bsize (fs_bsize (sb_at b (of_nat n)))"

definition as_sectors :: "bffs \<Rightarrow> bffs" where
  "as_sectors b = upd_hnd (\<lambda>h. h\<lparr>fsize := phys_sectorsize (dev (bffs_fs b))\<rparr>) b"

lemma word_self_div: "x \<noteq> 0 \<Longrightarrow> x div x = (1 :: u32)"
  by (rule unsigned_word_eqI [where ?'a = nat]) (simp add: unat_div unat_gt_0)

lemma sb_at_upd_hnd [simp]: "sb_at (upd_hnd f b) = sb_at b"
  by (simp add: upd_hnd_def upd_bfs_def)

lemma at_sector_request:
  assumes b: "at_sector n m b" and n: "n \<le> m"
  defines "c \<equiv> as_sectors b"
  shows "\<exists>d. sector_request (superblock_sector (bffs_fs c)) c = (if n < m then Some (of_nat n) else None, d) \<and>
    at_sector n m d \<and> sb_at d = sb_at b \<and> part_off d = part_off b"
proof -
  let ?s = "bffs_fs b" and ?t = "bffs_fs c"
  have s: "dev_ok ?s" "\<And>k. \<not> mem_fails (hnd ?s) k" "phys_sectorsize (dev ?s) \<noteq> 0"
    "unat (psectoffset (dev ?s)) + unat (superblock_sector ?s) = n" "unat (psectmax (dev ?s)) = m"
    using b by (simp_all add: at_sector_def Let_def)
  have t: "dev ?t = dev ?s" "mem_fails (hnd ?t) = mem_fails (hnd ?s)" "fsize (hnd ?t) = phys_sectorsize (dev ?s)"
    "superblock_sector ?t = superblock_sector ?s" "dev_ok ?t" "sb_at c = sb_at b"
    using s(1) by (simp_all add: c_def as_sectors_def upd_hnd_def upd_bfs_def upd_fs_def superblock_sector_def dev_ok_def)
  have "unat (psectmax (dev ?s)) < 2 ^ 32" using unsigned_less [of "psectmax (dev ?s)"] by simp
  then have m32: "m < 2 ^ 32" unfolding s(5) .
  have off: "sectoff ?t (superblock_sector ?t) = of_nat n"
    using s(3,4) by (simp add: sectoff_def t word_self_div flip: s(4))
  have "unat (of_nat n :: u32) = n" using unat_of_nat32 n m32 by simp
  then have ok: "frag_ok ?t (superblock_sector ?t) \<longleftrightarrow> n < m"
    by (simp add: frag_ok_def off t(1) word_less_nat_alt s(5))
  have st: "at_sector n m (c\<lparr>vol := (vol c)\<lparr>fs := ?t\<lparr>dev := d\<rparr>\<rparr>\<rparr>)"
    "part_off (c\<lparr>vol := (vol c)\<lparr>fs := ?t\<lparr>dev := d\<rparr>\<rparr>\<rparr>) = part_off b"
    if "same_dev (dev ?t) d" for d
    using that s t by (simp_all add: at_sector_def Let_def part_off_def superblock_sector_def dev_ok_def same_dev_def)
  show ?thesis
  proof (cases "n < m")
    case True
    obtain d where "read_request (superblock_sector ?t) ?t = (False, ?t\<lparr>dev := d\<rparr>)" "same_dev (dev ?t) d"
      using read_request_ok [OF t(5)] ok True by blast
    then show ?thesis using True st [of d] t(6) by (simp add: sector_request_def off)
  next
    case False
    then have "read_request (superblock_sector ?t) ?t = (True, ?t\<lparr>dev := (dev ?t)\<lparr>motor_is_on := True\<rparr>\<rparr>)"
      using ok by (simp add: read_request_def)
    moreover have "same_dev (dev ?t) ((dev ?t)\<lparr>motor_is_on := True\<rparr>)" by (simp add: same_dev_def)
    ultimately show ?thesis using False st t(6) by (simp add: sector_request_def)
  qed
qed

lemma sb_jump_low: "ssector \<le> 10 \<Longrightarrow> Suc (sb_jump ssector) \<le> 10"
  by (auto simp: sb_jump_def)

text \<open>The counter never leaves the numbers up to 10, so that the search ends at a superblock or
  at the end of the partition only.\<close>

lemma sb_search_scans:
  assumes "at_sector n m b" "n + d \<le> m" "\<And>k. k < d \<Longrightarrow> \<not> super_at b (n + k)"
    and "n + d < m \<Longrightarrow> super_at b (n + d)" "ssector \<le> 10"
  shows "\<exists>c. sb_search ssector b = Some (n + d < m, c) \<and> part_off c = part_off b + of_nat d"
  using assms
proof (induction d arbitrary: n b ssector)
  case (0 n b)
  obtain e where e: "sector_request (superblock_sector (bffs_fs (as_sectors b))) (as_sectors b) =
      (if n < m then Some (of_nat n) else None, e)"
    "at_sector n m e" "sb_at e = sb_at b" "part_off e = part_off b"
    using at_sector_request [OF 0(1)] 0(2) by auto
  have "\<exists>c. alloc_b (upd_hnd h e) = (True, c) \<and> part_off c = part_off e"
    if "\<And>x. mem_fails (h x) = mem_fails x" for h
    using e(2) that by (simp add: alloc_b_def alloc_vol_def alloc_mem_def at_sector_def part_off_def
        upd_hnd_def upd_bfs_def upd_fs_def Let_def)
  note alloc = this
  show ?case
  proof (cases "n < m")
    case True
    then show ?thesis
      using 0(2,4,5) e alloc [of "\<lambda>h. h\<lparr>bsize := fs_bsize (sb_at b (of_nat n))\<rparr>"]
      by (subst sb_search.simps) (auto simp: as_sectors_def [symmetric] Let_def super_at_def)
  next
    case False
    then show ?thesis
      using 0(2,5) e by (subst sb_search.simps) (simp add: as_sectors_def [symmetric] Let_def)
  qed
next
  case (Suc d n b)
  then have n: "n < m" "\<not> super_at b n" by (force dest: Suc.prems(3) [of 0])+
  obtain e where e: "sector_request (superblock_sector (bffs_fs (as_sectors b))) (as_sectors b) = (Some (of_nat n), e)"
    "at_sector n m e" "sb_at e = sb_at b" "part_off e = part_off b"
    using at_sector_request [OF Suc.prems(1)] n by auto
  define e' where "e' = upd_hnd (\<lambda>h. h\<lparr>bsize := fs_bsize (sb_at b (of_nat n))\<rparr>) e"
  define e'' where "e'' = set_psectoffset (part_off e' + 1) e'"
  have "unat (psectmax (dev (bffs_fs b))) < 2 ^ 32" using unsigned_less [of "psectmax (dev (bffs_fs b))"] by simp
  then have "m < 2 ^ 32" using Suc.prems(1) by (simp add: at_sector_def Let_def)
  then have "unat (part_off e + 1) = Suc (unat (part_off e))"
    using e(2) n by (simp add: unat_word_ariths at_sector_def part_off_def Let_def)
  then have "at_sector (Suc n) m e''" "part_off e'' = part_off b + 1" "sb_at e'' = sb_at b"
    using e(2-4) by (simp_all add: at_sector_def e''_def e'_def set_psectoffset_def part_off_def upd_dev_def
        upd_hnd_def upd_bfs_def upd_fs_def Let_def superblock_sector_def dev_ok_def)
  note e'' = this
  have sup: "super_at e'' = super_at b" using e''(3) by (simp add: super_at_def fun_eq_iff)
  have "\<exists>c. sb_search (Suc (sb_jump ssector)) e'' = Some (Suc n + d < m, c) \<and> part_off c = part_off e'' + of_nat d"
    using Suc.prems(2,4,5) sup Suc.prems(3) [of "Suc _"]
    by (intro Suc.IH [OF e''(1)] sb_jump_low) simp_all
  moreover have "sb_search ssector b = sb_search (Suc (sb_jump ssector)) e''"
    using e n Suc.prems(5)
    by (subst sb_search.simps) (simp add: as_sectors_def [symmetric] Let_def super_at_def e'_def e''_def)
  ultimately show ?case by (simp add: e''(2) algebra_simps)
qed

end
