(* ===== verification/Handler_Properties.thy ===== *)
theory Handler_Properties
  imports Handler_Correct Mount_Correct Packet_Properties
begin

text \<open>
  What the handler process promises: the timer runs while something waits to be written, and
  without further packets it flushes everything soon; a volume without a name of its own gets one
  that no other device has; the search for a superblock covers the whole partition.
\<close>

section \<open>A sample handler\<close>

definition sample_bffs :: "fsys \<Rightarrow> bffs" where
  "sample_bffs s =
     \<lparr>vol = sample_volume s,
      env = \<lparr>de_SizeBlock = 128, de_Surfaces = 1, de_BlocksPerTrack = 16, de_LowCyl = 0, de_HighCyl = 63,
             de_Reserved = 2, de_PreAlloc = 0, de_Mask = -1, de_NumBuffers = 8\<rparr>,
      drive = \<lparr>dr_opens = True, dr_changestate = Some 0, dr_protstatus = 0\<rparr>,
      sectors = (\<lambda>_. replicate 512 0),
      sb_at = (\<lambda>a. if a = 316 then sample_sb else sample_sb\<lparr>fs_bsize := 0\<rparr>),
      heap = (\<lambda>_. 0), heap_sb = sample_sb, superblock_set = True, dev_openfail = 0, inhibited = 0,
      fs_partition = 0, no_Sun_label = False, no_BSD_label = False, env_setup = False,
      timing = False, write_items = 0, write_delay = 0, timer_loops = 12\<rparr>"

section \<open>The timer\<close>

text \<open>C16: in every state that the main loop reaches, with packets, expiring timers and disk
  changes in any order, the timer runs as long as frags wait to be written or the motor is on; a
  file system that is not open has nothing to be written, and it is not open while the handler is
  inhibited.\<close>

theorem timer_guards_dirty:
  assumes "loop_step\<^sup>*\<^sup>* (p, b) (q, c)" "mount_inv b" "timer_inv b"
  shows "(dirty_frags c \<noteq> 0 \<or> motor_runs c \<longrightarrow> timing c) \<and>
    (\<not> superblock_set c \<longrightarrow> dirty_frags c = 0) \<and> (inhibited c \<noteq> 0 \<longrightarrow> \<not> superblock_set c)"
proof -
  have "mount_inv (snd r) \<and> timer_inv (snd r)" if "loop_step\<^sup>*\<^sup>* (p, b) r" for r
    using that
  proof induction
    case base
    then show ?case using assms(2,3) by simp
  next
    case (step y z)
    from step.hyps(2) step.IH show ?case
      by cases (auto dest: loop_pass_inv)
  qed
  from this [OF assms(1)] show ?thesis by (auto simp: mount_inv_def timer_inv_def)
qed

definition idle_port :: port where
  "idle_port = \<lparr>queue = [], dos_signal = False, timer_signal = False, change_signal = False\<rparr>"

lemma timer_guards_dirty_witness:
  "\<exists>b q c. loop_step\<^sup>*\<^sup>* (idle_port, b) (q, c) \<and> \<not> timing b \<and> motor_runs c \<and> timing c"
proof -
  define s where "s = upd_sb (\<lambda>x. x\<lparr>fs_fmod := 1\<rparr>) (sample (\<lambda>_. replicate 512 0) sample_cg)"
  define b where "b = sample_bffs s"
  define p where "p = idle_port\<lparr>queue := [(27, RFlush)], dos_signal := True\<rparr>"
  have inv: "mount_inv b" "timer_inv b" "\<not> timing b" "receiving_packets (hnd (bffs_fs b))"
    by (simp_all add: mount_inv_def timer_inv_def b_def sample_bffs_def dirty_frags_def motor_runs_def
        sample_volume_def s_def upd_sb_def sample_def sample_hnd_def)
  have cg: "cg_flush_from n i k t = Some (k, t)" if "\<forall>j < i + n. \<not> cache_cg_state (cgc t) ! j" for n i k t
    using that by (induction n arbitrary: i) simp_all
  define t where "t = snd (superblock_flush (fs (arrive (vol b))))"
  have t: "motor_is_on (dev t)" "cache_item_dirty (fc t) = 0" "cgc t = cgc s"
    by (simp_all add: t_def arrive_def b_def sample_bffs_def sample_volume_def s_def upd_sb_def sample_def sample_hnd_def
        sample_sb_def superblock_flush_def write_sb_def write_csum_def write_request_def write_io_def do_io_def
        frag_ok_def sectoff_def lfragno_def superblock_sector_def csum_addr_def fs_updated_def stamp_sb_def
        set_Res1_def set_Res2_def upd_fs_def Let_def)
  have "\<forall>j < 0 + CACHE_CG_MAX. \<not> cache_cg_state (cgc s) ! j"
    by (simp add: s_def upd_sb_def sample_def)
  then have f: "cache_cg_flush t = Some (0, t)" "cache_flush t = Some (None, t)"
    using cg [of 0 CACHE_CG_MAX t] t by (simp_all add: cache_cg_flush_def cache_flush_def)
  define c where "c = after_packet (b\<lparr>vol := (arrive (vol b))\<lparr>fs := t\<rparr>\<rparr>)"
  have flush: "PFlush (arrive (vol b)) = Some ((), (arrive (vol b))\<lparr>fs := t\<rparr>)"
    using f by (simp add: PFlush_def on_fs_def t_def split_beta)
  have "packet_lookup 27 = Some (Flush, True)" by code_simp
  then have "serve (27, RFlush) b = Some ((), c)"
    using flush by (simp add: serve_def c_def flush_all_def in_vol_def b_def sample_bffs_def)
  then have c: "loop_pass (p, b) = Some (idle_port, c)" "motor_runs c"
    using t(1) by (simp_all add: loop_pass_def p_def idle_port_def NT_MESSAGE_def c_def after_packet_def
        motor_runs_def motor_on_def upd_dev_def upd_bfs_def upd_fs_def Let_def)
  have "loop_step (idle_port, b) (p, b)"
    using put_message [of idle_port b "(27, RFlush)"] by (simp add: p_def idle_port_def)
  moreover have "loop_step (p, b) (idle_port, c)"
    by (rule pass [OF inv(4) _ c(1)]) (simp add: p_def)
  ultimately have "loop_step\<^sup>*\<^sup>* (idle_port, b) (idle_port, c)" by simp
  then show ?thesis using timer_guards_dirty [of idle_port b idle_port c] inv c(2) by blast
qed

section \<open>Flushing when no packet arrives\<close>

definition timer_pass :: "bffs \<Rightarrow> bffs option" where
  "timer_pass b = map_option snd (loop_pass (idle_port\<lparr>timer_signal := True\<rparr>, b))"

definition at_rest :: "fsys \<Rightarrow> bffs \<Rightarrow> bool" where
  "at_rest s c \<longleftrightarrow> dirty_frags c = 0 \<and> \<not> timing c \<and> \<not> motor_runs c \<and>
     (\<forall>a. a \<noteq> 0 \<longrightarrow> disk (dev (bffs_fs c)) a = view s a) \<and>
     (\<forall>g < fs_ncg (sb s). disk_cg (dev (bffs_fs c)) (cgtod (sb s) g) = cg_view s g) \<and>
     (fs_fmod (sb s) \<noteq> 0 \<longrightarrow> disk_sb (dev (bffs_fs c)) = sb (bffs_fs c) \<and>
        disk_csp (dev (bffs_fs c)) = fs_csp (sb s) \<and> fs_time (sb (bffs_fs c)) = now (hnd s))"

lemma timer_pass_tick:
  "timer_pass b = map_option (\<lambda>(u, c). if \<not> timing c \<and> motor_runs c then motor_off c else c) (timer_tick b)"
  by (auto simp: timer_pass_def loop_pass_def idle_port_def split: option.splits bind_splits)

lemma flush_pass:
  assumes "superblock_set b" "mounted (bffs_fs b)" "cg_inv (bffs_fs b) E" "sb_places_ok (bffs_fs b)"
    and "\<not> (dirty_frags b > write_items b \<and> write_delay b > 0)"
  shows "\<exists>c. timer_pass b = Some c \<and> at_rest (bffs_fs b) c"
proof -
  let ?s = "bffs_fs b"
  obtain w where w: "PFlush (vol b) = Some ((), w)" "\<forall>a. a \<noteq> 0 \<longrightarrow> disk (dev (fs w)) a = view ?s a"
    "\<forall>g < fs_ncg (sb ?s). disk_cg (dev (fs w)) (cgtod (sb ?s) g) = cg_view ?s g"
    "fs_fmod (sb ?s) \<noteq> 0 \<longrightarrow> disk_sb (dev (fs w)) = sb (fs w) \<and>
       disk_csp (dev (fs w)) = fs_csp (sb ?s) \<and> fs_time (sb (fs w)) = now (hnd ?s)"
    using PFlush_syncs [OF assms(2-4)] by blast
  have f: "flush_all b = Some ((), b\<lparr>vol := w\<rparr>)" using w(1) assms(1) by (simp add: flush_all_def in_vol_def)
  have "dirty_frags (b\<lparr>vol := w\<rparr>) = 0"
    using w(1) by (auto simp: PFlush_def on_fs_def bind_eq_Some_conv dirty_frags_def Let_def split_beta flushed_clean)
  then show ?thesis
    using w(2-4) f assms(5)
    by (auto simp: timer_pass_tick timer_tick_def at_rest_def motor_off_def upd_dev_def upd_bfs_def upd_fs_def
        motor_runs_def dirty_frags_def)
qed

text \<open>C17: when no more packets arrive, everything is on the medium after at most two expirations
  of the timer: the contents of every frag and the block of every cylinder group, and, when it
  was changed, the superblock with the time of the flush and the summary of the groups. Then no
  frag waits to be written, and timer and motor stand still.\<close>

theorem idle_flush:
  assumes "superblock_set b" "mounted (bffs_fs b)" "cg_inv (bffs_fs b) E" "sb_places_ok (bffs_fs b)"
  shows "\<exists>c. timer_pass b = Some c \<and>
    (at_rest (bffs_fs b) c \<or> timing c \<and> (\<exists>d. timer_pass c = Some d \<and> at_rest (bffs_fs b) d))"
proof (cases "dirty_frags b > write_items b \<and> write_delay b > 0")
  case True
  let ?c = "b\<lparr>write_items := dirty_frags b, write_delay := write_delay b - 1, timing := True\<rparr>"
  have "timer_pass b = Some ?c" using True by (simp add: timer_pass_tick timer_tick_def)
  moreover have "\<exists>d. timer_pass ?c = Some d \<and> at_rest (bffs_fs ?c) d"
    by (rule flush_pass) (use assms in \<open>simp_all add: dirty_frags_def\<close>)
  ultimately show ?thesis by simp
next
  case False
  then show ?thesis using flush_pass [OF assms False] by blast
qed

lemma idle_flush_witness:
  "\<exists>s c. timer_pass (sample_bffs s) = Some c \<and> at_rest s c"
proof -
  define s where "s = opened (\<lambda>_. replicate 512 0) sample_cg"
  note o = opened_state [of "\<lambda>_. replicate 512 0", where g = sample_cg, folded s_def, simplified]
  have i: "cg_inv s []"
    using opened_cg_inv(1) [of "\<lambda>_. replicate 512 0" sample_cg] by (simp add: s_def sample_cg_def)
  obtain m where h: "hnd s = sample_hnd\<lparr>mem_count := m\<rparr>" using o(6) by blast
  have "sb_places_ok s"
    by (simp add: sb_places_ok_def o(3,5) h frag_ok_def sectoff_def lfragno_def superblock_sector_def
        csum_addr_def fs_updated_def sample_def sample_sb_def sample_hnd_def)
  moreover have f: "bffs_fs (sample_bffs s) = s" "superblock_set (sample_bffs s)"
    by (simp_all add: sample_bffs_def sample_volume_def)
  ultimately obtain c where c: "timer_pass (sample_bffs s) = Some c"
    "at_rest s c \<or> timing c \<and> (\<exists>d. timer_pass c = Some d \<and> at_rest s d)"
    using idle_flush [of "sample_bffs s" "[]", unfolded f(1)] o(1) i by auto
  moreover have "\<not> timing c"
    using c(1) by (auto simp: timer_pass_tick timer_tick_def sample_bffs_def motor_off_def upd_dev_def upd_bfs_def
        bind_eq_Some_conv split: if_splits)
  ultimately show ?thesis by blast
qed

section \<open>The name of the volume\<close>

text \<open>C38: the search for a name ends; a volume whose file system has no last mount point gets a
  name that no other device has.\<close>

theorem volume_name_free:
  assumes "length (dos_devices (vol b)) < 2 ^ 32"
  shows "\<exists>name. fsname b = Some name \<and>
    (superblock_set b \<and> (mount_name (sb (bffs_fs b)) = None \<or>
       mount_name (sb (bffs_fs b)) = Some []) \<longrightarrow>
     \<not> name_taken (dos_devices (vol b)) name)"
  using free_name_total [OF _ assms, of "[66, 70, 70, 83, 97 + ucast (fs_partition b)]"]
  by (auto simp: fsname_def split: option.splits list.splits)

definition sample_devices :: "dos_device list" where
  "sample_devices = [\<lparr>dl_Type = 0, dl_Name = [100, 102, 48], dl_Lock = None\<rparr>,
     \<lparr>dl_Type = 2, dl_Name = [98, 102, 102, 115, 97], dl_Lock = None\<rparr>]"

lemma volume_name_free_witness:
  "\<exists>b name. dos_devices (vol b) = sample_devices \<and> fsname b = Some name \<and>
     name_taken sample_devices [66, 70, 70, 83, 97] \<and> \<not> name_taken sample_devices name"
proof -
  define b where "b = (sample_bffs (sample (\<lambda>_. replicate 512 0) sample_cg))
    \<lparr>vol := (sample_volume (sample (\<lambda>_. replicate 512 0) sample_cg))\<lparr>dos_devices := sample_devices\<rparr>\<rparr>"
  have d: "dos_devices (vol b) = sample_devices" "superblock_set b" "sb (bffs_fs b) = sample_sb"
    by (simp_all add: b_def sample_bffs_def sample_volume_def sample_def)
  have n: "mount_name sample_sb = Some []" by code_simp
  have t: "name_taken sample_devices [66, 70, 70, 83, 97]" by code_simp
  have "length (dos_devices (vol b)) < 2 ^ 32" by (simp add: d sample_devices_def)
  from volume_name_free [OF this] show ?thesis using d n t by auto
qed

section \<open>The search for a superblock\<close>

text \<open>C37: the search for a superblock reads one sector after the other up to the first one with
  the block size of a file system, however far away it is, and fails only at the end of the
  partition: the counter never reaches its limit of 248 passes.\<close>

theorem superblock_search_scans:
  assumes "at_sector n m b" "n + d \<le> m" "\<And>k. k < d \<Longrightarrow> \<not> super_at b (n + k)"
    and "n + d < m \<Longrightarrow> super_at b (n + d)"
  shows "\<exists>c. sb_search 0 b = Some (n + d < m, c) \<and> part_off c = part_off b + of_nat d"
  using sb_search_scans [OF assms, of 0] by simp

lemma superblock_search_scans_witness:
  "\<exists>c. sb_search 0 (sample_bffs (sample (\<lambda>_. replicate 512 0) sample_cg)) = Some (True, c) \<and> part_off c = 300"
proof -
  let ?b = "sample_bffs (sample (\<lambda>_. replicate 512 0) sample_cg)"
  have "at_sector 16 1024 ?b"
    by (simp add: at_sector_def sample_bffs_def sample_volume_def sample_def sample_hnd_def dev_ok_def
        superblock_sector_def Let_def)
  moreover have "super_at ?b k = (k = 316)" if "k < 1024" for k
    using unat_of_nat32 [of k] that
    by (auto simp: super_at_def sample_bffs_def sample_sb_def good_bsize_def)
  ultimately show ?thesis
    using superblock_search_scans [of 16 1024 ?b 300]
    by (auto simp: part_off_def sample_bffs_def sample_volume_def sample_def)
qed

end
