(* ===== verification/Spec2Isabelle.thy ===== *)
theory Spec2Isabelle
  imports Cache_Properties Map_Properties Tree_Properties Alloc_Properties Dir_Properties
    Write_Properties Packet_Properties Handler_Properties
begin

text \<open>
  BFFS, the Berkeley fast file system for AmigaOS: a model of the file system handler under
  src/fs, which serves AmigaDOS packets from a BSD FFS partition.

  THE PROGRAM. Requests reach the disk through \<open>data_read\<close> and \<open>data_write\<close> (ufs.c). Above them
  sit two write-back caches in cache.c: the frag cache, nodes in a doubly linked LRU stack and
  in sixteen doubly linked hash chains, and the cylinder group cache, an array of at most
  fifteen buffers. The allocator (alloc.c) searches the free map of a cylinder group and keeps
  the counters of groups and file system. The inode layer (inode.c) finds inodes in the frags of
  a group, walks the tree of index blocks behind them, and allocates inode numbers. Files are
  extended and cut in file.c, read in fread.c and written in fwrite.c; directories are files of
  records (dir.c), and file.c resolves paths over them. The main loop (handler.c) waits for packets, for
  its timer and for changes of the disk; it opens the file system when a packet needs it (system.c,
  ufs.c: disk labels, search for the superblock, volume node) and finds the packet's routine in a
  table (table.c). The routines (packets.c) grant AmigaDOS locks and file handles (system.c) and
  call the layers below. A timer started by a packet flushes the caches and stops the motor.

  THE STATE is the record \<open>fsys\<close> of \<open>Bffs_State\<close>: the superblock \<open>sb\<close>, the device \<open>dev\<close> (its
  medium, limits and a function that says which transfers fail), the frag cache \<open>fc\<close>, the group
  cache \<open>cgc\<close> and the handler variables \<open>hnd\<close>. The record \<open>volume\<close> of \<open>Volume\<close> adds locks, file
  handles, the name of the volume and the primary result \<open>Res1\<close> of a packet; the record \<open>bffs\<close> of
  \<open>Mount\<close> adds the mount entry, the drive, the raw sectors and the variables of the main loop. An operation maps a state to \<open>Some (r, s)\<close>;
  \<open>None\<close> stands for undefined behaviour (a NULL pointer followed, an array left) and for a walk
  that never ends. \<open>wp m P\<close> is total correctness: \<open>m\<close> returns, with a result in \<open>P\<close>; so every
  property of the form \<open>wp\<close> includes that the code returns and does not crash. Machine
  integers are words of their width; a C pointer to a node is the number of the node; the
  fields of structs that live in frag buffers are accessed by their byte offsets, big-endian as
  on the 68k (\<open>Byte_Memory\<close>).

  THEORIES, with the code they translate.
    \<open>Bffs_Prelude\<close>, \<open>Byte_Memory\<close>, \<open>Bffs_State\<close>: types, bit macros (alloc.h), byte accesses, the
      structs and the address macros (fsmacros.h, ufs/fs.h).
    \<open>Block_Device\<close>: the transfers of ufs.c with range check, 64-bit and direct requests, retries.
    \<open>Medium\<close>: the medium as bytes, and that the addresses of the transfers are the places of their
      frags on it.
    \<open>Cache_Links\<close>: doubly linked lists; locale \<open>links\<close>, interpreted for the stack and the chains.
    \<open>Frag_Cache\<close>: every operation of the frag cache, on the pointer structure.
    \<open>Cache_Structure\<close>: the lists that the pointers stand for, and that the operations keep them.
    \<open>Cache_Correct\<close>, \<open>Cache_Interface\<close>: the invariant of the cache, the contents \<open>view s\<close> of the
      file system (the cached frag, or else the one on the medium), and contracts of the operations.
    \<open>Frag_Store\<close>: the interface of the frag cache as the locale \<open>frag_store\<close>, interpreted on the
      model of the cache; the layers above rest on its facts (\<open>cache.\<close>...).
    \<open>Cg_Cache\<close>, \<open>Cg_Correct\<close>: the group cache, with \<open>cg_view s c\<close>, the current block of a group.
    \<open>Free_Map\<close>: the pure searches of alloc.c and their correctness.
    \<open>Alloc\<close>, \<open>Alloc_Correct\<close>: counters, clusters, and the allocation of blocks and frags.
    \<open>Inode\<close>, \<open>Inum\<close>: inodes, index blocks, inode numbers (inode.c); \<open>Tree_Correct\<close>: the tree.
    \<open>File_Blocks\<close>, \<open>File_IO\<close>: file.c (blocks), fread.c, fwrite.c; \<open>Read_Correct\<close>: reading;
      \<open>Write_Correct\<close>: writing.
    \<open>Dir\<close>: dir.c; \<open>Dir_Correct\<close>: the records of a frag; \<open>Dir_State\<close>: the loops over the frags.
    \<open>Path\<close>: the path half of file.c.
    \<open>Unix_Time\<close>: unixtime.c. \<open>Superblock\<close>: the superblock in ufs.c.
    \<open>Volume\<close>: system.c (locks, closing files, paths of packets) and \<open>FreeLock\<close>.
    \<open>Packet_Info\<close>, \<open>Packets\<close>, \<open>Packet_Objects\<close>: packets.c; \<open>Dispatch\<close>: table.c.
    \<open>Packet_Steps\<close>: a packet as a step of the handler, and the locale \<open>packet_invariant\<close>: what the
      operations on locks and handles keep, every packet keeps; \<open>Lock_Invariants\<close> interprets it
      for the exclusion of locks and for the links between locks and file handles.
    \<open>Mount\<close>: open_device, disk labels and the search for a superblock (ufs.c), the volume node,
      open_filesystem and close_filesystem (system.c); \<open>Mount_Correct\<close>: the search, and free names.
    \<open>Handler_Loop\<close>: the packets that open and close, and the main loop with its timer (handler.c);
      \<open>Handler_Correct\<close>: what the parts of a pass keep.
    \<open>Sample\<close>: a small file system that the witnesses run on.
    \<open>Cache_Properties\<close>, \<open>Map_Properties\<close>, \<open>Alloc_Properties\<close>, \<open>Tree_Properties\<close>,
      \<open>Read_Properties\<close>, \<open>Write_Properties\<close>, \<open>Dir_Properties\<close>, \<open>Packet_Properties\<close>, \<open>Handler_Properties\<close>: the properties of the layers,
      each with its witness.

  WHAT IS SHOWN. The frag cache implements a map from frag addresses to bytes: sequences of
  changes through \<open>cache_frag_write\<close> change \<open>view\<close> like updates of a map, flushing writes
  exactly the dirty nodes in ascending order, whatever requests fail, and syncs a medium without
  faults, the search for a node to
  reuse ends, and two pointers may be held at once (but not three, which is why callers look a
  frag up again). The group cache returns and stores the block of a group in every state of its
  array. The map searches are sound, and complete where the code intends it. \<open>block_allocate\<close>
  returns a free block, never one twice, and \<open>block_deallocate\<close> restores the state. The tree of
  index blocks is a map from file frags to disk frags that \<open>ridisk_frag\<close> reads and \<open>cidisk_frag\<close>
  updates at one block whose index blocks exist. \<open>file_read\<close> returns the bytes of the file, from the cache or, for many
  frags in a row, from the medium, as long as no frag that is read in part is a hole, and \<open>file_write\<close> inside the present size of a file changes
  exactly the bytes of the range, so that a read returns what was written. A directory is a map from names to offsets and inode numbers, which
  \<open>dir_name_search\<close> reads and \<open>dir_create\<close>, where an existing frag has room, and \<open>dir_offset_delete\<close>
  update. Whatever packets of \<open>packet_step\<close> arrive, an exclusive lock is the only one on its inode; a flush makes frags, groups and superblock durable;
  protection bits and dates survive the conversions between Unix and AmigaDOS. In every reachable
  state of the main loop the timer runs while something waits to be written, and without further
  packets two expirations of the timer bring frags, groups and a changed superblock to the medium.
  The medium of frags is shown to be a medium of bytes seen through the addresses of the requests. The search for a superblock
  scans the whole partition; a volume without a name gets one that no other device has.

  BOUNDS AND LOOPS. Loops over arrays and lists are structural; walks over pointers or records
  that may not end are \<open>partial_function (option)\<close> or return \<open>None\<close> where the C loop stands still;
  there is no fuel. The hypotheses of the properties are the invariants of the state (\<open>mounted\<close>,
  \<open>cg_inv\<close>, \<open>maps_ok\<close>, \<open>dir_ok\<close>) and, in \<open>mounted\<close>, a device on which every transfer inside the
  partition succeeds; failing transfers are the subject of \<open>data_write_refused\<close> and
  \<open>bad_reads_empty_the_cache\<close>.

  NOT MODELLED. The exec calls behind a transfer, the answers of the drive and the list of the
  devices of the system are functions and fields of the state, as are the signals of the main loop;
  the timer and the disk change interrupt are assumed to open. Requesters and debug output, the
  texts of the status block, the options that show links and inode numbers as comments. Packet
  steps, over which the locks are shown exclusive, leave out examine packets that change the key of
  a lock on a symbolic link, and requests for invisible locks; both break the exclusion. The blocks
  of the groups, the superblock and the summary are fields of the device of their own, so that their
  addresses only enter the check of the range. Signed sums of dates wrap where C leaves them
  undefined. Properties do not cover the allocation of missing index blocks in \<open>cidisk_frag\<close> and
  \<open>widisk_frag\<close> and the growth of files and directories, which are modelled only. The
  tools beside the handler (fsck, newfs, dump, restore, rdb and others) are ports of BSD programs
  and command lines around operating system calls.
\<close>

end
